(* ===== verification/Prelude.thy ===== *)
theory Prelude
  imports Main "HOL-Library.List_Lexorder" "HOL-Library.Char_ord" "HOL-Library.AList"
begin

section \<open>Shared types, collections and generic lemmas\<close>

text \<open>
  What every component theory uses: the error type, first-occurrence deduplication (the
  \<open>seen\<close> maps of the Go code), sorted renderings of a Go map's keys, and two interfaces
  stated as locales. \<open>canonical_list\<close> is the contract of a routine that renders an
  unordered collection as a sorted list without duplicates; its clients are independent of the
  order in which Go walks a map. \<open>diff_sync\<close> is the contract of a reconciler that computes
  what to add and what to delete; its clients learn that applying the plan reaches the desired
  table, never drops an entry both sides share, and is empty exactly when both agree.
\<close>

named_theorems go_simps \<open>definitions of the modelled Go standard library\<close>
named_theorems trace_simps \<open>what an operation appends to the history of calls\<close>

subsection \<open>Errors\<close>

text \<open>A Go \<open>error\<close> value that the agent only logs or wraps: its text is kept.\<close>

datatype err = Err string

type_synonym 'a result = "err + 'a"

definition failed :: "err option \<Rightarrow> bool" where
  "failed e \<longleftrightarrow> e \<noteq> None"

lemma failed_simps [simp]: "\<not> failed None" "failed (Some e)"
  by (simp_all add: failed_def)

subsection \<open>First-occurrence deduplication\<close>

fun uniq_by :: "('a \<Rightarrow> 'k) \<Rightarrow> 'k list \<Rightarrow> 'a list \<Rightarrow> 'a list" where
  "uniq_by f seen [] = []"
| "uniq_by f seen (x # xs) =
     (if f x \<in> set seen then uniq_by f seen xs else x # uniq_by f (f x # seen) xs)"

lemma key_set_uniq_by: "f ` set (uniq_by f seen xs) = f ` set xs - set seen"
  by (induction xs arbitrary: seen) auto

lemma set_uniq_by_subset: "set (uniq_by f seen xs) \<subseteq> set xs"
  by (induction xs arbitrary: seen) auto

lemma distinct_map_uniq_by: "distinct (map f (uniq_by f seen xs))"
proof (induction xs arbitrary: seen)
  case Nil
  then show ?case by simp
next
  case (Cons x xs)
  have "f x \<notin> f ` set (uniq_by f (f x # seen) xs)"
    by (simp add: key_set_uniq_by)
  with Cons show ?case by simp
qed

lemma set_uniq_by_id: "set (uniq_by (\<lambda>x. x) seen xs) = set xs - set seen"
  using key_set_uniq_by [of "\<lambda>x. x" seen xs] by simp

lemma distinct_uniq_by_id: "distinct (uniq_by (\<lambda>x. x) seen xs)"
  using distinct_map_uniq_by [of "\<lambda>x. x" seen xs] by simp

lemma uniq_by_fresh:
  "distinct (map f xs) \<Longrightarrow> f ` set xs \<inter> set seen = {} \<Longrightarrow> uniq_by f seen xs = xs"
  by (induction xs arbitrary: seen) auto

subsection \<open>Loops that accumulate\<close>

text \<open>
  A Go \<open>for range\<close> loop is a \<open>foldl\<close>. The three lemmas read off what such a loop computes
  from what one pass of its body does: an invariant it keeps, the elements it adds to a set
  seen through \<open>g\<close>, the elements it appends to a list seen through \<open>g\<close>.
\<close>

lemma foldl_invariant:
  "P a \<Longrightarrow> (\<And>a x. x \<in> set xs \<Longrightarrow> P a \<Longrightarrow> P (f a x)) \<Longrightarrow> P (foldl f a xs)"
  by (induction xs arbitrary: a) auto

lemma foldl_collect:
  "(\<And>a x. x \<in> set xs \<Longrightarrow> g (f a x) = g a \<union> h x) \<Longrightarrow> g (foldl f a xs) = g a \<union> (\<Union>x\<in>set xs. h x)"
  by (induction xs arbitrary: a) (auto simp: Un_assoc)

lemma foldl_concat:
  "(\<And>a x. x \<in> set xs \<Longrightarrow> g (f a x) = g a @ h x) \<Longrightarrow> g (foldl f a xs) = g a @ concat (map h xs)"
  by (induction xs arbitrary: a) auto

lemma foldl_same:
  "(\<And>a x. x \<in> set xs \<Longrightarrow> g (f a x) = g a) \<Longrightarrow> g (foldl f a xs) = g a"
  by (induction xs arbitrary: a) auto

lemma map_of_rev_SomeD:
  "map_of (rev xs) k = Some v \<Longrightarrow> (k, v) \<in> set xs"
  by (drule map_of_SomeD) simp

lemma fst_set_update [simp]: "fst ` set (AList.update k v xs) = insert k (fst ` set xs)"
  using dom_update [of k v xs] by (simp add: dom_map_of_conv_image_fst)

lemma distinct_keys_update [simp]:
  "distinct (map fst xs) \<Longrightarrow> distinct (map fst (AList.update k v xs))"
  by (rule distinct_update)

lemma map_of_update [simp]: "map_of (AList.update k v xs) = (map_of xs)(k \<mapsto> v)"
  by (simp add: update_conv')

subsection \<open>Sorted lists of the same elements are equal\<close>

lemma sorted_distinct_eqI:
  fixes xs ys :: "'a::linorder list"
  assumes "sorted xs" "distinct xs" "sorted ys" "distinct ys" "set xs = set ys"
  shows "xs = ys"
  using assms by (rule sorted_distinct_set_unique)

lemma sort_distinct_set_cong:
  fixes xs ys :: "'a::linorder list"
  shows "distinct xs \<Longrightarrow> distinct ys \<Longrightarrow> set xs = set ys \<Longrightarrow> sort xs = sort ys"
  by (rule sorted_distinct_eqI) simp_all

locale canonical_list =
  fixes render :: "'a \<Rightarrow> 'b::linorder list"
    and view :: "'a \<Rightarrow> 'b set"
  assumes render_set: "set (render x) = view x"
    and render_sorted: "sorted (render x)"
    and render_distinct: "distinct (render x)"
begin

lemma render_cong: "view x = view y \<Longrightarrow> render x = render y"
  by (rule sorted_distinct_eqI) (simp_all add: render_set render_sorted render_distinct)

lemma render_eq_iff: "render x = render y \<longleftrightarrow> view x = view y"
  using render_cong render_set by metis

lemma render_Nil_iff: "render x = [] \<longleftrightarrow> view x = {}"
  using render_set [of x] by auto

lemma render_length: "length (render x) = card (view x)"
  using distinct_card [OF render_distinct [of x]] by (simp add: render_set)

end

subsection \<open>Reconciling a table by its difference\<close>

text \<open>
  One step of a plan writes a key or deletes one. Writing a key that is present replaces its
  value in place.
\<close>

datatype ('k, 'v) plan_step = Put 'k 'v | Drop 'k

fun run_step :: "('k \<rightharpoonup> 'v) \<Rightarrow> ('k, 'v) plan_step \<Rightarrow> ('k \<rightharpoonup> 'v)" where
  "run_step m (Put k v) = m(k \<mapsto> v)"
| "run_step m (Drop k) = m(k := None)"

definition run_plan :: "('k \<rightharpoonup> 'v) \<Rightarrow> ('k, 'v) plan_step list \<Rightarrow> ('k \<rightharpoonup> 'v)" where
  "run_plan = foldl run_step"

lemma run_plan_Nil [simp]: "run_plan m [] = m"
  by (simp add: run_plan_def)

lemma run_plan_append [simp]: "run_plan m (p @ q) = run_plan (run_plan m p) q"
  by (simp add: run_plan_def)

lemma run_plan_Cons [simp]: "run_plan m (s # p) = run_plan (run_step m s) p"
  by (simp add: run_plan_def)

lemma run_plan_puts:
  "distinct (map f xs) \<Longrightarrow>
   run_plan m (map (\<lambda>x. Put (f x) (g x)) xs) k =
     (case map_of (map (\<lambda>x. (f x, g x)) xs) k of None \<Rightarrow> m k | Some v \<Rightarrow> Some v)"
proof (induction xs arbitrary: m)
  case (Cons x xs)
  have "map_of (map (\<lambda>x. (f x, g x)) xs) (f x) = None" using Cons.prems by (auto simp: map_of_eq_None_iff)
  then show ?case using Cons by (auto split: option.splits)
qed simp

lemma run_plan_puts_dom:
  "dom m \<subseteq> dom (run_plan m (map (\<lambda>x. Put (f x) (g x)) xs))"
proof (induction xs arbitrary: m)
  case (Cons x xs)
  have "dom m \<subseteq> dom (m(f x \<mapsto> g x))" by auto
  also have "\<dots> \<subseteq> dom (run_plan (m(f x \<mapsto> g x)) (map (\<lambda>x. Put (f x) (g x)) xs))" by (rule Cons.IH)
  finally show ?case by simp
qed simp

lemma run_plan_drops:
  "run_plan m (map Drop ks) k = (if k \<in> set ks then None else m k)"
  by (induction ks arbitrary: m) auto

locale diff_sync =
  fixes key :: "'d \<Rightarrow> 'k" and val :: "'d \<Rightarrow> 'v"
    and adds :: "('k \<times> 'v) list \<Rightarrow> 'd list \<Rightarrow> 'd list"
    and dels :: "('k \<times> 'v) list \<Rightarrow> 'd list \<Rightarrow> 'k list"
  assumes adds_set: "set (adds cur des) = {d \<in> set des. map_of cur (key d) \<noteq> Some (val d)}"
    and adds_distinct: "distinct (map key des) \<Longrightarrow> distinct (map key (adds cur des))"
    and dels_set: "set (dels cur des) = fst ` set cur - key ` set des"
begin

text \<open>The table the desired entries describe.\<close>

definition table :: "'d list \<Rightarrow> ('k \<rightharpoonup> 'v)" where
  "table des = map_of (map (\<lambda>d. (key d, val d)) des)"

lemma table_Some:
  "distinct (map key des) \<Longrightarrow> table des k = Some v \<longleftrightarrow> (\<exists>d \<in> set des. key d = k \<and> val d = v)"
  by (subst table_def, subst map_of_eq_Some_iff) (auto simp: comp_def)

lemma table_None: "table des k = None \<longleftrightarrow> k \<notin> key ` set des"
  by (auto simp: table_def map_of_eq_None_iff image_image)

lemma table_adds:
  assumes "distinct (map key des)"
  shows "table (adds cur des) k =
    (case table des k of None \<Rightarrow> None | Some v \<Rightarrow> if map_of cur k = Some v then None else Some v)"
proof (cases "table des k")
  case None
  then have "k \<notin> key ` set (adds cur des)" by (auto simp: table_None adds_set)
  then have "table (adds cur des) k = None" by (simp add: table_None)
  with None show ?thesis by simp
next
  case (Some v)
  then obtain d where d: "d \<in> set des" "key d = k" "val d = v" using table_Some [OF assms] by blast
  have uniq: "d' = d" if "d' \<in> set des" "key d' = k" for d'
  proof -
    have "inj_on key (set des)" using assms by (simp add: distinct_map)
    then show ?thesis by (rule inj_onD) (use that d(1,2) in simp_all)
  qed
  show ?thesis
  proof (cases "map_of cur k = Some v")
    case True
    have "k \<notin> key ` set (adds cur des)"
    proof
      assume "k \<in> key ` set (adds cur des)"
      then obtain d' where "d' \<in> set des" "key d' = k" "map_of cur (key d') \<noteq> Some (val d')" by (auto simp: adds_set)
      moreover from this uniq have "d' = d" by blast
      ultimately show False using True d(2,3) by simp
    qed
    then have "table (adds cur des) k = None" by (simp add: table_None)
    then show ?thesis using Some True by simp
  next
    case False
    then have "d \<in> set (adds cur des)" using d by (simp add: adds_set)
    then have "table (adds cur des) k = Some v" using table_Some [OF adds_distinct [OF assms]] d by blast
    then show ?thesis using Some False by simp
  qed
qed

definition plan :: "('k \<times> 'v) list \<Rightarrow> 'd list \<Rightarrow> ('k, 'v) plan_step list" where
  "plan cur des = map (\<lambda>d. Put (key d) (val d)) (adds cur des) @ map Drop (dels cur des)"

lemma plan_reaches:
  assumes "distinct (map key des)"
  shows "run_plan (map_of cur) (plan cur des) = table des"
proof
  fix k
  have puts: "run_plan (map_of cur) (map (\<lambda>d. Put (key d) (val d)) (adds cur des)) k =
      (case table (adds cur des) k of None \<Rightarrow> map_of cur k | Some v \<Rightarrow> Some v)"
    unfolding table_def by (rule run_plan_puts [OF adds_distinct [OF assms]])
  show "run_plan (map_of cur) (plan cur des) k = table des k"
  proof (cases "k \<in> set (dels cur des)")
    case True
    then have "table des k = None" by (simp add: dels_set table_None)
    with True show ?thesis by (simp add: plan_def run_plan_drops)
  next
    case False
    then have "table des k = None \<Longrightarrow> map_of cur k = None"
      by (simp add: dels_set table_None map_of_eq_None_iff)
    with False puts show ?thesis
      by (auto simp: plan_def run_plan_drops table_adds [OF assms] split: option.splits)
  qed
qed

lemma plan_empty_iff:
  assumes "distinct (map key des)"
  shows "plan cur des = [] \<longleftrightarrow> map_of cur = table des"
proof
  assume "plan cur des = []"
  then show "map_of cur = table des" using plan_reaches [OF assms, of cur] by simp
next
  assume eq: "map_of cur = table des"
  have "map_of cur (key d) = Some (val d)" if "d \<in> set des" for d
    unfolding eq using table_Some [OF assms] that by blast
  then have "set (adds cur des) = {}" by (auto simp: adds_set)
  moreover have "k \<notin> fst ` set cur" if "k \<notin> key ` set des" for k
    using that eq by (simp add: table_None [symmetric] map_of_eq_None_iff [symmetric])
  then have "set (dels cur des) = {}" by (auto simp: dels_set)
  ultimately show "plan cur des = []" by (simp add: plan_def)
qed

text \<open>
  The plan writes before it deletes and deletes only what is unwanted, so a key both tables
  hold is present after every prefix of the plan.
\<close>

lemma plan_prefix_keeps:
  assumes "k \<in> fst ` set cur" and "k \<in> key ` set des"
  shows "run_plan (map_of cur) (take n (plan cur des)) k \<noteq> None"
proof -
  let ?put = "\<lambda>d. Put (key d) (val d)"
  have kc: "k \<in> dom (map_of cur)" using assms(1) by (simp add: dom_map_of_conv_image_fst)
  have puts: "k \<in> dom (run_plan (map_of cur) (map ?put xs))" for xs
    using run_plan_puts_dom [of "map_of cur" key val xs] kc by blast
  have "k \<notin> set (take m (dels cur des))" for m
    using assms(2) set_take_subset [of m "dels cur des"] by (auto simp: dels_set)
  then show ?thesis
    using puts [of "adds cur des"] puts [of "take n (adds cur des)"] by (auto simp: plan_def take_map run_plan_drops)
qed

end

end
