(* ===== verification/GoStrings.thy ===== *)
theory GoStrings
  imports Prelude
begin

section \<open>The parts of Go's \<open>strings\<close> and \<open>strconv\<close> the agent uses\<close>

text \<open>
  A Go string is a sequence of bytes and so is \<^typ>\<open>string\<close>. Case folding and white space are
  those of ASCII: the strings the agent folds or splits (hostnames, MAC addresses, command
  output) are ASCII, and bytes from 128 up are left as they are.
\<close>

definition HasPrefix :: "string \<Rightarrow> string \<Rightarrow> bool" where
  "HasPrefix s p \<longleftrightarrow> take (length p) s = p"

definition HasSuffix :: "string \<Rightarrow> string \<Rightarrow> bool" where
  "HasSuffix s p \<longleftrightarrow> length p \<le> length s \<and> drop (length s - length p) s = p"

definition TrimPrefix :: "string \<Rightarrow> string \<Rightarrow> string" where
  "TrimPrefix s p = (if HasPrefix s p then drop (length p) s else s)"

definition TrimSuffix :: "string \<Rightarrow> string \<Rightarrow> string" where
  "TrimSuffix s p = (if HasSuffix s p then take (length s - length p) s else s)"

definition CutPrefix :: "string \<Rightarrow> string \<Rightarrow> string option" where
  "CutPrefix s p = (if HasPrefix s p then Some (drop (length p) s) else None)"

definition CutSuffix :: "string \<Rightarrow> string \<Rightarrow> string option" where
  "CutSuffix s p = (if HasSuffix s p then Some (take (length s - length p) s) else None)"

text \<open>\<open>Cut\<close> splits around the first occurrence of the separator.\<close>

fun Cut :: "string \<Rightarrow> string \<Rightarrow> (string \<times> string) option" where
  "Cut [] sep = (if sep = [] then Some ([], []) else None)"
| "Cut (c # s) sep =
     (if HasPrefix (c # s) sep then Some ([], drop (length sep) (c # s))
      else map_option (\<lambda>(a, b). (c # a, b)) (Cut s sep))"

definition Contains :: "string \<Rightarrow> string \<Rightarrow> bool" where
  "Contains s sub \<longleftrightarrow> Cut s sub \<noteq> None"

text \<open>\<open>strings.Split\<close> for a one-byte separator; never the empty list.\<close>

fun Split :: "string \<Rightarrow> char \<Rightarrow> string list" where
  "Split [] sep = [[]]"
| "Split (c # s) sep =
     (if c = sep then [] # Split s sep
      else (case Split s sep of [] \<Rightarrow> [[c]] | x # xs \<Rightarrow> (c # x) # xs))"

text \<open>\<open>strings.Lines\<close>: each line with its newline; the last one may lack it.\<close>

fun Lines :: "string \<Rightarrow> string list" where
  "Lines [] = []"
| "Lines (c # s) =
     (if c = CHR 0x0A then [c] # Lines s
      else (case Lines s of [] \<Rightarrow> [[c]] | l # ls \<Rightarrow> (c # l) # ls))"

text \<open>\<open>strings.FieldsFunc\<close>: the maximal runs of bytes that are not separators.\<close>

fun FieldsFunc :: "(char \<Rightarrow> bool) \<Rightarrow> string \<Rightarrow> string \<Rightarrow> string list" where
  "FieldsFunc sep acc [] = (if acc = [] then [] else [rev acc])"
| "FieldsFunc sep acc (c # s) =
     (if sep c then (if acc = [] then FieldsFunc sep [] s else rev acc # FieldsFunc sep [] s)
      else FieldsFunc sep (c # acc) s)"

definition IsSpace :: "char \<Rightarrow> bool" where
  "IsSpace c \<longleftrightarrow> c \<in> {CHR '' '', CHR 0x09, CHR 0x0A, CHR 0x0B, CHR 0x0C, CHR 0x0D}"

definition Fields :: "string \<Rightarrow> string list" where
  "Fields s = FieldsFunc IsSpace [] s"

definition TrimSpace :: "string \<Rightarrow> string" where
  "TrimSpace s = rev (dropWhile IsSpace (rev (dropWhile IsSpace s)))"

definition TrimByte :: "char \<Rightarrow> string \<Rightarrow> string" where
  "TrimByte c s = rev (dropWhile (\<lambda>x. x = c) (rev (dropWhile (\<lambda>x. x = c) s)))"

text \<open>ASCII lower case.\<close>

definition upper_letters :: string where
  "upper_letters = ''ABCDEFGHIJKLMNOPQRSTUVWXYZ''"

definition lower_letters :: string where
  "lower_letters = ''abcdefghijklmnopqrstuvwxyz''"

definition lower_char :: "char \<Rightarrow> char" where
  "lower_char c = (case map_of (zip upper_letters lower_letters) c of None \<Rightarrow> c | Some d \<Rightarrow> d)"

definition ToLower :: "string \<Rightarrow> string" where
  "ToLower = map lower_char"

definition EqualFold :: "string \<Rightarrow> string \<Rightarrow> bool" where
  "EqualFold a b \<longleftrightarrow> ToLower a = ToLower b"

fun Join :: "string list \<Rightarrow> string \<Rightarrow> string" where
  "Join [] sep = []"
| "Join [x] sep = x"
| "Join (x # y # xs) sep = x @ sep @ Join (y # xs) sep"

text \<open>Decimal printing and parsing; \<open>strconv.Atoi\<close> is limited to 64 bits.\<close>

definition digit_char :: "nat \<Rightarrow> char" where
  "digit_char n = ''0123456789'' ! n"

fun show_nat :: "nat \<Rightarrow> string" where
  "show_nat n = (if n < 10 then [digit_char n] else show_nat (n div 10) @ [digit_char (n mod 10)])"

declare show_nat.simps [simp del]

definition Itoa :: "int \<Rightarrow> string" where
  "Itoa i = (if i < 0 then CHR ''-'' # show_nat (nat (- i)) else show_nat (nat i))"

definition is_digit :: "char \<Rightarrow> bool" where
  "is_digit c \<longleftrightarrow> 48 \<le> (of_char c :: nat) \<and> (of_char c :: nat) \<le> 57"

definition digit_val :: "char \<Rightarrow> nat" where
  "digit_val c = (of_char c :: nat) - 48"

definition parse_nat :: "string \<Rightarrow> nat option" where
  "parse_nat s = (if s \<noteq> [] \<and> list_all is_digit s
                  then Some (foldl (\<lambda>a c. 10 * a + digit_val c) 0 s) else None)"

definition Atoi :: "string \<Rightarrow> int option" where
  "Atoi s =
    (let neg = HasPrefix s ''-'';
         t = (if HasPrefix s ''-'' \<or> HasPrefix s ''+'' then tl s else s)
     in case parse_nat t of
          None \<Rightarrow> None
        | Some n \<Rightarrow> if neg then (if n \<le> 2 ^ 63 then Some (- int n) else None)
                   else (if n < 2 ^ 63 then Some (int n) else None))"

subsection \<open>Lemmas\<close>

lemma HasPrefix_iff: "HasPrefix s p \<longleftrightarrow> (\<exists>t. s = p @ t)"
  unfolding HasPrefix_def by (metis append_eq_conv_conj append_take_drop_id)

lemma HasPrefix_append [simp]: "HasPrefix (p @ t) p"
  by (simp add: HasPrefix_def)

lemma HasSuffix_append [simp]: "HasSuffix (t @ p) p"
  by (simp add: HasSuffix_def)

lemma HasSuffix_iff: "HasSuffix s p \<longleftrightarrow> (\<exists>t. s = t @ p)"
proof
  assume "HasSuffix s p"
  then have "s = take (length s - length p) s @ p"
    unfolding HasSuffix_def by (metis append_take_drop_id)
  then show "\<exists>t. s = t @ p" by blast
qed auto

lemma TrimPrefix_append [simp]: "TrimPrefix (p @ t) p = t"
  by (simp add: TrimPrefix_def)

lemma TrimSuffix_append [simp]: "TrimSuffix (t @ p) p = t"
  by (simp add: TrimSuffix_def)

lemma CutSuffix_append [simp]: "CutSuffix (t @ p) p = Some t"
  by (simp add: CutSuffix_def)

lemma CutSuffix_Some: "CutSuffix s p = Some t \<Longrightarrow> s = t @ p"
  by (auto simp: CutSuffix_def HasSuffix_iff split: if_splits)

lemma CutSuffix_None: "CutSuffix s p = None \<longleftrightarrow> \<not> HasSuffix s p"
  by (simp add: CutSuffix_def)

lemma Split_nonempty [simp]: "Split s c \<noteq> []"
  by (induction s) (auto split: list.splits)

lemma Split_no_sep: "c \<notin> set s \<Longrightarrow> Split s c = [s]"
  by (induction s) auto

lemma Split_append: "c \<notin> set s \<Longrightarrow> Split (s @ c # t) c = s # Split t c"
  by (induction s) auto

lemma Lines_append: "CHR 0x0A \<notin> set s \<Longrightarrow> Lines (s @ CHR 0x0A # t) = (s @ [CHR 0x0A]) # Lines t"
  by (induction s) auto

lemma TrimSpace_solid:
  assumes "s \<noteq> []" "\<not> IsSpace (hd s)" "\<not> IsSpace (last s)" "list_all IsSpace a" "list_all IsSpace b"
  shows "TrimSpace (a @ s @ b) = s"
proof -
  have a: "dropWhile IsSpace (a @ s @ b) = s @ b"
    using assms by (cases s) (simp_all add: dropWhile_append2 list_all_iff)
  have "dropWhile IsSpace (rev b @ rev s) = dropWhile IsSpace (rev s)"
    by (rule dropWhile_append2) (use assms(5) in \<open>simp add: list_all_iff\<close>)
  also have "\<dots> = rev s" using assms(1,3) by (cases "rev s") (auto simp: last_rev hd_rev [symmetric])
  finally show ?thesis by (simp add: TrimSpace_def a)
qed

lemma rev_dropWhile_decomp: "\<exists>t. xs = rev (dropWhile P (rev xs)) @ t"
  by (metis rev_append rev_rev_ident takeWhile_dropWhile_id)

lemma TrimSpace_idem [simp]: "TrimSpace (TrimSpace s) = TrimSpace s"
proof -
  define t where "t = dropWhile IsSpace s"
  define r where "r = rev (dropWhile IsSpace (rev t))"
  have r: "TrimSpace s = r" by (simp add: TrimSpace_def r_def t_def)
  have t_hd: "t = [] \<or> \<not> IsSpace (hd t)" by (metis hd_dropWhile t_def)
  have "dropWhile IsSpace r = r"
  proof (cases "r = []")
    case False
    obtain u where u: "t = r @ u" using rev_dropWhile_decomp [of t IsSpace] by (auto simp: r_def)
    with False have "hd t = hd r" "t \<noteq> []" by simp_all
    with t_hd have "\<not> IsSpace (hd r)" by simp
    with False show ?thesis by (cases r) simp_all
  qed simp
  moreover have "dropWhile IsSpace (rev r) = rev r" by (simp add: r_def dropWhile_idem)
  ultimately show ?thesis by (simp add: TrimSpace_def [of r] r)
qed

lemma lower_char_idem [simp]: "lower_char (lower_char c) = lower_char c"
proof (cases "map_of (zip upper_letters lower_letters) c")
  case None
  then show ?thesis by (simp add: lower_char_def)
next
  case (Some d)
  then have "d \<in> set lower_letters" by (meson map_of_SomeD set_zip_rightD)
  moreover have "set lower_letters \<inter> set upper_letters = {}"
    by (simp add: lower_letters_def upper_letters_def)
  ultimately have "d \<notin> set upper_letters" by blast
  then have "map_of (zip upper_letters lower_letters) d = None"
    by (metis map_of_SomeD not_Some_eq set_zip_leftD)
  with Some show ?thesis by (simp add: lower_char_def)
qed

lemma ToLower_idem [simp]: "ToLower (ToLower s) = ToLower s"
  by (simp add: ToLower_def)

lemma EqualFold_refl [simp]: "EqualFold a a"
  by (simp add: EqualFold_def)

lemma EqualFold_sym: "EqualFold a b \<longleftrightarrow> EqualFold b a"
  by (auto simp: EqualFold_def)

lemma EqualFold_trans: "EqualFold a b \<Longrightarrow> EqualFold b c \<Longrightarrow> EqualFold a c"
  by (simp add: EqualFold_def)

lemma Join_eq_Nil_iff: "[] \<notin> set xs \<Longrightarrow> Join xs sep = [] \<longleftrightarrow> xs = []"
  by (induction xs sep rule: Join.induct) auto

subsection \<open>Decimal numbers\<close>

lemma of_char_digit: "d < 10 \<Longrightarrow> (of_char (digit_char d) :: nat) = d + 48"
proof -
  assume "d < 10"
  then have "d \<in> {0, 1, 2, 3, 4, 5, 6, 7, 8, 9}" by (simp add: eval_nat_numeral less_Suc_eq)
  then show ?thesis by (elim insertE) (simp_all add: digit_char_def)
qed

lemma digit_val_digit_char [simp]: "d < 10 \<Longrightarrow> digit_val (digit_char d) = d"
  by (simp add: digit_val_def of_char_digit)

lemma is_digit_digit_char [simp]: "d < 10 \<Longrightarrow> is_digit (digit_char d)"
  by (simp add: is_digit_def of_char_digit)

lemma show_nat_digits: "list_all is_digit (show_nat n)"
proof (induction n rule: show_nat.induct)
  case (1 n)
  then show ?case by (subst show_nat.simps) auto
qed

lemma show_nat_nonempty [simp]: "show_nat n \<noteq> []"
  by (subst show_nat.simps) simp

lemma foldl_show_nat: "foldl (\<lambda>a c. 10 * a + digit_val c) 0 (show_nat n) = n"
proof (induction n rule: show_nat.induct)
  case (1 n)
  then show ?case by (subst show_nat.simps) simp
qed

lemma parse_show_nat [simp]: "parse_nat (show_nat n) = Some n"
  by (simp add: parse_nat_def show_nat_digits foldl_show_nat)

lemma show_nat_inj: "show_nat m = show_nat n \<longleftrightarrow> m = n"
  by (metis option.inject parse_show_nat)

lemma show_nat_no_char: "\<not> is_digit c \<Longrightarrow> c \<notin> set (show_nat n)"
  using show_nat_digits [of n] by (auto simp: list_all_iff)

lemma hd_show_nat: "0 < n \<Longrightarrow> hd (show_nat n) \<noteq> CHR ''0''"
proof (induction n rule: show_nat.induct)
  case (1 n)
  show ?case
  proof (cases "n < 10")
    case True
    have "digit_char n \<noteq> CHR ''0''"
    proof
      assume "digit_char n = CHR ''0''"
      then have "digit_val (digit_char n) = 0" by (simp add: digit_val_def)
      with True 1 show False by simp
    qed
    with True show ?thesis by (subst show_nat.simps) simp
  next
    case False
    with 1 show ?thesis by (subst show_nat.simps) simp
  qed
qed

lemma length_show_nat_pos: "10 \<le> n \<Longrightarrow> 2 \<le> length (show_nat n)"
  by (subst show_nat.simps) (simp add: Suc_le_eq)

lemma Itoa_inj: "Itoa i = Itoa j \<longleftrightarrow> i = j"
proof -
  have "\<not> is_digit CHR ''-''" by (simp add: is_digit_def)
  then have "CHR ''-'' \<notin> set (show_nat n)" for n by (rule show_nat_no_char)
  then have ne: "CHR ''-'' # a \<noteq> show_nat n" for a n by (metis list.set_intros(1))
  show ?thesis by (auto simp: Itoa_def show_nat_inj ne ne [symmetric])
qed

end
