(* ===== verification/GoNet.thy ===== *)
theory GoNet
  imports GoStrings "HOL-Library.Word"
begin

unbundle bit_operations_syntax

section \<open>The parts of Go's \<open>net\<close> package the agent uses\<close>

text \<open>
  A \<open>net.IP\<close> is kept in its 16-byte form, a 128-bit word; an IPv4 address is the IPv4-mapped
  address \<open>::ffff:a.b.c.d\<close>, which is what \<open>net.ParseIP\<close> returns, and \<open>To4\<close> recognises it.
  A \<open>net.IPNet\<close> is a network number with the length of its mask; its two constructors are
  the 4-byte and the 16-byte form. \<open>ParseIP\<close>, \<open>ParseCIDR\<close>, \<open>IP.String\<close>,
  \<open>IPNet.Contains\<close> and \<open>IPNet.String\<close> follow the library's algorithms, IPv6 with an
  embedded IPv4 tail and a compressed run of zeros included. An address with a zone is
  rejected, as both parsers do.
\<close>

type_synonym netip = "128 word"

datatype netaddr = A4 "32 word" | A6 netip

datatype ipnet = Net4 "32 word" nat | Net6 netip nat

definition mapped4 :: "32 word \<Rightarrow> netip" where
  "mapped4 w = push_bit 32 (mask 16) OR ucast w"

definition To4 :: "netip \<Rightarrow> 32 word option" where
  "To4 ip = (if drop_bit 32 ip = mask 16 then Some (ucast ip) else None)"

fun as16 :: "netaddr \<Rightarrow> netip" where
  "as16 (A4 w) = mapped4 w"
| "as16 (A6 ip) = ip"

lemma To4_mapped4 [simp]: "To4 (mapped4 w) = Some w"
proof -
  have "drop_bit 32 (mapped4 w) = mask 16"
    by (rule bit_word_eqI) (auto simp: mapped4_def bit_simps dest: bit_imp_le_length)
  moreover have "ucast (mapped4 w) = w"
    by (rule bit_word_eqI) (auto simp: mapped4_def bit_simps)
  ultimately show ?thesis by (simp add: To4_def)
qed

subsection \<open>Parsing addresses\<close>

definition v4_octet :: "string \<Rightarrow> nat option" where
  "v4_octet s =
     (case parse_nat s of
        None \<Rightarrow> None
      | Some n \<Rightarrow> if (1 < length s \<and> hd s = CHR ''0'') \<or> 255 < n then None else Some n)"

definition parseV4 :: "string \<Rightarrow> 32 word option" where
  "parseV4 s =
     (case map v4_octet (Split s CHR ''.'') of
        [Some a, Some b, Some c, Some d] \<Rightarrow> Some (word_of_nat (((a * 256 + b) * 256 + c) * 256 + d))
      | _ \<Rightarrow> None)"

definition hex_val :: "char \<Rightarrow> nat option" where
  "hex_val c =
    (let n = of_char c :: nat in
     if 48 \<le> n \<and> n \<le> 57 then Some (n - 48)
     else if 97 \<le> n \<and> n \<le> 102 then Some (n - 87)
     else if 65 \<le> n \<and> n \<le> 70 then Some (n - 55)
     else None)"

definition is_hex :: "char \<Rightarrow> bool" where
  "is_hex c \<longleftrightarrow> hex_val c \<noteq> None"

definition hex_num :: "string \<Rightarrow> nat" where
  "hex_num s = foldl (\<lambda>a c. 16 * a + the (hex_val c)) 0 s"

text \<open>
  The group loop of the IPv6 parser. \<open>n\<close> groups may still follow, \<open>gs\<close> are the groups read
  so far and \<open>e\<close> is the position of the compressed run.
\<close>

fun v6loop :: "nat \<Rightarrow> nat list \<Rightarrow> nat option \<Rightarrow> string \<Rightarrow> (nat list \<times> nat option \<times> string) option" where
  "v6loop 0 gs e s = Some (gs, e, s)"
| "v6loop (Suc n) gs e s =
    (let run = takeWhile is_hex s; rest = dropWhile is_hex s in
     if run = [] \<or> 4 < length run then None
     else (case rest of
        [] \<Rightarrow> Some (gs @ [hex_num run], e, [])
      | c # r \<Rightarrow>
          if c = CHR ''.'' then
            (if (e = None \<and> length gs \<noteq> 6) \<or> n = 0 then None
             else (case parseV4 s of
                None \<Rightarrow> None
              | Some w \<Rightarrow> Some (gs @ [unat w div 65536, unat w mod 65536], e, [])))
          else if c \<noteq> CHR '':'' \<or> r = [] then None
          else if hd r = CHR '':'' then
            (if e \<noteq> None then None
             else if tl r = [] then Some (gs @ [hex_num run], Some (Suc (length gs)), [])
             else v6loop n (gs @ [hex_num run]) (Some (Suc (length gs))) (tl r))
          else v6loop n (gs @ [hex_num run]) e r))"

definition groups_word :: "nat list \<Rightarrow> netip" where
  "groups_word gs = word_of_nat (foldl (\<lambda>a g. a * 65536 + g) 0 gs)"

definition parseV6 :: "string \<Rightarrow> netip option" where
  "parseV6 s =
    (if CHR ''%'' \<in> set s then None
     else let (e0, s0) = (if HasPrefix s ''::'' then (Some 0, drop 2 s) else (None, s)) in
       if e0 \<noteq> None \<and> s0 = [] then Some 0
       else (case v6loop 8 [] e0 s0 of
          None \<Rightarrow> None
        | Some (gs, e, rest) \<Rightarrow>
            if rest \<noteq> [] then None
            else if length gs < 8 then
              (case e of
                 None \<Rightarrow> None
               | Some k \<Rightarrow> Some (groups_word (take k gs @ replicate (8 - length gs) 0 @ drop k gs)))
            else if e \<noteq> None then None
            else Some (groups_word gs)))"

definition parseAddr :: "string \<Rightarrow> netaddr option" where
  "parseAddr s =
    (case find (\<lambda>c. c \<in> {CHR ''.'', CHR '':'', CHR ''%''}) s of
       None \<Rightarrow> None
     | Some c \<Rightarrow>
         if c = CHR ''.'' then map_option A4 (parseV4 s)
         else if c = CHR '':'' then map_option A6 (parseV6 s)
         else None)"

definition ParseIP :: "string \<Rightarrow> netip option" where
  "ParseIP s = map_option as16 (parseAddr s)"

subsection \<open>Networks\<close>

definition mask4 :: "nat \<Rightarrow> 32 word \<Rightarrow> 32 word" where
  "mask4 n w = push_bit (32 - n) (drop_bit (32 - n) w)"

definition mask6 :: "nat \<Rightarrow> netip \<Rightarrow> netip" where
  "mask6 n w = push_bit (128 - n) (drop_bit (128 - n) w)"

definition ParseCIDR :: "string \<Rightarrow> (netip \<times> ipnet) option" where
  "ParseCIDR s =
    (case Cut s ''/'' of
       None \<Rightarrow> None
     | Some (a, m) \<Rightarrow>
         (case (parseAddr a, parse_nat m) of
            (Some (A4 w), Some n) \<Rightarrow> if n \<le> 32 then Some (mapped4 w, Net4 (mask4 n w) n) else None
          | (Some (A6 ip), Some n) \<Rightarrow> if n \<le> 128 then Some (ip, Net6 (mask6 n ip) n) else None
          | _ \<Rightarrow> None))"

definition NetContains :: "ipnet \<Rightarrow> netip \<Rightarrow> bool" where
  "NetContains net ip =
    (case net of
       Net4 w n \<Rightarrow> (case To4 ip of Some v \<Rightarrow> drop_bit (32 - n) v = drop_bit (32 - n) w | None \<Rightarrow> False)
     | Net6 w n \<Rightarrow>
         (case To4 w of
            Some w4 \<Rightarrow> (case To4 ip of
                Some v \<Rightarrow> drop_bit (32 - (n - 96)) v = drop_bit (32 - (n - 96)) w4 | None \<Rightarrow> False)
          | None \<Rightarrow> To4 ip = None \<and> drop_bit (128 - n) ip = drop_bit (128 - n) w))"

definition NetIs4 :: "ipnet \<Rightarrow> bool" where
  "NetIs4 net = (case net of Net4 _ _ \<Rightarrow> True | Net6 w _ \<Rightarrow> To4 w \<noteq> None)"

fun MaskSize :: "ipnet \<Rightarrow> nat \<times> nat" where
  "MaskSize (Net4 _ n) = (n, 32)"
| "MaskSize (Net6 _ n) = (n, 128)"

subsection \<open>Printing\<close>

definition byte_of :: "nat \<Rightarrow> 32 word \<Rightarrow> nat" where
  "byte_of i w = unat (take_bit 8 (drop_bit (8 * i) w))"

definition ip4String :: "32 word \<Rightarrow> string" where
  "ip4String w =
    show_nat (byte_of 3 w) @ ''.'' @ show_nat (byte_of 2 w) @ ''.'' @
    show_nat (byte_of 1 w) @ ''.'' @ show_nat (byte_of 0 w)"

definition hex_char :: "nat \<Rightarrow> char" where
  "hex_char d = ''0123456789abcdef'' ! d"

fun show_hex :: "nat \<Rightarrow> string" where
  "show_hex n = (if n < 16 then [hex_char n] else show_hex (n div 16) @ [hex_char (n mod 16)])"

declare show_hex.simps [simp del]

definition groups_of :: "netip \<Rightarrow> nat list" where
  "groups_of ip = map (\<lambda>i. unat (take_bit 16 (drop_bit (16 * (7 - i)) ip))) [0..<8]"

definition zero_run :: "nat list \<Rightarrow> nat \<Rightarrow> nat" where
  "zero_run gs i = length (takeWhile (\<lambda>g. g = 0) (drop i gs))"

definition best_run :: "nat list \<Rightarrow> nat \<times> nat" where
  "best_run gs =
    foldl (\<lambda>(st, l) i. let r = zero_run gs i in if 2 \<le> r \<and> l < r then (i, r) else (st, l)) (8, 0) [0..<8]"

definition ip6String :: "netip \<Rightarrow> string" where
  "ip6String ip =
    (let gs = groups_of ip; (st, l) = best_run gs in
     if l = 0 then Join (map show_hex gs) '':''
     else Join (map show_hex (take st gs)) '':'' @ ''::'' @ Join (map show_hex (drop (st + l) gs)) '':'')"

definition IPString :: "netip \<Rightarrow> string" where
  "IPString ip = (case To4 ip of Some w \<Rightarrow> ip4String w | None \<Rightarrow> ip6String ip)"

definition NetString :: "ipnet \<Rightarrow> string" where
  "NetString net =
    (case net of
       Net4 w n \<Rightarrow> ip4String w @ ''/'' @ show_nat n
     | Net6 w n \<Rightarrow> (case To4 w of
           Some w4 \<Rightarrow> ip4String w4 @ ''/'' @ show_nat (n - 96)
         | None \<Rightarrow> ip6String w @ ''/'' @ show_nat n))"

text \<open>Evaluating a parse of a literal address or network.\<close>

lemmas go_net_eval = ParseIP_def parseAddr_def parseV4_def v4_octet_def parse_nat_def is_digit_def
  digit_val_def HasPrefix_def ParseCIDR_def

subsection \<open>IPv4 text round trip\<close>

lemma v4_octet_show [simp]: "n < 256 \<Longrightarrow> v4_octet (show_nat n) = Some n"
proof -
  assume n: "n < 256"
  have "\<not> (1 < length (show_nat n) \<and> hd (show_nat n) = CHR ''0'')"
  proof (cases "n = 0")
    case True
    then show ?thesis by (simp add: show_nat.simps)
  next
    case False
    then show ?thesis by (simp add: hd_show_nat)
  qed
  with n show ?thesis by (simp add: v4_octet_def)
qed

lemma not_digit_punct [simp]:
  "\<not> is_digit CHR ''.''" "\<not> is_digit CHR '':''" "\<not> is_digit CHR ''%''" "\<not> is_digit CHR ''/''"
  by (simp_all add: is_digit_def)

lemma show_nat_no_punct [simp]:
  "CHR ''.'' \<notin> set (show_nat n)" "CHR '':'' \<notin> set (show_nat n)"
  "CHR ''%'' \<notin> set (show_nat n)" "CHR ''/'' \<notin> set (show_nat n)"
  by (simp_all add: show_nat_no_char)

lemma find_append_none: "find P xs = None \<Longrightarrow> find P (xs @ ys) = find P ys"
  by (induction xs) auto

lemma byte_of_div: "byte_of i w = unat w div 256 ^ i mod 256"
proof -
  have "byte_of i w = take_bit 8 (drop_bit (8 * i) (unat w))"
    unfolding byte_of_def unsigned_take_bit_eq unat_drop_bit_eq ..
  then show ?thesis by (simp add: drop_bit_eq_div take_bit_eq_mod power_mult)
qed

lemma byte_of_less [simp]: "byte_of i w < 256"
  by (simp add: byte_of_div)

lemma Split_ip4String:
  "Split (ip4String w) CHR ''.'' =
     [show_nat (byte_of 3 w), show_nat (byte_of 2 w), show_nat (byte_of 1 w), show_nat (byte_of 0 w)]"
  by (simp add: ip4String_def Split_append Split_no_sep)

lemma bytes_unat:
  "((byte_of 3 w * 256 + byte_of 2 w) * 256 + byte_of 1 w) * 256 + byte_of 0 w = unat w"
proof -
  have split: "n div 256 * 256 + n mod 256 = n" for n :: nat by simp
  have dd: "n div 256 ^ 2 = n div 256 div 256" "n div 256 ^ 3 = n div 256 div 256 div 256" for n :: nat
    by (simp_all only: power2_eq_square power3_eq_cube div_mult2_eq)
  have "unat w < 256 * 256 ^ 3" using unsigned_less [of w] by simp
  then have "unat w div 256 ^ 3 < 256" by (rule less_mult_imp_div_less)
  then have b3: "byte_of 3 w = unat w div 256 div 256 div 256"
    unfolding byte_of_div dd by (rule mod_less)
  have b2: "byte_of 2 w = unat w div 256 div 256 mod 256"
    unfolding byte_of_div dd ..
  have b1: "byte_of 1 w = unat w div 256 mod 256" and b0: "byte_of 0 w = unat w mod 256"
    unfolding byte_of_div by simp_all
  show ?thesis unfolding b0 b1 b2 b3 split ..
qed

lemma parseV4_ip4String [simp]: "parseV4 (ip4String w) = Some w"
proof -
  have "parseV4 (ip4String w) = Some (word_of_nat
      (((byte_of 3 w * 256 + byte_of 2 w) * 256 + byte_of 1 w) * 256 + byte_of 0 w))"
    by (simp add: parseV4_def Split_ip4String del: of_nat_add of_nat_mult)
  also have "\<dots> = Some w" unfolding bytes_unat by simp
  finally show ?thesis .
qed

lemma parseAddr_ip4String [simp]: "parseAddr (ip4String w) = Some (A4 w)"
proof -
  let ?P = "\<lambda>c. c \<in> {CHR ''.'', CHR '':'', CHR ''%''}"
  have "find ?P (show_nat n) = None" for n
    by (auto simp: find_None_iff)
  then have "find ?P (ip4String w) = Some CHR ''.''"
    by (simp add: ip4String_def find_append_none)
  then show ?thesis by (simp add: parseAddr_def)
qed

lemma ParseIP_ip4String [simp]: "ParseIP (ip4String w) = Some (mapped4 w)"
  by (simp add: ParseIP_def)

lemma ip4String_inj: "ip4String v = ip4String w \<longleftrightarrow> v = w"
  by (metis option.inject parseV4_ip4String)

lemma IPString_mapped4 [simp]: "IPString (mapped4 w) = ip4String w"
  by (simp add: IPString_def)

lemma Cut_slash: "CHR ''/'' \<notin> set a \<Longrightarrow> Cut (a @ ''/'' @ m) ''/'' = Some (a, m)"
  by (induction a) (auto simp: HasPrefix_def)

lemma slash_notin_ip4String [simp]: "CHR ''/'' \<notin> set (ip4String w)"
  by (simp add: ip4String_def)

lemma ParseCIDR_ip4String:
  "n \<le> 32 \<Longrightarrow> ParseCIDR (ip4String w @ ''/'' @ show_nat n) = Some (mapped4 w, Net4 (mask4 n w) n)"
  using Cut_slash [OF slash_notin_ip4String, of w "show_nat n"] by (simp add: ParseCIDR_def)

lemma mask4_idem [simp]: "n \<le> 32 \<Longrightarrow> mask4 n (mask4 n w) = mask4 n w"
  by (rule bit_word_eqI) (auto simp: mask4_def bit_simps)

lemma ParseCIDR_NetString:
  "n \<le> 32 \<Longrightarrow> ParseCIDR (NetString (Net4 (mask4 n w) n)) = Some (mapped4 (mask4 n w), Net4 (mask4 n w) n)"
  using ParseCIDR_ip4String [of n "mask4 n w"] by (simp add: NetString_def)

text \<open>A network prints injectively on the IPv4 form.\<close>

lemma NetString_Net4_inj:
  assumes "NetString (Net4 v m) = NetString (Net4 w n)"
  shows "v = w \<and> m = n"
proof -
  have "Cut (NetString (Net4 u k)) ''/'' = Some (ip4String u, show_nat k)" for u k
    using Cut_slash [OF slash_notin_ip4String, of u "show_nat k"] by (simp add: NetString_def)
  with assms have "Some (ip4String v, show_nat m) = Some (ip4String w, show_nat n)" by metis
  then show ?thesis by (simp add: ip4String_inj show_nat_inj)
qed

lemma NetContains_Net4: "NetContains (Net4 w n) (mapped4 v) \<longleftrightarrow> drop_bit (32 - n) v = drop_bit (32 - n) w"
  by (simp add: NetContains_def)

subsection \<open>The characters of an address\<close>

definition addr_char :: "char \<Rightarrow> bool" where
  "addr_char c \<longleftrightarrow> is_hex c \<or> c = CHR ''.'' \<or> c = CHR '':''"

lemma is_digit_is_hex: "is_digit c \<Longrightarrow> is_hex c"
  by (auto simp: is_digit_def is_hex_def hex_val_def Let_def)

lemma set_Split: "set s \<subseteq> insert c (\<Union>x\<in>set (Split s c). set x)"
proof (induction s)
  case Nil
  then show ?case by simp
next
  case (Cons a s)
  obtain x xs where x: "Split s c = x # xs" by (cases "Split s c") auto
  then show ?case using Cons by auto
qed

lemma v4_octet_digits: "v4_octet x = Some n \<Longrightarrow> list_all is_digit x"
  by (auto simp: v4_octet_def parse_nat_def split: option.splits if_splits)

lemma parseV4_chars: 
  assumes "parseV4 s = Some w" shows "list_all addr_char s"
proof -
  have "\<forall>x\<in>set (Split s CHR ''.''). \<exists>n. v4_octet x = Some n"
  proof -
    obtain a b c d where m: "map v4_octet (Split s CHR ''.'') = [Some a, Some b, Some c, Some d]"
      using assms by (auto simp: parseV4_def split: list.splits option.splits)
    have "v4_octet ` set (Split s CHR ''.'') = set (map v4_octet (Split s CHR ''.''))" by simp
    also have "\<dots> = {Some a, Some b, Some c, Some d}" unfolding m by auto
    finally show ?thesis by blast
  qed
  then have "\<forall>x\<in>set (Split s CHR ''.''). list_all is_digit x" by (auto dest: v4_octet_digits)
  then show ?thesis using set_Split [of s "CHR ''.''"]
    by (fastforce simp: list_all_iff addr_char_def dest: is_digit_is_hex)
qed

lemma v6loop_chars: "v6loop n gs e s = Some (gs', e', []) \<Longrightarrow> list_all addr_char s"
proof (induction n gs e s rule: v6loop.induct)
  case (1 gs e s)
  then show ?case by simp
next
  case (2 n gs e s)
  have sp: "s = takeWhile is_hex s @ dropWhile is_hex s" by simp
  have run: "list_all addr_char (takeWhile is_hex s)"
    by (auto simp: list_all_iff addr_char_def dest: set_takeWhileD)
  show ?case
  proof (cases "dropWhile is_hex s")
    case Nil
    then show ?thesis by (simp add: addr_char_def list_all_iff)
  next
    case (Cons c r)
    show ?thesis
    proof (cases "c = CHR ''.''")
      case True
      then show ?thesis using 2 Cons by (auto simp: Let_def split: if_splits option.splits dest: parseV4_chars)
    next
      case False
      have c: "c = CHR '':''" "r \<noteq> []"  using 2 Cons False by (auto simp: Let_def split: if_splits)
      have "list_all addr_char r"
      proof (cases "hd r = CHR '':''")
        case True
        then have "list_all addr_char (tl r)"
          using 2 Cons c by (auto simp: Let_def split: if_splits)
        then show ?thesis using True c(2) by (cases r) (auto simp: addr_char_def)
      next
        case False
        then show ?thesis using 2 Cons c by (auto simp: Let_def split: if_splits)
      qed
      then have "list_all addr_char (dropWhile is_hex s)" using Cons c by (simp add: addr_char_def)
      then show ?thesis using run sp by (metis list_all_append)
    qed
  qed
qed

lemma parseV6_chars: "parseV6 s = Some w \<Longrightarrow> list_all addr_char s"
  by (cases "HasPrefix s ''::''")
     (auto simp: parseV6_def HasPrefix_iff addr_char_def Let_def split: if_splits option.splits dest!: v6loop_chars)

lemma ParseIP_chars: "ParseIP s = Some w \<Longrightarrow> s \<noteq> '''' \<and> list_all addr_char s"
  by (auto simp: ParseIP_def parseAddr_def split: option.splits if_splits dest: parseV4_chars parseV6_chars)

lemma addr_char_not_space: "addr_char c \<Longrightarrow> \<not> IsSpace c"
  by (auto simp: IsSpace_def addr_char_def is_hex_def hex_val_def)

lemma TrimSpace_no_space: "list_all (\<lambda>c. \<not> IsSpace c) s \<Longrightarrow> TrimSpace s = s"
proof -
  assume *: "list_all (\<lambda>c. \<not> IsSpace c) s"
  have d: "list_all (\<lambda>c. \<not> IsSpace c) t \<Longrightarrow> dropWhile IsSpace t = t" for t by (cases t) auto
  from d [OF *] d [of "rev s"] * show ?thesis by (simp add: TrimSpace_def list_all_iff)
qed

lemma TrimSpace_ParseIP: "ParseIP s = Some w \<Longrightarrow> TrimSpace s = s"
  by (rule TrimSpace_no_space) (auto simp: list_all_iff dest!: ParseIP_chars addr_char_not_space)

end
