(* ===== verification/OvnRows.thy ===== *)
theory OvnRows
  imports GoNet
begin

section \<open>OVN rows and the derived state\<close>

text \<open>
  The rows of the eight OVN tables, each reduced to the columns the agent monitors
  (\<open>sbMonitorTables\<close> and \<open>nbMonitorTables\<close> in \<open>ovn.go\<close>), and the snapshot the
  agent derives from them (\<open>OVNState\<close>). A Go string map that the agent only reads is an
  association list; \<open>mget\<close> reads it with Go's zero value \<open>""\<close> for a missing key. A Go
  map the agent fills and later walks is an association list built with \<open>AList.update\<close>,
  whose keys are distinct; the order in which Go walks a map is unspecified, and the theorems
  about such walks hold for any order.
\<close>

type_synonym smap = "(string \<times> string) list"

definition mget :: "smap \<Rightarrow> string \<Rightarrow> string" where
  "mget m k = (case map_of m k of None \<Rightarrow> '''' | Some v \<Rightarrow> v)"

subsection \<open>Southbound rows\<close>

record port_binding =
  pb_UUID :: string
  pb_LogicalPort :: string
  pb_Type :: string
  pb_Chassis :: "string option"
  pb_Datapath :: string
  pb_Tag :: "int option"
  pb_Options :: smap
  pb_ExternalIDs :: smap
  pb_NatAddresses :: "string list"

record chassis =
  ch_UUID :: string
  ch_Name :: string
  ch_Hostname :: string

subsection \<open>Northbound rows\<close>

record nb_nat =
  nat_UUID :: string
  nat_Type :: string
  nat_ExternalIP :: string

record nb_router =
  lr_UUID :: string
  lr_Name :: string
  lr_Ports :: "string list"
  lr_Nat :: "string list"
  lr_StaticRoutes :: "string list"

record nb_lrp =
  lrp_UUID :: string
  lrp_Name :: string
  lrp_MAC :: string
  lrp_Networks :: "string list"
  lrp_GatewayChassis :: "string list"

record nb_static_route =
  sr_UUID :: string
  sr_IPPrefix :: string
  sr_Nexthop :: string
  sr_OutputPort :: "string option"
  sr_ExternalIDs :: "smap option"

record nb_mac_binding =
  mb_UUID :: string
  mb_LogicalPort :: string
  mb_IP :: string
  mb_MAC :: string

record nb_gateway_chassis =
  gc_UUID :: string
  gc_Name :: string
  gc_ChassisName :: string
  gc_Priority :: int

subsection \<open>Derived state\<close>

record localnet_segment =
  seg_LocalnetPort :: string
  seg_NetworkName :: string
  seg_VLANTag :: "int option"

record local_router =
  lri_RouterName :: string
  lri_RouterUUID :: string
  lri_LRPName :: string
  lri_LRPUUID :: string
  lri_LRPMAC :: string
  lri_LRPNetworks :: "string list"
  lri_CRPort :: string
  lri_Segment :: "localnet_segment option"
  lri_GatewayChassisUUIDs :: "string list"

definition segmentName :: "localnet_segment option \<Rightarrow> string" where
  "segmentName seg = (case seg of None \<Rightarrow> '''' | Some s \<Rightarrow> seg_LocalnetPort s)"

record ovn_state =
  st_LocalChassisName :: string
  st_LocalRouters :: "local_router list"
  st_HasLocalRouters :: bool
  st_SNATIPs :: "string list"
  st_NATIPToRouterMAC :: smap
  st_NATIPToSegment :: smap
  st_DiscoveredNetworks :: "ipnet list"
  st_AllChassisNames :: "string set"
  st_Gen :: nat

text \<open>The zero value of \<open>OVNState\<close>, which port-forward-only mode works from.\<close>

definition zero_state :: ovn_state where
  "zero_state = \<lparr>st_LocalChassisName = '''', st_LocalRouters = [], st_HasLocalRouters = False,
     st_SNATIPs = [], st_NATIPToRouterMAC = [], st_NATIPToSegment = [],
     st_DiscoveredNetworks = [], st_AllChassisNames = {}, st_Gen = 0\<rparr>"

subsection \<open>The guarded cell that holds the live state\<close>

text \<open>
  \<open>ovnStateHolder\<close>: the mutex makes each operation atomic, so the cell is the state itself.
  \<open>Snapshot\<close> returns a deep copy, which is the same value; \<open>Replace\<close> carries the local
  chassis name over when the caller leaves it empty.
\<close>

definition Snapshot :: "ovn_state \<Rightarrow> ovn_state" where
  "Snapshot h = h"

definition Replace :: "ovn_state \<Rightarrow> ovn_state \<Rightarrow> ovn_state" where
  "Replace h nxt =
     (if st_LocalChassisName nxt = '''' then nxt\<lparr>st_LocalChassisName := st_LocalChassisName h\<rparr> else nxt)"

definition SetLocalChassisName :: "string \<Rightarrow> ovn_state \<Rightarrow> ovn_state" where
  "SetLocalChassisName name h = h\<lparr>st_LocalChassisName := name\<rparr>"

definition LocalChassisName :: "ovn_state \<Rightarrow> string" where
  "LocalChassisName h = st_LocalChassisName h"

lemma Replace_keeps_name [simp]:
  "st_LocalChassisName nxt = '''' \<Longrightarrow> st_LocalChassisName (Replace h nxt) = st_LocalChassisName h"
  by (simp add: Replace_def)

lemma Replace_fields [simp]:
  "st_LocalRouters (Replace h nxt) = st_LocalRouters nxt"
  "st_HasLocalRouters (Replace h nxt) = st_HasLocalRouters nxt"
  "st_SNATIPs (Replace h nxt) = st_SNATIPs nxt"
  "st_NATIPToRouterMAC (Replace h nxt) = st_NATIPToRouterMAC nxt"
  "st_NATIPToSegment (Replace h nxt) = st_NATIPToSegment nxt"
  "st_DiscoveredNetworks (Replace h nxt) = st_DiscoveredNetworks nxt"
  "st_AllChassisNames (Replace h nxt) = st_AllChassisNames nxt"
  "st_Gen (Replace h nxt) = st_Gen nxt"
  by (simp_all add: Replace_def)

end
