(* ===== verification/OvnCache.thy ===== *)
theory OvnCache
  imports OvnRows Complex_Main "HOL-Library.Multiset"
begin

section \<open>The cache consistency guard\<close>

text \<open>
  \<open>ovn_cache.go\<close>: every table is read from the monitor cache and cross-checked against a
  server-side select of the columns the refresh depends on. The database server is a parameter:
  a function from a table and a column list to the reply of a \<open>select\<close> operation. The locale
  \<open>checked_table\<close> states what makes a table's check sound (its content key reads only the
  checked columns) and derives that the guard's result agrees with the server; it is interpreted
  on all seven tables the agent reads this way.
\<close>

subsection \<open>OVSDB values and row decoders\<close>

text \<open>
  A decoded JSON value of the wire protocol. A number arrives as \<open>float64\<close>; Go's \<open>int(n)\<close>
  truncates it toward zero.
\<close>

datatype ovsdb_value =
    OString string
  | OUUID string
  | OInt int
  | OFloat rat
  | OSet "ovsdb_value list"
  | OMap "(ovsdb_value \<times> ovsdb_value) list"

type_synonym ovsdb_row = "(string \<times> ovsdb_value) list"

fun ovsSetToStrings :: "ovsdb_value option \<Rightarrow> string list" where
  "ovsSetToStrings (Some (OString s)) = [s]"
| "ovsSetToStrings (Some (OUUID u)) = [u]"
| "ovsSetToStrings (Some (OSet vs)) =
     concat (map (\<lambda>e. case e of OString s \<Rightarrow> [s] | OUUID u \<Rightarrow> [u] | _ \<Rightarrow> []) vs)"
| "ovsSetToStrings _ = []"

definition rowUUID :: "ovsdb_row \<Rightarrow> string" where
  "rowUUID row = (case map_of row ''_uuid'' of Some (OUUID u) \<Rightarrow> u | _ \<Rightarrow> '''')"

definition rowString :: "ovsdb_row \<Rightarrow> string \<Rightarrow> string" where
  "rowString row col = (case map_of row col of Some (OString s) \<Rightarrow> s | _ \<Rightarrow> '''')"

definition rowOptString :: "ovsdb_row \<Rightarrow> string \<Rightarrow> string option" where
  "rowOptString row col =
     (case map_of row col of
        Some (OString s) \<Rightarrow> Some s
      | Some (OUUID u) \<Rightarrow> Some u
      | Some (OSet vs) \<Rightarrow> (case ovsSetToStrings (Some (OSet vs)) of [] \<Rightarrow> None | s # _ \<Rightarrow> Some s)
      | _ \<Rightarrow> None)"

definition rowUUIDRef :: "ovsdb_row \<Rightarrow> string \<Rightarrow> string" where
  "rowUUIDRef row col = (case map_of row col of Some (OUUID u) \<Rightarrow> u | Some (OString s) \<Rightarrow> s | _ \<Rightarrow> '''')"

definition go_int :: "rat \<Rightarrow> int" where
  "go_int q = (if q < 0 then \<lceil>q\<rceil> else \<lfloor>q\<rfloor>)"

definition rowOptInt :: "ovsdb_row \<Rightarrow> string \<Rightarrow> int option" where
  "rowOptInt row col =
     (let v = (case map_of row col of
                 Some (OSet vs) \<Rightarrow> (case vs of [] \<Rightarrow> None | e # _ \<Rightarrow> Some e)
               | v \<Rightarrow> v)
      in case v of Some (OInt n) \<Rightarrow> Some n | Some (OFloat q) \<Rightarrow> Some (go_int q) | _ \<Rightarrow> None)"

definition rowStringSet :: "ovsdb_row \<Rightarrow> string \<Rightarrow> string list" where
  "rowStringSet row col = ovsSetToStrings (map_of row col)"

definition rowStringMap :: "ovsdb_row \<Rightarrow> string \<Rightarrow> smap option" where
  "rowStringMap row col =
     (case map_of row col of
        Some (OMap kvs) \<Rightarrow>
          Some (foldl (\<lambda>m (k, v). case (k, v) of (OString ks, OString vs) \<Rightarrow> AList.update ks vs m | _ \<Rightarrow> m) [] kvs)
      | _ \<Rightarrow> None)"

text \<open>A nil map reads like an empty one; only the static route's writer tells them apart.\<close>

definition nilMap :: "smap option \<Rightarrow> smap" where
  "nilMap m = (case m of None \<Rightarrow> [] | Some m \<Rightarrow> m)"

definition decodeSBPortBinding :: "ovsdb_row \<Rightarrow> port_binding" where
  "decodeSBPortBinding row =
     \<lparr>pb_UUID = rowUUID row, pb_LogicalPort = rowString row ''logical_port'',
      pb_Type = rowString row ''type'', pb_Chassis = rowOptString row ''chassis'',
      pb_Datapath = rowUUIDRef row ''datapath'', pb_Tag = rowOptInt row ''tag'',
      pb_Options = nilMap (rowStringMap row ''options''),
      pb_ExternalIDs = nilMap (rowStringMap row ''external_ids''),
      pb_NatAddresses = rowStringSet row ''nat_addresses''\<rparr>"

definition decodeSBChassis :: "ovsdb_row \<Rightarrow> chassis" where
  "decodeSBChassis row =
     \<lparr>ch_UUID = rowUUID row, ch_Name = rowString row ''name'', ch_Hostname = rowString row ''hostname''\<rparr>"

definition decodeNBNAT :: "ovsdb_row \<Rightarrow> nb_nat" where
  "decodeNBNAT row =
     \<lparr>nat_UUID = rowUUID row, nat_Type = rowString row ''type'',
      nat_ExternalIP = rowString row ''external_ip''\<rparr>"

definition decodeNBLogicalRouter :: "ovsdb_row \<Rightarrow> nb_router" where
  "decodeNBLogicalRouter row =
     \<lparr>lr_UUID = rowUUID row, lr_Name = rowString row ''name'', lr_Ports = rowStringSet row ''ports'',
      lr_Nat = rowStringSet row ''nat'', lr_StaticRoutes = rowStringSet row ''static_routes''\<rparr>"

definition decodeNBLogicalRouterPort :: "ovsdb_row \<Rightarrow> nb_lrp" where
  "decodeNBLogicalRouterPort row =
     \<lparr>lrp_UUID = rowUUID row, lrp_Name = rowString row ''name'', lrp_MAC = rowString row ''mac'',
      lrp_Networks = rowStringSet row ''networks'',
      lrp_GatewayChassis = rowStringSet row ''gateway_chassis''\<rparr>"

definition decodeNBLogicalRouterStaticRoute :: "ovsdb_row \<Rightarrow> nb_static_route" where
  "decodeNBLogicalRouterStaticRoute row =
     \<lparr>sr_UUID = rowUUID row, sr_IPPrefix = rowString row ''ip_prefix'',
      sr_Nexthop = rowString row ''nexthop'', sr_OutputPort = rowOptString row ''output_port'',
      sr_ExternalIDs = rowStringMap row ''external_ids''\<rparr>"

definition decodeNBStaticMACBinding :: "ovsdb_row \<Rightarrow> nb_mac_binding" where
  "decodeNBStaticMACBinding row =
     \<lparr>mb_UUID = rowUUID row, mb_LogicalPort = rowString row ''logical_port'',
      mb_IP = rowString row ''ip'', mb_MAC = rowString row ''mac''\<rparr>"

subsection \<open>Content keys\<close>

definition contentKey :: "string list \<Rightarrow> string" where
  "contentKey parts = Join parts [CHR 0x1F]"

definition sortedJoin :: "string list \<Rightarrow> string" where
  "sortedJoin vs = Join (sort vs) '',''"

text \<open>\<open>fmt.Sprintf("%v", m)\<close> of a string map: \<open>map[k1:v1 k2:v2]\<close>, the keys sorted.\<close>

definition mapString :: "smap \<Rightarrow> string" where
  "mapString m = ''map['' @ Join (map (\<lambda>(k, v). k @ '':'' @ v) (sort_key fst (AList.clearjunk m))) '' '' @ '']''"

definition optStr :: "string option \<Rightarrow> string" where
  "optStr s = (case s of None \<Rightarrow> '''' | Some x \<Rightarrow> x)"

definition keyOfSBPortBinding :: "port_binding \<Rightarrow> string" where
  "keyOfSBPortBinding p =
     contentKey [pb_UUID p, pb_Type p, optStr (pb_Chassis p), sortedJoin (pb_NatAddresses p),
       pb_Datapath p, (case pb_Tag p of None \<Rightarrow> '''' | Some t \<Rightarrow> Itoa t),
       mapString (pb_Options p), mapString (pb_ExternalIDs p)]"

definition keyOfSBChassis :: "chassis \<Rightarrow> string" where
  "keyOfSBChassis c = contentKey [ch_UUID c, ch_Hostname c]"

definition keyOfNBLogicalRouter :: "nb_router \<Rightarrow> string" where
  "keyOfNBLogicalRouter r =
     contentKey [lr_UUID r, sortedJoin (lr_Ports r), sortedJoin (lr_Nat r), sortedJoin (lr_StaticRoutes r)]"

definition keyOfNBLogicalRouterPort :: "nb_lrp \<Rightarrow> string" where
  "keyOfNBLogicalRouterPort p =
     contentKey [lrp_UUID p, lrp_MAC p, sortedJoin (lrp_Networks p), sortedJoin (lrp_GatewayChassis p)]"

definition keyOfNBNAT :: "nb_nat \<Rightarrow> string" where
  "keyOfNBNAT n = contentKey [nat_UUID n, nat_Type n, nat_ExternalIP n]"

definition keyOfNBLogicalRouterStaticRoute :: "nb_static_route \<Rightarrow> string" where
  "keyOfNBLogicalRouterStaticRoute r =
     contentKey [sr_UUID r, sr_IPPrefix r, sr_Nexthop r, optStr (sr_OutputPort r),
       mapString (nilMap (sr_ExternalIDs r))]"

definition keyOfNBStaticMACBinding :: "nb_mac_binding \<Rightarrow> string" where
  "keyOfNBStaticMACBinding b = contentKey [mb_UUID b, mb_LogicalPort b, mb_IP b, mb_MAC b]"

definition pbCheckColumns :: "string list" where
  "pbCheckColumns = [''_uuid'', ''type'', ''chassis'', ''nat_addresses'', ''datapath'', ''tag'', ''options'', ''external_ids'']"

definition chCheckColumns :: "string list" where
  "chCheckColumns = [''_uuid'', ''hostname'']"

definition lrCheckColumns :: "string list" where
  "lrCheckColumns = [''_uuid'', ''ports'', ''nat'', ''static_routes'']"

definition lrpCheckColumns :: "string list" where
  "lrpCheckColumns = [''_uuid'', ''mac'', ''networks'', ''gateway_chassis'']"

definition natCheckColumns :: "string list" where
  "natCheckColumns = [''_uuid'', ''type'', ''external_ip'']"

definition lrsrCheckColumns :: "string list" where
  "lrsrCheckColumns = [''_uuid'', ''ip_prefix'', ''nexthop'', ''output_port'', ''external_ids'']"

definition smbCheckColumns :: "string list" where
  "smbCheckColumns = [''_uuid'', ''logical_port'', ''ip'', ''mac'']"

lemmas check_columns_defs = pbCheckColumns_def chCheckColumns_def lrCheckColumns_def
  lrpCheckColumns_def natCheckColumns_def lrsrCheckColumns_def smbCheckColumns_def

lemmas key_defs = keyOfSBPortBinding_def keyOfSBChassis_def keyOfNBLogicalRouter_def
  keyOfNBLogicalRouterPort_def keyOfNBNAT_def keyOfNBLogicalRouterStaticRoute_def keyOfNBStaticMACBinding_def

lemmas decode_defs = decodeSBPortBinding_def decodeSBChassis_def decodeNBLogicalRouter_def
  decodeNBLogicalRouterPort_def decodeNBNAT_def decodeNBLogicalRouterStaticRoute_def
  decodeNBStaticMACBinding_def

lemmas row_defs = rowUUID_def rowString_def rowOptString_def rowUUIDRef_def rowOptInt_def
  rowStringSet_def rowStringMap_def

subsection \<open>Selects and the guard\<close>

text \<open>
  What a \<open>Transact\<close> of one select can return: the call fails, the server reports an operation
  error, or there is one row list per operation (none is read as no rows). An empty column list
  is Go's nil: every column.
\<close>

datatype select_reply = TransactErr err | OperationErr err | Replies "ovsdb_row list list"

type_synonym selector = "string \<Rightarrow> string list \<Rightarrow> select_reply"

definition directSelect :: "selector \<Rightarrow> string \<Rightarrow> string list \<Rightarrow> ovsdb_row list result" where
  "directSelect sel table columns =
     (case sel table columns of
        TransactErr e \<Rightarrow> Inl e
      | OperationErr e \<Rightarrow> Inl e
      | Replies [] \<Rightarrow> Inr []
      | Replies (rows # _) \<Rightarrow> Inr rows)"

definition keySetsEqual :: "string set \<Rightarrow> string set \<Rightarrow> bool" where
  "keySetsEqual a b = (if card a \<noteq> card b then False else (\<forall>k\<in>a. k \<in> b))"

definition serverKeySet ::
  "selector \<Rightarrow> string \<Rightarrow> string list \<Rightarrow> ('a \<Rightarrow> string) \<Rightarrow> (ovsdb_row \<Rightarrow> 'a) \<Rightarrow> string set result" where
  "serverKeySet sel table columns keyOf decode =
     (case directSelect sel table columns of
        Inl e \<Rightarrow> Inl e
      | Inr rows \<Rightarrow> Inr (set (map (\<lambda>row. keyOf (decode row)) rows)))"

definition authoritativeList ::
  "selector \<Rightarrow> string \<Rightarrow> string list \<Rightarrow> 'a list \<Rightarrow> ('a \<Rightarrow> string) \<Rightarrow> (ovsdb_row \<Rightarrow> 'a) \<Rightarrow> 'a list" where
  "authoritativeList sel table columns cached keyOf decode =
     (case serverKeySet sel table columns keyOf decode of
        Inl _ \<Rightarrow> cached
      | Inr serverKeys \<Rightarrow>
          if keySetsEqual (set (map keyOf cached)) serverKeys then cached
          else (case directSelect sel table [] of
                  Inl _ \<Rightarrow> cached
                | Inr rows \<Rightarrow> map decode rows))"

definition cachedList ::
  "'a list result \<Rightarrow> selector \<Rightarrow> string \<Rightarrow> string list \<Rightarrow> ('a \<Rightarrow> string) \<Rightarrow> (ovsdb_row \<Rightarrow> 'a) \<Rightarrow> 'a list result" where
  "cachedList list sel table columns keyOf decode =
     (case list of Inl e \<Rightarrow> Inl e | Inr cached \<Rightarrow> Inr (authoritativeList sel table columns cached keyOf decode))"

lemma keySetsEqual_iff: "finite a \<Longrightarrow> finite b \<Longrightarrow> keySetsEqual a b \<longleftrightarrow> a = b"
  by (auto simp: keySetsEqual_def dest: card_subset_eq)

subsection \<open>What a table's check has to satisfy\<close>

text \<open>
  The documented behaviour of the server: a select of some columns returns every row reduced to
  those columns, a select of all columns the rows themselves.
\<close>

definition project_row :: "string list \<Rightarrow> ovsdb_row \<Rightarrow> ovsdb_row" where
  "project_row cols row = filter (\<lambda>(c, _). c \<in> set cols) row"

definition serves :: "selector \<Rightarrow> string \<Rightarrow> ovsdb_row list \<Rightarrow> bool" where
  "serves sel table rows \<longleftrightarrow>
     (\<forall>cols. sel table cols = Replies [if cols = [] then rows else map (project_row cols) rows])"

lemma map_of_project [simp]:
  "map_of (project_row cols row) c = (if c \<in> set cols then map_of row c else None)"
  by (induction row) (auto simp: project_row_def)

locale checked_table =
  fixes columns :: "string list" and keyOf :: "'a \<Rightarrow> string" and decode :: "ovsdb_row \<Rightarrow> 'a"
  assumes columns_nonempty: "columns \<noteq> []"
    and key_from_columns: "keyOf (decode (project_row columns row)) = keyOf (decode row)"
begin

lemma guard_agrees:
  assumes "serves sel table rows"
  shows "keyOf ` set (authoritativeList sel table columns cached keyOf decode) = (\<lambda>r. keyOf (decode r)) ` set rows"
proof -
  have sel: "directSelect sel table columns = Inr (map (project_row columns) rows)"
    "directSelect sel table [] = Inr rows"
    using assms columns_nonempty by (simp_all add: serves_def directSelect_def)
  then show ?thesis
    by (auto simp: authoritativeList_def serverKeySet_def keySetsEqual_iff key_from_columns image_image)
qed

lemma guard_unreachable:
  assumes "\<exists>e. directSelect sel table columns = Inl e"
  shows "authoritativeList sel table columns cached keyOf decode = cached"
  using assms by (auto simp: authoritativeList_def serverKeySet_def)

lemma guard_exact:
  assumes "serves sel table rows" and "inj_on keyOf (set cached \<union> decode ` set rows)"
  shows "set (authoritativeList sel table columns cached keyOf decode) = decode ` set rows"
proof -
  let ?out = "authoritativeList sel table columns cached keyOf decode"
  have "set ?out \<subseteq> set cached \<union> decode ` set rows"
    using assms(1)
    by (auto simp: authoritativeList_def directSelect_def serves_def split: sum.splits if_splits)
  moreover have "keyOf ` set ?out = keyOf ` decode ` set rows"
    using guard_agrees [OF assms(1)] by (simp add: image_image)
  ultimately show ?thesis using assms(2) by (simp add: inj_on_image_eq_iff)
qed

end

interpretation pb_table: checked_table pbCheckColumns keyOfSBPortBinding decodeSBPortBinding
  by unfold_locales (simp_all add: check_columns_defs key_defs decode_defs row_defs)

interpretation ch_table: checked_table chCheckColumns keyOfSBChassis decodeSBChassis
  by unfold_locales (simp_all add: check_columns_defs key_defs decode_defs row_defs)

interpretation lr_table: checked_table lrCheckColumns keyOfNBLogicalRouter decodeNBLogicalRouter
  by unfold_locales (simp_all add: check_columns_defs key_defs decode_defs row_defs)

interpretation lrp_table: checked_table lrpCheckColumns keyOfNBLogicalRouterPort decodeNBLogicalRouterPort
  by unfold_locales (simp_all add: check_columns_defs key_defs decode_defs row_defs)

interpretation nat_table: checked_table natCheckColumns keyOfNBNAT decodeNBNAT
  by unfold_locales (simp_all add: check_columns_defs key_defs decode_defs row_defs)

interpretation lrsr_table: checked_table lrsrCheckColumns keyOfNBLogicalRouterStaticRoute decodeNBLogicalRouterStaticRoute
  by unfold_locales (simp_all add: check_columns_defs key_defs decode_defs row_defs)

interpretation smb_table: checked_table smbCheckColumns keyOfNBStaticMACBinding decodeNBStaticMACBinding
  by unfold_locales (simp_all add: check_columns_defs key_defs decode_defs row_defs)

subsection \<open>When a content key identifies the row\<close>

lemma Split_Join:
  "xs \<noteq> [] \<Longrightarrow> (\<And>x. x \<in> set xs \<Longrightarrow> c \<notin> set x) \<Longrightarrow> Split (Join xs [c]) c = xs"
proof (induction xs)
  case Nil
  then show ?case by simp
next
  case (Cons x xs)
  then show ?case by (cases xs) (simp_all add: Split_append Split_no_sep)
qed

lemma contentKey_inj:
  assumes "xs \<noteq> []" "ys \<noteq> []" "\<forall>x\<in>set xs \<union> set ys. CHR 0x1F \<notin> set x"
  shows "contentKey xs = contentKey ys \<longleftrightarrow> xs = ys"
  using assms by (metis Split_Join UnI1 UnI2 contentKey_def)

lemma sortedJoin_mset: "mset xs = mset ys \<Longrightarrow> sortedJoin xs = sortedJoin ys"
  unfolding sortedJoin_def by (metis mset_sort properties_for_sort sorted_sort)

subsection \<open>Properties of the guard\<close>

text \<open>
  Each table's content key reads only the columns its cheap check selects, so a select of
  those columns yields the same key as the whole row.
\<close>

theorem check_columns_suffice:
  "keyOfSBPortBinding (decodeSBPortBinding (project_row pbCheckColumns row)) = keyOfSBPortBinding (decodeSBPortBinding row) \<and>
   keyOfSBChassis (decodeSBChassis (project_row chCheckColumns row)) = keyOfSBChassis (decodeSBChassis row) \<and>
   keyOfNBLogicalRouter (decodeNBLogicalRouter (project_row lrCheckColumns row)) = keyOfNBLogicalRouter (decodeNBLogicalRouter row) \<and>
   keyOfNBLogicalRouterPort (decodeNBLogicalRouterPort (project_row lrpCheckColumns row)) = keyOfNBLogicalRouterPort (decodeNBLogicalRouterPort row) \<and>
   keyOfNBNAT (decodeNBNAT (project_row natCheckColumns row)) = keyOfNBNAT (decodeNBNAT row) \<and>
   keyOfNBLogicalRouterStaticRoute (decodeNBLogicalRouterStaticRoute (project_row lrsrCheckColumns row)) =
     keyOfNBLogicalRouterStaticRoute (decodeNBLogicalRouterStaticRoute row) \<and>
   keyOfNBStaticMACBinding (decodeNBStaticMACBinding (project_row smbCheckColumns row)) =
     keyOfNBStaticMACBinding (decodeNBStaticMACBinding row)"
  by (simp only: pb_table.key_from_columns ch_table.key_from_columns lr_table.key_from_columns
      lrp_table.key_from_columns nat_table.key_from_columns lrsr_table.key_from_columns
      smb_table.key_from_columns simp_thms)

definition natPlain :: "nb_nat \<Rightarrow> bool" where
  "natPlain n \<longleftrightarrow> CHR 0x1F \<notin> set (nat_UUID n) \<union> set (nat_Type n) \<union> set (nat_ExternalIP n)"

lemma keyOfNBNAT_inj: "inj_on keyOfNBNAT {n. natPlain n}"
proof (rule inj_onI)
  fix a b :: nb_nat
  assume "a \<in> {n. natPlain n}" "b \<in> {n. natPlain n}" and eq: "keyOfNBNAT a = keyOfNBNAT b"
  then have "\<forall>x\<in>set [nat_UUID a, nat_Type a, nat_ExternalIP a] \<union> set [nat_UUID b, nat_Type b, nat_ExternalIP b].
      CHR 0x1F \<notin> set x" by (auto simp: natPlain_def)
  from contentKey_inj [OF _ _ this] eq
  have "[nat_UUID a, nat_Type a, nat_ExternalIP a] = [nat_UUID b, nat_Type b, nat_ExternalIP b]"
    by (simp only: keyOfNBNAT_def) blast
  then show "a = b" by simp
qed

text \<open>
  C19: whatever the monitor cache holds, a pass acts on the NAT rows the server holds. When the
  server answers, the rows \<open>cachedList\<close> returns for the NAT table are as a set the server's
  decoded rows, however many inserts or updates the monitor has dropped.
\<close>

theorem nat_rows_are_the_servers:
  assumes "serves sel ''NAT'' rows"
    and "\<forall>n \<in> set cached \<union> decodeNBNAT ` set rows. natPlain n"
  shows "\<exists>out. cachedList (Inr cached) sel ''NAT'' natCheckColumns keyOfNBNAT decodeNBNAT = Inr out \<and>
     set out = decodeNBNAT ` set rows"
proof -
  have "inj_on keyOfNBNAT (set cached \<union> decodeNBNAT ` set rows)"
    using keyOfNBNAT_inj by (rule inj_on_subset) (use assms(2) in auto)
  from nat_table.guard_exact [OF assms(1) this] show ?thesis by (simp add: cachedList_def)
qed

text \<open>A server with one floating IP, while the monitor cache missed its update.\<close>

definition demo_nat_row :: ovsdb_row where
  "demo_nat_row = [(''_uuid'', OUUID ''n1''), (''type'', OString ''snat''), (''external_ip'', OString ''192.0.2.9'')]"

definition demo_server :: selector where
  "demo_server = (\<lambda>table cols. if table = ''NAT''
     then Replies [if cols = [] then [demo_nat_row] else [project_row cols demo_nat_row]]
     else TransactErr (Err ''no such table''))"

definition stale_nat :: nb_nat where
  "stale_nat = \<lparr>nat_UUID = ''n1'', nat_Type = ''snat'', nat_ExternalIP = ''192.0.2.5''\<rparr>"

lemma nat_rows_are_the_servers_witness:
  "\<exists>out. cachedList (Inr [stale_nat]) demo_server ''NAT'' natCheckColumns keyOfNBNAT decodeNBNAT = Inr out \<and>
     set out = {\<lparr>nat_UUID = ''n1'', nat_Type = ''snat'', nat_ExternalIP = ''192.0.2.9''\<rparr>}"
  using nat_rows_are_the_servers [of demo_server "[demo_nat_row]" "[stale_nat]"]
  by (simp add: serves_def demo_server_def natPlain_def stale_nat_def demo_nat_row_def decodeNBNAT_def
      rowUUID_def rowString_def)

text \<open>
  A Port_Binding key can miss a change: two option maps that differ in a column the refresh
  reads render alike, because a value may contain the separators of the rendering.
\<close>

theorem option_maps_can_collide:
  "\<exists>p q. keyOfSBPortBinding p = keyOfSBPortBinding q \<and> pb_UUID p = pb_UUID q \<and>
     map_of (pb_Options p) ''peer'' \<noteq> map_of (pb_Options q) ''peer''"
proof -
  let ?p = "\<lparr>pb_UUID = ''u'', pb_LogicalPort = '''', pb_Type = ''patch'', pb_Chassis = None, pb_Datapath = ''d'',
    pb_Tag = None, pb_Options = [(''a'', ''x''), (''peer'', ''y'')], pb_ExternalIDs = [], pb_NatAddresses = []\<rparr>"
  let ?q = "?p\<lparr>pb_Options := [(''a'', ''x peer:y'')]\<rparr>"
  have "mapString (pb_Options ?p) = mapString (pb_Options ?q)"
    by (simp add: mapString_def)
  then have "keyOfSBPortBinding ?p = keyOfSBPortBinding ?q \<and> pb_UUID ?p = pb_UUID ?q \<and>
     map_of (pb_Options ?p) ''peer'' \<noteq> map_of (pb_Options ?q) ''peer''"
    by (simp add: keyOfSBPortBinding_def)
  then show ?thesis by blast
qed

end
