(* ===== verification/OvnJoin.thy ===== *)
theory OvnJoin
  imports OvnRows
begin

section \<open>The refresh join: from OVN rows to the local routers and their addresses\<close>

text \<open>
  The pure step helpers of \<open>refreshState\<close> in \<open>ovn.go\<close>, in the order the refresh runs
  them: chassis index, local chassisredirect ports, localnet segments, router port index, local
  routers, discovered networks and the NAT collection. Each Go loop is a fold whose body is the
  loop body, every \<open>continue\<close> a branch that returns the accumulator unchanged.
\<close>

subsection \<open>Hostnames\<close>

definition shortHostname :: "string \<Rightarrow> string" where
  "shortHostname h = takeWhile (\<lambda>c. c \<noteq> CHR ''.'') h"

definition hostnamesEqual :: "string \<Rightarrow> string \<Rightarrow> bool" where
  "hostnamesEqual a b = EqualFold (shortHostname a) (shortHostname b)"

definition chassisIndex :: "chassis list \<Rightarrow> (string \<rightharpoonup> string) \<times> string set" where
  "chassisIndex chs =
     foldl (\<lambda>(byRef, names) ch.
        (byRef(ch_UUID ch \<mapsto> ch_Hostname ch, ch_Name ch \<mapsto> ch_Hostname ch),
         insert (shortHostname (ch_Hostname ch)) names))
       (Map.empty, {}) chs"

definition lookup :: "('k \<rightharpoonup> string) \<Rightarrow> 'k \<Rightarrow> string" where
  "lookup m k = (case m k of None \<Rightarrow> '''' | Some v \<Rightarrow> v)"

subsection \<open>Local chassisredirect ports\<close>

definition crPortLRPName :: "port_binding \<Rightarrow> string" where
  "crPortLRPName pb =
     (let lrp = mget (pb_Options pb) ''distributed-port'' in
      if lrp \<noteq> '''' then lrp
      else if HasPrefix (pb_LogicalPort pb) ''cr-'' then TrimPrefix (pb_LogicalPort pb) ''cr-''
      else '''')"

definition localCRPorts ::
  "port_binding list \<Rightarrow> (string \<rightharpoonup> string) \<Rightarrow> string \<Rightarrow> string \<Rightarrow> smap" where
  "localCRPorts pbs hostnameByRef localChassisName gatewayPort =
     foldl (\<lambda>m pb.
        (case pb_Chassis pb of
           None \<Rightarrow> m
         | Some ref \<Rightarrow>
             if pb_Type pb \<noteq> ''chassisredirect'' \<or> ref = '''' then m
             else if gatewayPort \<noteq> '''' \<and> pb_LogicalPort pb \<noteq> gatewayPort then m
             else if \<not> hostnamesEqual (lookup hostnameByRef ref) localChassisName then m
             else (let lrpName = crPortLRPName pb in
                   if lrpName \<noteq> '''' then AList.update lrpName (pb_LogicalPort pb) m else m)))
       [] pbs"

subsection \<open>Localnet segments\<close>

definition segmentsByLRP :: "port_binding list \<Rightarrow> smap \<Rightarrow> (string \<rightharpoonup> localnet_segment)" where
  "segmentsByLRP pbs localLRPNames =
     (let localnetByDatapath =
        foldl (\<lambda>m pb. if pb_Type pb = ''localnet'' then m(pb_Datapath pb \<mapsto> pb) else m)
          (Map.empty :: string \<rightharpoonup> port_binding) pbs
      in foldl (\<lambda>m pb.
          if pb_Type pb \<noteq> ''patch'' then m
          else (let peer = mget (pb_Options pb) ''peer'' in
            if peer = '''' then m
            else if map_of localLRPNames peer = None then m
            else (case localnetByDatapath (pb_Datapath pb) of
                    None \<Rightarrow> m
                  | Some ln \<Rightarrow> m(peer \<mapsto>
                      \<lparr>seg_LocalnetPort = pb_LogicalPort ln,
                       seg_NetworkName = mget (pb_Options ln) ''network_name'',
                       seg_VLANTag = pb_Tag ln\<rparr>))))
        Map.empty pbs)"

subsection \<open>Router ports and routers\<close>

record lrp_index =
  byName :: "string \<rightharpoonup> nb_lrp"
  byUUID :: "string \<rightharpoonup> nb_lrp"

definition indexLRPs :: "nb_lrp list \<Rightarrow> lrp_index" where
  "indexLRPs lrps =
     foldl (\<lambda>idx lrp. idx\<lparr>byName := (byName idx)(lrp_Name lrp \<mapsto> lrp),
                          byUUID := (byUUID idx)(lrp_UUID lrp \<mapsto> lrp)\<rparr>)
       \<lparr>byName = Map.empty, byUUID = Map.empty\<rparr> lrps"

definition localLRPUUIDSet :: "smap \<Rightarrow> lrp_index \<Rightarrow> string set" where
  "localLRPUUIDSet localLRPNames idx =
     foldl (\<lambda>s (lrpName, _).
        (case byName idx lrpName of None \<Rightarrow> s | Some lrp \<Rightarrow> insert (lrp_UUID lrp) s))
       {} localLRPNames"

text \<open>
  The zero \<open>NBLogicalRouterPort\<close>, which Go's \<open>idx.byUUID[portUUID]\<close> yields for a missing
  key. A port UUID in \<open>localLRPUUIDs\<close> is always in \<open>byUUID\<close>, since both are built from the
  same rows.
\<close>

definition zero_lrp :: nb_lrp where
  "zero_lrp = \<lparr>lrp_UUID = '''', lrp_Name = '''', lrp_MAC = '''', lrp_Networks = [], lrp_GatewayChassis = []\<rparr>"

definition matchedLRP :: "nb_router \<Rightarrow> lrp_index \<Rightarrow> string set \<Rightarrow> nb_lrp option" where
  "matchedLRP router idx localLRPUUIDs =
     (case find (\<lambda>u. u \<in> localLRPUUIDs) (lr_Ports router) of
        None \<Rightarrow> None
      | Some u \<Rightarrow> Some (case byUUID idx u of None \<Rightarrow> zero_lrp | Some lrp \<Rightarrow> lrp))"

record router_join =
  rj_routers :: "local_router list"
  rj_natMAC :: "string \<rightharpoonup> string"
  rj_natSegment :: "string \<rightharpoonup> string"

definition collectLocalRouters ::
  "nb_router list \<Rightarrow> lrp_index \<Rightarrow> string set \<Rightarrow> smap \<Rightarrow> (string \<rightharpoonup> localnet_segment) \<Rightarrow> router_join" where
  "collectLocalRouters routers idx localLRPUUIDs localLRPNames segmentByLRP =
     foldl (\<lambda>j router.
        (case matchedLRP router idx localLRPUUIDs of
           None \<Rightarrow> j
         | Some lrp \<Rightarrow>
            (let segment = segmentByLRP (lrp_Name lrp);
                 j1 = j\<lparr>rj_routers := rj_routers j @
                   [\<lparr>lri_RouterName = lr_Name router, lri_RouterUUID = lr_UUID router,
                     lri_LRPName = lrp_Name lrp, lri_LRPUUID = lrp_UUID lrp, lri_LRPMAC = lrp_MAC lrp,
                     lri_LRPNetworks = lrp_Networks lrp,
                     lri_CRPort = mget localLRPNames (lrp_Name lrp),
                     lri_Segment = segment,
                     lri_GatewayChassisUUIDs = lrp_GatewayChassis lrp\<rparr>]\<rparr>
             in foldl (\<lambda>j natUUID.
                  (let j' = (if lrp_MAC lrp \<noteq> ''''
                             then j\<lparr>rj_natMAC := (rj_natMAC j)(natUUID \<mapsto> lrp_MAC lrp)\<rparr> else j)
                   in case segment of
                        None \<Rightarrow> j'
                      | Some seg \<Rightarrow> j'\<lparr>rj_natSegment := (rj_natSegment j')(natUUID \<mapsto> seg_LocalnetPort seg)\<rparr>))
                j1 (lr_Nat router))))
       \<lparr>rj_routers = [], rj_natMAC = Map.empty, rj_natSegment = Map.empty\<rparr> routers"

subsection \<open>Networks and filters\<close>

definition uniqueNetworks :: "ipnet list \<Rightarrow> ipnet list" where
  "uniqueNetworks nets = sort_key NetString (uniq_by NetString [] nets)"

definition discoverLRPNetworks :: "local_router list \<Rightarrow> ipnet list" where
  "discoverLRPNetworks localRouters =
     uniqueNetworks
       (foldl (\<lambda>acc lr. foldl (\<lambda>acc ns. (case ParseCIDR ns of None \<Rightarrow> acc | Some (_, cidr) \<Rightarrow> acc @ [cidr]))
                 acc (lri_LRPNetworks lr))
          [] localRouters)"

definition effectiveNetworkFilters :: "ipnet list \<Rightarrow> ipnet list \<Rightarrow> ipnet list" where
  "effectiveNetworkFilters manual discovered = (if manual \<noteq> [] then manual else discovered)"

definition containedInAny :: "netip \<Rightarrow> ipnet list \<Rightarrow> bool" where
  "containedInAny ip nets = list_ex (\<lambda>n. NetContains n ip) nets"

subsection \<open>NAT collection\<close>

record nat_collection =
  nc_FIPCount :: nat
  nc_SNATIPs :: "string list"
  nc_IPToRouterMAC :: smap
  nc_IPToSegment :: smap

definition newNATCollection :: nat_collection where
  "newNATCollection = \<lparr>nc_FIPCount = 0, nc_SNATIPs = [], nc_IPToRouterMAC = [], nc_IPToSegment = []\<rparr>"

definition addNBNATs ::
  "nat_collection \<Rightarrow> nb_nat list \<Rightarrow> (string \<rightharpoonup> string) \<Rightarrow> (string \<rightharpoonup> string) \<Rightarrow> ipnet list \<Rightarrow> nat_collection" where
  "addNBNATs nc0 nats natMAC natSegment filters =
     foldl (\<lambda>nc n.
        (case natMAC (nat_UUID n) of
           None \<Rightarrow> nc
         | Some routerMAC \<Rightarrow>
            (let ip = nat_ExternalIP n in
             case ParseIP ip of
               None \<Rightarrow> nc
             | Some parsedIP \<Rightarrow>
                 if filters \<noteq> [] \<and> \<not> containedInAny parsedIP filters then nc
                 else
                  (let nc1 = nc\<lparr>nc_IPToRouterMAC := AList.update ip routerMAC (nc_IPToRouterMAC nc)\<rparr>;
                       nc2 = (case natSegment (nat_UUID n) of
                                None \<Rightarrow> nc1
                              | Some seg \<Rightarrow> nc1\<lparr>nc_IPToSegment := AList.update ip seg (nc_IPToSegment nc1)\<rparr>)
                   in if nat_Type n = ''dnat_and_snat'' then nc2\<lparr>nc_FIPCount := Suc (nc_FIPCount nc2)\<rparr>
                      else if nat_Type n = ''snat'' \<and> To4 parsedIP \<noteq> None
                      then nc2\<lparr>nc_SNATIPs := nc_SNATIPs nc2 @ [ip]\<rparr>
                      else nc2))))
       nc0 nats"

definition parseNatAddressIPs :: "string \<Rightarrow> string list" where
  "parseNatAddressIPs natAddr =
     (let fields = Fields natAddr in
      if length fields < 2 then []
      else filter (\<lambda>f. ParseIP f \<noteq> None)
             (takeWhile (\<lambda>f. \<not> HasPrefix f ''is_chassis_resident'') (tl fields)))"

text \<open>The body of the innermost loop of \<open>addSBGatewayNATAddresses\<close>, for one address.\<close>

definition addSBAddress ::
  "string \<Rightarrow> localnet_segment option \<Rightarrow> ipnet list \<Rightarrow> nat_collection \<Rightarrow> string \<Rightarrow> nat_collection" where
  "addSBAddress routerMAC seg filters nc ip =
     (case ParseIP ip of
        None \<Rightarrow> nc
      | Some parsedIP \<Rightarrow>
          if filters \<noteq> [] \<and> \<not> containedInAny parsedIP filters then nc
          else
           (let nc1 = (if To4 parsedIP \<noteq> None then nc\<lparr>nc_SNATIPs := nc_SNATIPs nc @ [ip]\<rparr> else nc);
                nc2 = (if routerMAC \<noteq> '''' then nc1\<lparr>nc_IPToRouterMAC := AList.update ip routerMAC (nc_IPToRouterMAC nc1)\<rparr>
                       else nc1)
            in case seg of
                 None \<Rightarrow> nc2
               | Some s \<Rightarrow> nc2\<lparr>nc_IPToSegment := AList.update ip (seg_LocalnetPort s) (nc_IPToSegment nc2)\<rparr>))"

definition addSBGatewayNATAddresses ::
  "nat_collection \<Rightarrow> port_binding list \<Rightarrow> smap \<Rightarrow> lrp_index \<Rightarrow> (string \<rightharpoonup> localnet_segment) \<Rightarrow> ipnet list \<Rightarrow> nat_collection" where
  "addSBGatewayNATAddresses nc0 pbs localLRPNames idx segmentByLRP filters =
     foldl (\<lambda>nc pb.
        if pb_Type pb \<noteq> ''patch'' then nc
        else (let peer = mget (pb_Options pb) ''peer'' in
          if peer = '''' then nc
          else if map_of localLRPNames peer = None then nc
          else if mget (pb_ExternalIDs pb) ''neutron:device_owner'' \<noteq> ''network:router_gateway'' then nc
          else (let routerMAC = (case byName idx peer of None \<Rightarrow> '''' | Some lrp \<Rightarrow> lrp_MAC lrp) in
            foldl (\<lambda>nc natAddr.
                foldl (addSBAddress routerMAC (segmentByLRP peer) filters) nc (parseNatAddressIPs natAddr))
              nc (pb_NatAddresses pb))))
       nc0 pbs"

subsection \<open>What the joins compute\<close>

text \<open>
  A chassisredirect port counts as bound here when its chassis reference resolves to a hostname
  with the local leading label, and \<open>gateway_port\<close>, if configured, names it.
\<close>

definition boundHere :: "(string \<rightharpoonup> string) \<Rightarrow> string \<Rightarrow> string \<Rightarrow> port_binding \<Rightarrow> bool" where
  "boundHere hostnameByRef localChassisName gatewayPort pb \<longleftrightarrow>
     pb_Type pb = ''chassisredirect'' \<and>
     (case pb_Chassis pb of None \<Rightarrow> False
      | Some ref \<Rightarrow> ref \<noteq> '''' \<and> hostnamesEqual (lookup hostnameByRef ref) localChassisName) \<and>
     (gatewayPort = '''' \<or> pb_LogicalPort pb = gatewayPort)"

lemma localCRPorts_body:
  "localCRPorts pbs h l g =
     foldl (\<lambda>m pb. if boundHere h l g pb \<and> crPortLRPName pb \<noteq> ''''
                   then AList.update (crPortLRPName pb) (pb_LogicalPort pb) m else m) [] pbs"
proof -
  have "(\<lambda>m pb.
        (case pb_Chassis pb of
           None \<Rightarrow> m
         | Some ref \<Rightarrow>
             if pb_Type pb \<noteq> ''chassisredirect'' \<or> ref = '''' then m
             else if g \<noteq> '''' \<and> pb_LogicalPort pb \<noteq> g then m
             else if \<not> hostnamesEqual (lookup h ref) l then m
             else (let lrpName = crPortLRPName pb in
                   if lrpName \<noteq> '''' then AList.update lrpName (pb_LogicalPort pb) m else m))) =
     (\<lambda>m pb. if boundHere h l g pb \<and> crPortLRPName pb \<noteq> ''''
                   then AList.update (crPortLRPName pb) (pb_LogicalPort pb) m else m)"
    by (auto simp: boundHere_def fun_eq_iff Let_def split: option.splits)
  then show ?thesis by (simp only: localCRPorts_def)
qed

lemma localCRPorts_names:
  "fst ` set (localCRPorts pbs h l g) = {crPortLRPName pb | pb. pb \<in> set pbs \<and> boundHere h l g pb} - {''''}"
proof -
  have "fst ` set (localCRPorts pbs h l g) = fst ` set ([] :: smap) \<union>
      (\<Union>pb\<in>set pbs. if boundHere h l g pb \<and> crPortLRPName pb \<noteq> '''' then {crPortLRPName pb} else {})"
    unfolding localCRPorts_body by (rule foldl_collect) simp
  then show ?thesis by (auto split: if_splits)
qed

lemma localCRPorts_distinct: "distinct (map fst (localCRPorts pbs h l g))"
  unfolding localCRPorts_body by (rule foldl_invariant) simp_all

lemma localCRPorts_SomeD:
  assumes "map_of (localCRPorts pbs h l g) n = Some port"
  shows "\<exists>pb\<in>set pbs. boundHere h l g pb \<and> crPortLRPName pb = n \<and> pb_LogicalPort pb = port"
proof -
  let ?P = "\<lambda>m. \<forall>n port. map_of m n = Some port \<longrightarrow>
    (\<exists>pb\<in>set pbs. boundHere h l g pb \<and> crPortLRPName pb = n \<and> pb_LogicalPort pb = port)"
  have "?P (localCRPorts pbs h l g)"
    unfolding localCRPorts_body by (rule foldl_invariant) (auto split: if_splits)
  with assms show ?thesis by blast
qed

lemma indexLRPs_maps:
  "byName (indexLRPs lrps) = map_of (rev (map (\<lambda>l. (lrp_Name l, l)) lrps))"
  "byUUID (indexLRPs lrps) = map_of (rev (map (\<lambda>l. (lrp_UUID l, l)) lrps))"
  unfolding indexLRPs_def by (induction lrps rule: rev_induct) simp_all

lemma byName_SomeD:
  "byName (indexLRPs lrps) n = Some l \<Longrightarrow> l \<in> set lrps \<and> lrp_Name l = n"
  by (auto simp: indexLRPs_maps dest!: map_of_rev_SomeD)

lemma byUUID_SomeD:
  "byUUID (indexLRPs lrps) u = Some l \<Longrightarrow> l \<in> set lrps \<and> lrp_UUID l = u"
  by (auto simp: indexLRPs_maps dest!: map_of_rev_SomeD)

lemma byUUID_complete:
  assumes "l \<in> set lrps" and "distinct (map lrp_UUID lrps)"
  shows "byUUID (indexLRPs lrps) (lrp_UUID l) = Some l"
proof -
  have "distinct (map fst (rev (map (\<lambda>l. (lrp_UUID l, l)) lrps)))"
    using assms(2) by (simp add: rev_map [symmetric] comp_def)
  then show ?thesis using assms(1) by (auto simp: indexLRPs_maps intro!: map_of_is_SomeI)
qed

lemma localLRPUUIDSet_eq:
  "localLRPUUIDSet names idx = {lrp_UUID l | n l. n \<in> fst ` set names \<and> byName idx n = Some l}"
proof -
  have "localLRPUUIDSet names idx =
      {} \<union> (\<Union>x\<in>set names. case byName idx (fst x) of None \<Rightarrow> {} | Some l \<Rightarrow> {lrp_UUID l})"
    unfolding localLRPUUIDSet_def
    by (rule foldl_collect [where g = "\<lambda>s. s"]) (auto split: option.splits)
  then show ?thesis by (force split: option.splits)
qed

lemma matchedLRP_SomeD:
  assumes "matchedLRP router (indexLRPs lrps) (localLRPUUIDSet names (indexLRPs lrps)) = Some l"
    and "distinct (map lrp_UUID lrps)"
  shows "l \<in> set lrps \<and> lrp_Name l \<in> fst ` set names \<and> lrp_UUID l \<in> set (lr_Ports router)"
proof -
  let ?idx = "indexLRPs lrps"
  obtain u where u: "find (\<lambda>u. u \<in> localLRPUUIDSet names ?idx) (lr_Ports router) = Some u"
    and l: "l = (case byUUID ?idx u of None \<Rightarrow> zero_lrp | Some lrp \<Rightarrow> lrp)"
    using assms(1) by (auto simp: matchedLRP_def split: option.splits)
  from u have uin: "u \<in> localLRPUUIDSet names ?idx" and up: "u \<in> set (lr_Ports router)"
    by (auto simp: find_Some_iff)
  from uin obtain n l' where n: "n \<in> fst ` set names" and l': "byName ?idx n = Some l'"
    and u': "u = lrp_UUID l'" by (auto simp: localLRPUUIDSet_eq)
  from byName_SomeD [OF l'] have m: "l' \<in> set lrps" "lrp_Name l' = n" by auto
  then have "l = l'" using l u' byUUID_complete [OF m(1) assms(2)] by simp
  with m n up u' show ?thesis by simp
qed

subsection \<open>Which NAT rows and addresses survive\<close>

lemma collectLocalRouters_routers:
  "rj_routers (collectLocalRouters routers idx uuids names segs) =
     concat (map (\<lambda>router. case matchedLRP router idx uuids of None \<Rightarrow> []
       | Some lrp \<Rightarrow> [\<lparr>lri_RouterName = lr_Name router, lri_RouterUUID = lr_UUID router,
           lri_LRPName = lrp_Name lrp, lri_LRPUUID = lrp_UUID lrp, lri_LRPMAC = lrp_MAC lrp,
           lri_LRPNetworks = lrp_Networks lrp, lri_CRPort = mget names (lrp_Name lrp),
           lri_Segment = segs (lrp_Name lrp), lri_GatewayChassisUUIDs = lrp_GatewayChassis lrp\<rparr>])
       routers)"
  (is "_ = concat (map ?h routers)")
proof -
  have "rj_routers (collectLocalRouters routers idx uuids names segs) = [] @ concat (map ?h routers)"
    unfolding collectLocalRouters_def
    by (subst foldl_concat [where g = rj_routers and h = ?h])
       (auto simp: Let_def foldl_same [where g = rj_routers] split: option.splits)
  then show ?thesis by simp
qed

lemma collectLocalRouters_natMAC_dom:
  "dom (rj_natMAC (collectLocalRouters routers idx uuids names segs)) =
     {n. \<exists>router\<in>set routers. \<exists>lrp. matchedLRP router idx uuids = Some lrp \<and> lrp_MAC lrp \<noteq> '''' \<and>
        n \<in> set (lr_Nat router)}"
proof -
  let ?h = "\<lambda>router. case matchedLRP router idx uuids of None \<Rightarrow> {}
    | Some lrp \<Rightarrow> if lrp_MAC lrp \<noteq> '''' then set (lr_Nat router) else {}"
  let ?c = "collectLocalRouters routers idx uuids names segs"
  have nat_loop: "dom (rj_natMAC (foldl (\<lambda>j natUUID.
                  (let j' = (if lrp_MAC lrp \<noteq> ''''
                             then j\<lparr>rj_natMAC := (rj_natMAC j)(natUUID \<mapsto> lrp_MAC lrp)\<rparr> else j)
                   in case segment of
                        None \<Rightarrow> j'
                      | Some seg \<Rightarrow> j'\<lparr>rj_natSegment := (rj_natSegment j')(natUUID \<mapsto> seg_LocalnetPort seg)\<rparr>))
                j ns)) = dom (rj_natMAC j) \<union> (if lrp_MAC lrp \<noteq> '''' then set ns else {})"
    for j :: router_join and ns lrp and segment :: "localnet_segment option"
    by (subst foldl_collect [where g = "\<lambda>j. dom (rj_natMAC j)" and
          h = "\<lambda>n. if lrp_MAC lrp \<noteq> '''' then {n} else {}"])
       (auto simp: Let_def split: option.splits if_splits)
  have "dom (rj_natMAC ?c) = {} \<union> (\<Union>router\<in>set routers. ?h router)"
    unfolding collectLocalRouters_def
    by (subst foldl_collect [where g = "\<lambda>j. dom (rj_natMAC j)" and h = ?h])
       (simp_all add: nat_loop [unfolded Let_def] Let_def split: option.splits)
  then show ?thesis by (fastforce split: option.splits if_splits)
qed

definition natKept :: "ipnet list \<Rightarrow> string \<Rightarrow> bool" where
  "natKept filters ip = (case ParseIP ip of None \<Rightarrow> False | Some p \<Rightarrow> filters = [] \<or> containedInAny p filters)"

definition isIPv4 :: "string \<Rightarrow> bool" where
  "isIPv4 ip = (case ParseIP ip of None \<Rightarrow> False | Some p \<Rightarrow> To4 p \<noteq> None)"

lemma addNBNATs_keys:
  "fst ` set (nc_IPToRouterMAC (addNBNATs nc nats natMAC natSegment filters)) =
     fst ` set (nc_IPToRouterMAC nc) \<union>
     {nat_ExternalIP n | n. n \<in> set nats \<and> nat_UUID n \<in> dom natMAC \<and> natKept filters (nat_ExternalIP n)}"
proof -
  let ?h = "\<lambda>n. if nat_UUID n \<in> dom natMAC \<and> natKept filters (nat_ExternalIP n)
    then {nat_ExternalIP n} else {}"
  have "fst ` set (nc_IPToRouterMAC (addNBNATs nc nats natMAC natSegment filters)) =
     fst ` set (nc_IPToRouterMAC nc) \<union> (\<Union>n\<in>set nats. ?h n)"
    unfolding addNBNATs_def
    by (rule foldl_collect [where g = "\<lambda>nc. fst ` set (nc_IPToRouterMAC nc)"])
       (auto simp: Let_def natKept_def split: option.splits)
  then show ?thesis by (auto split: if_splits)
qed

lemma addNBNATs_SNAT:
  "set (nc_SNATIPs (addNBNATs nc nats natMAC natSegment filters)) =
     set (nc_SNATIPs nc) \<union>
     {nat_ExternalIP n | n. n \<in> set nats \<and> nat_Type n = ''snat'' \<and> nat_UUID n \<in> dom natMAC \<and>
        natKept filters (nat_ExternalIP n) \<and> isIPv4 (nat_ExternalIP n)}"
proof -
  let ?h = "\<lambda>n. if nat_Type n = ''snat'' \<and> nat_UUID n \<in> dom natMAC \<and>
      natKept filters (nat_ExternalIP n) \<and> isIPv4 (nat_ExternalIP n) then {nat_ExternalIP n} else {}"
  have "set (nc_SNATIPs (addNBNATs nc nats natMAC natSegment filters)) =
     set (nc_SNATIPs nc) \<union> (\<Union>n\<in>set nats. ?h n)"
    unfolding addNBNATs_def
    by (rule foldl_collect [where g = "\<lambda>nc. set (nc_SNATIPs nc)"])
       (auto simp: Let_def natKept_def isIPv4_def split: option.splits)
  then show ?thesis by (auto split: if_splits)
qed

lemma addSBAddress_keys:
  "fst ` set (nc_IPToRouterMAC (addSBAddress mac seg filters nc ip)) =
     fst ` set (nc_IPToRouterMAC nc) \<union> (if mac \<noteq> '''' \<and> natKept filters ip then {ip} else {})"
  "set (nc_SNATIPs (addSBAddress mac seg filters nc ip)) =
     set (nc_SNATIPs nc) \<union> (if natKept filters ip \<and> isIPv4 ip then {ip} else {})"
  by (auto simp: addSBAddress_def natKept_def isIPv4_def Let_def split: option.splits)

text \<open>The switch-side patch rows of the locally bound router gateway ports.\<close>

definition gatewayPatch :: "smap \<Rightarrow> port_binding \<Rightarrow> bool" where
  "gatewayPatch names pb \<longleftrightarrow> pb_Type pb = ''patch'' \<and> mget (pb_Options pb) ''peer'' \<noteq> '''' \<and>
     mget (pb_Options pb) ''peer'' \<in> fst ` set names \<and>
     mget (pb_ExternalIDs pb) ''neutron:device_owner'' = ''network:router_gateway''"

definition patchMAC :: "lrp_index \<Rightarrow> port_binding \<Rightarrow> string" where
  "patchMAC idx pb = (case byName idx (mget (pb_Options pb) ''peer'') of None \<Rightarrow> '''' | Some l \<Rightarrow> lrp_MAC l)"

lemma addSBGatewayNATAddresses_body:
  "addSBGatewayNATAddresses nc pbs names idx segs filters =
     foldl (\<lambda>nc pb. if gatewayPatch names pb
        then foldl (addSBAddress (patchMAC idx pb) (segs (mget (pb_Options pb) ''peer'')) filters) nc
               (concat (map parseNatAddressIPs (pb_NatAddresses pb)))
        else nc) nc pbs"
proof -
  have inner: "foldl (\<lambda>nc a. foldl f nc (g a)) nc xs = foldl f nc (concat (map g xs))" for f g nc xs
    by (induction xs arbitrary: nc) auto
  have body: "(\<lambda>nc pb.
        if pb_Type pb \<noteq> ''patch'' then nc
        else (let peer = mget (pb_Options pb) ''peer'' in
          if peer = '''' then nc
          else if map_of names peer = None then nc
          else if mget (pb_ExternalIDs pb) ''neutron:device_owner'' \<noteq> ''network:router_gateway'' then nc
          else (let routerMAC = (case byName idx peer of None \<Rightarrow> '''' | Some lrp \<Rightarrow> lrp_MAC lrp) in
            foldl (\<lambda>nc natAddr.
                foldl (addSBAddress routerMAC (segs peer) filters) nc (parseNatAddressIPs natAddr))
              nc (pb_NatAddresses pb)))) =
     (\<lambda>nc pb. if gatewayPatch names pb
        then foldl (addSBAddress (patchMAC idx pb) (segs (mget (pb_Options pb) ''peer'')) filters) nc
               (concat (map parseNatAddressIPs (pb_NatAddresses pb)))
        else nc)"
    by (intro ext) (simp add: gatewayPatch_def patchMAC_def Let_def inner map_of_eq_None_iff)
  show ?thesis by (simp only: addSBGatewayNATAddresses_def body)
qed

lemma addSBGatewayNATAddresses_keys:
  "fst ` set (nc_IPToRouterMAC (addSBGatewayNATAddresses nc pbs names idx segs filters)) =
     fst ` set (nc_IPToRouterMAC nc) \<union>
     {ip. \<exists>pb\<in>set pbs. gatewayPatch names pb \<and> patchMAC idx pb \<noteq> '''' \<and> natKept filters ip \<and>
        (\<exists>a\<in>set (pb_NatAddresses pb). ip \<in> set (parseNatAddressIPs a))}"
proof -
  let ?h = "\<lambda>pb. if gatewayPatch names pb \<and> patchMAC idx pb \<noteq> ''''
    then {ip. natKept filters ip \<and> (\<exists>a\<in>set (pb_NatAddresses pb). ip \<in> set (parseNatAddressIPs a))} else {}"
  have "fst ` set (nc_IPToRouterMAC (addSBGatewayNATAddresses nc pbs names idx segs filters)) =
     fst ` set (nc_IPToRouterMAC nc) \<union> (\<Union>pb\<in>set pbs. ?h pb)"
    unfolding addSBGatewayNATAddresses_body
    by (rule foldl_collect [where g = "\<lambda>nc. fst ` set (nc_IPToRouterMAC nc)"])
       (simp add: foldl_collect [where g = "\<lambda>nc. fst ` set (nc_IPToRouterMAC nc)", OF addSBAddress_keys(1)],
        auto split: if_splits)
  then show ?thesis by (auto split: if_splits)
qed

lemma addSBGatewayNATAddresses_SNAT:
  "set (nc_SNATIPs (addSBGatewayNATAddresses nc pbs names idx segs filters)) =
     set (nc_SNATIPs nc) \<union>
     {ip. \<exists>pb\<in>set pbs. gatewayPatch names pb \<and> natKept filters ip \<and> isIPv4 ip \<and>
        (\<exists>a\<in>set (pb_NatAddresses pb). ip \<in> set (parseNatAddressIPs a))}"
proof -
  let ?h = "\<lambda>pb. if gatewayPatch names pb
    then {ip. natKept filters ip \<and> isIPv4 ip \<and> (\<exists>a\<in>set (pb_NatAddresses pb). ip \<in> set (parseNatAddressIPs a))} else {}"
  have "set (nc_SNATIPs (addSBGatewayNATAddresses nc pbs names idx segs filters)) =
     set (nc_SNATIPs nc) \<union> (\<Union>pb\<in>set pbs. ?h pb)"
    unfolding addSBGatewayNATAddresses_body
    by (rule foldl_collect [where g = "\<lambda>nc. set (nc_SNATIPs nc)"])
       (simp add: foldl_collect [where g = "\<lambda>nc. set (nc_SNATIPs nc)", OF addSBAddress_keys(2)],
        auto split: if_splits)
  then show ?thesis by (auto split: if_splits)
qed

end
