(* ===== verification/OvnRefresh.thy ===== *)
theory OvnRefresh
  imports OvnCache OvnJoin
begin

section \<open>One refresh pass\<close>

text \<open>
  \<open>refreshState\<close> in \<open>ovn.go\<close>: the five tables are read through the cache guard, joined by
  the helpers of \<open>OvnJoin\<close>, and the result replaces the live state. A read that fails ends the
  pass and leaves the live state as it was. The two databases are parameters: what the monitor
  cache lists for each table, and what a select returns.
\<close>

record ovn_view =
  v_PortBindings :: "port_binding list result"
  v_Chassis :: "chassis list result"
  v_LRPs :: "nb_lrp list result"
  v_Routers :: "nb_router list result"
  v_NATs :: "nb_nat list result"
  v_sbSelect :: selector
  v_nbSelect :: selector

record ovn_config =
  oc_GatewayPort :: string
  oc_NetworkFilters :: "ipnet list"

text \<open>Steps 1 to 6 on the rows of the five tables.\<close>

definition deriveState ::
  "ovn_config \<Rightarrow> string \<Rightarrow> nat \<Rightarrow> port_binding list \<Rightarrow> chassis list \<Rightarrow> nb_lrp list \<Rightarrow> nb_router list \<Rightarrow>
   nb_nat list \<Rightarrow> ovn_state" where
  "deriveState cfg localName seq pbs chs lrps routers nats =
     (let (hostnameByRef, allChassisNames) = chassisIndex chs;
          localLRPNames = localCRPorts pbs hostnameByRef localName (oc_GatewayPort cfg);
          segmentByLRP = segmentsByLRP pbs localLRPNames;
          idx = indexLRPs lrps;
          localLRPUUIDs = localLRPUUIDSet localLRPNames idx;
          join = collectLocalRouters routers idx localLRPUUIDs localLRPNames segmentByLRP;
          discoveredNets = discoverLRPNetworks (rj_routers join);
          effectiveFilters = effectiveNetworkFilters (oc_NetworkFilters cfg) discoveredNets;
          nc1 = addNBNATs newNATCollection nats (rj_natMAC join) (rj_natSegment join) effectiveFilters;
          nc2 = addSBGatewayNATAddresses nc1 pbs localLRPNames idx segmentByLRP effectiveFilters
      in \<lparr>st_LocalChassisName = '''', st_LocalRouters = rj_routers join,
          st_HasLocalRouters = (rj_routers join \<noteq> []), st_SNATIPs = nc_SNATIPs nc2,
          st_NATIPToRouterMAC = nc_IPToRouterMAC nc2, st_NATIPToSegment = nc_IPToSegment nc2,
          st_DiscoveredNetworks = discoveredNets, st_AllChassisNames = allChassisNames, st_Gen = seq\<rparr>)"

definition refreshState :: "ovn_config \<Rightarrow> ovn_view \<Rightarrow> nat \<Rightarrow> ovn_state \<Rightarrow> ovn_state" where
  "refreshState cfg v seq st =
     (case cachedList (v_PortBindings v) (v_sbSelect v) ''Port_Binding'' pbCheckColumns keyOfSBPortBinding decodeSBPortBinding of
        Inl _ \<Rightarrow> st
      | Inr pbs \<Rightarrow>
     (case cachedList (v_Chassis v) (v_sbSelect v) ''Chassis'' chCheckColumns keyOfSBChassis decodeSBChassis of
        Inl _ \<Rightarrow> st
      | Inr chs \<Rightarrow>
     (case cachedList (v_LRPs v) (v_nbSelect v) ''Logical_Router_Port'' lrpCheckColumns keyOfNBLogicalRouterPort decodeNBLogicalRouterPort of
        Inl _ \<Rightarrow> st
      | Inr lrps \<Rightarrow>
     (case cachedList (v_Routers v) (v_nbSelect v) ''Logical_Router'' lrCheckColumns keyOfNBLogicalRouter decodeNBLogicalRouter of
        Inl _ \<Rightarrow> st
      | Inr routers \<Rightarrow>
     (case cachedList (v_NATs v) (v_nbSelect v) ''NAT'' natCheckColumns keyOfNBNAT decodeNBNAT of
        Inl _ \<Rightarrow> st
      | Inr nats \<Rightarrow>
          Replace st (deriveState cfg (LocalChassisName st) seq pbs chs lrps routers nats))))))"

subsection \<open>The pieces of a pass, named\<close>

definition localPorts :: "ovn_config \<Rightarrow> string \<Rightarrow> port_binding list \<Rightarrow> chassis list \<Rightarrow> smap" where
  "localPorts cfg name pbs chs = localCRPorts pbs (fst (chassisIndex chs)) name (oc_GatewayPort cfg)"

definition effFilters ::
  "ovn_config \<Rightarrow> string \<Rightarrow> port_binding list \<Rightarrow> chassis list \<Rightarrow> nb_lrp list \<Rightarrow> nb_router list \<Rightarrow> ipnet list" where
  "effFilters cfg name pbs chs lrps routers =
     effectiveNetworkFilters (oc_NetworkFilters cfg)
       (st_DiscoveredNetworks (deriveState cfg name 0 pbs chs lrps routers []))"

text \<open>The port that makes a router local, \<open>None\<close> when it has no locally bound gateway port.\<close>

definition activeLRP ::
  "ovn_config \<Rightarrow> string \<Rightarrow> port_binding list \<Rightarrow> chassis list \<Rightarrow> nb_lrp list \<Rightarrow> nb_router \<Rightarrow> nb_lrp option" where
  "activeLRP cfg name pbs chs lrps router =
     matchedLRP router (indexLRPs lrps) (localLRPUUIDSet (localPorts cfg name pbs chs) (indexLRPs lrps))"

text \<open>
  The two ways an external address becomes local: a NAT row of a local router whose port has a
  MAC, or an address in the \<open>nat_addresses\<close> of a local router gateway's patch port.
\<close>

definition nbLocalIP ::
  "ovn_config \<Rightarrow> string \<Rightarrow> port_binding list \<Rightarrow> chassis list \<Rightarrow> nb_lrp list \<Rightarrow> nb_router list \<Rightarrow> nb_nat list \<Rightarrow> string \<Rightarrow> bool" where
  "nbLocalIP cfg name pbs chs lrps routers nats ip \<longleftrightarrow>
     (\<exists>n\<in>set nats. nat_ExternalIP n = ip \<and>
        (\<exists>router\<in>set routers. nat_UUID n \<in> set (lr_Nat router) \<and>
           (\<exists>lrp. activeLRP cfg name pbs chs lrps router = Some lrp \<and> lrp_MAC lrp \<noteq> '''')))"

definition sbLocalIP ::
  "ovn_config \<Rightarrow> string \<Rightarrow> port_binding list \<Rightarrow> chassis list \<Rightarrow> nb_lrp list \<Rightarrow> string \<Rightarrow> bool" where
  "sbLocalIP cfg name pbs chs lrps ip \<longleftrightarrow>
     (\<exists>pb\<in>set pbs. gatewayPatch (localPorts cfg name pbs chs) pb \<and> patchMAC (indexLRPs lrps) pb \<noteq> '''' \<and>
        (\<exists>a\<in>set (pb_NatAddresses pb). ip \<in> set (parseNatAddressIPs a)))"

lemma deriveState_NAT_keys:
  "fst ` set (st_NATIPToRouterMAC (deriveState cfg name seq pbs chs lrps routers nats)) =
     {ip. natKept (effFilters cfg name pbs chs lrps routers) ip \<and>
        (nbLocalIP cfg name pbs chs lrps routers nats ip \<or> sbLocalIP cfg name pbs chs lrps ip)}"
proof -
  obtain h a where ci: "chassisIndex chs = (h, a)" by fastforce
  show ?thesis
    by (auto simp: deriveState_def ci Let_def addSBGatewayNATAddresses_keys addNBNATs_keys newNATCollection_def
        effFilters_def nbLocalIP_def sbLocalIP_def activeLRP_def localPorts_def collectLocalRouters_natMAC_dom)
qed

lemma deriveState_routers:
  "st_LocalRouters (deriveState cfg name seq pbs chs lrps routers nats) =
     concat (map (\<lambda>router. case activeLRP cfg name pbs chs lrps router of None \<Rightarrow> []
       | Some lrp \<Rightarrow> [\<lparr>lri_RouterName = lr_Name router, lri_RouterUUID = lr_UUID router,
           lri_LRPName = lrp_Name lrp, lri_LRPUUID = lrp_UUID lrp, lri_LRPMAC = lrp_MAC lrp,
           lri_LRPNetworks = lrp_Networks lrp,
           lri_CRPort = mget (localPorts cfg name pbs chs) (lrp_Name lrp),
           lri_Segment = segmentsByLRP pbs (localPorts cfg name pbs chs) (lrp_Name lrp),
           lri_GatewayChassisUUIDs = lrp_GatewayChassis lrp\<rparr>])
       routers)"
proof -
  obtain h a where ci: "chassisIndex chs = (h, a)" by fastforce
  show ?thesis
    by (simp add: deriveState_def ci Let_def collectLocalRouters_routers activeLRP_def localPorts_def cong: option.case_cong)
qed

lemma deriveState_SNAT:
  "set (st_SNATIPs (deriveState cfg name seq pbs chs lrps routers nats)) \<subseteq>
     {ip. isIPv4 ip \<and> natKept (effFilters cfg name pbs chs lrps routers) ip}"
proof -
  obtain h a where ci: "chassisIndex chs = (h, a)" by fastforce
  show ?thesis
    by (auto simp: deriveState_def ci Let_def addSBGatewayNATAddresses_SNAT addNBNATs_SNAT newNATCollection_def
        effFilters_def)
qed

lemma localPorts_bound:
  assumes "n \<in> fst ` set (localPorts cfg name pbs chs)"
  shows "\<exists>pb\<in>set pbs. boundHere (fst (chassisIndex chs)) name (oc_GatewayPort cfg) pb \<and> crPortLRPName pb = n \<and>
     mget (localPorts cfg name pbs chs) n = pb_LogicalPort pb"
proof -
  obtain port where p: "map_of (localPorts cfg name pbs chs) n = Some port"
    using assms by (metis map_of_eq_None_iff not_None_eq)
  from localCRPorts_SomeD [OF this [unfolded localPorts_def]] p show ?thesis
    by (auto simp: mget_def)
qed

subsection \<open>Properties of a pass\<close>

text \<open>
  C1: the addresses a refresh pass publishes are exactly the valid external addresses inside the
  effective networks that belong to a locally active router: those of its NAT rows, when the
  router port has a MAC, and those listed on the patch port of its gateway.
\<close>

theorem refresh_advertised_exactly:
  "fst ` set (st_NATIPToRouterMAC (deriveState cfg name seq pbs chs lrps routers nats)) =
     {ip. natKept (effFilters cfg name pbs chs lrps routers) ip \<and>
        (nbLocalIP cfg name pbs chs lrps routers nats ip \<or> sbLocalIP cfg name pbs chs lrps ip)}"
  by (rule deriveState_NAT_keys)

text \<open>
  C2: no address is published for a gateway that another chassis holds: behind every published
  address stands a chassisredirect port bound to this chassis (and named by \<open>gateway_port\<close>
  when that is set), the router port it redirects for, and either the NAT row's router that owns
  that port or the patch port that faces it.
\<close>

theorem advertised_address_is_bound_here:
  assumes "distinct (map lrp_UUID lrps)"
    and "ip \<in> fst ` set (st_NATIPToRouterMAC (deriveState cfg name seq pbs chs lrps routers nats))"
  shows "\<exists>pb\<in>set pbs. boundHere (fst (chassisIndex chs)) name (oc_GatewayPort cfg) pb \<and>
     (\<exists>lrp\<in>set lrps. lrp_Name lrp = crPortLRPName pb \<and>
        ((\<exists>n\<in>set nats. nat_ExternalIP n = ip \<and>
            (\<exists>r\<in>set routers. nat_UUID n \<in> set (lr_Nat r) \<and> lrp_UUID lrp \<in> set (lr_Ports r))) \<or>
         (\<exists>p\<in>set pbs. mget (pb_Options p) ''peer'' = lrp_Name lrp \<and>
            (\<exists>a\<in>set (pb_NatAddresses p). ip \<in> set (parseNatAddressIPs a)))))"
proof -
  from assms(2) consider (nb) "nbLocalIP cfg name pbs chs lrps routers nats ip"
    | (sb) "sbLocalIP cfg name pbs chs lrps ip"
    by (auto simp: deriveState_NAT_keys)
  then show ?thesis
  proof cases
    case nb
    then obtain n r l where n: "n \<in> set nats" "nat_ExternalIP n = ip"
      and r: "r \<in> set routers" "nat_UUID n \<in> set (lr_Nat r)"
      and l: "activeLRP cfg name pbs chs lrps r = Some l"
      by (auto simp: nbLocalIP_def)
    from matchedLRP_SomeD [OF l [unfolded activeLRP_def] assms(1)]
    have m: "l \<in> set lrps" "lrp_Name l \<in> fst ` set (localPorts cfg name pbs chs)"
      "lrp_UUID l \<in> set (lr_Ports r)" by auto
    from localPorts_bound [OF m(2)] m n r show ?thesis by metis
  next
    case sb
    then obtain p a where p: "p \<in> set pbs" "gatewayPatch (localPorts cfg name pbs chs) p"
      and mac: "patchMAC (indexLRPs lrps) p \<noteq> ''''"
      and a: "a \<in> set (pb_NatAddresses p)" "ip \<in> set (parseNatAddressIPs a)"
      by (auto simp: sbLocalIP_def)
    let ?peer = "mget (pb_Options p) ''peer''"
    from mac obtain l where "byName (indexLRPs lrps) ?peer = Some l"
      by (auto simp: patchMAC_def split: option.splits)
    then have l: "l \<in> set lrps" "lrp_Name l = ?peer" by (auto dest: byName_SomeD)
    from p(2) have "?peer \<in> fst ` set (localPorts cfg name pbs chs)" by (simp add: gatewayPatch_def)
    from localPorts_bound [OF this] l p a show ?thesis by metis
  qed
qed

definition demo_pbs :: "port_binding list" where
  "demo_pbs =
     [\<lparr>pb_UUID = ''p1'', pb_LogicalPort = ''cr-lrp1'', pb_Type = ''chassisredirect'', pb_Chassis = Some ''c1'',
       pb_Datapath = ''d0'', pb_Tag = None, pb_Options = [(''distributed-port'', ''lrp1'')],
       pb_ExternalIDs = [], pb_NatAddresses = []\<rparr>]"

definition demo_chs :: "chassis list" where
  "demo_chs = [\<lparr>ch_UUID = ''c1'', ch_Name = ''sys1'', ch_Hostname = ''gw1.example''\<rparr>]"

definition demo_lrps :: "nb_lrp list" where
  "demo_lrps = [\<lparr>lrp_UUID = ''l1'', lrp_Name = ''lrp1'', lrp_MAC = ''m1'', lrp_Networks = [''10.0.0.1/24''],
     lrp_GatewayChassis = []\<rparr>]"

definition demo_routers :: "nb_router list" where
  "demo_routers = [\<lparr>lr_UUID = ''r1'', lr_Name = ''router1'', lr_Ports = [''l1''], lr_Nat = [''n1''],
     lr_StaticRoutes = []\<rparr>]"

definition demo_nats :: "nb_nat list" where
  "demo_nats = [\<lparr>nat_UUID = ''n1'', nat_Type = ''dnat_and_snat'', nat_ExternalIP = ''10.0.0.7''\<rparr>]"

definition demo_cfg :: ovn_config where
  "demo_cfg = \<lparr>oc_GatewayPort = '''', oc_NetworkFilters = []\<rparr>"

lemmas demo_defs = demo_pbs_def demo_chs_def demo_lrps_def demo_routers_def demo_nats_def demo_cfg_def

lemmas join_eval = deriveState_def chassisIndex_def localCRPorts_def segmentsByLRP_def indexLRPs_def
  localLRPUUIDSet_def collectLocalRouters_def matchedLRP_def discoverLRPNetworks_def uniqueNetworks_def
  effectiveNetworkFilters_def addNBNATs_def addSBGatewayNATAddresses_def newNATCollection_def
  hostnamesEqual_def shortHostname_def EqualFold_def crPortLRPName_def lookup_def mget_def

lemma demo_advertises:
  "st_NATIPToRouterMAC (deriveState demo_cfg ''gw1'' seq demo_pbs demo_chs demo_lrps demo_routers demo_nats)
     = [(''10.0.0.7'', ''m1'')]"
  by (simp add: demo_defs join_eval go_net_eval containedInAny_def NetContains_def mask4_def Let_def)

text \<open>The demo deployment has one gateway bound here, and its floating IP is traced to it.\<close>

lemma advertised_address_is_bound_here_witness:
  "\<exists>pb\<in>set demo_pbs. boundHere (fst (chassisIndex demo_chs)) ''gw1'' '''' pb \<and>
     (\<exists>lrp\<in>set demo_lrps. lrp_Name lrp = crPortLRPName pb)"
proof -
  have gp: "oc_GatewayPort demo_cfg = ''''" and d: "distinct (map lrp_UUID demo_lrps)"
    by (simp_all add: demo_cfg_def demo_lrps_def)
  have "''10.0.0.7'' \<in> fst ` set (st_NATIPToRouterMAC
      (deriveState demo_cfg ''gw1'' 1 demo_pbs demo_chs demo_lrps demo_routers demo_nats))"
    by (simp add: demo_advertises)
  from advertised_address_is_bound_here [OF d this] gp show ?thesis by (metis (no_types, lifting))
qed

end
