(* ===== verification/OvnLoop.thy ===== *)
theory OvnLoop
  imports OvnRefresh
begin

section \<open>The OVN client's event loop\<close>

text \<open>
  The event side of \<open>ovn.go\<close>: the cache event handlers, the three capacity-one signal
  channels, \<open>refreshLoop\<close> and the failover observation. The handlers run on other goroutines
  than the loop, and a refresh pass reads the caches over a stretch of time, so the client is a
  step relation: a pass is a begin step (it takes its number) and an end step (it publishes), and
  handlers may run between them.

  Five ghost fields carry what the theorems are about and are read by no operation: \<open>cl_ver\<close>
  counts the cache changes that have been applied, \<open>cl_readVer\<close> is that count when the pass
  behind the live state began (all its reads are at least that recent), \<open>cl_missed\<close> says that
  the last pass could not read a table, \<open>cl_due\<close> is the latest handled change of a table the
  agent derives something from, and \<open>cl_told\<close> is \<open>cl_readVer\<close> at the last \<open>onChange\<close>.
\<close>

subsection \<open>Signals\<close>

text \<open>
  A channel of capacity one with a non-blocking send: \<open>True\<close> when a signal is queued. The locale
  is what a user of such a channel relies on.
\<close>

definition signal :: "bool \<Rightarrow> bool" where
  "signal ch = (if ch then ch else True)"

definition receive :: "bool \<Rightarrow> bool option" where
  "receive ch = (if ch then Some False else None)"

locale coalescing_channel =
  fixes send :: "'c \<Rightarrow> 'c" and recv :: "'c \<Rightarrow> 'c option" and queued :: "'c \<Rightarrow> nat"
  assumes send_queued: "queued (send c) = 1"
    and recv_None: "recv c = None \<longleftrightarrow> queued c = 0"
    and recv_Some: "recv c = Some c' \<Longrightarrow> queued c' = 0"
begin

lemma burst: "0 < n \<Longrightarrow> queued ((send ^^ n) c) = 1"
  by (cases n) (simp_all add: send_queued)

lemma one_follow_up:
  assumes "0 < n"
  shows "\<exists>c'. recv ((send ^^ n) c) = Some c' \<and> recv c' = None"
proof -
  obtain c' where c: "recv ((send ^^ n) c) = Some c'"
    using burst [OF assms, of c] recv_None [of "(send ^^ n) c"] by (cases "recv ((send ^^ n) c)") auto
  then show ?thesis using recv_Some recv_None by blast
qed

end

interpretation signal_channel: coalescing_channel signal receive "\<lambda>ch. if ch then 1 else 0"
  by unfold_locales (auto simp: signal_def receive_def split: if_splits)

subsection \<open>The client\<close>

record failover_observation =
  fo_at :: nat
  fo_gen :: nat
  fo_ver :: nat

datatype pass = NoPass | DebouncedPass nat nat | ImmediatePass nat nat

record ovn_client =
  cl_state :: ovn_state
  cl_seq :: nat
  cl_ready :: bool
  cl_debounceCh :: bool
  cl_immediateCh :: bool
  cl_drainWatchCh :: bool
  cl_observed :: "failover_observation option"
  cl_debounceTimer :: bool
  cl_reconcileTimer :: bool
  cl_pass :: pass
  cl_onChange :: nat
  cl_ver :: nat
  cl_readVer :: nat
  cl_missed :: bool
  cl_due :: nat
  cl_told :: nat

definition debounceStateRefresh :: "ovn_client \<Rightarrow> ovn_client" where
  "debounceStateRefresh c = (if \<not> cl_ready c then c else c\<lparr>cl_debounceCh := signal (cl_debounceCh c)\<rparr>)"

text \<open>
  \<open>CompareAndSwap(nil, obs)\<close> keeps an observation that is already pending. \<open>now\<close> is the clock;
  the ghost \<open>fo_ver\<close> is the number of changes the cache holds at the stamp.
\<close>

definition immediateStateRefresh :: "nat \<Rightarrow> ovn_client \<Rightarrow> ovn_client" where
  "immediateStateRefresh now c =
     (if \<not> cl_ready c then c
      else (let c1 = (case cl_observed c of
                        None \<Rightarrow> c\<lparr>cl_observed := Some \<lparr>fo_at = now, fo_gen = cl_seq c, fo_ver = cl_ver c\<rparr>\<rparr>
                      | Some _ \<Rightarrow> c)
            in c1\<lparr>cl_immediateCh := signal (cl_immediateCh c1)\<rparr>))"

definition signalDrainWatch :: "ovn_client \<Rightarrow> ovn_client" where
  "signalDrainWatch c = (if \<not> cl_ready c then c else c\<lparr>cl_drainWatchCh := signal (cl_drainWatchCh c)\<rparr>)"

definition drainSignals :: "ovn_client \<Rightarrow> ovn_client" where
  "drainSignals c = c\<lparr>cl_debounceCh := False, cl_immediateCh := False\<rparr>"

definition takeFailoverObservedAt :: "nat \<Rightarrow> ovn_client \<Rightarrow> nat option \<times> ovn_client" where
  "takeFailoverObservedAt snapGen c =
     (case cl_observed c of
        None \<Rightarrow> (None, c)
      | Some obs \<Rightarrow> if snapGen \<le> fo_gen obs then (None, c)
                    else (Some (fo_at obs), c\<lparr>cl_observed := None\<rparr>))"

subsection \<open>Event handlers\<close>

text \<open>A cached model as the handlers see it: a Port_Binding row or a row of another table.\<close>

datatype model = PortBindingRow port_binding | OtherRow

datatype cache_event =
    OnAdd string model
  | OnUpdate string model model
  | OnDelete string model

definition isChassisRedirect :: "string \<Rightarrow> model \<Rightarrow> bool" where
  "isChassisRedirect table m =
     (if table \<noteq> ''Port_Binding'' then False
      else (case m of PortBindingRow pb \<Rightarrow> pb_Type pb = ''chassisredirect'' | OtherRow \<Rightarrow> False))"

definition chassisRef :: "port_binding \<Rightarrow> string" where
  "chassisRef pb = (case pb_Chassis pb of None \<Rightarrow> '''' | Some c \<Rightarrow> c)"

definition chassisRebound :: "model \<Rightarrow> model \<Rightarrow> bool" where
  "chassisRebound old updated =
     (case (old, updated) of
        (PortBindingRow oldPB, PortBindingRow newPB) \<Rightarrow> chassisRef oldPB \<noteq> chassisRef newPB
      | _ \<Rightarrow> True)"

definition sbHandleChange :: "string \<Rightarrow> ovn_client \<Rightarrow> ovn_client" where
  "sbHandleChange table c =
     (if table = ''Port_Binding'' \<or> table = ''Chassis'' then debounceStateRefresh c else c)"

definition nbHandleChange :: "string \<Rightarrow> ovn_client \<Rightarrow> ovn_client" where
  "nbHandleChange table c =
     (if table \<in> {''NAT'', ''Logical_Router'', ''Logical_Router_Port''} then debounceStateRefresh c
      else if table = ''Gateway_Chassis'' then debounceStateRefresh c
      else c)"

fun sbEventHandler :: "nat \<Rightarrow> cache_event \<Rightarrow> ovn_client \<Rightarrow> ovn_client" where
  "sbEventHandler now (OnAdd table m) c =
     (if isChassisRedirect table m then immediateStateRefresh now (signalDrainWatch c)
      else sbHandleChange table c)"
| "sbEventHandler now (OnUpdate table old updated) c =
     (if isChassisRedirect table updated \<and> chassisRebound old updated
      then immediateStateRefresh now (signalDrainWatch c)
      else sbHandleChange table c)"
| "sbEventHandler now (OnDelete table m) c =
     (if isChassisRedirect table m then immediateStateRefresh now (signalDrainWatch c)
      else sbHandleChange table c)"

fun nbEventHandler :: "cache_event \<Rightarrow> ovn_client \<Rightarrow> ovn_client" where
  "nbEventHandler (OnAdd table m) c = nbHandleChange table c"
| "nbEventHandler (OnUpdate table old updated) c = nbHandleChange table c"
| "nbEventHandler (OnDelete table m) c = nbHandleChange table c"

subsection \<open>The loop's select cases\<close>

definition beginPass :: "(nat \<Rightarrow> nat \<Rightarrow> pass) \<Rightarrow> ovn_client \<Rightarrow> ovn_client" where
  "beginPass kind c = c\<lparr>cl_seq := Suc (cl_seq c), cl_pass := kind (Suc (cl_seq c)) (cl_ver c)\<rparr>"

text \<open>Did the pass publish? \<open>refreshState\<close> leaves the state alone exactly when a read failed.\<close>

definition readsOk :: "ovn_view \<Rightarrow> bool" where
  "readsOk v = (\<not> isl (v_PortBindings v) \<and> \<not> isl (v_Chassis v) \<and> \<not> isl (v_LRPs v) \<and>
     \<not> isl (v_Routers v) \<and> \<not> isl (v_NATs v))"

definition publish :: "ovn_config \<Rightarrow> ovn_view \<Rightarrow> nat \<Rightarrow> nat \<Rightarrow> ovn_client \<Rightarrow> ovn_client" where
  "publish cfg v seq startVer c =
     c\<lparr>cl_state := refreshState cfg v seq (cl_state c), cl_pass := NoPass,
       cl_readVer := (if readsOk v then startVer else cl_readVer c), cl_missed := (\<not> readsOk v)\<rparr>"

definition onDebounceCh :: "ovn_client \<Rightarrow> ovn_client" where
  "onDebounceCh c = (let c1 = c\<lparr>cl_debounceCh := False\<rparr>
     in if \<not> cl_debounceTimer c1 then c1\<lparr>cl_debounceTimer := True\<rparr> else c1)"

definition onDebounceFire :: "ovn_client \<Rightarrow> ovn_client" where
  "onDebounceFire c = beginPass DebouncedPass (c\<lparr>cl_debounceTimer := False\<rparr>)"

definition afterDebouncedPass :: "ovn_client \<Rightarrow> ovn_client" where
  "afterDebouncedPass c = (if \<not> cl_reconcileTimer c then c\<lparr>cl_reconcileTimer := True\<rparr> else c)"

definition onReconcileFire :: "ovn_client \<Rightarrow> ovn_client" where
  "onReconcileFire c = c\<lparr>cl_reconcileTimer := False, cl_onChange := Suc (cl_onChange c)\<rparr>"

definition onImmediateCh :: "ovn_client \<Rightarrow> ovn_client" where
  "onImmediateCh c =
     (let c1 = c\<lparr>cl_immediateCh := False\<rparr>;
          c2 = (if cl_debounceTimer c1 then c1\<lparr>cl_debounceTimer := False\<rparr> else c1)
      in beginPass ImmediatePass c2)"

definition afterImmediatePass :: "ovn_client \<Rightarrow> ovn_client" where
  "afterImmediatePass c = c\<lparr>cl_onChange := Suc (cl_onChange c)\<rparr>"

subsection \<open>The step relation\<close>

text \<open>
  A cache change is applied before its handler runs; the pair \<open>(database, event)\<close> waits in the
  second component until then. The third is the snapshot a reconcile holds: its \<open>Gen\<close> and, as a
  ghost, its \<open>cl_readVer\<close>. The clock and the database contents are arbitrary at every step.
\<close>

datatype database = SB | NB

type_synonym system = "ovn_client \<times> (database \<times> cache_event \<times> nat) list \<times> (nat \<times> nat)"

definition runHandler :: "nat \<Rightarrow> database \<Rightarrow> cache_event \<Rightarrow> ovn_client \<Rightarrow> ovn_client" where
  "runHandler now db ev c = (case db of SB \<Rightarrow> sbEventHandler now ev c | NB \<Rightarrow> nbEventHandler ev c)"

definition relevantTable :: "database \<Rightarrow> string \<Rightarrow> bool" where
  "relevantTable db t =
     (case db of
        SB \<Rightarrow> t \<in> {''Port_Binding'', ''Chassis''}
      | NB \<Rightarrow> t \<in> {''NAT'', ''Logical_Router'', ''Logical_Router_Port'', ''Gateway_Chassis''})"

fun eventTable :: "cache_event \<Rightarrow> string" where
  "eventTable (OnAdd t m) = t"
| "eventTable (OnUpdate t old updated) = t"
| "eventTable (OnDelete t m) = t"

definition due :: "database \<Rightarrow> cache_event \<Rightarrow> nat \<Rightarrow> ovn_client \<Rightarrow> nat" where
  "due db ev v c = (if relevantTable db (eventTable ev) then max v (cl_due c) else cl_due c)"

inductive step :: "ovn_config \<Rightarrow> system \<Rightarrow> system \<Rightarrow> bool" for cfg where
  cache_change:
    "step cfg (c, evs, h) (c\<lparr>cl_ver := Suc (cl_ver c)\<rparr>, evs @ [(db, ev, Suc (cl_ver c))], h)"
| handler:
    "step cfg (c, (db, ev, v) # evs, h) ((runHandler now db ev c)\<lparr>cl_due := due db ev v c\<rparr>, evs, h)"
| debounce_signal:
    "cl_pass c = NoPass \<Longrightarrow> cl_debounceCh c \<Longrightarrow> step cfg (c, evs, h) (onDebounceCh c, evs, h)"
| debounce_fire:
    "cl_pass c = NoPass \<Longrightarrow> cl_debounceTimer c \<Longrightarrow> step cfg (c, evs, h) (onDebounceFire c, evs, h)"
| debounced_done:
    "cl_pass c = DebouncedPass s sv \<Longrightarrow>
     step cfg (c, evs, h) (afterDebouncedPass (publish cfg v s sv c), evs, h)"
| reconcile_fire:
    "cl_pass c = NoPass \<Longrightarrow> cl_reconcileTimer c \<Longrightarrow> 
     step cfg (c, evs, h) ((onReconcileFire c)\<lparr>cl_told := cl_readVer c\<rparr>, evs, h)"
| immediate_signal:
    "cl_pass c = NoPass \<Longrightarrow> cl_immediateCh c \<Longrightarrow> step cfg (c, evs, h) (onImmediateCh c, evs, h)"
| immediate_done:
    "cl_pass c = ImmediatePass s sv \<Longrightarrow>
     step cfg (c, evs, h) 
       (let c' = afterImmediatePass (publish cfg v s sv c) in c'\<lparr>cl_told := cl_readVer c'\<rparr>, evs, h)"
| take_snapshot:
    "step cfg (c, evs, h) (c, evs, (st_Gen (cl_state c), cl_readVer c))"
| take_observation:
    "step cfg (c, evs, h) (snd (takeFailoverObservedAt (fst h) c), evs, h)"

inductive_cases stepE [elim]: "step cfg s s'"

text \<open>
  What \<open>Connect\<close> leaves behind: ready, the initial refresh done (it is pass 1 and read
  everything applied so far), the signals drained, the loop waiting.
\<close>

definition connectedClient :: "ovn_state \<Rightarrow> nat \<Rightarrow> system" where
  "connectedClient st ver =
     (drainSignals \<lparr>cl_state = st\<lparr>st_Gen := 1\<rparr>, cl_seq = 1, cl_ready = True, cl_debounceCh = False, cl_immediateCh = False,
       cl_drainWatchCh = False, cl_observed = None, cl_debounceTimer = False, cl_reconcileTimer = False,
       cl_pass = NoPass, cl_onChange = 0, cl_ver = ver, cl_readVer = ver, cl_missed = False,
       cl_due = 0, cl_told = ver\<rparr>, [], (0, 0))"

definition reachable :: "ovn_config \<Rightarrow> system \<Rightarrow> bool" where
  "reachable cfg s \<longleftrightarrow> (\<exists>st ver. (step cfg)\<^sup>*\<^sup>* (connectedClient st ver) s)"

subsection \<open>What the operations leave alone\<close>

lemma cachedList_isl [simp]: "isl (cachedList l sel t cols k d) = isl l"
  by (cases l) (simp_all add: cachedList_def)

lemma refreshState_Gen:
  "st_Gen (refreshState cfg v seq st) = (if readsOk v then seq else st_Gen st)"
  by (cases "v_PortBindings v"; cases "v_Chassis v"; cases "v_LRPs v"; cases "v_Routers v"; cases "v_NATs v")
     (simp_all add: refreshState_def cachedList_def readsOk_def deriveState_def Let_def split: prod.splits)

definition woken :: "ovn_client \<Rightarrow> bool" where
  "woken c \<longleftrightarrow> cl_debounceCh c \<or> cl_debounceTimer c \<or> cl_immediateCh c"

lemma immediate_fields [simp]:
  "cl_state (immediateStateRefresh now c) = cl_state c"
  "cl_seq (immediateStateRefresh now c) = cl_seq c"
  "cl_ready (immediateStateRefresh now c) = cl_ready c"
  "cl_pass (immediateStateRefresh now c) = cl_pass c"
  "cl_ver (immediateStateRefresh now c) = cl_ver c"
  "cl_readVer (immediateStateRefresh now c) = cl_readVer c"
  "cl_missed (immediateStateRefresh now c) = cl_missed c"
  "cl_due (immediateStateRefresh now c) = cl_due c"
  "cl_told (immediateStateRefresh now c) = cl_told c"
  "cl_reconcileTimer (immediateStateRefresh now c) = cl_reconcileTimer c"
  by (auto simp: immediateStateRefresh_def Let_def split: option.splits)

lemma debounce_fields [simp]:
  "cl_state (debounceStateRefresh c) = cl_state c" "cl_seq (debounceStateRefresh c) = cl_seq c"
  "cl_ready (debounceStateRefresh c) = cl_ready c" "cl_pass (debounceStateRefresh c) = cl_pass c"
  "cl_ver (debounceStateRefresh c) = cl_ver c" "cl_readVer (debounceStateRefresh c) = cl_readVer c"
  "cl_missed (debounceStateRefresh c) = cl_missed c" "cl_due (debounceStateRefresh c) = cl_due c"
  "cl_told (debounceStateRefresh c) = cl_told c" "cl_observed (debounceStateRefresh c) = cl_observed c"
  "cl_reconcileTimer (debounceStateRefresh c) = cl_reconcileTimer c"
  by (auto simp: debounceStateRefresh_def)

lemma drainWatch_fields [simp]:
  "cl_state (signalDrainWatch c) = cl_state c" "cl_seq (signalDrainWatch c) = cl_seq c"
  "cl_ready (signalDrainWatch c) = cl_ready c" "cl_pass (signalDrainWatch c) = cl_pass c"
  "cl_ver (signalDrainWatch c) = cl_ver c" "cl_readVer (signalDrainWatch c) = cl_readVer c"
  "cl_missed (signalDrainWatch c) = cl_missed c" "cl_due (signalDrainWatch c) = cl_due c"
  "cl_told (signalDrainWatch c) = cl_told c" "cl_observed (signalDrainWatch c) = cl_observed c"
  "cl_reconcileTimer (signalDrainWatch c) = cl_reconcileTimer c"
  "cl_debounceCh (signalDrainWatch c) = cl_debounceCh c"
  "cl_immediateCh (signalDrainWatch c) = cl_immediateCh c"
  "cl_debounceTimer (signalDrainWatch c) = cl_debounceTimer c"
  by (auto simp: signalDrainWatch_def)

text \<open>A handler does one of three things, and it signals for every relevant table.\<close>

lemma runHandler_cases:
  "runHandler now db ev c = c \<and> \<not> relevantTable db (eventTable ev) \<or>
   runHandler now db ev c = debounceStateRefresh c \<or>
   runHandler now db ev c = immediateStateRefresh now (signalDrainWatch c)"
  by (cases db; cases ev)
     (auto simp: runHandler_def sbHandleChange_def nbHandleChange_def relevantTable_def)

lemma debounce_wakes: "cl_ready c \<Longrightarrow> woken (debounceStateRefresh c)"
  by (auto simp: woken_def debounceStateRefresh_def signal_def)

lemma immediate_wakes: "cl_ready c \<Longrightarrow> woken (immediateStateRefresh now c)"
  by (auto simp: woken_def immediateStateRefresh_def signal_def Let_def split: option.splits)

lemma woken_mono:
  "woken c \<Longrightarrow> woken (debounceStateRefresh c)" "woken c \<Longrightarrow> woken (immediateStateRefresh now (signalDrainWatch c))"
  by (auto simp: woken_def debounceStateRefresh_def signal_def immediateStateRefresh_def Let_def
      signalDrainWatch_def split: option.splits)

subsection \<open>Invariants\<close>

fun passStart :: "pass \<Rightarrow> (nat \<times> nat) option" where
  "passStart NoPass = None"
| "passStart (DebouncedPass s v) = Some (s, v)"
| "passStart (ImmediatePass s v) = Some (s, v)"

text \<open>
  Numbers and versions: a pass in flight carries the current number; whatever has a higher
  number than a pending observation was read after the observed change.
\<close>

definition gens_ok :: "system \<Rightarrow> bool" where
  "gens_ok = (\<lambda>(c, evs, (hg, hv)).
     cl_ready c \<and> st_Gen (cl_state c) \<le> cl_seq c \<and> hg \<le> cl_seq c \<and> cl_readVer c \<le> cl_ver c \<and>
     (\<forall>(_, _, v) \<in> set evs. v \<le> cl_ver c) \<and> cl_due c \<le> cl_ver c \<and>
     (\<forall>s v. passStart (cl_pass c) = Some (s, v) \<longrightarrow> s = cl_seq c \<and> v \<le> cl_ver c) \<and>
     (\<forall>obs. cl_observed c = Some obs \<longrightarrow>
        fo_gen obs \<le> cl_seq c \<and> fo_ver obs \<le> cl_ver c \<and>
        (fo_gen obs < st_Gen (cl_state c) \<longrightarrow> fo_ver obs \<le> cl_readVer c) \<and>
        (fo_gen obs < hg \<longrightarrow> fo_ver obs \<le> hv) \<and>
        (\<forall>s v. passStart (cl_pass c) = Some (s, v) \<longrightarrow> fo_gen obs < s \<longrightarrow> fo_ver obs \<le> v)))"

lemma handler_observed:
  "cl_observed (immediateStateRefresh now c) =
     (if cl_ready c \<and> cl_observed c = None
      then Some \<lparr>fo_at = now, fo_gen = cl_seq c, fo_ver = cl_ver c\<rparr> else cl_observed c)"
  by (auto simp: immediateStateRefresh_def Let_def split: option.splits)

lemmas loop_defs = onDebounceCh_def onDebounceFire_def afterDebouncedPass_def onReconcileFire_def
  onImmediateCh_def afterImmediatePass_def beginPass_def publish_def Let_def

lemma gens_ok_step:
  assumes "step cfg s s'" and "gens_ok s"
  shows "gens_ok s'"
  using assms
proof (cases rule: step.cases)
  case (handler c db ev v evs h now)
  obtain hg hv where h: "h = (hg, hv)" by fastforce
  consider "runHandler now db ev c = c" | "runHandler now db ev c = debounceStateRefresh c"
    | "runHandler now db ev c = immediateStateRefresh now (signalDrainWatch c)"
    using runHandler_cases by blast
  then show ?thesis
    using assms(2) handler h by cases (auto simp: gens_ok_def due_def handler_observed)
next
  case (take_observation c evs h)
  then show ?thesis
    using assms(2) by (auto simp: gens_ok_def takeFailoverObservedAt_def split: option.splits)
qed (auto simp: gens_ok_def loop_defs refreshState_Gen)

lemma gens_ok_reachable: "reachable cfg s \<Longrightarrow> gens_ok s"
proof -
  assume "reachable cfg s"
  then obtain st ver where run: "(step cfg)\<^sup>*\<^sup>* (connectedClient st ver) s" by (auto simp: reachable_def)
  have "gens_ok (connectedClient st ver)" by (simp add: gens_ok_def connectedClient_def drainSignals_def)
  with run show ?thesis by (induction rule: rtranclp_induct) (auto intro: gens_ok_step)
qed

definition wakeups_ok :: "system \<Rightarrow> bool" where
  "wakeups_ok = (\<lambda>(c, evs, h).
     (woken c \<or>
      (case passStart (cl_pass c) of
         None \<Rightarrow> cl_missed c \<or> cl_due c \<le> cl_readVer c
       | Some (s, v) \<Rightarrow> cl_due c \<le> v)) \<and>
     (cl_told c = cl_readVer c \<or> cl_reconcileTimer c))"

lemma wakeups_ok_step:
  assumes "step cfg s s'" and "wakeups_ok s" and "gens_ok s"
  shows "wakeups_ok s'"
  using assms(1)
proof (cases rule: step.cases)
  case (handler c db ev v evs h now)
  have ready: "cl_ready c" using assms(3) handler by (auto simp: gens_ok_def)
  consider "runHandler now db ev c = c" "\<not> relevantTable db (eventTable ev)"
    | "runHandler now db ev c = debounceStateRefresh c"
    | "runHandler now db ev c = immediateStateRefresh now (signalDrainWatch c)"
    using runHandler_cases by blast
  then show ?thesis
  proof cases
    case 1
    then show ?thesis using assms(2) handler by (auto simp: wakeups_ok_def due_def woken_def)
  next
    case 2
    with debounce_wakes [OF ready] show ?thesis
      using assms(2) handler by (auto simp: wakeups_ok_def woken_def)
  next
    case 3
    with immediate_wakes [of "signalDrainWatch c"] ready show ?thesis
      using assms(2) handler by (auto simp: wakeups_ok_def woken_def)
  qed
next
  case (take_observation c evs h)
  then show ?thesis
    using assms(2) by (auto simp: wakeups_ok_def takeFailoverObservedAt_def woken_def split: option.splits)
qed (use assms(2,3) in \<open>auto simp: wakeups_ok_def gens_ok_def loop_defs woken_def split: option.splits if_splits\<close>)

lemma wakeups_ok_reachable: "reachable cfg s \<Longrightarrow> wakeups_ok s"
proof -
  assume "reachable cfg s"
  then obtain st ver where run: "(step cfg)\<^sup>*\<^sup>* (connectedClient st ver) s" by (auto simp: reachable_def)
  then show ?thesis
  proof (induction rule: rtranclp_induct)
    case base
    then show ?case by (auto simp: wakeups_ok_def connectedClient_def drainSignals_def)
  next
    case (step y z)
    then have "gens_ok y" by (intro gens_ok_reachable) (auto simp: reachable_def)
    with step show ?case by (blast intro: wakeups_ok_step)
  qed
qed

subsection \<open>Properties of the loop\<close>


lemma connected_reachable: "reachable cfg (connectedClient st ver)"
  by (auto simp: reachable_def)

lemma reachable_step: "reachable cfg s \<Longrightarrow> step cfg s s' \<Longrightarrow> reachable cfg s'"
  unfolding reachable_def by (blast intro: rtranclp.rtrancl_into_rtrancl)

definition demo_client :: ovn_client where
  "demo_client = fst (connectedClient zero_state 4)"


text \<open>
  C12: a failover observation is handed only to a reconcile that already sees the change. When
  \<open>takeFailoverObservedAt\<close> returns a time to a reconcile holding a snapshot, that snapshot comes
  from a pass that began after the observed chassisredirect change was in the cache.
\<close>

theorem observation_reaches_a_fresh_snapshot:
  assumes "reachable cfg (c, evs, (snapGen, snapVer))"
    and "cl_observed c = Some obs"
    and "fst (takeFailoverObservedAt snapGen c) = Some t"
  shows "t = fo_at obs \<and> fo_ver obs \<le> snapVer \<and> cl_observed (snd (takeFailoverObservedAt snapGen c)) = None"
  using gens_ok_reachable [OF assms(1)] assms(2,3)
  by (auto simp: gens_ok_def takeFailoverObservedAt_def split: if_splits)

text \<open>
  The run of a takeover: a chassisredirect row is rebound, the handler stamps at time 7, the
  immediate pass publishes, a reconcile takes its snapshot.
\<close>

definition demo_view :: ovn_view where
  "demo_view = \<lparr>v_PortBindings = Inr demo_pbs, v_Chassis = Inr demo_chs, v_LRPs = Inr demo_lrps,
     v_Routers = Inr demo_routers, v_NATs = Inr demo_nats,
     v_sbSelect = (\<lambda>_ _. TransactErr (Err ''timeout'')), v_nbSelect = (\<lambda>_ _. TransactErr (Err ''timeout''))\<rparr>"

definition demo_event :: cache_event where
  "demo_event = OnAdd ''Port_Binding'' (PortBindingRow (hd demo_pbs))"

definition demo_c1 :: ovn_client where
  "demo_c1 = demo_client\<lparr>cl_ver := 5\<rparr>"

definition demo_c2 :: ovn_client where
  "demo_c2 = (runHandler 7 SB demo_event demo_c1)\<lparr>cl_due := 5\<rparr>"

definition demo_c3 :: ovn_client where
  "demo_c3 = onImmediateCh demo_c2"

definition demo_c4 :: ovn_client where
  "demo_c4 = (let c' = afterImmediatePass (publish demo_cfg demo_view 2 5 demo_c3) in c'\<lparr>cl_told := cl_readVer c'\<rparr>)"

lemmas demo_run = demo_client_def demo_c1_def demo_c2_def demo_c3_def connectedClient_def
  drainSignals_def runHandler_def demo_event_def isChassisRedirect_def signalDrainWatch_def
  immediateStateRefresh_def signal_def onImmediateCh_def beginPass_def demo_pbs_def

lemma demo_fields:
  "cl_ver demo_client = 4" "cl_due demo_c1 = 0" "cl_pass demo_c2 = NoPass" "cl_immediateCh demo_c2"
  "cl_pass demo_c3 = ImmediatePass 2 5" "cl_observed demo_c3 = Some \<lparr>fo_at = 7, fo_gen = 1, fo_ver = 5\<rparr>"
  by (simp_all add: demo_run Let_def)

lemma demo_c4_fields:
  "st_Gen (cl_state demo_c4) = 2" "cl_readVer demo_c4 = 5" "cl_observed demo_c4 = cl_observed demo_c3"
  by (simp_all add: demo_c4_def afterImmediatePass_def publish_def refreshState_Gen readsOk_def demo_view_def Let_def)

lemma demo_run_reachable: "reachable demo_cfg (demo_c4, [], (2, 5))"
proof -
  note next_step = reachable_step
  have "reachable demo_cfg (demo_client, [], (0, 0))"
    using connected_reachable [of demo_cfg zero_state 4] by (simp add: demo_client_def connectedClient_def)
  then have "reachable demo_cfg (demo_c1, [(SB, demo_event, 5)], (0, 0))"
    by (rule next_step) (use step.cache_change [of demo_cfg demo_client "[]" "(0, 0)" SB demo_event] in
      \<open>simp add: demo_c1_def demo_fields(1)\<close>)
  then have "reachable demo_cfg (demo_c2, [], (0, 0))"
    by (rule next_step) (use step.handler [of demo_cfg demo_c1 SB demo_event 5 "[]" "(0, 0)" 7] in
      \<open>simp add: demo_c2_def due_def demo_fields(2) relevantTable_def demo_event_def\<close>)
  then have "reachable demo_cfg (demo_c3, [], (0, 0))"
    by (rule next_step) (use step.immediate_signal [of demo_c2 demo_cfg "[]" "(0, 0)"] in
      \<open>simp add: demo_c3_def demo_fields\<close>)
  then have "reachable demo_cfg (demo_c4, [], (0, 0))"
    by (rule next_step) (use step.immediate_done [of demo_c3 2 5 demo_cfg "[]" "(0, 0)" demo_view] in
      \<open>simp add: demo_c4_def demo_fields\<close>)
  then show ?thesis
    by (rule next_step) (use step.take_snapshot [of demo_cfg demo_c4 "[]" "(0, 0)"] in
      \<open>simp add: demo_c4_fields\<close>)
qed

lemma observation_reaches_a_fresh_snapshot_witness:
  "(5::nat) \<le> 5 \<and> fst (takeFailoverObservedAt 2 demo_c4) = Some 7 \<and>
   cl_observed (snd (takeFailoverObservedAt 2 demo_c4)) = None"
proof -
  have obs: "cl_observed demo_c4 = Some \<lparr>fo_at = 7, fo_gen = 1, fo_ver = 5\<rparr>"
    by (simp add: demo_c4_fields demo_fields)
  then have t: "fst (takeFailoverObservedAt 2 demo_c4) = Some 7"
    by (simp add: takeFailoverObservedAt_def)
  from observation_reaches_a_fresh_snapshot [OF demo_run_reachable obs t] t show ?thesis by simp
qed

end
