(* ===== verification/ConfigTypes.thy ===== *)
theory ConfigTypes
  imports GoNet
begin

section \<open>The configuration\<close>

text \<open>
  \<open>Config\<close>, \<open>PortForwardVIP\<close> and \<open>PortForwardRule\<close> of \<open>config.go\<close>, field by field. A
  \<open>time.Duration\<close> is its count of nanoseconds. The TLS material (\<open>OVNTLS\<close>,
  \<open>OVNClientCert\<close>) is reduced to what the agent compares: the certificate the shared holder
  serves (an allocation number, so that pointers can differ, and the DER chain) and the pinned
  CA pool.
\<close>

record port_forward_rule =
  pr_Proto :: string
  pr_Port :: int
  pr_DestAddr :: string
  pr_DestAddrs :: "string list"
  pr_DestPort :: int
  pr_Masquerade :: "bool option"

definition effectiveMasquerade :: "port_forward_rule \<Rightarrow> bool \<Rightarrow> bool" where
  "effectiveMasquerade r vipDefault = (case pr_Masquerade r of Some m \<Rightarrow> m | None \<Rightarrow> vipDefault)"

definition destAddrs :: "port_forward_rule \<Rightarrow> string list" where
  "destAddrs r =
     (if pr_DestAddrs r \<noteq> [] then pr_DestAddrs r
      else if pr_DestAddr r \<noteq> '''' then [pr_DestAddr r]
      else [])"

record port_forward_vip =
  pf_VIP :: string
  pf_ManageVIP :: bool
  pf_Masquerade :: bool
  pf_HairpinMasquerade :: bool
  pf_RouterMasquerade :: bool
  pf_Rules :: "port_forward_rule list"

datatype tls_certificate = TlsCertificate nat "string list"

record config =
  cf_OVNSBRemote :: string
  cf_OVNNBRemote :: string
  cf_OVNSSLCA :: string
  cf_OVNSSLCert :: string
  cf_OVNSSLKey :: string
  cf_OVNTLS :: "string set option option"
  cf_OVNClientCert :: "tls_certificate option option"
  cf_BridgeDev :: string
  cf_VRFName :: string
  cf_VethNexthop :: string
  cf_NetworkCIDRs :: "string list"
  cf_NetworkFilters :: "ipnet list"
  cf_GatewayPort :: string
  cf_RouteTableID :: int
  cf_BridgeIP :: string
  cf_OVSWrapper :: string
  cf_ReconcileInterval :: int
  cf_RouteWatch :: bool
  cf_OVSFlowWatch :: bool
  cf_FRRWatch :: bool
  cf_LogLevel :: string
  cf_DryRun :: bool
  cf_CheckConfig :: bool
  cf_CleanupOnShutdown :: bool
  cf_DrainOnShutdown :: bool
  cf_DrainTimeout :: int
  cf_DrainSettleDelay :: int
  cf_FRRPrefixList :: string
  cf_StaleChassisGracePeriod :: int
  cf_MetricsListen :: string
  cf_VethLeakEnabled :: bool
  cf_VethProviderIP :: string
  cf_VethLeakTableID :: int
  cf_VethLeakRulePriority :: int
  cf_PortForwardOnly :: bool
  cf_PortForwardEnabled :: bool
  cf_PortForwardDev :: string
  cf_PortForwardTableID :: int
  cf_PortForwardL3mdevAccept :: bool
  cf_PortForwardCTZone :: int
  cf_PortForwards :: "port_forward_vip list"

text \<open>\<open>var cfg Config\<close>: every field at its zero value.\<close>

definition zeroConfig :: config where
  "zeroConfig = \<lparr>
    cf_OVNSBRemote = '''', cf_OVNNBRemote = '''', cf_OVNSSLCA = '''', cf_OVNSSLCert = '''',
    cf_OVNSSLKey = '''', cf_OVNTLS = None, cf_OVNClientCert = None, cf_BridgeDev = '''',
    cf_VRFName = '''', cf_VethNexthop = '''', cf_NetworkCIDRs = [], cf_NetworkFilters = [],
    cf_GatewayPort = '''', cf_RouteTableID = 0, cf_BridgeIP = '''', cf_OVSWrapper = '''',
    cf_ReconcileInterval = 0, cf_RouteWatch = False, cf_OVSFlowWatch = False,
    cf_FRRWatch = False, cf_LogLevel = '''', cf_DryRun = False, cf_CheckConfig = False,
    cf_CleanupOnShutdown = False, cf_DrainOnShutdown = False, cf_DrainTimeout = 0,
    cf_DrainSettleDelay = 0, cf_FRRPrefixList = '''', cf_StaleChassisGracePeriod = 0,
    cf_MetricsListen = '''', cf_VethLeakEnabled = False, cf_VethProviderIP = '''',
    cf_VethLeakTableID = 0, cf_VethLeakRulePriority = 0, cf_PortForwardOnly = False,
    cf_PortForwardEnabled = False, cf_PortForwardDev = '''', cf_PortForwardTableID = 0,
    cf_PortForwardL3mdevAccept = False, cf_PortForwardCTZone = 0, cf_PortForwards = []\<rparr>"

definition splitAndTrim :: "string \<Rightarrow> char \<Rightarrow> string list" where
  "splitAndTrim s sep = filter (\<lambda>p. p \<noteq> '''') (map TrimSpace (Split s sep))"

lemma splitAndTrim_trimmed: "p \<in> set (splitAndTrim s sep) \<Longrightarrow> p \<noteq> '''' \<and> TrimSpace p = p"
  by (auto simp: splitAndTrim_def)

end
