(* ===== verification/DesiredState.thy ===== *)
theory DesiredState
  imports OvnJoin ConfigTypes "HOL-Library.Multiset"
begin

section \<open>From the OVN snapshot to the desired data plane\<close>

text \<open>
  \<open>desired_state.go\<close>, \<open>computeEffectiveNetworks\<close>, \<open>vipRoutesAnnounceable\<close> and
  \<open>uniqueIPs\<close>. Go walks its maps in an unspecified order; every list the result holds is
  rendered by a routine that is sorted and without duplicates, so the theorems state the result as
  a function of the snapshot's maps, whatever the order.
\<close>

record hairpin_target =
  ht_RouterMAC :: string
  ht_Segment :: string

record desired_segment =
  ds_LocalnetPort :: string
  ds_VLANTag :: "int option"

record desired_state =
  de_HairpinTargets :: "(string \<times> hairpin_target) list"
  de_Segments :: "desired_segment list"
  de_SegmentByName :: "(string \<times> desired_segment) list"
  de_HairpinIPs :: "string list"
  de_ExcludedNonV4 :: "string list"
  de_DesiredIPs :: "string list"
  de_FRRStaticIPs :: "string list"
  de_DormantVIPs :: "string list"
  de_AnnouncedVIPs :: "string list"

definition uniqueIPs :: "string list \<Rightarrow> string list" where
  "uniqueIPs ips = sort (uniq_by (\<lambda>ip. ip) [] (filter (\<lambda>ip. ip \<noteq> '''') (map TrimSpace ips)))"

definition gatewayTargets :: "local_router \<Rightarrow> (string \<times> hairpin_target) list" where
  "gatewayTargets lr =
     concat (map (\<lambda>cidr. case ParseCIDR cidr of
         None \<Rightarrow> []
       | Some (ip, _) \<Rightarrow>
           if lri_LRPMAC lr \<noteq> ''''
           then [(IPString ip, \<lparr>ht_RouterMAC = lri_LRPMAC lr, ht_Segment = segmentName (lri_Segment lr)\<rparr>)]
           else [])
       (lri_LRPNetworks lr))"

definition buildHairpinTargets :: "ovn_state \<Rightarrow> (string \<times> hairpin_target) list" where
  "buildHairpinTargets st =
     (let nats = foldl (\<lambda>m (ip, mac). AList.update ip
                    \<lparr>ht_RouterMAC = mac, ht_Segment = mget (st_NATIPToSegment st) ip\<rparr> m) []
                  (st_NATIPToRouterMAC st)
      in foldl (\<lambda>m lr. foldl (\<lambda>m (ip, t). AList.update ip t m) m (gatewayTargets lr)) nats
           (st_LocalRouters st))"

definition segmentSet :: "local_router list \<Rightarrow> (string \<times> desired_segment) list" where
  "segmentSet localRouters =
     foldl (\<lambda>m lr.
        (let key = segmentName (lri_Segment lr) in
         if map_of m key \<noteq> None then m
         else AList.update key
           \<lparr>ds_LocalnetPort = key,
            ds_VLANTag = (case lri_Segment lr of None \<Rightarrow> None | Some s \<Rightarrow> seg_VLANTag s)\<rparr> m))
       [] localRouters"

definition buildDesiredSegments ::
  "local_router list \<Rightarrow> desired_segment list \<times> (string \<times> desired_segment) list" where
  "buildDesiredSegments localRouters =
     (sort_key ds_LocalnetPort (map snd (segmentSet localRouters)), segmentSet localRouters)"

definition splitIPv4 :: "(string \<times> hairpin_target) list \<Rightarrow> string list \<times> string list" where
  "splitIPv4 targets = (sort (filter isIPv4 (map fst targets)), sort (filter (\<lambda>ip. \<not> isIPv4 ip) (map fst targets)))"

definition computeDesiredState :: "ovn_state \<Rightarrow> port_forward_vip list \<Rightarrow> bool \<Rightarrow> desired_state" where
  "computeDesiredState st portForwards announceVIPs =
     (let targets = buildHairpinTargets st;
          (hairpinIPs, excludedNonV4) = splitIPv4 targets;
          (segments, segmentByName) = buildDesiredSegments (st_LocalRouters st);
          (desiredIPs, dormantVIPs, announcedVIPs) =
            foldl (\<lambda>(desired, dormant, announced) pf.
               if \<not> announceVIPs then (desired, dormant @ [pf_VIP pf], announced)
               else (desired @ [pf_VIP pf], dormant, announced @ [pf_VIP pf]))
              (hairpinIPs, [], []) portForwards
      in \<lparr>de_HairpinTargets = targets, de_Segments = segments, de_SegmentByName = segmentByName,
          de_HairpinIPs = hairpinIPs, de_ExcludedNonV4 = excludedNonV4,
          de_DesiredIPs = uniqueIPs desiredIPs, de_FRRStaticIPs = uniqueIPs hairpinIPs,
          de_DormantVIPs = uniqueIPs dormantVIPs, de_AnnouncedVIPs = uniqueIPs announcedVIPs\<rparr>)"

text \<open>From \<open>agent.go\<close>: the effective networks of a cycle, and whether it may announce VIPs.\<close>

definition computeEffectiveNetworks :: "config \<Rightarrow> ipnet list \<Rightarrow> ipnet list" where
  "computeEffectiveNetworks cfg discovered =
     filter NetIs4 (effectiveNetworkFilters (cf_NetworkFilters cfg) discovered)"

definition vipRoutesAnnounceable :: "config \<Rightarrow> ovn_state \<Rightarrow> bool" where
  "vipRoutesAnnounceable cfg st = (cf_PortForwardOnly cfg \<or> st_HasLocalRouters st)"

subsection \<open>The rendered lists\<close>

definition plainIPs :: "string list \<Rightarrow> string set" where
  "plainIPs ips = TrimSpace ` set ips - {''''}"

interpretation unique_ips: canonical_list uniqueIPs plainIPs
  by unfold_locales (auto simp: uniqueIPs_def plainIPs_def set_uniq_by_id distinct_uniq_by_id)

interpretation unique_networks: canonical_list "\<lambda>nets. map NetString (uniqueNetworks nets)" "\<lambda>nets. NetString ` set nets"
proof unfold_locales
  fix nets :: "ipnet list"
  show "set (map NetString (uniqueNetworks nets)) = NetString ` set nets"
    using key_set_uniq_by [of NetString "[]" nets] by (simp add: uniqueNetworks_def)
  show "sorted (map NetString (uniqueNetworks nets))" by (simp add: uniqueNetworks_def)
  have "mset (map NetString (uniqueNetworks nets)) = mset (map NetString (uniq_by NetString [] nets))"
    by (simp add: uniqueNetworks_def mset_map [symmetric] del: mset_map) (simp add: mset_map)
  then show "distinct (map NetString (uniqueNetworks nets))"
    using distinct_map_uniq_by by (metis mset_eq_imp_distinct_iff)
qed

subsection \<open>What the derivation yields\<close>

lemma map_of_fold_update:
  "map_of (foldl (\<lambda>m (k, v). AList.update k (f k v) m) m0 kvs) =
     map_of m0 ++ map_of (rev (map (\<lambda>(k, v). (k, f k v)) kvs))"
  by (induction kvs rule: rev_induct) (auto simp: fun_eq_iff map_add_def)

lemma keys_fold_update:
  "fst ` set (foldl (\<lambda>m (k, v). AList.update k (f k v) m) m0 kvs) = fst ` set m0 \<union> fst ` set kvs"
  by (induction kvs rule: rev_induct) (simp_all add: split_beta)

lemma distinct_fold_update:
  "distinct (map fst m0) \<Longrightarrow> distinct (map fst (foldl (\<lambda>m (k, v). AList.update k (f k v) m) m0 kvs))"
  by (induction kvs rule: rev_induct) auto

definition gatewayIPs :: "local_router list \<Rightarrow> string set" where
  "gatewayIPs lrs = {IPString ip | lr cidr ip net. lr \<in> set lrs \<and> cidr \<in> set (lri_LRPNetworks lr) \<and>
      ParseCIDR cidr = Some (ip, net) \<and> lri_LRPMAC lr \<noteq> ''''}"

lemma gatewayTargets_keys1:
  "x \<in> fst ` set (gatewayTargets lr) \<longleftrightarrow>
     (\<exists>cidr\<in>set (lri_LRPNetworks lr). \<exists>ip net. ParseCIDR cidr = Some (ip, net) \<and> x = IPString ip \<and> lri_LRPMAC lr \<noteq> '''')"
proof -
  let ?h = "\<lambda>cidr. fst ` set (case ParseCIDR cidr of None \<Rightarrow> []
       | Some (ip, _) \<Rightarrow> if lri_LRPMAC lr \<noteq> ''''
           then [(IPString ip, \<lparr>ht_RouterMAC = lri_LRPMAC lr, ht_Segment = segmentName (lri_Segment lr)\<rparr>)] else [])"
  have "fst ` set (gatewayTargets lr) = (\<Union>cidr\<in>set (lri_LRPNetworks lr). ?h cidr)"
    by (simp add: gatewayTargets_def image_UN)
  moreover have "x \<in> ?h cidr \<longleftrightarrow> (\<exists>ip net. ParseCIDR cidr = Some (ip, net) \<and> x = IPString ip \<and> lri_LRPMAC lr \<noteq> '''')"
    for cidr by (cases "ParseCIDR cidr") auto
  ultimately show ?thesis by simp
qed

lemma gatewayTargets_keys:
  "(\<Union>lr\<in>set lrs. fst ` set (gatewayTargets lr)) = gatewayIPs lrs"
  unfolding gatewayIPs_def by (rule set_eqI) (simp only: UN_iff gatewayTargets_keys1 mem_Collect_eq, blast)

lemma buildHairpinTargets_keys:
  "fst ` set (buildHairpinTargets st) = fst ` set (st_NATIPToRouterMAC st) \<union> gatewayIPs (st_LocalRouters st)"
proof -
  let ?nats = "foldl (\<lambda>m (ip, mac). AList.update ip
      \<lparr>ht_RouterMAC = mac, ht_Segment = mget (st_NATIPToSegment st) ip\<rparr> m) [] (st_NATIPToRouterMAC st)"
  have "fst ` set (buildHairpinTargets st) =
      fst ` set ?nats \<union> (\<Union>lr\<in>set (st_LocalRouters st). fst ` set (gatewayTargets lr))"
    unfolding buildHairpinTargets_def Let_def
    by (rule foldl_collect [where g = "\<lambda>m. fst ` set m"]) (rule keys_fold_update)
  also have "fst ` set ?nats = fst ` set (st_NATIPToRouterMAC st)"
    using keys_fold_update [of "\<lambda>ip mac. \<lparr>ht_RouterMAC = mac, ht_Segment = mget (st_NATIPToSegment st) ip\<rparr>" "[]"]
    by simp
  finally show ?thesis by (simp add: gatewayTargets_keys)
qed

lemma buildHairpinTargets_distinct: "distinct (map fst (buildHairpinTargets st))"
  unfolding buildHairpinTargets_def Let_def
  by (rule foldl_invariant [where P = "\<lambda>m. distinct (map fst m)"]) (auto intro: distinct_fold_update)

lemma isIPv4_plain: "isIPv4 ip \<Longrightarrow> TrimSpace ip = ip \<and> ip \<noteq> ''''"
  by (auto simp: isIPv4_def split: option.splits dest: ParseIP_chars TrimSpace_ParseIP)

lemma splitIPv4_facts:
  assumes "distinct (map fst targets)"
  shows "set (fst (splitIPv4 targets)) = {ip \<in> fst ` set targets. isIPv4 ip}"
    and "sorted (fst (splitIPv4 targets))" and "distinct (fst (splitIPv4 targets))"
  using assms by (auto simp: splitIPv4_def)

lemma plainIPs_v4: "\<forall>ip\<in>set ips. isIPv4 ip \<Longrightarrow> plainIPs ips = set ips"
  unfolding plainIPs_def using isIPv4_plain by (force simp: image_iff)

lemma vips_fold:
  "foldl (\<lambda>(desired, dormant, announced) pf.
       if \<not> a then (desired, dormant @ [pf_VIP pf], announced)
       else (desired @ [pf_VIP pf], dormant, announced @ [pf_VIP pf])) (d, o', n) pfs =
   (if a then (d @ map pf_VIP pfs, o', n @ map pf_VIP pfs) else (d, o' @ map pf_VIP pfs, n))"
  by (induction pfs arbitrary: d o' n) auto

lemma computeDesiredState_fields:
  "de_HairpinTargets (computeDesiredState st pfs a) = buildHairpinTargets st"
  "de_HairpinIPs (computeDesiredState st pfs a) = fst (splitIPv4 (buildHairpinTargets st))"
  "de_FRRStaticIPs (computeDesiredState st pfs a) = uniqueIPs (fst (splitIPv4 (buildHairpinTargets st)))"
  "de_DesiredIPs (computeDesiredState st pfs a) =
     uniqueIPs (fst (splitIPv4 (buildHairpinTargets st)) @ (if a then map pf_VIP pfs else []))"
  "de_AnnouncedVIPs (computeDesiredState st pfs a) = uniqueIPs (if a then map pf_VIP pfs else [])"
  "de_DormantVIPs (computeDesiredState st pfs a) = uniqueIPs (if a then [] else map pf_VIP pfs)"
  "de_Segments (computeDesiredState st pfs a) = fst (buildDesiredSegments (st_LocalRouters st))"
  "de_SegmentByName (computeDesiredState st pfs a) = snd (buildDesiredSegments (st_LocalRouters st))"
  by (simp_all add: computeDesiredState_def Let_def vips_fold split: prod.splits)

lemma frr_statics_set:
  "set (de_FRRStaticIPs (computeDesiredState st pfs a)) =
     {ip \<in> fst ` set (st_NATIPToRouterMAC st) \<union> gatewayIPs (st_LocalRouters st). isIPv4 ip}"
proof -
  have "plainIPs (fst (splitIPv4 (buildHairpinTargets st))) = set (fst (splitIPv4 (buildHairpinTargets st)))"
    by (rule plainIPs_v4) (simp add: splitIPv4_facts buildHairpinTargets_distinct)
  then show ?thesis
    by (simp add: computeDesiredState_fields unique_ips.render_set splitIPv4_facts
        buildHairpinTargets_distinct buildHairpinTargets_keys)
qed

lemma plainIPs_append: "plainIPs (xs @ ys) = plainIPs xs \<union> plainIPs ys"
  by (auto simp: plainIPs_def)

text \<open>
  C20: the split between the two route planes. The FRR statics are exactly the IPv4 addresses
  among the NAT external addresses and the addresses of the local gateway ports; the kernel
  routes are the FRR statics plus the announced VIPs and nothing else; a VIP is either announced
  or dormant, all of them alike; and every list is sorted without duplicates.
\<close>

theorem desired_planes:
  "set (de_FRRStaticIPs (computeDesiredState st pfs a)) =
     {ip \<in> fst ` set (st_NATIPToRouterMAC st) \<union> gatewayIPs (st_LocalRouters st). isIPv4 ip} \<and>
   set (de_DesiredIPs (computeDesiredState st pfs a)) =
     set (de_FRRStaticIPs (computeDesiredState st pfs a)) \<union> set (de_AnnouncedVIPs (computeDesiredState st pfs a)) \<and>
   set (de_AnnouncedVIPs (computeDesiredState st pfs a)) = (if a then plainIPs (map pf_VIP pfs) else {}) \<and>
   set (de_DormantVIPs (computeDesiredState st pfs a)) = (if a then {} else plainIPs (map pf_VIP pfs)) \<and>
   list_all (\<lambda>l. sorted l \<and> distinct l)
     [de_FRRStaticIPs (computeDesiredState st pfs a), de_DesiredIPs (computeDesiredState st pfs a),
      de_AnnouncedVIPs (computeDesiredState st pfs a), de_DormantVIPs (computeDesiredState st pfs a)]"
proof (intro conjI)
  let ?d = "computeDesiredState st pfs a"
  show "set (de_FRRStaticIPs ?d) =
     {ip \<in> fst ` set (st_NATIPToRouterMAC st) \<union> gatewayIPs (st_LocalRouters st). isIPv4 ip}"
    by (rule frr_statics_set)
  show "set (de_DesiredIPs ?d) = set (de_FRRStaticIPs ?d) \<union> set (de_AnnouncedVIPs ?d)"
    by (simp add: computeDesiredState_fields unique_ips.render_set plainIPs_append)
  show "set (de_AnnouncedVIPs ?d) = (if a then plainIPs (map pf_VIP pfs) else {})"
    by (simp add: computeDesiredState_fields unique_ips.render_set) (simp add: plainIPs_def)
  show "set (de_DormantVIPs ?d) = (if a then {} else plainIPs (map pf_VIP pfs))"
    by (simp add: computeDesiredState_fields unique_ips.render_set) (simp add: plainIPs_def)
  show "list_all (\<lambda>l. sorted l \<and> distinct l)
      [de_FRRStaticIPs ?d, de_DesiredIPs ?d, de_AnnouncedVIPs ?d, de_DormantVIPs ?d]"
    by (simp add: computeDesiredState_fields unique_ips.render_sorted unique_ips.render_distinct)
qed

lemma hairpin_map_cong:
  assumes "map_of (st_NATIPToRouterMAC st) = map_of (st_NATIPToRouterMAC st')"
    and "distinct (map fst (st_NATIPToRouterMAC st))" "distinct (map fst (st_NATIPToRouterMAC st'))"
    and "map_of (st_NATIPToSegment st) = map_of (st_NATIPToSegment st')"
    and "st_LocalRouters st = st_LocalRouters st'"
  shows "map_of (buildHairpinTargets st) = map_of (buildHairpinTargets st')"
proof -
  let ?f = "\<lambda>ip mac. \<lparr>ht_RouterMAC = mac, ht_Segment = mget (st_NATIPToSegment st) ip\<rparr>"
  have mg: "mget (st_NATIPToSegment st') = mget (st_NATIPToSegment st)"
    by (simp add: fun_eq_iff mget_def assms(4))
  have rev_same: "map_of (rev (map (\<lambda>(k, v). (k, ?f k v)) kvs)) = (\<lambda>k. map_option (?f k) (map_of kvs k))"
    if "distinct (map fst kvs)" for kvs
  proof -
    have "distinct (map fst (map (\<lambda>(k, v). (k, ?f k v)) kvs))"
      using that by (simp add: comp_def split_beta)
    then have "map_of (rev (map (\<lambda>(k, v). (k, ?f k v)) kvs)) = map_of (map (\<lambda>(k, v). (k, ?f k v)) kvs)"
      by (intro iffD2 [OF map_of_inject_set]) (simp_all add: rev_map [symmetric])
    also have "\<dots> = (\<lambda>k. map_option (?f k) (map_of kvs k))"
      by (induction kvs) auto
    finally show ?thesis .
  qed
  have outer: "map_of (foldl (\<lambda>m lr. foldl (\<lambda>m (ip, t). AList.update ip t m) m (gatewayTargets lr)) m lrs) =
      map_of (foldl (\<lambda>m lr. foldl (\<lambda>m (ip, t). AList.update ip t m) m (gatewayTargets lr)) m' lrs)"
    if "map_of m = map_of m'" for m m' lrs
    using that
  proof (induction lrs arbitrary: m m')
    case (Cons lr lrs)
    have "map_of (foldl (\<lambda>m (ip, t). AList.update ip t m) m (gatewayTargets lr)) =
        map_of (foldl (\<lambda>m (ip, t). AList.update ip t m) m' (gatewayTargets lr))"
      using Cons.prems by (simp add: map_of_fold_update [of "\<lambda>ip t. t"])
    from Cons.IH [OF this] show ?case by simp
  qed simp
  show ?thesis
    unfolding buildHairpinTargets_def Let_def assms(5)
    by (rule outer, unfold mg, unfold map_of_fold_update rev_same [OF assms(2)] rev_same [OF assms(3)] assms(1)) (rule refl)
qed


definition demo_snapshot :: "smap \<Rightarrow> ovn_state" where
  "demo_snapshot nats = zero_state\<lparr>st_NATIPToRouterMAC := nats\<rparr>"


subsection \<open>Segments\<close>

lemma update_fresh: "map_of m k = None \<Longrightarrow> AList.update k v m = m @ [(k, v)]"
  by (induction m) (auto split: if_splits)

lemma segmentSet_facts:
  "distinct (map fst (segmentSet lrs)) \<and> (\<forall>(k, d) \<in> set (segmentSet lrs). ds_LocalnetPort d = k)"
  unfolding segmentSet_def
  by (rule foldl_invariant) (auto simp: Let_def update_fresh map_of_eq_None_iff)

lemma segmentSet_keys: "fst ` set (segmentSet lrs) = (\<lambda>lr. segmentName (lri_Segment lr)) ` set lrs"
proof -
  have "fst ` set (segmentSet lrs) = {} \<union> (\<Union>lr\<in>set lrs. {segmentName (lri_Segment lr)})"
    unfolding segmentSet_def
    by (subst foldl_collect [where g = "\<lambda>m. fst ` set m" and h = "\<lambda>lr. {segmentName (lri_Segment lr)}"])
       (auto simp: Let_def map_of_eq_None_iff)
  then show ?thesis by auto
qed

text \<open>
  The segments as a table: rendered in port order, without duplicates, naming exactly the
  segments of the local routers, and each found again under its name.
\<close>

interpretation segment_list:
  canonical_list "\<lambda>lrs. map ds_LocalnetPort (fst (buildDesiredSegments lrs))" "\<lambda>lrs. (\<lambda>lr. segmentName (lri_Segment lr)) ` set lrs"
proof unfold_locales
  fix lrs :: "local_router list"
  have ports: "map ds_LocalnetPort (map snd (segmentSet lrs)) = map fst (segmentSet lrs)"
    using segmentSet_facts [of lrs] by (auto simp: case_prod_beta)
  have "set (map ds_LocalnetPort (fst (buildDesiredSegments lrs))) = set (map fst (segmentSet lrs))"
    using arg_cong [OF ports, of set] by (simp add: buildDesiredSegments_def image_image)
  then show "set (map ds_LocalnetPort (fst (buildDesiredSegments lrs))) = (\<lambda>lr. segmentName (lri_Segment lr)) ` set lrs"
    using segmentSet_keys [of lrs] by simp
  show "sorted (map ds_LocalnetPort (fst (buildDesiredSegments lrs)))" by (simp add: buildDesiredSegments_def)
  have "mset (map ds_LocalnetPort (fst (buildDesiredSegments lrs))) = mset (map fst (segmentSet lrs))"
    using arg_cong [OF ports, of mset] by (simp add: buildDesiredSegments_def multiset.map_comp)
  then show "distinct (map ds_LocalnetPort (fst (buildDesiredSegments lrs)))"
    using segmentSet_facts [of lrs] by (metis mset_eq_imp_distinct_iff)
qed

text \<open>
  The segment list drives the data plane of every local router: it names exactly the
  segments of the local routers, in strictly increasing order of the localnet port, and the
  by-name index the per-address routing decision uses finds each of them.
\<close>

theorem segments_cover_routers:
  "set (map ds_LocalnetPort (de_Segments (computeDesiredState st pfs a))) =
     (\<lambda>lr. segmentName (lri_Segment lr)) ` set (st_LocalRouters st) \<and>
   sorted_wrt (<) (map ds_LocalnetPort (de_Segments (computeDesiredState st pfs a))) \<and>
   list_all (\<lambda>d. map_of (de_SegmentByName (computeDesiredState st pfs a)) (ds_LocalnetPort d) = Some d)
     (de_Segments (computeDesiredState st pfs a))"
proof (intro conjI)
  let ?l = "map ds_LocalnetPort (de_Segments (computeDesiredState st pfs a))"
  show "set ?l = (\<lambda>lr. segmentName (lri_Segment lr)) ` set (st_LocalRouters st)"
    by (simp only: computeDesiredState_fields segment_list.render_set)
  show "sorted_wrt (<) ?l"
    unfolding computeDesiredState_fields
    using segment_list.render_sorted segment_list.render_distinct strict_sorted_iff by blast
  show "list_all (\<lambda>d. map_of (de_SegmentByName (computeDesiredState st pfs a)) (ds_LocalnetPort d) = Some d)
     (de_Segments (computeDesiredState st pfs a))"
    using segmentSet_facts [of "st_LocalRouters st"]
    by (auto simp: computeDesiredState_fields buildDesiredSegments_def list_all_iff intro!: map_of_is_SomeI)
qed

end
