(* ===== verification/Host.thy ===== *)
theory Host
  imports ConfigTypes "HOL-Library.Multiset" Complex_Main
begin

section \<open>The host the agent drives\<close>

text \<open>
  Everything outside the program that the agent calls: \<open>vtysh\<close>, \<open>nft\<close>, netlink, the OVS command
  line and the file system. The host is a parameter. Each of its answers is a function of the history
  of calls made so far and of the call's arguments, so the host may answer the same question
  differently at different times. Every call is appended to the history together with whether it
  succeeded; the theorems about ordering, batching and convergence are about these histories.

  Decoding JSON text into a tree is likewise a parameter (\<open>encoding/json\<close>); how the agent reads
  the tree is modelled where it is used.
\<close>

datatype json =
    JNull
  | JBool bool
  | JNum int
  | JStr string
  | JArr "json list"
  | JObj "(string \<times> json) list"

definition jfield :: "(string \<times> json) list \<Rightarrow> string \<Rightarrow> json option" where
  "jfield kvs k = map_of (rev kvs) k"

text \<open>A netlink error: the errno cases the agent tells apart, or any other.\<close>

datatype errno = ESRCH | ENOENT | EEXIST | EADDRNOTAVAIL | EOther string

definition isNoSuchRoute :: "errno \<Rightarrow> bool" where
  "isNoSuchRoute e = (e = ESRCH)"

definition isNoSuchRule :: "errno \<Rightarrow> bool" where
  "isNoSuchRule e = (e = ENOENT)"

definition isFileExists :: "errno \<Rightarrow> bool" where
  "isFileExists e = (e = EEXIST)"

definition isNoSuchAddr :: "errno \<Rightarrow> bool" where
  "isNoSuchAddr e = (e = EADDRNOTAVAIL)"

datatype link_kind = VlanLink int | VrfLink int | OtherLink string

record nl_link =
  ln_Index :: int
  ln_Name :: string
  ln_Up :: bool
  ln_MAC :: string
  ln_Alias :: string
  ln_ParentIndex :: int
  ln_Kind :: link_kind

record nl_route =
  nr_LinkIndex :: int
  nr_Dst :: "ipnet option"
  nr_ScopeLink :: bool
  nr_Protocol :: int
  nr_Table :: int

record nl_rule =
  nu_Dst :: "ipnet option"
  nu_Table :: int
  nu_Priority :: int

text \<open>
  The routes with a gateway and the policy rules of the veth leak, and the netlink and file
  operations that only report an error.
\<close>

record gw_route =
  gr_LinkIndex :: int
  gr_Dst :: "ipnet option"
  gr_Gw :: "netip option"
  gr_Table :: int
  gr_Protocol :: int

record pol_rule =
  po_Src :: "ipnet option"
  po_Dst :: "ipnet option"
  po_Iif :: string
  po_Mark :: int
  po_Table :: int
  po_Priority :: int

datatype net_op =
    LinkAddVlan string int int
  | LinkAddVeth string string
  | LinkSetAlias int string
  | LinkSetUp int
  | LinkSetMaster int int
  | LinkDel int
  | AddrAdd int ipnet
  | AddrDel int ipnet
  | AddrReplace int ipnet
  | NeighSet int netip string
  | GwRouteReplace gw_route
  | GwRouteDel gw_route
  | PolRuleAdd pol_rule
  | PolRuleDel pol_rule
  | WriteFile string string

datatype host_call =
    CVtysh "string list"
  | CLinkByName string
  | CLinkByIndex int
  | CLinkList
  | CRouteReplace nl_route
  | CRouteDel nl_route
  | CRouteListTable int int
  | CRouteListLink int
  | CRuleAdd nl_rule
  | CRuleDel nl_rule
  | COVS "string list" string
  | CNet net_op
  | CAddrList int
  | CPolRuleList
  | CGwRouteList "int option" int "int option"
  | CNft "string list" string

type_synonym event = "host_call \<times> bool"
type_synonym history = "event list"

record host =
  h_vtysh :: "history \<Rightarrow> string list \<Rightarrow> string \<times> err option"
  h_json :: "string \<Rightarrow> json option"
  h_jsonStream :: "string \<Rightarrow> json list option"
  h_linkByName :: "history \<Rightarrow> string \<Rightarrow> errno + nl_link"
  h_linkByIndex :: "history \<Rightarrow> int \<Rightarrow> errno + nl_link"
  h_linkList :: "history \<Rightarrow> errno + nl_link list"
  h_routeReplace :: "history \<Rightarrow> nl_route \<Rightarrow> errno option"
  h_routeDel :: "history \<Rightarrow> nl_route \<Rightarrow> errno option"
  h_routeListTable :: "history \<Rightarrow> int \<Rightarrow> int \<Rightarrow> errno + nl_route list"
  h_routeListLink :: "history \<Rightarrow> int \<Rightarrow> errno + nl_route list"
  h_ruleAdd :: "history \<Rightarrow> nl_rule \<Rightarrow> errno option"
  h_ruleDel :: "history \<Rightarrow> nl_rule \<Rightarrow> errno option"
  h_ovs :: "history \<Rightarrow> string list \<Rightarrow> string \<Rightarrow> string \<times> err option"
  h_net :: "history \<Rightarrow> net_op \<Rightarrow> errno option"
  h_addrList :: "history \<Rightarrow> int \<Rightarrow> errno + netip list"
  h_polRuleList :: "history \<Rightarrow> errno + pol_rule list"
  h_gwRouteList :: "history \<Rightarrow> int option \<Rightarrow> int \<Rightarrow> int option \<Rightarrow> errno + gw_route list"
  h_nft :: "history \<Rightarrow> string list \<Rightarrow> string \<Rightarrow> string \<times> err option"

text \<open>One entry of FRR's static route document, as the agent reads it.\<close>

record frr_route_entry =
  fe_Selected :: bool
  fe_Installed :: bool
  fe_Nexthops :: "string list"

type_synonym frr_doc = "(string \<times> frr_route_entry list) list"

text \<open>
  The state of the \<open>RouteManager\<close> that survives a call: the history of the host, and the
  memoised static route document.
\<close>

record route_manager =
  rm_hist :: history
  rm_frrRouteCache :: "frr_doc option"

definition logCall :: "host_call \<Rightarrow> bool \<Rightarrow> 'z route_manager_scheme \<Rightarrow> 'z route_manager_scheme" where
  "logCall c ok rm = rm\<lparr>rm_hist := rm_hist rm @ [(c, ok)]\<rparr>"

lemma logCall_fields [simp]:
  "rm_hist (logCall c ok rm) = rm_hist rm @ [(c, ok)]"
  "rm_frrRouteCache (logCall c ok rm) = rm_frrRouteCache rm"
  by (simp_all add: logCall_def)

definition runVtysh ::
  "host \<Rightarrow> string list \<Rightarrow> 'z route_manager_scheme \<Rightarrow> (string \<times> err option) \<times> 'z route_manager_scheme" where
  "runVtysh env args rm =
     (let (out, e) = h_vtysh env (rm_hist rm) args in ((out, e), logCall (CVtysh args) (e = None) rm))"

subsection \<open>What a run appends to the history\<close>

text \<open>The calls an operation made: the part of the history after the one it started from.\<close>

definition callsOf :: "'z route_manager_scheme \<Rightarrow> 'z route_manager_scheme \<Rightarrow> history" where
  "callsOf rm rm' = drop (length (rm_hist rm)) (rm_hist rm')"

definition extends :: "'z route_manager_scheme \<Rightarrow> 'z route_manager_scheme \<Rightarrow> bool" where
  "extends rm rm' \<longleftrightarrow> (\<exists>t. rm_hist rm' = rm_hist rm @ t)"

lemma callsOf_append [simp]: "rm_hist rm' = rm_hist rm @ t \<Longrightarrow> callsOf rm rm' = t"
  by (simp add: callsOf_def)

text \<open>The \<open>vtysh\<close> argument lists among some calls, and the ones that changed the kernel.\<close>

definition vtyshCalls :: "history \<Rightarrow> string list list" where
  "vtyshCalls h = concat (map (\<lambda>(c, _). case c of CVtysh args \<Rightarrow> [args] | _ \<Rightarrow> []) h)"

lemma vtyshCalls_simps [simp]:
  "vtyshCalls [] = []"
  "vtyshCalls ((CVtysh args, ok) # h) = args # vtyshCalls h"
  "vtyshCalls (h @ h') = vtyshCalls h @ vtyshCalls h'"
  by (simp_all add: vtyshCalls_def)

subsection \<open>Reads and writes\<close>

text \<open>
  A read changes nothing on the host: a lookup, a listing, or a \<open>vtysh\<close> call without a
  configuration or clear command. The writes of a history are the calls left when the reads are
  dropped.
\<close>

definition isRead :: "host_call \<Rightarrow> bool" where
  "isRead c =
     (case c of
        CVtysh args \<Rightarrow> list_all (\<lambda>l. \<not> HasPrefix l ''no '' \<and> \<not> HasPrefix l ''ip '' \<and>
          \<not> HasPrefix l ''clear '' \<and> l \<noteq> ''conf t'') args
      | CLinkByName _ \<Rightarrow> True | CLinkByIndex _ \<Rightarrow> True | CLinkList \<Rightarrow> True
      | CRouteListTable _ _ \<Rightarrow> True | CRouteListLink _ \<Rightarrow> True
      | CAddrList _ \<Rightarrow> True | CPolRuleList \<Rightarrow> True | CGwRouteList _ _ _ \<Rightarrow> True
      | CNft args _ \<Rightarrow> ''list'' \<in> set args
      | _ \<Rightarrow> False)"

definition writes :: "history \<Rightarrow> history" where
  "writes h = filter (\<lambda>(c, _). \<not> isRead c) h"

lemma writes_simps [simp]:
  "writes [] = []" "writes (h @ h') = writes h @ writes h'"
  "writes ((c, ok) # h) = (if isRead c then writes h else (c, ok) # writes h)"
  by (simp_all add: writes_def)

lemma isRead_simps [simp]:
  "isRead (CLinkByName n)" "isRead (CLinkByIndex i)" "isRead CLinkList" "isRead (CRouteListTable t p)"
  "isRead (CRouteListLink i)" "isRead (CAddrList i)" "isRead CPolRuleList" "isRead (CGwRouteList oif t pr)" "\<not> isRead (CNet x)" "\<not> isRead (CRouteReplace r)" "\<not> isRead (CRouteDel r)"
  "\<not> isRead (CRuleAdd u)" "\<not> isRead (CRuleDel u)"
  by (simp_all add: isRead_def)

end
