(* ===== verification/FrrRoutes.thy ===== *)
theory FrrRoutes
  imports Host DesiredState
begin

section \<open>FRR static routes through vtysh\<close>

text \<open>
  The FRR half of \<open>routing.go\<close>: validation, the batched add and delete of \<open>/32\<close> statics, and
  the structured reads of FRR's static and connected routes with the per-cycle memo. A command
  sent to \<open>vtysh\<close> is its argument list, so what reaches FRR can be read off the history.
\<close>

subsection \<open>Validation and batches\<close>

definition validateIP :: "string \<Rightarrow> err option" where
  "validateIP ip =
     (case ParseIP ip of
        None \<Rightarrow> Some (Err ''invalid IP address'')
      | Some p \<Rightarrow> if To4 p = None then Some (Err ''not an IPv4 address'') else None)"

definition frrBatchSize :: nat where
  "frrBatchSize = 500"

text \<open>The loop that cuts a list into consecutive slices of at most \<open>n\<close>.\<close>

function chunks :: "nat \<Rightarrow> 'a list \<Rightarrow> 'a list list" where
  "chunks n xs = (if xs = [] \<or> n = 0 then [] else take n xs # chunks n (drop n xs))"
  by pat_completeness auto

termination
  by (relation "measure (\<lambda>(n, xs). length xs)") auto

declare chunks.simps [simp del]

definition inVRF :: "config \<Rightarrow> string list \<Rightarrow> string list" where
  "inVRF cfg lines =
     [''-c'', ''conf t'', ''-c'', ''vrf '' @ cf_VRFName cfg] @
     concat (map (\<lambda>l. [''-c'', l]) lines) @
     [''-c'', ''exit-vrf'', ''-c'', ''end'']"

definition routeLine :: "config \<Rightarrow> string \<Rightarrow> string" where
  "routeLine cfg ip = ''ip route '' @ ip @ ''/32 '' @ cf_VethNexthop cfg"

definition addArgs :: "config \<Rightarrow> string list \<Rightarrow> string list" where
  "addArgs cfg chunk = inVRF cfg (map (routeLine cfg) chunk)"

definition delArgs :: "config \<Rightarrow> string list \<Rightarrow> string list" where
  "delArgs cfg chunk = inVRF cfg (map (\<lambda>ip. ''no '' @ routeLine cfg ip) chunk)"

definition clearCache :: "'z route_manager_scheme \<Rightarrow> 'z route_manager_scheme" where
  "clearCache rm = rm\<lparr>rm_frrRouteCache := None\<rparr>"

text \<open>The chunk loop of \<open>AddFRRRoutes\<close>: every chunk runs, the failures are joined.\<close>

fun addChunks ::
  "host \<Rightarrow> config \<Rightarrow> string list list \<Rightarrow> 'z route_manager_scheme \<Rightarrow> err list \<times> 'z route_manager_scheme" where
  "addChunks env cfg [] rm = ([], rm)"
| "addChunks env cfg (ch # chs) rm =
     (let ((out, e), rm1) = runVtysh env (addArgs cfg ch) rm;
          (errs, rm2) = addChunks env cfg chs rm1
      in (case e of None \<Rightarrow> errs | Some x \<Rightarrow> x # errs, rm2))"

definition AddFRRRoutes ::
  "host \<Rightarrow> config \<Rightarrow> string list \<Rightarrow> 'z route_manager_scheme \<Rightarrow> err option \<times> 'z route_manager_scheme" where
  "AddFRRRoutes env cfg ips rm =
     (if ips = [] then (None, rm)
      else (let valid = filter (\<lambda>ip. validateIP ip = None) ips in
        if valid = [] then (None, rm)
        else if cf_DryRun cfg then (None, rm)
        else (let (errs, rm1) = addChunks env cfg (chunks frrBatchSize valid) (clearCache rm)
              in (if errs = [] then None else Some (hd errs), rm1))))"

text \<open>The chunk loop of \<open>DelFRRRoutes\<close> stops at the first failure.\<close>

fun delChunks ::
  "host \<Rightarrow> config \<Rightarrow> string list list \<Rightarrow> 'z route_manager_scheme \<Rightarrow> err option \<times> 'z route_manager_scheme" where
  "delChunks env cfg [] rm = (None, rm)"
| "delChunks env cfg (ch # chs) rm =
     (let ((out, e), rm1) = runVtysh env (delArgs cfg ch) rm
      in case e of Some x \<Rightarrow> (Some x, rm1) | None \<Rightarrow> delChunks env cfg chs rm1)"

definition DelFRRRoutes ::
  "host \<Rightarrow> config \<Rightarrow> string list \<Rightarrow> 'z route_manager_scheme \<Rightarrow> err option \<times> 'z route_manager_scheme" where
  "DelFRRRoutes env cfg ips rm =
     (if ips = [] then (None, rm)
      else (case find (\<lambda>ip. validateIP ip \<noteq> None) ips of
              Some ip \<Rightarrow> (validateIP ip, rm)
            | None \<Rightarrow>
                if cf_DryRun cfg then (None, rm)
                else delChunks env cfg (chunks frrBatchSize ips) (clearCache rm)))"

definition refreshArgs :: "config \<Rightarrow> string list" where
  "refreshArgs cfg = [''-c'', ''clear ip bgp vrf '' @ cf_VRFName cfg @ '' * soft out'']"

definition RefreshBGP ::
  "host \<Rightarrow> config \<Rightarrow> 'z route_manager_scheme \<Rightarrow> err option \<times> 'z route_manager_scheme" where
  "RefreshBGP env cfg rm =
     (if cf_DryRun cfg then (None, rm)
      else (let ((out, e), rm1) = runVtysh env (refreshArgs cfg) rm
            in (e, rm1)))"

subsection \<open>Reading FRR's route documents\<close>

text \<open>
  Decoding into \<open>map[string][]frrRouteEntry\<close>: a missing key or \<open>null\<close> leaves the zero value,
  a value of another type is an error, and a repeated key keeps its last value.
\<close>

definition jbool :: "json option \<Rightarrow> bool option" where
  "jbool v = (case v of None \<Rightarrow> Some False | Some JNull \<Rightarrow> Some False | Some (JBool b) \<Rightarrow> Some b | _ \<Rightarrow> None)"

definition jstr :: "json option \<Rightarrow> string option" where
  "jstr v = (case v of None \<Rightarrow> Some '''' | Some JNull \<Rightarrow> Some '''' | Some (JStr s) \<Rightarrow> Some s | _ \<Rightarrow> None)"

definition jarr :: "json option \<Rightarrow> json list option" where
  "jarr v = (case v of None \<Rightarrow> Some [] | Some JNull \<Rightarrow> Some [] | Some (JArr vs) \<Rightarrow> Some vs | _ \<Rightarrow> None)"

definition jobj :: "json \<Rightarrow> (string \<times> json) list option" where
  "jobj v = (case v of JNull \<Rightarrow> Some [] | JObj kvs \<Rightarrow> Some kvs | _ \<Rightarrow> None)"

fun mapM_option :: "('a \<Rightarrow> 'b option) \<Rightarrow> 'a list \<Rightarrow> 'b list option" where
  "mapM_option f [] = Some []"
| "mapM_option f (x # xs) =
     (case f x of None \<Rightarrow> None | Some y \<Rightarrow> map_option (Cons y) (mapM_option f xs))"

definition decodeNexthop :: "json \<Rightarrow> string option" where
  "decodeNexthop v = Option.bind (jobj v) (\<lambda>kvs. jstr (jfield kvs ''ip''))"

definition decodeRouteEntry :: "json \<Rightarrow> frr_route_entry option" where
  "decodeRouteEntry v =
     (case jobj v of None \<Rightarrow> None
      | Some kvs \<Rightarrow>
          (case (jbool (jfield kvs ''selected''), jbool (jfield kvs ''installed''),
                 Option.bind (jarr (jfield kvs ''nexthops'')) (mapM_option decodeNexthop)) of
             (Some s, Some i, Some nhs) \<Rightarrow> Some \<lparr>fe_Selected = s, fe_Installed = i, fe_Nexthops = nhs\<rparr>
           | _ \<Rightarrow> None))"

text \<open>\<open>Some None\<close> is the nil map a top-level \<open>null\<close> decodes to.\<close>

definition decodeRoutes :: "json \<Rightarrow> frr_doc option option" where
  "decodeRoutes v =
     (case v of
        JNull \<Rightarrow> Some None
      | JObj kvs \<Rightarrow>
          (case mapM_option (\<lambda>(k, v). map_option (Pair k) (Option.bind (jarr (Some v)) (mapM_option decodeRouteEntry))) kvs of
             None \<Rightarrow> None
           | Some es \<Rightarrow> Some (Some (foldl (\<lambda>m (k, e). AList.update k e m) [] es)))
      | _ \<Rightarrow> None)"

definition showStaticArgs :: "config \<Rightarrow> string list" where
  "showStaticArgs cfg = [''-c'', ''show ip route vrf '' @ cf_VRFName cfg @ '' static json'']"

definition showConnectedArgs :: "config \<Rightarrow> string list" where
  "showConnectedArgs cfg = [''-c'', ''show ip route vrf '' @ cf_VRFName cfg @ '' connected json'']"

definition staticFRRRoutes ::
  "host \<Rightarrow> config \<Rightarrow> 'z route_manager_scheme \<Rightarrow> frr_doc result \<times> 'z route_manager_scheme" where
  "staticFRRRoutes env cfg rm =
     (case rm_frrRouteCache rm of
        Some doc \<Rightarrow> (Inr doc, rm)
      | None \<Rightarrow>
          (let ((out, e), rm1) = runVtysh env (showStaticArgs cfg) rm
           in case e of
                Some x \<Rightarrow> (Inl x, rm1)
              | None \<Rightarrow>
                  (let trimmed = TrimSpace out in
                   if trimmed = '''' then (Inr [], rm1)
                   else (case Option.bind (h_json env trimmed) decodeRoutes of
                           None \<Rightarrow> (Inl (Err ''parse vtysh route json''), rm1)
                         | Some None \<Rightarrow> (Inr [], rm1)
                         | Some (Some doc) \<Rightarrow> (Inr doc, rm1\<lparr>rm_frrRouteCache := Some doc\<rparr>)))))"

definition entriesUseNexthop :: "frr_route_entry list \<Rightarrow> string \<Rightarrow> bool" where
  "entriesUseNexthop entries nexthop = list_ex (\<lambda>e. list_ex (\<lambda>nh. nh = nexthop) (fe_Nexthops e)) entries"

text \<open>The body of the loop of \<open>ListFRRRoutes\<close>: the address a prefix contributes, if any.\<close>

definition agentStatic :: "config \<Rightarrow> string \<times> frr_route_entry list \<Rightarrow> string list" where
  "agentStatic cfg = (\<lambda>(prefix, entries).
     (case ParseCIDR prefix of
        None \<Rightarrow> []
      | Some (ip, ipNet) \<Rightarrow>
          if To4 ip = None then []
          else if MaskSize ipNet \<noteq> (32, 32) then []
          else if \<not> entriesUseNexthop entries (cf_VethNexthop cfg) then []
          else [IPString ip]))"

definition ListFRRRoutes ::
  "host \<Rightarrow> config \<Rightarrow> 'z route_manager_scheme \<Rightarrow> string list result \<times> 'z route_manager_scheme" where
  "ListFRRRoutes env cfg rm =
     (if cf_DryRun cfg then (Inr [], rm)
      else (case staticFRRRoutes env cfg rm of
              (Inl e, rm1) \<Rightarrow> (Inl e, rm1)
            | (Inr doc, rm1) \<Rightarrow> (Inr (sort (concat (map (agentStatic cfg) doc))), rm1)))"

definition routeActive :: "frr_route_entry list \<Rightarrow> bool" where
  "routeActive entries = list_ex (\<lambda>e. fe_Selected e \<and> fe_Installed e) entries"

definition InactiveFRRRoutes ::
  "host \<Rightarrow> config \<Rightarrow> string list \<Rightarrow> 'z route_manager_scheme \<Rightarrow> string list result \<times> 'z route_manager_scheme" where
  "InactiveFRRRoutes env cfg ips rm =
     (if cf_DryRun cfg \<or> ips = [] then (Inr [], rm)
      else (case staticFRRRoutes env cfg rm of
              (Inl e, rm1) \<Rightarrow> (Inl e, rm1)
            | (Inr doc, rm1) \<Rightarrow>
                (Inr (sort (filter (\<lambda>ip. case map_of doc (ip @ ''/32'') of
                        None \<Rightarrow> False | Some entries \<Rightarrow> \<not> routeActive entries) ips)), rm1)))"

definition VethNexthopResolvable ::
  "host \<Rightarrow> config \<Rightarrow> 'z route_manager_scheme \<Rightarrow> bool result \<times> 'z route_manager_scheme" where
  "VethNexthopResolvable env cfg rm =
     (if cf_DryRun cfg then (Inr True, rm)
      else (case ParseIP (cf_VethNexthop cfg) of
        None \<Rightarrow> (Inl (Err ''invalid veth nexthop''), rm)
      | Some nexthopIP \<Rightarrow>
          (let ((out, e), rm1) = runVtysh env (showConnectedArgs cfg) rm
           in case e of
                Some x \<Rightarrow> (Inl x, rm1)
              | None \<Rightarrow>
                  (let trimmed = TrimSpace out in
                   if trimmed = '''' then (Inr False, rm1)
                   else (case Option.bind (h_json env trimmed) decodeRoutes of
                           None \<Rightarrow> (Inl (Err ''parse vtysh connected route json''), rm1)
                         | Some doc \<Rightarrow>
                             (Inr (list_ex (\<lambda>(prefix, _). case ParseCIDR prefix of
                                 None \<Rightarrow> False | Some (_, ipNet) \<Rightarrow> NetContains ipNet nexthopIP)
                               (case doc of None \<Rightarrow> [] | Some d \<Rightarrow> d)), rm1))))))"

subsection \<open>Batches\<close>

lemma chunks_Nil [simp]: "chunks n [] = []"
  by (simp add: chunks.simps)

lemma concat_chunks: "0 < n \<Longrightarrow> concat (chunks n xs) = xs"
proof (induction n xs rule: chunks.induct)
  case (1 n xs)
  then show ?case by (subst chunks.simps) (auto simp del: chunks.simps)
qed

lemma chunks_size: "ch \<in> set (chunks n xs) \<Longrightarrow> ch \<noteq> [] \<and> length ch \<le> n"
proof (induction n xs rule: chunks.induct)
  case (1 n xs)
  then show ?case by (subst (asm) chunks.simps) (auto split: if_splits)
qed

lemma chunks_eq_Nil: "0 < n \<Longrightarrow> chunks n xs = [] \<longleftrightarrow> xs = []"
  by (subst chunks.simps) simp

subsection \<open>What a batch puts on the wire\<close>

lemma runVtysh_simp:
  "runVtysh env args rm = ((fst (h_vtysh env (rm_hist rm) args), snd (h_vtysh env (rm_hist rm) args)),
     logCall (CVtysh args) (snd (h_vtysh env (rm_hist rm) args) = None) rm)"
  by (simp add: runVtysh_def split_beta)

lemma addChunks_calls:
  "\<exists>oks. length oks = length chs \<and>
     rm_hist (snd (addChunks env cfg chs rm)) = rm_hist rm @ zip (map (\<lambda>ch. CVtysh (addArgs cfg ch)) chs) oks \<and>
     rm_frrRouteCache (snd (addChunks env cfg chs rm)) = rm_frrRouteCache rm \<and>
     (fst (addChunks env cfg chs rm) = [] \<longleftrightarrow> (\<forall>ok\<in>set oks. ok))"
proof (induction chs arbitrary: rm)
  case Nil
  then show ?case by simp
next
  case (Cons ch chs)
  let ?e = "snd (h_vtysh env (rm_hist rm) (addArgs cfg ch))"
  let ?rm1 = "logCall (CVtysh (addArgs cfg ch)) (?e = None) rm"
  from Cons [of ?rm1] obtain oks where oks: "length oks = length chs"
    "rm_hist (snd (addChunks env cfg chs ?rm1)) = rm_hist ?rm1 @ zip (map (\<lambda>ch. CVtysh (addArgs cfg ch)) chs) oks"
    "rm_frrRouteCache (snd (addChunks env cfg chs ?rm1)) = rm_frrRouteCache ?rm1"
    "fst (addChunks env cfg chs ?rm1) = [] \<longleftrightarrow> (\<forall>ok\<in>set oks. ok)" by blast
  then show ?case
    by (intro exI [of _ "(?e = None) # oks"]) (auto simp: runVtysh_simp split_beta Let_def split: option.splits)
qed

lemma delChunks_calls:
  "\<exists>oks. length oks \<le> length chs \<and>
     rm_hist (snd (delChunks env cfg chs rm)) = rm_hist rm @ zip (map (\<lambda>ch. CVtysh (delArgs cfg ch)) chs) oks \<and>
     rm_frrRouteCache (snd (delChunks env cfg chs rm)) = rm_frrRouteCache rm \<and>
     (if fst (delChunks env cfg chs rm) = None then oks = replicate (length chs) True
      else (\<exists>n. oks = replicate n True @ [False]))"
proof (induction chs arbitrary: rm)
  case Nil
  then show ?case by simp
next
  case (Cons ch chs)
  let ?e = "snd (h_vtysh env (rm_hist rm) (delArgs cfg ch))"
  let ?rm1 = "logCall (CVtysh (delArgs cfg ch)) (?e = None) rm"
  show ?case
  proof (cases ?e)
    case None
    from Cons [of ?rm1] obtain oks where oks: "length oks \<le> length chs"
      "rm_hist (snd (delChunks env cfg chs ?rm1)) = rm_hist ?rm1 @ zip (map (\<lambda>ch. CVtysh (delArgs cfg ch)) chs) oks"
      "rm_frrRouteCache (snd (delChunks env cfg chs ?rm1)) = rm_frrRouteCache ?rm1"
      "if fst (delChunks env cfg chs ?rm1) = None then oks = replicate (length chs) True
        else (\<exists>n. oks = replicate n True @ [False])" by blast
    then show ?thesis using None
      by (intro exI [of _ "True # oks"])
         (auto simp: runVtysh_simp split_beta Let_def intro: exI [of _ "Suc n" for n] split: if_splits)
  next
    case (Some x)
    then show ?thesis
      by (intro exI [of _ "[False]"]) (auto simp: runVtysh_simp split_beta Let_def intro: exI [of _ 0])
  qed
qed

definition validIPs :: "string list \<Rightarrow> string list" where
  "validIPs ips = filter (\<lambda>ip. validateIP ip = None) ips"

lemma validateIP_None: "validateIP ip = None \<longleftrightarrow> isIPv4 ip"
  by (auto simp: validateIP_def isIPv4_def split: option.splits)

lemma AddFRRRoutes_calls:
  "\<exists>oks. length oks = length (chunks frrBatchSize (validIPs ips)) \<and>
     rm_hist (snd (AddFRRRoutes env cfg ips rm)) = rm_hist rm @
       (if cf_DryRun cfg then [] else zip (map (\<lambda>ch. CVtysh (addArgs cfg ch)) (chunks frrBatchSize (validIPs ips))) oks) \<and>
     (fst (AddFRRRoutes env cfg ips rm) = None \<longleftrightarrow> cf_DryRun cfg \<or> (\<forall>ok\<in>set oks. ok))"
proof (cases "validIPs ips = [] \<or> cf_DryRun cfg")
  case True
  then show ?thesis
    by (intro exI [of _ "replicate (length (chunks frrBatchSize (validIPs ips))) True"])
       (auto simp: AddFRRRoutes_def validIPs_def [symmetric] Let_def)
next
  case False
  from addChunks_calls [of "chunks frrBatchSize (validIPs ips)" env cfg "clearCache rm"]
  obtain oks where oks: "length oks = length (chunks frrBatchSize (validIPs ips))"
    "rm_hist (snd (addChunks env cfg (chunks frrBatchSize (validIPs ips)) (clearCache rm))) =
       rm_hist rm @ zip (map (\<lambda>ch. CVtysh (addArgs cfg ch)) (chunks frrBatchSize (validIPs ips))) oks"
    "fst (addChunks env cfg (chunks frrBatchSize (validIPs ips)) (clearCache rm)) = [] \<longleftrightarrow> (\<forall>ok\<in>set oks. ok)"
    by (auto simp: clearCache_def)
  moreover have "ips \<noteq> []" using False by (auto simp: validIPs_def)
  ultimately show ?thesis using False
    by (intro exI [of _ oks]) (simp add: AddFRRRoutes_def validIPs_def [symmetric] Let_def split_beta)
qed

subsection \<open>What the commands do to FRR's configuration\<close>

text \<open>
  The documented effect of the configuration commands the agent sends: \<open>ip route ...\<close> adds that
  static to the VRF's configuration, \<open>no ip route ...\<close> removes it. The configuration is the set
  of its static lines; a call that failed has no effect here.
\<close>

definition lineEffect :: "string \<Rightarrow> string set \<Rightarrow> string set" where
  "lineEffect l S =
     (if HasPrefix l ''no ip route '' then S - {drop 3 l}
      else if HasPrefix l ''ip route '' then insert l S else S)"

definition argsEffect :: "string list \<Rightarrow> string set \<Rightarrow> string set" where
  "argsEffect args S = foldl (\<lambda>S l. lineEffect l S) S args"

definition staticsAfter :: "history \<Rightarrow> string set \<Rightarrow> string set" where
  "staticsAfter h S =
     foldl (\<lambda>S (c, ok). case c of CVtysh args \<Rightarrow> if ok then argsEffect args S else S | _ \<Rightarrow> S) S h"

lemma staticsAfter_append [simp]: "staticsAfter (h @ h') S = staticsAfter h' (staticsAfter h S)"
  by (simp add: staticsAfter_def)

lemma staticsAfter_Nil [simp]: "staticsAfter [] S = S"
  by (simp add: staticsAfter_def)

lemma argsEffect_append: "argsEffect (a @ b) S = argsEffect b (argsEffect a S)"
  by (simp add: argsEffect_def)

lemma inVRF_effect:
  "argsEffect (inVRF cfg ls) S = argsEffect ls S"
proof -
  have skip: "lineEffect ''-c'' S = S" "lineEffect ''conf t'' S = S" "lineEffect (''vrf '' @ v) S = S"
    "lineEffect ''exit-vrf'' S = S" "lineEffect ''end'' S = S" for S v
    by (simp_all add: lineEffect_def HasPrefix_def)
  have body: "argsEffect (concat (map (\<lambda>l. [''-c'', l]) ls)) S = argsEffect ls S" for S
    by (induction ls arbitrary: S) (simp_all add: argsEffect_def skip)
  show ?thesis
    unfolding inVRF_def argsEffect_append body by (simp add: argsEffect_def skip [simplified])
qed

lemma addArgs_effect: "argsEffect (addArgs cfg ips) S = S \<union> routeLine cfg ` set ips"
proof -
  have add: "lineEffect (routeLine cfg ip) S = insert (routeLine cfg ip) S" for ip S
    by (simp add: lineEffect_def routeLine_def HasPrefix_def)
  have "argsEffect (map (routeLine cfg) ips) S = S \<union> routeLine cfg ` set ips"
    by (induction ips arbitrary: S) (auto simp: argsEffect_def add)
  then show ?thesis by (simp add: addArgs_def inVRF_effect)
qed

lemma delArgs_effect: "argsEffect (delArgs cfg ips) S = S - routeLine cfg ` set ips"
proof -
  have del: "lineEffect (''no '' @ routeLine cfg ip) S = S - {routeLine cfg ip}" for ip S
    by (simp add: lineEffect_def routeLine_def HasPrefix_def)
  have "argsEffect (map (\<lambda>ip. ''no '' @ routeLine cfg ip) ips) S = S - routeLine cfg ` set ips"
    by (induction ips arbitrary: S) (auto simp: argsEffect_def del [simplified])
  then show ?thesis by (simp add: delArgs_def inVRF_effect)
qed

lemma routeLine_inj [simp]: "routeLine cfg a = routeLine cfg b \<longleftrightarrow> a = b"
  by (simp add: routeLine_def)

lemma addChunks_effect:
  "fst (addChunks env cfg chs rm) = [] \<Longrightarrow>
   \<exists>t. rm_hist (snd (addChunks env cfg chs rm)) = rm_hist rm @ t \<and>
     staticsAfter t S = S \<union> routeLine cfg ` set (concat chs)"
proof (induction chs arbitrary: rm S)
  case Nil
  then show ?case by simp
next
  case (Cons ch chs)
  let ?e = "snd (h_vtysh env (rm_hist rm) (addArgs cfg ch))"
  let ?rm1 = "logCall (CVtysh (addArgs cfg ch)) (?e = None) rm"
  have ok: "?e = None" and rest: "fst (addChunks env cfg chs ?rm1) = []"
    using Cons.prems by (auto simp: runVtysh_simp split_beta Let_def split: option.splits)
  from Cons.IH [OF rest, of "S \<union> routeLine cfg ` set ch"]
  obtain t where t: "rm_hist (snd (addChunks env cfg chs ?rm1)) = rm_hist ?rm1 @ t"
    "staticsAfter t (S \<union> routeLine cfg ` set ch) = S \<union> routeLine cfg ` set ch \<union> routeLine cfg ` set (concat chs)" by blast
  then show ?case using ok
    by (intro exI [of _ "(CVtysh (addArgs cfg ch), True) # t"])
       (auto simp: runVtysh_simp split_beta Let_def staticsAfter_def addArgs_effect)
qed

lemma delChunks_effect:
  "fst (delChunks env cfg chs rm) = None \<Longrightarrow>
   \<exists>t. rm_hist (snd (delChunks env cfg chs rm)) = rm_hist rm @ t \<and>
     staticsAfter t S = S - routeLine cfg ` set (concat chs)"
proof (induction chs arbitrary: rm S)
  case Nil
  then show ?case by simp
next
  case (Cons ch chs)
  let ?e = "snd (h_vtysh env (rm_hist rm) (delArgs cfg ch))"
  let ?rm1 = "logCall (CVtysh (delArgs cfg ch)) (?e = None) rm"
  have ok: "?e = None" and rest: "fst (delChunks env cfg chs ?rm1) = None"
    using Cons.prems by (auto simp: runVtysh_simp split_beta Let_def split: option.splits)
  from Cons.IH [OF rest, of "S - routeLine cfg ` set ch"]
  obtain t where t: "rm_hist (snd (delChunks env cfg chs ?rm1)) = rm_hist ?rm1 @ t"
    "staticsAfter t (S - routeLine cfg ` set ch) = S - routeLine cfg ` set ch - routeLine cfg ` set (concat chs)" by blast
  then show ?case using ok
    by (intro exI [of _ "(CVtysh (delArgs cfg ch), True) # t"])
       (auto simp: runVtysh_simp split_beta Let_def staticsAfter_def delArgs_effect)
qed

lemma delChunks_partial:
  "\<exists>t n. rm_hist (snd (delChunks env cfg chs rm)) = rm_hist rm @ t \<and>
     staticsAfter t S = S - routeLine cfg ` set (concat (take n chs))"
proof (induction chs arbitrary: rm S)
  case Nil
  then show ?case by simp
next
  case (Cons ch chs)
  let ?e = "snd (h_vtysh env (rm_hist rm) (delArgs cfg ch))"
  let ?rm1 = "logCall (CVtysh (delArgs cfg ch)) (?e = None) rm"
  show ?case
  proof (cases ?e)
    case None
    from Cons.IH [of ?rm1 "S - routeLine cfg ` set ch"]
    obtain t n where t: "rm_hist (snd (delChunks env cfg chs ?rm1)) = rm_hist ?rm1 @ t"
      "staticsAfter t (S - routeLine cfg ` set ch) =
         S - routeLine cfg ` set ch - routeLine cfg ` set (concat (take n chs))" by blast
    then show ?thesis using None
      by (intro exI [of _ "(CVtysh (delArgs cfg ch), True) # t"] exI [of _ "Suc n"])
         (auto simp: runVtysh_simp split_beta Let_def staticsAfter_def delArgs_effect)
  next
    case (Some x)
    then show ?thesis
      by (intro exI [of _ "[(CVtysh (delArgs cfg ch), False)]"] exI [of _ 0])
         (simp add: runVtysh_simp split_beta Let_def staticsAfter_def)
  qed
qed

lemma AddFRRRoutes_effect:
  assumes "fst (AddFRRRoutes env cfg ips rm) = None" and "\<not> cf_DryRun cfg"
  shows "\<exists>t. rm_hist (snd (AddFRRRoutes env cfg ips rm)) = rm_hist rm @ t \<and>
     staticsAfter t S = S \<union> routeLine cfg ` {ip \<in> set ips. isIPv4 ip}"
proof (cases "validIPs ips = []")
  case True
  then have "{ip \<in> set ips. isIPv4 ip} = {}"
    by (auto simp: validIPs_def validateIP_None filter_empty_conv)
  with True show ?thesis
    by (intro exI [of _ "[]"]) (auto simp: AddFRRRoutes_def validIPs_def [symmetric] Let_def)
next
  case False
  then have ne: "ips \<noteq> []" by (auto simp: validIPs_def)
  have "fst (addChunks env cfg (chunks frrBatchSize (validIPs ips)) (clearCache rm)) = []"
    using assms False ne
    by (auto simp: AddFRRRoutes_def validIPs_def [symmetric] Let_def split_beta split: if_splits)
  from addChunks_effect [OF this, of S] obtain t where
    t: "rm_hist (snd (addChunks env cfg (chunks frrBatchSize (validIPs ips)) (clearCache rm))) = rm_hist rm @ t"
      "staticsAfter t S = S \<union> routeLine cfg ` set (validIPs ips)"
    by (auto simp: clearCache_def concat_chunks frrBatchSize_def simp del: set_concat)
  then show ?thesis using False ne assms(2)
    by (intro exI [of _ t])
       (simp add: AddFRRRoutes_def validIPs_def [symmetric] Let_def split_beta, simp add: validIPs_def validateIP_None)
qed

lemma DelFRRRoutes_effect:
  assumes "fst (DelFRRRoutes env cfg ips rm) = None" and "\<not> cf_DryRun cfg"
  shows "\<exists>t. rm_hist (snd (DelFRRRoutes env cfg ips rm)) = rm_hist rm @ t \<and>
     staticsAfter t S = S - routeLine cfg ` set ips"
proof (cases "ips = []")
  case True
  then show ?thesis by (simp add: DelFRRRoutes_def)
next
  case False
  have "find (\<lambda>ip. validateIP ip \<noteq> None) ips = None"
    using assms(1) False by (auto simp: DelFRRRoutes_def find_Some_iff split: option.splits)
  then have run: "DelFRRRoutes env cfg ips rm = delChunks env cfg (chunks frrBatchSize ips) (clearCache rm)"
    using False assms(2) by (simp add: DelFRRRoutes_def)
  from delChunks_effect [OF assms(1) [unfolded run], of S] show ?thesis
    by (simp add: run clearCache_def concat_chunks frrBatchSize_def del: set_concat)
qed

subsection \<open>Properties\<close>

text \<open>
  A batch add degrades per chunk, not as a whole. Outside dry-run the calls made are one
  configuration call per slice of at most 500 of the valid addresses, the slices together are
  exactly the valid addresses in order, every slice is tried whatever happened to the ones before
  it, and an error is reported exactly when a slice failed. In dry-run nothing is called.
\<close>

theorem add_batches_all_valid_routes:
  "\<exists>batches oks. concat batches = validIPs ips \<and> list_all (\<lambda>b. length b \<le> 500) batches \<and>
     length oks = length batches \<and>
     callsOf rm (snd (AddFRRRoutes env cfg ips rm)) =
       (if cf_DryRun cfg then [] else zip (map (\<lambda>b. CVtysh (addArgs cfg b)) batches) oks) \<and>
     (fst (AddFRRRoutes env cfg ips rm) = None) = (cf_DryRun cfg \<or> list_all (\<lambda>ok. ok) oks)"
proof -
  let ?b = "chunks frrBatchSize (validIPs ips)"
  obtain oks where "length oks = length ?b"
    "rm_hist (snd (AddFRRRoutes env cfg ips rm)) = rm_hist rm @
       (if cf_DryRun cfg then [] else zip (map (\<lambda>ch. CVtysh (addArgs cfg ch)) ?b) oks)"
    "fst (AddFRRRoutes env cfg ips rm) = None \<longleftrightarrow> cf_DryRun cfg \<or> (\<forall>ok\<in>set oks. ok)"
    using AddFRRRoutes_calls by blast
  then show ?thesis
    using chunks_size [of _ frrBatchSize "validIPs ips"]
    by (intro exI [of _ ?b] exI [of _ oks]) (auto simp: concat_chunks frrBatchSize_def list_all_iff)
qed

text \<open>
  C21: a batch delete that reports success has removed exactly its own routes from FRR's
  configuration, one that was given an address FRR cannot take makes no call at all, and one
  that fails half-way has removed nothing but routes it was asked to remove.
\<close>

theorem delete_is_all_or_nothing:
  "(if \<not> list_all isIPv4 ips
    then fst (DelFRRRoutes env cfg ips rm) \<noteq> None \<and> callsOf rm (snd (DelFRRRoutes env cfg ips rm)) = []
    else if cf_DryRun cfg then DelFRRRoutes env cfg ips rm = (None, rm)
    else if fst (DelFRRRoutes env cfg ips rm) = None
    then (\<forall>S. staticsAfter (callsOf rm (snd (DelFRRRoutes env cfg ips rm))) S = S - routeLine cfg ` set ips)
    else (\<forall>S. \<exists>some. set some \<subseteq> set ips \<and>
      staticsAfter (callsOf rm (snd (DelFRRRoutes env cfg ips rm))) S = S - routeLine cfg ` set some))"
proof (cases "\<not> list_all isIPv4 ips")
  case True
  then obtain ip where ip: "find (\<lambda>ip. validateIP ip \<noteq> None) ips = Some ip"
    by (cases "find (\<lambda>ip. validateIP ip \<noteq> None) ips") (auto simp: find_None_iff validateIP_None list_all_iff)
  then have "validateIP ip \<noteq> None" by (auto simp: find_Some_iff)
  with ip True show ?thesis by (auto simp: DelFRRRoutes_def)
next
  case False
  then have none: "find (\<lambda>ip. validateIP ip \<noteq> None) ips = None"
    by (auto simp: find_None_iff validateIP_None list_all_iff)
  have "\<forall>S. staticsAfter (callsOf rm (snd (DelFRRRoutes env cfg ips rm))) S = S - routeLine cfg ` set ips"
    if ok: "fst (DelFRRRoutes env cfg ips rm) = None" and nd: "\<not> cf_DryRun cfg"
  proof
    fix S
    obtain t where "rm_hist (snd (DelFRRRoutes env cfg ips rm)) = rm_hist rm @ t"
      "staticsAfter t S = S - routeLine cfg ` set ips"
      using DelFRRRoutes_effect [OF ok nd, of S] by blast
    then show "staticsAfter (callsOf rm (snd (DelFRRRoutes env cfg ips rm))) S = S - routeLine cfg ` set ips"
      by simp
  qed
  moreover have "\<forall>S. \<exists>some. set some \<subseteq> set ips \<and>
      staticsAfter (callsOf rm (snd (DelFRRRoutes env cfg ips rm))) S = S - routeLine cfg ` set some"
    if nd: "\<not> cf_DryRun cfg"
  proof
    fix S
    show "\<exists>some. set some \<subseteq> set ips \<and>
        staticsAfter (callsOf rm (snd (DelFRRRoutes env cfg ips rm))) S = S - routeLine cfg ` set some"
    proof (cases "ips = []")
      case True
      then show ?thesis by (intro exI [of _ "[]"]) (auto simp: DelFRRRoutes_def callsOf_def)
    next
      case ne: False
      then have run: "DelFRRRoutes env cfg ips rm = delChunks env cfg (chunks frrBatchSize ips) (clearCache rm)"
        using none nd by (simp add: DelFRRRoutes_def)
      obtain t n where t: "rm_hist (snd (delChunks env cfg (chunks frrBatchSize ips) (clearCache rm))) = rm_hist rm @ t"
        "staticsAfter t S = S - routeLine cfg ` set (concat (take n (chunks frrBatchSize ips)))"
        using delChunks_partial [of env cfg "chunks frrBatchSize ips" "clearCache rm" S] by (auto simp: clearCache_def)
      have "set (concat (take n (chunks frrBatchSize ips))) \<subseteq> set (concat (chunks frrBatchSize ips))"
        by (auto dest: in_set_takeD)
      also have "\<dots> = set ips" by (simp add: concat_chunks frrBatchSize_def del: set_concat)
      finally have "set (concat (take n (chunks frrBatchSize ips))) \<subseteq> set ips" .
      then show ?thesis using t(1) t(2) run by (intro exI [of _ "concat (take n (chunks frrBatchSize ips))"]) simp
    qed
  qed
  ultimately show ?thesis using False none by (auto simp: DelFRRRoutes_def)
qed

text \<open>The document a read of FRR's statics is based on: the memo, or what \<open>vtysh\<close> prints now.\<close>

definition staticDoc :: "host \<Rightarrow> config \<Rightarrow> 'z route_manager_scheme \<Rightarrow> frr_doc result" where
  "staticDoc env cfg rm = fst (staticFRRRoutes env cfg rm)"

text \<open>
  The listing that feeds withdrawal is scoped to the agent. It is sorted, and it reports an
  address exactly when FRR's document has a \<open>/32\<close> IPv4 prefix for it with an entry through the
  agent's own next-hop; an operator's static is never listed. A read error is passed on, never
  turned into an empty list.
\<close>

theorem listing_is_scoped_to_the_agent:
  "(case fst (ListFRRRoutes env cfg rm) of
      Inl e \<Rightarrow> \<not> cf_DryRun cfg \<and> staticDoc env cfg rm = Inl e
    | Inr ips \<Rightarrow> sorted ips \<and>
        (if cf_DryRun cfg then ips = []
         else (case staticDoc env cfg rm of Inl e \<Rightarrow> False
           | Inr doc \<Rightarrow> set ips = {s. \<exists>pe \<in> set doc. \<exists>ip ipNet. ParseCIDR (fst pe) = Some (ip, ipNet) \<and>
                To4 ip \<noteq> None \<and> MaskSize ipNet = (32, 32) \<and>
                (\<exists>e \<in> set (snd pe). cf_VethNexthop cfg \<in> set (fe_Nexthops e)) \<and> s = IPString ip})))"
proof -
  have one: "set (agentStatic cfg pe) = {s. \<exists>ip ipNet. ParseCIDR (fst pe) = Some (ip, ipNet) \<and>
      To4 ip \<noteq> None \<and> MaskSize ipNet = (32, 32) \<and>
      (\<exists>e \<in> set (snd pe). cf_VethNexthop cfg \<in> set (fe_Nexthops e)) \<and> s = IPString ip}" for pe
    by (cases pe; cases "ParseCIDR (fst pe)") (auto simp: agentStatic_def entriesUseNexthop_def list_ex_iff)
  have all: "set (sort (concat (map (agentStatic cfg) doc))) = {s. \<exists>pe \<in> set doc. \<exists>ip ipNet. ParseCIDR (fst pe) = Some (ip, ipNet) \<and>
      To4 ip \<noteq> None \<and> MaskSize ipNet = (32, 32) \<and>
      (\<exists>e \<in> set (snd pe). cf_VethNexthop cfg \<in> set (fe_Nexthops e)) \<and> s = IPString ip}" for doc
    by (simp only: set_sort set_concat set_map UN_simps one) blast
  show ?thesis
  proof (cases "staticFRRRoutes env cfg rm")
    case (Pair r rm')
    then show ?thesis
      by (cases r) (simp_all add: ListFRRRoutes_def staticDoc_def all del: set_sort set_concat)
  qed
qed

text \<open>
  A read after a change is never served from the memo. When an add or a delete has sent
  anything to FRR, the next listing asks FRR again, whatever the memo held before.
\<close>

theorem mutation_drops_the_memo:
  "(callsOf rm (snd (AddFRRRoutes env cfg ips rm)) = [] \<or> rm_frrRouteCache (snd (AddFRRRoutes env cfg ips rm)) = None) \<and>
   (callsOf rm (snd (DelFRRRoutes env cfg ips rm)) = [] \<or> rm_frrRouteCache (snd (DelFRRRoutes env cfg ips rm)) = None)"
proof -
  have "rm_frrRouteCache (snd (addChunks env cfg chs (clearCache rm))) = None"
    "rm_frrRouteCache (snd (delChunks env cfg chs (clearCache rm))) = None" for chs
    using addChunks_calls [of chs env cfg "clearCache rm"] delChunks_calls [of chs env cfg "clearCache rm"]
    by (auto simp: clearCache_def)
  then show ?thesis
    by (auto simp: AddFRRRoutes_def DelFRRRoutes_def Let_def split_beta callsOf_def split: option.splits)
qed

end
