(* ===== verification/KernelRoutes.thy ===== *)
theory KernelRoutes
  imports FrrRoutes
begin

section \<open>Kernel routes through netlink\<close>

text \<open>
  The kernel-route half of \<open>routing_linux.go\<close>: adding, deleting and listing the agent's tagged
  \<open>/32\<close> routes, the policy rules of a dedicated table, and flushing that table.
\<close>

definition rtProtoOVNNetworkAgent :: int where
  "rtProtoOVNNetworkAgent = 44"

record kernel_route_entry =
  kr_IP :: string
  kr_Dev :: string

subsection \<open>Calls\<close>

definition linkByName :: "host \<Rightarrow> string \<Rightarrow> 'z route_manager_scheme \<Rightarrow> (errno + nl_link) \<times> 'z route_manager_scheme" where
  "linkByName env n rm = (let r = h_linkByName env (rm_hist rm) n in (r, logCall (CLinkByName n) (\<not> isl r) rm))"

definition linkByIndex :: "host \<Rightarrow> int \<Rightarrow> 'z route_manager_scheme \<Rightarrow> (errno + nl_link) \<times> 'z route_manager_scheme" where
  "linkByIndex env i rm = (let r = h_linkByIndex env (rm_hist rm) i in (r, logCall (CLinkByIndex i) (\<not> isl r) rm))"

definition linkList :: "host \<Rightarrow> 'z route_manager_scheme \<Rightarrow> (errno + nl_link list) \<times> 'z route_manager_scheme" where
  "linkList env rm = (let r = h_linkList env (rm_hist rm) in (r, logCall CLinkList (\<not> isl r) rm))"

definition routeReplace :: "host \<Rightarrow> nl_route \<Rightarrow> 'z route_manager_scheme \<Rightarrow> errno option \<times> 'z route_manager_scheme" where
  "routeReplace env r rm = (let e = h_routeReplace env (rm_hist rm) r in (e, logCall (CRouteReplace r) (e = None) rm))"

definition routeDel :: "host \<Rightarrow> nl_route \<Rightarrow> 'z route_manager_scheme \<Rightarrow> errno option \<times> 'z route_manager_scheme" where
  "routeDel env r rm = (let e = h_routeDel env (rm_hist rm) r in (e, logCall (CRouteDel r) (e = None) rm))"

definition routeListTable :: "host \<Rightarrow> int \<Rightarrow> int \<Rightarrow> 'z route_manager_scheme \<Rightarrow> (errno + nl_route list) \<times> 'z route_manager_scheme" where
  "routeListTable env t p rm =
     (let r = h_routeListTable env (rm_hist rm) t p in (r, logCall (CRouteListTable t p) (\<not> isl r) rm))"

definition routeListLink :: "host \<Rightarrow> int \<Rightarrow> 'z route_manager_scheme \<Rightarrow> (errno + nl_route list) \<times> 'z route_manager_scheme" where
  "routeListLink env i rm =
     (let r = h_routeListLink env (rm_hist rm) i in (r, logCall (CRouteListLink i) (\<not> isl r) rm))"

definition ruleAdd :: "host \<Rightarrow> nl_rule \<Rightarrow> 'z route_manager_scheme \<Rightarrow> errno option \<times> 'z route_manager_scheme" where
  "ruleAdd env u rm = (let e = h_ruleAdd env (rm_hist rm) u in (e, logCall (CRuleAdd u) (e = None) rm))"

definition ruleDel :: "host \<Rightarrow> nl_rule \<Rightarrow> 'z route_manager_scheme \<Rightarrow> errno option \<times> 'z route_manager_scheme" where
  "ruleDel env u rm = (let e = h_ruleDel env (rm_hist rm) u in (e, logCall (CRuleDel u) (e = None) rm))"

lemmas nl_calls = linkByName_def linkByIndex_def linkList_def routeReplace_def routeDel_def
  routeListTable_def routeListLink_def ruleAdd_def ruleDel_def Let_def

subsection \<open>Adding and deleting a route\<close>

text \<open>
  The destination \<open>&net.IPNet{IP: net.ParseIP(ip), Mask: net.CIDRMask(32, 32)}\<close>, and the route
  both operations describe. A zero \<open>Table\<close> is the main table.
\<close>

definition hostNet :: "netip \<Rightarrow> ipnet" where
  "hostNet p = (case To4 p of Some w \<Rightarrow> Net4 w 32 | None \<Rightarrow> Net6 p 32)"

definition agentRoute :: "config \<Rightarrow> int \<Rightarrow> ipnet \<Rightarrow> nl_route" where
  "agentRoute cfg idx dst =
     \<lparr>nr_LinkIndex = idx, nr_Dst = Some dst, nr_ScopeLink = True, nr_Protocol = rtProtoOVNNetworkAgent,
      nr_Table = (if 0 < cf_RouteTableID cfg then cf_RouteTableID cfg else 0)\<rparr>"

definition agentRule :: "config \<Rightarrow> ipnet \<Rightarrow> nl_rule" where
  "agentRule cfg dst = \<lparr>nu_Dst = Some dst, nu_Table = cf_RouteTableID cfg, nu_Priority = 1000\<rparr>"

definition ensureIPRule :: "host \<Rightarrow> config \<Rightarrow> ipnet \<Rightarrow> 'z route_manager_scheme \<Rightarrow> errno option \<times> 'z route_manager_scheme" where
  "ensureIPRule env cfg dst rm =
     (case ruleAdd env (agentRule cfg dst) rm of
        (Some e, rm1) \<Rightarrow> (if \<not> isFileExists e then Some e else None, rm1)
      | (None, rm1) \<Rightarrow> (None, rm1))"

definition removeIPRule :: "host \<Rightarrow> config \<Rightarrow> ipnet \<Rightarrow> 'z route_manager_scheme \<Rightarrow> 'z route_manager_scheme" where
  "removeIPRule env cfg dst rm = snd (ruleDel env (agentRule cfg dst) rm)"

definition AddKernelRoute ::
  "host \<Rightarrow> config \<Rightarrow> string \<Rightarrow> string \<Rightarrow> 'z route_manager_scheme \<Rightarrow> err option \<times> 'z route_manager_scheme" where
  "AddKernelRoute env cfg ip dev rm =
     (if cf_DryRun cfg then (None, rm)
      else (case linkByName env dev rm of
        (Inl _, rm1) \<Rightarrow> (Some (Err ''find bridge''), rm1)
      | (Inr link, rm1) \<Rightarrow>
          (case ParseIP ip of
             None \<Rightarrow> (Some (Err ''invalid IP''), rm1)
           | Some p \<Rightarrow>
               (let dst = hostNet p; route = agentRoute cfg (ln_Index link) dst in
                case routeReplace env route rm1 of
                  (Some _, rm2) \<Rightarrow> (Some (Err ''add kernel route''), rm2)
                | (None, rm2) \<Rightarrow>
                    if 0 < cf_RouteTableID cfg then
                      (case ensureIPRule env cfg dst rm2 of
                         (Some _, rm3) \<Rightarrow> (Some (Err ''add ip rule (route rolled back)''), snd (routeDel env route rm3))
                       | (None, rm3) \<Rightarrow> (None, rm3))
                    else (None, rm2)))))"

definition DelKernelRoute ::
  "host \<Rightarrow> config \<Rightarrow> string \<Rightarrow> string \<Rightarrow> 'z route_manager_scheme \<Rightarrow> err option \<times> 'z route_manager_scheme" where
  "DelKernelRoute env cfg ip dev rm =
     (if cf_DryRun cfg then (None, rm)
      else (case linkByName env dev rm of
        (Inl _, rm1) \<Rightarrow> (Some (Err ''find bridge''), rm1)
      | (Inr link, rm1) \<Rightarrow>
          (case ParseIP ip of
             None \<Rightarrow> (Some (Err ''invalid IP''), rm1)
           | Some p \<Rightarrow>
               (let dst = hostNet p;
                    rm2 = (if 0 < cf_RouteTableID cfg then removeIPRule env cfg dst rm1 else rm1)
                in case routeDel env (agentRoute cfg (ln_Index link) dst) rm2 of
                     (Some e, rm3) \<Rightarrow> (if isNoSuchRoute e then None else Some (Err ''del kernel route''), rm3)
                   | (None, rm3) \<Rightarrow> (None, rm3)))))"

subsection \<open>Listing\<close>

text \<open>The bridge and every VLAN interface on it.\<close>

definition segmentCandidateLinks :: "host \<Rightarrow> config \<Rightarrow> 'z route_manager_scheme \<Rightarrow> nl_link list result \<times> 'z route_manager_scheme" where
  "segmentCandidateLinks env cfg rm =
     (case linkByName env (cf_BridgeDev cfg) rm of
        (Inl _, rm1) \<Rightarrow> (Inl (Err ''find bridge''), rm1)
      | (Inr parent, rm1) \<Rightarrow>
          (case linkList env rm1 of
             (Inl _, rm2) \<Rightarrow> (Inl (Err ''list links''), rm2)
           | (Inr links, rm2) \<Rightarrow>
               (Inr (parent # filter (\<lambda>l. (case ln_Kind l of VlanLink _ \<Rightarrow> True | _ \<Rightarrow> False) \<and>
                      ln_ParentIndex l = ln_Index parent) links), rm2)))"

definition is32 :: "nl_route \<Rightarrow> bool" where
  "is32 r = (case nr_Dst r of None \<Rightarrow> False | Some d \<Rightarrow> fst (MaskSize d) = 32)"

fun netIP :: "ipnet \<Rightarrow> netip" where
  "netIP (Net4 w n) = mapped4 w"
| "netIP (Net6 w n) = w"

definition dstString :: "nl_route \<Rightarrow> string" where
  "dstString r = (case nr_Dst r of None \<Rightarrow> '''' | Some d \<Rightarrow> IPString (netIP d))"

text \<open>The loop over a dedicated table: device names are resolved once per link index.\<close>

fun tableEntries ::
  "host \<Rightarrow> nl_route list \<Rightarrow> (int \<times> string) list \<Rightarrow> 'z route_manager_scheme \<Rightarrow>
   kernel_route_entry list \<times> 'z route_manager_scheme" where
  "tableEntries env [] devs rm = ([], rm)"
| "tableEntries env (r # rs) devs rm =
     (if \<not> is32 r then tableEntries env rs devs rm
      else (case map_of devs (nr_LinkIndex r) of
        Some dev \<Rightarrow>
          (let (es, rm1) = tableEntries env rs devs rm in (\<lparr>kr_IP = dstString r, kr_Dev = dev\<rparr> # es, rm1))
      | None \<Rightarrow>
          (case linkByIndex env (nr_LinkIndex r) rm of
             (Inl _, rm1) \<Rightarrow> tableEntries env rs devs rm1
           | (Inr link, rm1) \<Rightarrow>
               (let (es, rm2) = tableEntries env rs ((nr_LinkIndex r, ln_Name link) # devs) rm1
                in (\<lparr>kr_IP = dstString r, kr_Dev = ln_Name link\<rparr> # es, rm2)))))"

fun linkEntries ::
  "host \<Rightarrow> nl_link list \<Rightarrow> kernel_route_entry list \<Rightarrow> 'z route_manager_scheme \<Rightarrow>
   kernel_route_entry list result \<times> 'z route_manager_scheme" where
  "linkEntries env [] acc rm = (Inr acc, rm)"
| "linkEntries env (l # ls) acc rm =
     (case routeListLink env (ln_Index l) rm of
        (Inl _, rm1) \<Rightarrow> (Inl (Err ''list routes''), rm1)
      | (Inr routes, rm1) \<Rightarrow>
          linkEntries env ls
            (acc @ map (\<lambda>r. \<lparr>kr_IP = dstString r, kr_Dev = ln_Name l\<rparr>)
               (filter (\<lambda>r. nr_Dst r \<noteq> None \<and> nr_Protocol r = rtProtoOVNNetworkAgent \<and> is32 r) routes)) rm1)"

definition ListKernelRoutes ::
  "host \<Rightarrow> config \<Rightarrow> 'z route_manager_scheme \<Rightarrow> kernel_route_entry list result \<times> 'z route_manager_scheme" where
  "ListKernelRoutes env cfg rm =
     (if cf_DryRun cfg then (Inr [], rm)
      else if 0 < cf_RouteTableID cfg then
        (case routeListTable env (cf_RouteTableID cfg) rtProtoOVNNetworkAgent rm of
           (Inl _, rm1) \<Rightarrow> (Inl (Err ''list routes in table''), rm1)
         | (Inr routes, rm1) \<Rightarrow> (let (es, rm2) = tableEntries env routes [] rm1 in (Inr es, rm2)))
      else (case segmentCandidateLinks env cfg rm of
              (Inl e, rm1) \<Rightarrow> (Inl e, rm1)
            | (Inr links, rm1) \<Rightarrow> linkEntries env links [] rm1))"

subsection \<open>What the calls do to the kernel's tables\<close>

text \<open>
  The documented effect of the netlink calls on the routing tables: a table holds one route per
  destination, \<open>RouteReplace\<close> installs the route in place of it, \<open>RouteDel\<close> removes it. The
  state is a map from the table number and the destination.
\<close>

type_synonym ktables = "(int \<times> ipnet) \<rightharpoonup> nl_route"

fun kernelEffect :: "event \<Rightarrow> ktables \<Rightarrow> ktables" where
  "kernelEffect (CRouteReplace r, True) m =
     (case nr_Dst r of None \<Rightarrow> m | Some d \<Rightarrow> m((nr_Table r, d) \<mapsto> r))"
| "kernelEffect (CRouteDel r, True) m =
     (case nr_Dst r of None \<Rightarrow> m | Some d \<Rightarrow> m((nr_Table r, d) := None))"
| "kernelEffect _ m = m"

definition kernelAfter :: "history \<Rightarrow> ktables \<Rightarrow> ktables" where
  "kernelAfter h m = foldl (\<lambda>m e. kernelEffect e m) m h"

lemma kernelAfter_simps [simp]:
  "kernelAfter [] m = m"
  "kernelAfter (e # h) m = kernelAfter h (kernelEffect e m)"
  "kernelAfter (h @ h') m = kernelAfter h' (kernelAfter h m)"
  by (simp_all add: kernelAfter_def)

lemma kernelEffect_failed [simp]: "kernelEffect (c, False) m = m"
  by (cases c) simp_all

definition tableOf :: "config \<Rightarrow> int" where
  "tableOf cfg = (if 0 < cf_RouteTableID cfg then cf_RouteTableID cfg else 0)"

subsection \<open>Properties\<close>

definition routeKey :: "config \<Rightarrow> string \<Rightarrow> (int \<times> ipnet) set" where
  "routeKey cfg ip = {(tableOf cfg, hostNet p) | p. ParseIP ip = Some p}"

lemma agentRoute_fields [simp]:
  "nr_Dst (agentRoute cfg i d) = Some d" "nr_Table (agentRoute cfg i d) = tableOf cfg"
  "nr_LinkIndex (agentRoute cfg i d) = i" "nr_Protocol (agentRoute cfg i d) = rtProtoOVNNetworkAgent"
  by (simp_all add: agentRoute_def tableOf_def)

lemma AddKernelRoute_calls:
  "\<exists>t. rm_hist (snd (AddKernelRoute env cfg ip dev rm)) = rm_hist rm @ t \<and>
     (\<forall>m k. k \<notin> routeKey cfg ip \<longrightarrow> kernelAfter t m k = m k) \<and>
     (if fst (AddKernelRoute env cfg ip dev rm) = None \<and> \<not> cf_DryRun cfg
      then (\<exists>p link. ParseIP ip = Some p \<and> h_linkByName env (rm_hist rm) dev = Inr link \<and>
              (\<forall>m. kernelAfter t m = m((tableOf cfg, hostNet p) \<mapsto> agentRoute cfg (ln_Index link) (hostNet p))))
      else cf_DryRun cfg \<longrightarrow> t = [])"
proof (cases "cf_DryRun cfg")
  case True
  then show ?thesis by (intro exI [of _ "[]"]) (simp add: AddKernelRoute_def)
next
  case False
  show ?thesis
  proof (cases "h_linkByName env (rm_hist rm) dev")
    case (Inl e)
    then show ?thesis using False
      by (intro exI [of _ "[(CLinkByName dev, False)]"]) (simp add: AddKernelRoute_def nl_calls)
  next
    case (Inr link)
    let ?rm1 = "logCall (CLinkByName dev) True rm"
    show ?thesis
    proof (cases "ParseIP ip")
      case None
      then show ?thesis using False Inr
        by (intro exI [of _ "[(CLinkByName dev, True)]"]) (simp add: AddKernelRoute_def nl_calls)
    next
      case (Some p)
      let ?r = "agentRoute cfg (ln_Index link) (hostNet p)"
      let ?rm2 = "logCall (CRouteReplace ?r) True ?rm1"
      show ?thesis
      proof (cases "h_routeReplace env (rm_hist ?rm1) ?r")
        case (Some e)
        then show ?thesis using False Inr \<open>ParseIP ip = Some p\<close>
          by (intro exI [of _ "[(CLinkByName dev, True), (CRouteReplace ?r, False)]"])
             (simp add: AddKernelRoute_def nl_calls)
      next
        case None
        note replaced = this
        show ?thesis
        proof (cases "0 < cf_RouteTableID cfg")
          case plain: False
          then show ?thesis using False Inr \<open>ParseIP ip = Some p\<close> replaced
            by (intro exI [of _ "[(CLinkByName dev, True), (CRouteReplace ?r, True)]"])
               (auto simp: AddKernelRoute_def nl_calls routeKey_def)
        next
          case table: True
          let ?u = "agentRule cfg (hostNet p)"
          let ?e = "h_ruleAdd env (rm_hist ?rm2) ?u"
          let ?rm3 = "logCall (CRuleAdd ?u) (?e = None) ?rm2"
          let ?pre = "[(CLinkByName dev, True), (CRouteReplace ?r, True), (CRuleAdd ?u, ?e = None)]"
          show ?thesis
          proof (cases "?e = None \<or> ?e = Some EEXIST")
            case True
            then show ?thesis using False Inr \<open>ParseIP ip = Some p\<close> replaced table
              by (intro exI [of _ ?pre])
                 (auto simp: AddKernelRoute_def nl_calls routeKey_def ensureIPRule_def isFileExists_def)
          next
            case rolled: False
            let ?d = "h_routeDel env (rm_hist ?rm3) ?r"
            show ?thesis using False Inr \<open>ParseIP ip = Some p\<close> replaced table rolled
              by (intro exI [of _ "?pre @ [(CRouteDel ?r, ?d = None)]"], cases ?e; cases "?d = None")
                 (auto simp: AddKernelRoute_def nl_calls routeKey_def ensureIPRule_def isFileExists_def)
          qed
        qed
      qed
    qed
  qed
qed

lemma DelKernelRoute_calls:
  "\<exists>t. rm_hist (snd (DelKernelRoute env cfg ip dev rm)) = rm_hist rm @ t \<and>
     (\<forall>m k. k \<notin> routeKey cfg ip \<longrightarrow> kernelAfter t m k = m k) \<and> vtyshCalls t = [] \<and>
     (cf_DryRun cfg \<longrightarrow> t = []) \<and>
     (\<forall>m k. kernelAfter t m k = m k \<or> kernelAfter t m k = None)"
proof (cases "cf_DryRun cfg")
  case True
  then show ?thesis by (intro exI [of _ "[]"]) (simp add: DelKernelRoute_def)
next
  case False
  show ?thesis
  proof (cases "h_linkByName env (rm_hist rm) dev")
    case (Inl e)
    then show ?thesis using False
      by (intro exI [of _ "[(CLinkByName dev, False)]"]) (simp add: DelKernelRoute_def nl_calls vtyshCalls_def)
  next
    case (Inr link)
    let ?rm1 = "logCall (CLinkByName dev) True rm"
    show ?thesis
    proof (cases "ParseIP ip")
      case None
      then show ?thesis using False Inr
        by (intro exI [of _ "[(CLinkByName dev, True)]"]) (simp add: DelKernelRoute_def nl_calls vtyshCalls_def)
    next
      case (Some p)
      let ?r = "agentRoute cfg (ln_Index link) (hostNet p)"
      let ?u = "agentRule cfg (hostNet p)"
      let ?e = "h_ruleDel env (rm_hist ?rm1) ?u"
      let ?rm2 = "if 0 < cf_RouteTableID cfg then logCall (CRuleDel ?u) (?e = None) ?rm1 else ?rm1"
      let ?d = "h_routeDel env (rm_hist ?rm2) ?r"
      let ?t = "[(CLinkByName dev, True)] @ (if 0 < cf_RouteTableID cfg then [(CRuleDel ?u, ?e = None)] else []) @
        [(CRouteDel ?r, ?d = None)]"
      show ?thesis using False Inr Some
        by (intro exI [of _ ?t], cases "0 < cf_RouteTableID cfg"; cases "?d = None")
           (auto simp: DelKernelRoute_def nl_calls routeKey_def removeIPRule_def vtyshCalls_def split: option.splits)
    qed
  qed
qed

text \<open>
  A kernel-route operation touches no destination but its own. An add that reports success
  has left exactly the agent's tagged route on the named device for that address; an add that
  fails, a policy rule that cannot be added included, and a delete change no other entry; a
  delete installs nothing.
\<close>

theorem kernel_route_ops_are_local:
  "(\<forall>m. {k. kernelAfter (callsOf rm (snd (AddKernelRoute env cfg ip dev rm))) m k \<noteq> m k} \<subseteq> routeKey cfg ip) \<and>
   (\<forall>m. {k. kernelAfter (callsOf rm (snd (DelKernelRoute env cfg ip dev rm))) m k \<noteq> m k} \<subseteq> routeKey cfg ip) \<and>
   (\<forall>m k. kernelAfter (callsOf rm (snd (DelKernelRoute env cfg ip dev rm))) m k \<in> {m k, None}) \<and>
   (if fst (AddKernelRoute env cfg ip dev rm) = None \<and> \<not> cf_DryRun cfg
    then (\<exists>p link. ParseIP ip = Some p \<and> h_linkByName env (rm_hist rm) dev = Inr link \<and>
         (\<forall>m. kernelAfter (callsOf rm (snd (AddKernelRoute env cfg ip dev rm))) m =
            m((tableOf cfg, hostNet p) \<mapsto> agentRoute cfg (ln_Index link) (hostNet p))))
    else True)"
proof -
  obtain t where a: "rm_hist (snd (AddKernelRoute env cfg ip dev rm)) = rm_hist rm @ t"
     "\<forall>m k. k \<notin> routeKey cfg ip \<longrightarrow> kernelAfter t m k = m k"
     "if fst (AddKernelRoute env cfg ip dev rm) = None \<and> \<not> cf_DryRun cfg
      then (\<exists>p link. ParseIP ip = Some p \<and> h_linkByName env (rm_hist rm) dev = Inr link \<and>
              (\<forall>m. kernelAfter t m = m((tableOf cfg, hostNet p) \<mapsto> agentRoute cfg (ln_Index link) (hostNet p))))
      else cf_DryRun cfg \<longrightarrow> t = []"
    using AddKernelRoute_calls by blast
  obtain u where d: "rm_hist (snd (DelKernelRoute env cfg ip dev rm)) = rm_hist rm @ u"
     "\<forall>m k. k \<notin> routeKey cfg ip \<longrightarrow> kernelAfter u m k = m k"
     "\<forall>m k. kernelAfter u m k = m k \<or> kernelAfter u m k = None"
    using DelKernelRoute_calls by blast
  have "{k. kernelAfter t m k \<noteq> m k} \<subseteq> routeKey cfg ip" "{k. kernelAfter u m k \<noteq> m k} \<subseteq> routeKey cfg ip" for m
    using a(2) d(2) by blast+
  moreover have "if fst (AddKernelRoute env cfg ip dev rm) = None \<and> \<not> cf_DryRun cfg
      then (\<exists>p link. ParseIP ip = Some p \<and> h_linkByName env (rm_hist rm) dev = Inr link \<and>
              (\<forall>m. kernelAfter t m = m((tableOf cfg, hostNet p) \<mapsto> agentRoute cfg (ln_Index link) (hostNet p))))
      else True"
    using a(3) by presburger
  ultimately show ?thesis
    unfolding callsOf_append [OF a(1)] callsOf_append [OF d(1)] using d(3) by blast
qed

lemma show_is_read [simp]:
  "isRead (CVtysh (showStaticArgs cfg))" "isRead (CVtysh (showConnectedArgs cfg))"
  by (simp_all add: isRead_def HasPrefix_def showStaticArgs_def showConnectedArgs_def)

lemma config_is_write [simp]:
  "\<not> isRead (CVtysh (addArgs cfg ips))" "\<not> isRead (CVtysh (delArgs cfg ips))"
  "\<not> isRead (CVtysh (refreshArgs cfg))"
  by (simp_all add: isRead_def HasPrefix_def addArgs_def delArgs_def inVRF_def refreshArgs_def)

lemma read_no_effect:
  "isRead c \<Longrightarrow> kernelEffect (c, ok) m = m"
  "isRead c \<Longrightarrow> (case c of CVtysh args \<Rightarrow> if ok then argsEffect args S else S | _ \<Rightarrow> S) = S"
proof -
  assume r: "isRead c"
  show "kernelEffect (c, ok) m = m" using r by (cases c; cases ok) (simp_all add: isRead_def)
  have line: "lineEffect l S = S" if "\<not> HasPrefix l ''no ''" "\<not> HasPrefix l ''ip ''" for l S
  proof -
    have "\<not> HasPrefix l ''no ip route ''" "\<not> HasPrefix l ''ip route ''"
      using that by (auto simp: HasPrefix_iff)
    then show ?thesis by (simp add: lineEffect_def)
  qed
  have "argsEffect args S = S" if "list_all (\<lambda>l. \<not> HasPrefix l ''no '' \<and> \<not> HasPrefix l ''ip '' \<and>
      \<not> HasPrefix l ''clear '' \<and> l \<noteq> ''conf t'') args" for args
    using that by (induction args arbitrary: S) (simp_all add: argsEffect_def line)
  with r show "(case c of CVtysh args \<Rightarrow> if ok then argsEffect args S else S | _ \<Rightarrow> S) = S"
    by (cases c) (simp_all add: isRead_def)
qed

lemma effects_of_writes:
  "kernelAfter h m = kernelAfter (writes h) m" "staticsAfter h S = staticsAfter (writes h) S"
proof -
  show "kernelAfter h m = kernelAfter (writes h) m"
    by (induction h arbitrary: m) (auto simp: read_no_effect)
  show "staticsAfter h S = staticsAfter (writes h) S"
  proof (induction h arbitrary: S)
    case Nil
    then show ?case by simp
  next
    case (Cons e h)
    obtain c ok where e: "e = (c, ok)" by fastforce
    show ?case
    proof (cases "isRead c")
      case True
      then have "staticsAfter (e # h) S = staticsAfter h S"
        by (simp add: e staticsAfter_def read_no_effect)
      then show ?thesis using Cons True by (simp add: e)
    next
      case False
      then show ?thesis using Cons by (simp add: e) (simp add: staticsAfter_def)
    qed
  qed
qed

lemma staticFRRRoutes_calls:
  "\<exists>t. rm_hist (snd (staticFRRRoutes env cfg rm)) = rm_hist rm @ t \<and> writes t = []"
  by (cases "rm_frrRouteCache rm"; cases "snd (h_vtysh env (rm_hist rm) (showStaticArgs cfg))")
     (auto simp: staticFRRRoutes_def runVtysh_simp Let_def split: option.splits)

lemma ListFRRRoutes_calls:
  "\<exists>t. rm_hist (snd (ListFRRRoutes env cfg rm)) = rm_hist rm @ t \<and> writes t = []"
proof (cases "cf_DryRun cfg")
  case True
  then show ?thesis by (intro exI [of _ "[]"]) (simp add: ListFRRRoutes_def)
next
  case False
  then show ?thesis using staticFRRRoutes_calls [of env cfg rm]
    by (cases "staticFRRRoutes env cfg rm"; cases "fst (staticFRRRoutes env cfg rm)") (auto simp: ListFRRRoutes_def)
qed

lemma AddKernelRoute_trace:
  "\<exists>t. rm_hist (snd (AddKernelRoute env cfg ip dev rm)) = rm_hist rm @ t \<and> vtyshCalls t = [] \<and>
     (\<forall>m. {k. kernelAfter t m k \<noteq> m k} \<subseteq> routeKey cfg ip) \<and>
     (fst (AddKernelRoute env cfg ip dev rm) = None \<and> \<not> cf_DryRun cfg \<longrightarrow>
        (\<exists>p link. ParseIP ip = Some p \<and> h_linkByName env (rm_hist rm) dev = Inr link \<and>
              (\<forall>m. kernelAfter t m = m((tableOf cfg, hostNet p) \<mapsto> agentRoute cfg (ln_Index link) (hostNet p)))))"
proof -
  obtain t where t: "rm_hist (snd (AddKernelRoute env cfg ip dev rm)) = rm_hist rm @ t"
     "\<forall>m k. k \<notin> routeKey cfg ip \<longrightarrow> kernelAfter t m k = m k"
     "if fst (AddKernelRoute env cfg ip dev rm) = None \<and> \<not> cf_DryRun cfg
      then (\<exists>p link. ParseIP ip = Some p \<and> h_linkByName env (rm_hist rm) dev = Inr link \<and>
              (\<forall>m. kernelAfter t m = m((tableOf cfg, hostNet p) \<mapsto> agentRoute cfg (ln_Index link) (hostNet p))))
      else cf_DryRun cfg \<longrightarrow> t = []"
    using AddKernelRoute_calls by blast
  have "\<exists>u. rm_hist (snd (AddKernelRoute env cfg ip dev rm)) = rm_hist rm @ u \<and> vtyshCalls u = []"
    by (auto simp: AddKernelRoute_def nl_calls ensureIPRule_def vtyshCalls_def split: sum.splits option.splits)
  with t(1) have "vtyshCalls t = []" by auto
  moreover have "{k. kernelAfter t m k \<noteq> m k} \<subseteq> routeKey cfg ip" for m using t(2) by blast
  moreover have "fst (AddKernelRoute env cfg ip dev rm) = None \<and> \<not> cf_DryRun cfg \<longrightarrow>
        (\<exists>p link. ParseIP ip = Some p \<and> h_linkByName env (rm_hist rm) dev = Inr link \<and>
              (\<forall>m. kernelAfter t m = m((tableOf cfg, hostNet p) \<mapsto> agentRoute cfg (ln_Index link) (hostNet p))))"
    using t(3) by presburger
  ultimately show ?thesis using t(1) by blast
qed

lemma tableEntries_calls:
  "\<exists>t. rm_hist (snd (tableEntries env rs devs rm)) = rm_hist rm @ t \<and> writes t = []"
proof (induction rs arbitrary: devs rm)
  case Nil
  then show ?case by simp
next
  case (Cons r rs)
  show ?case
  proof (cases "is32 r \<and> map_of devs (nr_LinkIndex r) = None")
    case False
    then show ?thesis using Cons [of devs rm] by (auto simp: Let_def split_beta split: option.splits)
  next
    case True
    let ?l = "h_linkByIndex env (rm_hist rm) (nr_LinkIndex r)"
    let ?rm1 = "logCall (CLinkByIndex (nr_LinkIndex r)) (\<not> isl ?l) rm"
    show ?thesis
    proof (cases ?l)
      case (Inl e)
      then show ?thesis using True Cons [of devs ?rm1]
        by (auto simp: nl_calls split_beta intro: exI [of _ "(CLinkByIndex (nr_LinkIndex r), False) # t" for t])
    next
      case (Inr link)
      then show ?thesis using True Cons [of "(nr_LinkIndex r, ln_Name link) # devs" ?rm1]
        by (auto simp: nl_calls split_beta intro: exI [of _ "(CLinkByIndex (nr_LinkIndex r), True) # t" for t])
    qed
  qed
qed

lemma linkEntries_calls:
  "\<exists>t. rm_hist (snd (linkEntries env ls acc rm)) = rm_hist rm @ t \<and> writes t = []"
proof (induction ls arbitrary: acc rm)
  case Nil
  then show ?case by simp
next
  case (Cons l ls)
  let ?r = "h_routeListLink env (rm_hist rm) (ln_Index l)"
  show ?case
  proof (cases ?r)
    case (Inl e)
    then show ?thesis by (auto simp: nl_calls)
  next
    case (Inr routes)
    let ?acc = "acc @ map (\<lambda>r. \<lparr>kr_IP = dstString r, kr_Dev = ln_Name l\<rparr>)
      (filter (\<lambda>r. nr_Dst r \<noteq> None \<and> nr_Protocol r = rtProtoOVNNetworkAgent \<and> is32 r) routes)"
    show ?thesis using Cons [of ?acc "logCall (CRouteListLink (ln_Index l)) True rm"] Inr
      by (auto simp: nl_calls)
  qed
qed

lemma ListKernelRoutes_calls:
  "\<exists>t. rm_hist (snd (ListKernelRoutes env cfg rm)) = rm_hist rm @ t \<and> writes t = []"
proof (cases "cf_DryRun cfg")
  case True
  then show ?thesis by (intro exI [of _ "[]"]) (simp add: ListKernelRoutes_def)
next
  case False
  show ?thesis
  proof (cases "0 < cf_RouteTableID cfg")
    case True
    let ?c = "CRouteListTable (cf_RouteTableID cfg) rtProtoOVNNetworkAgent"
    show ?thesis
    proof (cases "h_routeListTable env (rm_hist rm) (cf_RouteTableID cfg) rtProtoOVNNetworkAgent")
      case (Inl e)
      then show ?thesis using False True by (auto simp: ListKernelRoutes_def nl_calls)
    next
      case (Inr routes)
      then show ?thesis using False True tableEntries_calls [of env routes "[]" "logCall ?c True rm"]
        by (auto simp: ListKernelRoutes_def nl_calls split_beta)
    qed
  next
    case main: False
    obtain r rm1 where seg: "segmentCandidateLinks env cfg rm = (r, rm1)" by fastforce
    then have t: "\<exists>t. rm_hist rm1 = rm_hist rm @ t \<and> writes t = []"
      by (auto simp: segmentCandidateLinks_def nl_calls split: sum.splits)
    show ?thesis
    proof (cases r)
      case (Inl e)
      then show ?thesis using False main seg t by (simp add: ListKernelRoutes_def)
    next
      case (Inr links)
      then show ?thesis using False main seg t linkEntries_calls [of env links "[]" rm1]
        by (auto simp: ListKernelRoutes_def)
    qed
  qed
qed

end
