(* ===== verification/RouteSync.thy ===== *)
theory RouteSync
  imports KernelRoutes
begin

section \<open>Synchronising the routes\<close>

text \<open>
  The route plane of \<open>agent.go\<close>: \<open>ensureRoutes\<close> and \<open>removeAllRoutes\<close>. Each function is split
  where the code has a comment that starts a new phase; the phases run in the code's order on the
  route manager's state.
\<close>

record route_sync_result =
  rs_changed :: bool
  rs_announced :: bool
  rs_ready :: bool

definition desiredRouteDev :: "config \<Rightarrow> string \<Rightarrow> smap \<Rightarrow> string" where
  "desiredRouteDev cfg ip ipDev = (let dev = mget ipDev ip in if dev \<noteq> '''' then dev else cf_BridgeDev cfg)"

subsection \<open>ensureRoutes\<close>

text \<open>The current state. A listing that fails is logged and read as empty.\<close>

definition listCurrent ::
  "host \<Rightarrow> config \<Rightarrow> 'z route_manager_scheme \<Rightarrow>
   kernel_route_entry list \<times> string list \<times> 'z route_manager_scheme" where
  "listCurrent env cfg rm =
     (let (kernel, rm1) = (if \<not> cf_PortForwardOnly cfg then ListKernelRoutes env cfg rm else (Inr [], rm));
          (frr, rm2) = ListFRRRoutes env cfg rm1
      in (case kernel of Inl _ \<Rightarrow> [] | Inr es \<Rightarrow> es, case frr of Inl _ \<Rightarrow> [] | Inr ips \<Rightarrow> ips, rm2))"

definition needsKernel ::
  "config \<Rightarrow> smap \<Rightarrow> string set \<Rightarrow> kernel_route_entry list \<Rightarrow> string \<Rightarrow> bool" where
  "needsKernel cfg ipDev skip current ip =
     (\<not> cf_PortForwardOnly cfg \<and> ip \<notin> skip \<and>
      \<lparr>kr_IP = ip, kr_Dev = desiredRouteDev cfg ip ipDev\<rparr> \<notin> set current)"

definition needsFRR :: "string list \<Rightarrow> string list \<Rightarrow> string \<Rightarrow> bool" where
  "needsFRR frrStaticIPs currentFRR ip = (ip \<in> set frrStaticIPs \<and> ip \<notin> set currentFRR)"

text \<open>The loop over the desired addresses: kernel routes at once, FRR routes collected.\<close>

fun addMissing ::
  "host \<Rightarrow> config \<Rightarrow> smap \<Rightarrow> (string \<Rightarrow> bool) \<Rightarrow> (string \<Rightarrow> bool) \<Rightarrow> string list \<Rightarrow>
   'z route_manager_scheme \<Rightarrow> bool \<times> string list \<times> 'z route_manager_scheme" where
  "addMissing env cfg ipDev nK nF [] rm = (True, [], rm)"
| "addMissing env cfg ipDev nK nF (ip # ips) rm =
     (let (e, rm1) = (if nK ip then AddKernelRoute env cfg ip (desiredRouteDev cfg ip ipDev) rm else (None, rm));
          (ok, addFRR, rm2) = addMissing env cfg ipDev nK nF ips rm1
      in (e = None \<and> ok, (if nF ip then ip # addFRR else addFRR), rm2))"

text \<open>
  Stale kernel entries with their addresses queued for withdrawal once each, then the listed
  statics that are not wanted and not already queued.
\<close>

definition staleKernel :: "string list \<Rightarrow> kernel_route_entry list \<Rightarrow> kernel_route_entry list" where
  "staleKernel desiredIPs current = filter (\<lambda>e. kr_IP e \<notin> set desiredIPs) current"

definition staleFRR :: "string list \<Rightarrow> string list \<Rightarrow> kernel_route_entry list \<Rightarrow> string list \<Rightarrow> string list" where
  "staleFRR desiredIPs frrStaticIPs current currentFRR =
     (let fromKernel = uniq_by (\<lambda>ip. ip) [] (map kr_IP (staleKernel desiredIPs current))
      in fromKernel @ filter (\<lambda>ip. ip \<notin> set frrStaticIPs \<and> ip \<notin> set fromKernel) currentFRR)"

fun delKernelRoutes ::
  "host \<Rightarrow> config \<Rightarrow> kernel_route_entry list \<Rightarrow> 'z route_manager_scheme \<Rightarrow> 'z route_manager_scheme" where
  "delKernelRoutes env cfg [] rm = rm"
| "delKernelRoutes env cfg (e # es) rm =
     delKernelRoutes env cfg es (snd (DelKernelRoute env cfg (kr_IP e) (kr_Dev e) rm))"

definition ensureRoutes ::
  "host \<Rightarrow> config \<Rightarrow> string list \<Rightarrow> string list \<Rightarrow> smap \<Rightarrow> string set \<Rightarrow> 'z route_manager_scheme \<Rightarrow>
   route_sync_result \<times> 'z route_manager_scheme" where
  "ensureRoutes env cfg desiredIPs frrStaticIPs ipDev skip rm =
     (let (current, currentFRR, rm1) = listCurrent env cfg rm;
          (kernelOK, addFRR, rm2) =
            addMissing env cfg ipDev (needsKernel cfg ipDev skip current) (needsFRR frrStaticIPs currentFRR) desiredIPs rm1;
          (addErr, rm3) = (if addFRR \<noteq> [] then AddFRRRoutes env cfg addFRR rm2 else (None, rm2));
          delFRR = staleFRR desiredIPs frrStaticIPs current currentFRR;
          rm4 = (if delFRR \<noteq> [] then snd (DelFRRRoutes env cfg delFRR rm3) else rm3);
          rm5 = delKernelRoutes env cfg (staleKernel desiredIPs current) rm4;
          (refreshErr, rm6) = (if addFRR \<noteq> [] \<or> delFRR \<noteq> [] then RefreshBGP env cfg rm5 else (None, rm5))
      in (\<lparr>rs_changed = (addFRR \<noteq> [] \<or> delFRR \<noteq> []),
           rs_announced = (addFRR \<noteq> [] \<and> addErr = None \<and> refreshErr = None),
           rs_ready = (kernelOK \<and> addErr = None \<and> refreshErr = None)\<rparr>, rm6))"

subsection \<open>removeAllRoutes\<close>

definition removeAllRoutes :: "host \<Rightarrow> config \<Rightarrow> 'z route_manager_scheme \<Rightarrow> 'z route_manager_scheme" where
  "removeAllRoutes env cfg rm =
     (let (frr, rm1) = ListFRRRoutes env cfg rm;
          delFRR = (case frr of Inl _ \<Rightarrow> [] | Inr ips \<Rightarrow> ips);
          rm2 = (if delFRR \<noteq> [] then snd (DelFRRRoutes env cfg delFRR rm1) else rm1);
          rm3 = (if \<not> cf_PortForwardOnly cfg
                 then (case ListKernelRoutes env cfg rm2 of
                         (Inl _, rm') \<Rightarrow> rm'
                       | (Inr es, rm') \<Rightarrow> delKernelRoutes env cfg es rm')
                 else rm2)
      in if delFRR \<noteq> [] then snd (RefreshBGP env cfg rm3) else rm3)"

subsection \<open>What each phase does to the two planes\<close>

lemma delKernelRoutes_calls:
  "\<exists>t. rm_hist (delKernelRoutes env cfg es rm) = rm_hist rm @ t \<and> vtyshCalls t = [] \<and>
     (\<forall>m k. k \<notin> (\<Union>e\<in>set es. routeKey cfg (kr_IP e)) \<longrightarrow> kernelAfter t m k = m k) \<and>
     (\<forall>m k. kernelAfter t m k = m k \<or> kernelAfter t m k = None)"
proof (induction es arbitrary: rm)
  case Nil
  then show ?case by simp
next
  case (Cons e es)
  let ?rm1 = "snd (DelKernelRoute env cfg (kr_IP e) (kr_Dev e) rm)"
  obtain u where u: "rm_hist ?rm1 = rm_hist rm @ u"
     "\<forall>m k. k \<notin> routeKey cfg (kr_IP e) \<longrightarrow> kernelAfter u m k = m k" "vtyshCalls u = []"
     "\<forall>m k. kernelAfter u m k = m k \<or> kernelAfter u m k = None"
    using DelKernelRoute_calls by blast
  from Cons [of ?rm1] obtain t where t: "rm_hist (delKernelRoutes env cfg es ?rm1) = rm_hist ?rm1 @ t"
     "vtyshCalls t = []" "\<forall>m k. k \<notin> (\<Union>e\<in>set es. routeKey cfg (kr_IP e)) \<longrightarrow> kernelAfter t m k = m k"
     "\<forall>m k. kernelAfter t m k = m k \<or> kernelAfter t m k = None" by blast
  show ?case
  proof (intro exI [of _ "u @ t"] conjI allI impI)
    show "rm_hist (delKernelRoutes env cfg (e # es) rm) = rm_hist rm @ u @ t" using u t by simp
    show "vtyshCalls (u @ t) = []" using u t by simp
    show "kernelAfter (u @ t) m k = m k" if "k \<notin> (\<Union>e\<in>set (e # es). routeKey cfg (kr_IP e))" for m k
      using that u(2) [rule_format, of k m] t(3) [rule_format, of k] by simp
    show "kernelAfter (u @ t) m k = m k \<or> kernelAfter (u @ t) m k = None" for m k
      using u(4) t(4) by (simp, metis)
  qed
qed

lemma listCurrent_calls:
  "\<exists>t. rm_hist (snd (snd (listCurrent env cfg rm))) = rm_hist rm @ t \<and> writes t = []"
proof -
  let ?k = "if \<not> cf_PortForwardOnly cfg then ListKernelRoutes env cfg rm else (Inr [], rm)"
  obtain a where a: "rm_hist (snd ?k) = rm_hist rm @ a" "writes a = []"
    using ListKernelRoutes_calls [of env cfg rm] by (cases "cf_PortForwardOnly cfg") auto
  obtain b where b: "rm_hist (snd (ListFRRRoutes env cfg (snd ?k))) = rm_hist (snd ?k) @ b" "writes b = []"
    using ListFRRRoutes_calls by blast
  have "snd (snd (listCurrent env cfg rm)) = snd (ListFRRRoutes env cfg (snd ?k))"
    by (simp add: listCurrent_def split_beta Let_def)
  then show ?thesis using a b by (intro exI [of _ "a @ b"]) simp
qed

definition planeKeys :: "config \<Rightarrow> string set \<Rightarrow> (int \<times> ipnet) set" where
  "planeKeys cfg ips = (\<Union>ip\<in>ips. routeKey cfg ip)"

lemma planeKeys_simps [simp]:
  "planeKeys cfg {} = {}" "planeKeys cfg (insert ip ips) = routeKey cfg ip \<union> planeKeys cfg ips"
  by (simp_all add: planeKeys_def)

lemma addMissing_trace:
  "\<exists>t. rm_hist (snd (snd (addMissing env cfg ipDev nK nF ips rm))) = rm_hist rm @ t \<and> vtyshCalls t = [] \<and>
     (\<forall>m. {k. kernelAfter t m k \<noteq> m k} \<subseteq> planeKeys cfg {ip \<in> set ips. nK ip})"
proof (induction ips arbitrary: rm)
  case Nil
  then show ?case by simp
next
  case (Cons ip ips)
  let ?rm1 = "if nK ip then snd (AddKernelRoute env cfg ip (desiredRouteDev cfg ip ipDev) rm) else rm"
  obtain u where u: "rm_hist ?rm1 = rm_hist rm @ u" "vtyshCalls u = []"
    "\<forall>m. {k. kernelAfter u m k \<noteq> m k} \<subseteq> (if nK ip then routeKey cfg ip else {})"
    using AddKernelRoute_trace [of env cfg ip "desiredRouteDev cfg ip ipDev" rm]
    by (cases "nK ip") auto
  from Cons [of ?rm1] obtain t where t: "rm_hist (snd (snd (addMissing env cfg ipDev nK nF ips ?rm1))) = rm_hist ?rm1 @ t"
    "vtyshCalls t = []" "\<forall>m. {k. kernelAfter t m k \<noteq> m k} \<subseteq> planeKeys cfg {ip \<in> set ips. nK ip}" by blast
  have run: "snd (snd (addMissing env cfg ipDev nK nF (ip # ips) rm)) = snd (snd (addMissing env cfg ipDev nK nF ips ?rm1))"
    by (simp add: split_beta Let_def)
  have "{k. kernelAfter (u @ t) m k \<noteq> m k} \<subseteq> planeKeys cfg {x \<in> set (ip # ips). nK x}" for m
  proof -
    have split: "planeKeys cfg {x \<in> set (ip # ips). nK x} =
        (if nK ip then routeKey cfg ip else {}) \<union> planeKeys cfg {x \<in> set ips. nK x}"
      by (auto simp: planeKeys_def)
    have "{k. kernelAfter (u @ t) m k \<noteq> m k} \<subseteq>
        {k. kernelAfter t (kernelAfter u m) k \<noteq> kernelAfter u m k} \<union> {k. kernelAfter u m k \<noteq> m k}"
      by auto
    also have "\<dots> \<subseteq> planeKeys cfg {x \<in> set ips. nK x} \<union> (if nK ip then routeKey cfg ip else {})"
      by (rule Un_mono) (use t(3) u(3) in blast)+
    finally show ?thesis unfolding split by (simp add: Un_commute)
  qed
  then show ?case using run u t by (intro exI [of _ "u @ t"]) simp
qed

lemma addMissing_addFRR: "fst (snd (addMissing env cfg ipDev nK nF ips rm)) = filter nF ips"
  by (induction ips arbitrary: rm) (simp_all add: split_beta Let_def)

text \<open>The named intermediate states of a run.\<close>

definition er_current :: "host \<Rightarrow> config \<Rightarrow> 'z route_manager_scheme \<Rightarrow> kernel_route_entry list" where
  "er_current env cfg rm = fst (listCurrent env cfg rm)"

definition er_currentFRR :: "host \<Rightarrow> config \<Rightarrow> 'z route_manager_scheme \<Rightarrow> string list" where
  "er_currentFRR env cfg rm = fst (snd (listCurrent env cfg rm))"

definition er_addFRR :: "host \<Rightarrow> config \<Rightarrow> string list \<Rightarrow> string list \<Rightarrow> 'z route_manager_scheme \<Rightarrow> string list" where
  "er_addFRR env cfg desired statics rm = filter (needsFRR statics (er_currentFRR env cfg rm)) desired"

definition er_delFRR :: "host \<Rightarrow> config \<Rightarrow> string list \<Rightarrow> string list \<Rightarrow> 'z route_manager_scheme \<Rightarrow> string list" where
  "er_delFRR env cfg desired statics rm = staleFRR desired statics (er_current env cfg rm) (er_currentFRR env cfg rm)"

text \<open>
  The shape of a run: reads, then kernel adds, the FRR add, the FRR withdrawal, the kernel
  deletes and the refresh, each phase starting where the previous one ended.
\<close>

lemma ensureRoutes_phases:
  fixes env cfg desired statics ipDev skip rm
  defines "r \<equiv> ensureRoutes env cfg desired statics ipDev skip rm"
    and "addFRR \<equiv> er_addFRR env cfg desired statics rm"
    and "delFRR \<equiv> er_delFRR env cfg desired statics rm"
    and "nK \<equiv> needsKernel cfg ipDev skip (er_current env cfg rm)"
  obtains rm1 rm2 rm3 rm4 rm5 R A K where
    "rm1 = snd (snd (listCurrent env cfg rm))"
    "rm_hist rm1 = rm_hist rm @ R" "writes R = []"
    "rm2 = snd (snd (addMissing env cfg ipDev nK (needsFRR statics (er_currentFRR env cfg rm)) desired rm1))"
    "rm_hist rm2 = rm_hist rm1 @ A" "vtyshCalls A = []"
    "\<forall>m. {k. kernelAfter A m k \<noteq> m k} \<subseteq> planeKeys cfg {ip \<in> set desired. nK ip}"
    "rm3 = (if addFRR \<noteq> [] then snd (AddFRRRoutes env cfg addFRR rm2) else rm2)"
    "rm4 = (if delFRR \<noteq> [] then snd (DelFRRRoutes env cfg delFRR rm3) else rm3)"
    "rm5 = delKernelRoutes env cfg (staleKernel desired (er_current env cfg rm)) rm4"
    "rm_hist rm5 = rm_hist rm4 @ K" "vtyshCalls K = []"
    "snd r = (if addFRR \<noteq> [] \<or> delFRR \<noteq> [] then snd (RefreshBGP env cfg rm5) else rm5)"
    "rs_changed (fst r) \<longleftrightarrow> addFRR \<noteq> [] \<or> delFRR \<noteq> []"
    "rs_ready (fst r) \<longleftrightarrow>
       fst (addMissing env cfg ipDev nK (needsFRR statics (er_currentFRR env cfg rm)) desired rm1) \<and>
       (addFRR = [] \<or> fst (AddFRRRoutes env cfg addFRR rm2) = None) \<and>
       (addFRR = [] \<and> delFRR = [] \<or> fst (RefreshBGP env cfg rm5) = None)"
    "rs_announced (fst r) \<longleftrightarrow> addFRR \<noteq> [] \<and> fst (AddFRRRoutes env cfg addFRR rm2) = None \<and>
       fst (RefreshBGP env cfg rm5) = None"
proof -
  define rm1 where "rm1 = snd (snd (listCurrent env cfg rm))"
  let ?nF = "needsFRR statics (er_currentFRR env cfg rm)"
  define rm2 where "rm2 = snd (snd (addMissing env cfg ipDev nK ?nF desired rm1))"
  define rm3 where "rm3 = (if addFRR \<noteq> [] then snd (AddFRRRoutes env cfg addFRR rm2) else rm2)"
  define rm4 where "rm4 = (if delFRR \<noteq> [] then snd (DelFRRRoutes env cfg delFRR rm3) else rm3)"
  define rm5 where "rm5 = delKernelRoutes env cfg (staleKernel desired (er_current env cfg rm)) rm4"
  obtain R where R: "rm_hist rm1 = rm_hist rm @ R" "writes R = []"
    using listCurrent_calls rm1_def by blast
  obtain A where A: "rm_hist rm2 = rm_hist rm1 @ A" "vtyshCalls A = []"
    "\<forall>m. {k. kernelAfter A m k \<noteq> m k} \<subseteq> planeKeys cfg {ip \<in> set desired. nK ip}"
    using addMissing_trace rm2_def by blast
  obtain K where K: "rm_hist rm5 = rm_hist rm4 @ K" "vtyshCalls K = []"
    using delKernelRoutes_calls rm5_def by blast
  have list: "listCurrent env cfg rm = (er_current env cfg rm, er_currentFRR env cfg rm, rm1)"
    by (simp add: er_current_def er_currentFRR_def rm1_def)
  define kOK where "kOK = fst (addMissing env cfg ipDev nK ?nF desired rm1)"
  have add: "addMissing env cfg ipDev nK ?nF desired rm1 = (kOK, addFRR, rm2)"
    using addMissing_addFRR [of env cfg ipDev nK ?nF desired rm1]
    by (cases "addMissing env cfg ipDev nK ?nF desired rm1") (simp add: kOK_def rm2_def addFRR_def er_addFRR_def)
  define refresh where "refresh = (if addFRR \<noteq> [] \<or> delFRR \<noteq> [] then RefreshBGP env cfg rm5 else (None, rm5))"
  define addErr where "addErr = (if addFRR \<noteq> [] then fst (AddFRRRoutes env cfg addFRR rm2) else None)"
  have addp: "(if addFRR \<noteq> [] then AddFRRRoutes env cfg addFRR rm2 else (None, rm2)) = (addErr, rm3)"
    by (simp add: addErr_def rm3_def)
  have r: "r = (\<lparr>rs_changed = (addFRR \<noteq> [] \<or> delFRR \<noteq> []),
     rs_announced = (addFRR \<noteq> [] \<and> addErr = None \<and> fst refresh = None),
     rs_ready = (kOK \<and> addErr = None \<and> fst refresh = None)\<rparr>,
     snd refresh)"
    unfolding r_def ensureRoutes_def list Let_def prod.case nK_def [symmetric] add
      er_delFRR_def [symmetric] delFRR_def [symmetric] addp rm4_def [symmetric] rm5_def [symmetric]
      refresh_def [symmetric] split_beta fst_conv snd_conv
    by (rule refl)
  have out: "snd r = (if addFRR \<noteq> [] \<or> delFRR \<noteq> [] then snd (RefreshBGP env cfg rm5) else rm5)"
    by (simp add: r refresh_def)
  have changed: "rs_changed (fst r) \<longleftrightarrow> addFRR \<noteq> [] \<or> delFRR \<noteq> []" by (simp add: r)
  have ready: "rs_ready (fst r) \<longleftrightarrow> fst (addMissing env cfg ipDev nK ?nF desired rm1) \<and>
       (addFRR = [] \<or> fst (AddFRRRoutes env cfg addFRR rm2) = None) \<and>
       (addFRR = [] \<and> delFRR = [] \<or> fst (RefreshBGP env cfg rm5) = None)"
    by (simp add: r refresh_def addErr_def kOK_def [symmetric])
  have announced: "rs_announced (fst r) \<longleftrightarrow> addFRR \<noteq> [] \<and> fst (AddFRRRoutes env cfg addFRR rm2) = None \<and>
       fst (RefreshBGP env cfg rm5) = None"
    by (simp add: r refresh_def addErr_def)
  show thesis
    by (rule that [OF rm1_def R rm2_def A rm3_def rm4_def rm5_def K out changed ready announced])
qed

subsection \<open>The FRR plane of a run\<close>

definition vtyshOk :: "history \<Rightarrow> bool" where
  "vtyshOk h = list_all (\<lambda>(c, ok). case c of CVtysh _ \<Rightarrow> ok | _ \<Rightarrow> True) h"

lemma vtyshOk_append [simp]: "vtyshOk (h @ h') \<longleftrightarrow> vtyshOk h \<and> vtyshOk h'"
  by (simp add: vtyshOk_def)

lemma vtyshOk_zip: "length oks = length xs \<Longrightarrow> vtyshOk (zip (map (\<lambda>x. CVtysh (f x)) xs) oks) \<longleftrightarrow> (\<forall>ok\<in>set oks. ok)"
  unfolding vtyshOk_def by (induction oks xs rule: list_induct2) auto

lemma kernelAfter_zip: "kernelAfter (zip (map (\<lambda>x. CVtysh (f x)) xs) oks) m = m"
proof (induction xs arbitrary: oks)
  case Nil
  then show ?case by simp
next
  case (Cons x xs)
  then show ?case by (cases oks) auto
qed

lemma AddFRRRoutes_trace:
  "\<exists>t. rm_hist (snd (AddFRRRoutes env cfg ips rm)) = rm_hist rm @ t \<and> (\<forall>m. kernelAfter t m = m) \<and>
     (vtyshOk t \<longrightarrow> fst (AddFRRRoutes env cfg ips rm) = None) \<and>
     (\<not> cf_DryRun cfg \<and> vtyshOk t \<longrightarrow> (\<forall>S. staticsAfter t S = S \<union> routeLine cfg ` {ip \<in> set ips. isIPv4 ip}))"
proof -
  let ?b = "chunks frrBatchSize (validIPs ips)"
  obtain oks where oks: "length oks = length ?b"
    "rm_hist (snd (AddFRRRoutes env cfg ips rm)) = rm_hist rm @
       (if cf_DryRun cfg then [] else zip (map (\<lambda>ch. CVtysh (addArgs cfg ch)) ?b) oks)"
    "fst (AddFRRRoutes env cfg ips rm) = None \<longleftrightarrow> cf_DryRun cfg \<or> (\<forall>ok\<in>set oks. ok)"
    using AddFRRRoutes_calls by blast
  let ?t = "if cf_DryRun cfg then [] else zip (map (\<lambda>ch. CVtysh (addArgs cfg ch)) ?b) oks"
  have none: "fst (AddFRRRoutes env cfg ips rm) = None" if "vtyshOk ?t"
    using that oks by (auto simp: vtyshOk_zip split: if_splits)
  have eff: "staticsAfter ?t S = S \<union> routeLine cfg ` {ip \<in> set ips. isIPv4 ip}"
    if "\<not> cf_DryRun cfg" "vtyshOk ?t" for S
    using AddFRRRoutes_effect [OF none [OF that(2)] that(1), of S] oks(2) by auto
  show ?thesis
  proof (intro exI [of _ ?t] conjI allI impI)
    show "rm_hist (snd (AddFRRRoutes env cfg ips rm)) = rm_hist rm @ ?t" by (rule oks(2))
    show "kernelAfter ?t m = m" for m by (simp add: kernelAfter_zip)
  qed (use none eff in blast)+
qed

lemma zip_to_take: "zip xs ys = zip (take (length ys) xs) ys"
proof (induction xs arbitrary: ys)
  case Nil
  then show ?case by simp
next
  case (Cons x xs)
  then show ?case by (cases ys) auto
qed

lemma RefreshBGP_run:
  "RefreshBGP env cfg rm =
     (if cf_DryRun cfg then (None, rm)
      else (snd (h_vtysh env (rm_hist rm) (refreshArgs cfg)),
            logCall (CVtysh (refreshArgs cfg)) (snd (h_vtysh env (rm_hist rm) (refreshArgs cfg)) = None) rm))"
  by (cases "h_vtysh env (rm_hist rm) (refreshArgs cfg)") (simp add: RefreshBGP_def runVtysh_simp)

lemma DelFRRRoutes_trace:
  assumes "\<forall>ip \<in> set ips. isIPv4 ip"
  shows "\<exists>t. rm_hist (snd (DelFRRRoutes env cfg ips rm)) = rm_hist rm @ t \<and> (\<forall>m. kernelAfter t m = m) \<and>
     (\<not> cf_DryRun cfg \<and> vtyshOk t \<longrightarrow> (\<forall>S. staticsAfter t S = S - routeLine cfg ` set ips))"
proof -
  have none: "find (\<lambda>ip. validateIP ip \<noteq> None) ips = None"
    using assms by (auto simp: find_None_iff validateIP_None)
  show ?thesis
  proof (cases "ips = [] \<or> cf_DryRun cfg")
    case True
    then show ?thesis using none by (intro exI [of _ "[]"]) (auto simp: DelFRRRoutes_def)
  next
    case False
    let ?b = "chunks frrBatchSize ips"
    have run: "DelFRRRoutes env cfg ips rm = delChunks env cfg ?b (clearCache rm)"
      using none False by (simp add: DelFRRRoutes_def)
    obtain oks where oks: "length oks \<le> length ?b"
      "rm_hist (snd (delChunks env cfg ?b (clearCache rm))) = rm_hist rm @ zip (map (\<lambda>ch. CVtysh (delArgs cfg ch)) ?b) oks"
      "if fst (delChunks env cfg ?b (clearCache rm)) = None then oks = replicate (length ?b) True
       else (\<exists>n. oks = replicate n True @ [False])"
      using delChunks_calls [of ?b env cfg "clearCache rm"] by (auto simp: clearCache_def)
    let ?t = "zip (map (\<lambda>ch. CVtysh (delArgs cfg ch)) ?b) oks"
    have ok: "fst (DelFRRRoutes env cfg ips rm) = None" if "vtyshOk ?t"
    proof (rule ccontr)
      assume "fst (DelFRRRoutes env cfg ips rm) \<noteq> None"
      then obtain n where n: "oks = replicate n True @ [False]" using oks(3) run by auto
      have "?t = zip (map (\<lambda>ch. CVtysh (delArgs cfg ch)) (take (length oks) ?b)) oks"
        using zip_to_take [of "map (\<lambda>ch. CVtysh (delArgs cfg ch)) ?b" oks] by (simp add: take_map)
      moreover have "length oks = length (take (length oks) ?b)" using oks(1) by simp
      ultimately have "\<forall>ok\<in>set oks. ok" using that vtyshOk_zip by metis
      then show False by (simp add: n)
    qed
    have "staticsAfter ?t S = S - routeLine cfg ` set ips" if "\<not> cf_DryRun cfg" "vtyshOk ?t" for S
      using DelFRRRoutes_effect [OF ok [OF that(2)] that(1), of S] oks(2) run by auto
    then show ?thesis using oks(2) run by (intro exI [of _ ?t]) (auto simp: kernelAfter_zip)
  qed
qed

lemma isIPv4_IPString: "To4 p = Some w \<Longrightarrow> isIPv4 (IPString p)"
proof -
  assume "To4 p = Some w"
  then have "IPString p = ip4String w" by (simp add: IPString_def)
  then show ?thesis by (simp add: isIPv4_def)
qed

lemma agentStatic_v4: "ip \<in> set (agentStatic cfg pe) \<Longrightarrow> isIPv4 ip"
  by (cases pe; cases "ParseCIDR (fst pe)")
     (auto simp: agentStatic_def split: if_splits intro: isIPv4_IPString)

lemma ListFRRRoutes_v4:
  assumes "fst (ListFRRRoutes env cfg rm) = Inr ips" "ip \<in> set ips"
  shows "isIPv4 ip"
proof (cases "cf_DryRun cfg")
  case True
  then show ?thesis using assms by (simp add: ListFRRRoutes_def)
next
  case False
  obtain r rm' where r: "staticFRRRoutes env cfg rm = (r, rm')" by fastforce
  with assms False obtain doc where "ip \<in> set (concat (map (agentStatic cfg) doc))"
    by (cases r) (auto simp: ListFRRRoutes_def)
  then show ?thesis by (auto intro: agentStatic_v4)
qed

lemma er_currentFRR_v4: "ip \<in> set (er_currentFRR env cfg rm) \<Longrightarrow> isIPv4 ip"
proof -
  assume ip: "ip \<in> set (er_currentFRR env cfg rm)"
  let ?k = "if \<not> cf_PortForwardOnly cfg then ListKernelRoutes env cfg rm else (Inr [], rm)"
  have "er_currentFRR env cfg rm = (case fst (ListFRRRoutes env cfg (snd ?k)) of Inl _ \<Rightarrow> [] | Inr ips \<Rightarrow> ips)"
    by (simp only: er_currentFRR_def listCurrent_def Let_def split_beta fst_conv snd_conv)
  with ip obtain ips where "fst (ListFRRRoutes env cfg (snd ?k)) = Inr ips" "ip \<in> set ips"
    by (cases "fst (ListFRRRoutes env cfg (snd ?k))") auto
  then show ?thesis by (rule ListFRRRoutes_v4)
qed

lemma staleKernel_in_staleFRR:
  "e \<in> set (staleKernel desired current) \<Longrightarrow> kr_IP e \<in> set (staleFRR desired statics current currentFRR)"
  by (auto simp: staleFRR_def Let_def set_uniq_by_id)

lemma er_delFRR_v4:
  assumes "\<forall>e \<in> set (er_current env cfg rm). isIPv4 (kr_IP e)"
  shows "\<forall>ip \<in> set (er_delFRR env cfg desired statics rm). isIPv4 ip"
  using assms er_currentFRR_v4
  by (auto simp: er_delFRR_def staleFRR_def Let_def set_uniq_by_id staleKernel_def)

lemma ensureRoutes_planes:
  fixes env cfg desired statics ipDev skip and rm :: "'z route_manager_scheme"
  defines "r \<equiv> ensureRoutes env cfg desired statics ipDev skip rm"
    and "nK \<equiv> needsKernel cfg ipDev skip (er_current env cfg rm)"
  assumes v4: "\<forall>e \<in> set (er_current env cfg rm). isIPv4 (kr_IP e)"
  obtains R A F D K Z and rm1 rm4 :: "'z route_manager_scheme" where
    "rm_hist (snd r) = rm_hist rm @ R @ A @ F @ D @ K @ Z" "writes R = []" "vtyshCalls A = []"
    "\<forall>m. {k. kernelAfter A m k \<noteq> m k} \<subseteq> planeKeys cfg {ip \<in> set desired. nK ip}"
    "rm1 = snd (snd (listCurrent env cfg rm))" "rm_hist rm1 = rm_hist rm @ R"
    "rm_hist (snd (snd (addMissing env cfg ipDev nK (needsFRR statics (er_currentFRR env cfg rm)) desired rm1))) = rm_hist rm1 @ A"
    "\<forall>m. kernelAfter F m = m" "\<forall>m. kernelAfter D m = m"
    "\<not> cf_DryRun cfg \<and> vtyshOk (F @ D) \<longrightarrow> (\<forall>S. staticsAfter (F @ D) S =
       (S \<union> routeLine cfg ` {ip \<in> set (er_addFRR env cfg desired statics rm). isIPv4 ip}) -
         routeLine cfg ` set (er_delFRR env cfg desired statics rm))"
    "rm_hist rm4 = rm_hist rm @ R @ A @ F @ D"
    "rm_hist (delKernelRoutes env cfg (staleKernel desired (er_current env cfg rm)) rm4) = rm_hist rm4 @ K"
    "vtyshCalls K = []"
    "Z = [] \<or> (\<exists>ok. Z = [(CVtysh (refreshArgs cfg), ok)])"
    "Z = [] \<or> rs_changed (fst r)"
proof -
  let ?addFRR = "er_addFRR env cfg desired statics rm"
  let ?delFRR = "er_delFRR env cfg desired statics rm"
  obtain rm1 rm2 rm3 rm4 rm5 R A K where ph:
    "rm1 = snd (snd (listCurrent env cfg rm))"
    "rm_hist rm1 = rm_hist rm @ R" "writes R = []"
    "rm2 = snd (snd (addMissing env cfg ipDev nK (needsFRR statics (er_currentFRR env cfg rm)) desired rm1))"
    "rm_hist rm2 = rm_hist rm1 @ A" "vtyshCalls A = []"
    "\<forall>m. {k. kernelAfter A m k \<noteq> m k} \<subseteq> planeKeys cfg {ip \<in> set desired. nK ip}"
    "rm3 = (if ?addFRR \<noteq> [] then snd (AddFRRRoutes env cfg ?addFRR rm2) else rm2)"
    "rm4 = (if ?delFRR \<noteq> [] then snd (DelFRRRoutes env cfg ?delFRR rm3) else rm3)"
    "rm5 = delKernelRoutes env cfg (staleKernel desired (er_current env cfg rm)) rm4"
    "rm_hist rm5 = rm_hist rm4 @ K" "vtyshCalls K = []"
    "snd r = (if ?addFRR \<noteq> [] \<or> ?delFRR \<noteq> [] then snd (RefreshBGP env cfg rm5) else rm5)"
    "rs_changed (fst r) \<longleftrightarrow> ?addFRR \<noteq> [] \<or> ?delFRR \<noteq> []"
    unfolding r_def nK_def by (rule ensureRoutes_phases [of env cfg rm ipDev skip statics desired]) blast
  obtain F where F: "rm_hist rm3 = rm_hist rm2 @ F" "\<forall>m. kernelAfter F m = m"
    "\<not> cf_DryRun cfg \<and> vtyshOk F \<longrightarrow> (\<forall>S. staticsAfter F S = S \<union> routeLine cfg ` {ip \<in> set ?addFRR. isIPv4 ip})"
  proof (cases "?addFRR = []")
    case True
    then show ?thesis using that [of "[]"] ph by simp
  next
    case False
    then show ?thesis using that AddFRRRoutes_trace [of env cfg ?addFRR rm2] ph(8) by auto
  qed
  obtain D where D: "rm_hist rm4 = rm_hist rm3 @ D" "\<forall>m. kernelAfter D m = m"
    "\<not> cf_DryRun cfg \<and> vtyshOk D \<longrightarrow> (\<forall>S. staticsAfter D S = S - routeLine cfg ` set ?delFRR)"
  proof (cases "?delFRR = []")
    case True
    then show ?thesis using that [of "[]"] ph by simp
  next
    case False
    then show ?thesis using that DelFRRRoutes_trace [OF er_delFRR_v4 [OF v4], of env cfg desired statics rm3] ph(9) by auto
  qed
  obtain Z where Z: "rm_hist (snd r) = rm_hist rm5 @ Z" "Z = [] \<or> (\<exists>ok. Z = [(CVtysh (refreshArgs cfg), ok)])"
    "Z = [] \<or> rs_changed (fst r)"
  proof (cases "(?addFRR = [] \<and> ?delFRR = []) \<or> cf_DryRun cfg")
    case True
    then show ?thesis using that [of "[]"] ph(13) by (auto simp: RefreshBGP_run)
  next
    case False
    then show ?thesis
      using that [of "[(CVtysh (refreshArgs cfg), snd (h_vtysh env (rm_hist rm5) (refreshArgs cfg)) = None)]"] ph(13,14)
      by (auto simp: RefreshBGP_run)
  qed
  show thesis
    by (rule that [of R A F D K Z rm1 rm4]) (use ph F D Z in auto)
qed

subsection \<open>Order and convergence\<close>

lemma staticsAfter_no_vtysh: "vtyshCalls t = [] \<Longrightarrow> staticsAfter t S = S"
proof (induction t arbitrary: S)
  case Nil
  then show ?case by simp
next
  case (Cons e t)
  obtain c ok where e: "e = (c, ok)" by fastforce
  with Cons show ?case by (cases c) (simp_all add: staticsAfter_def vtyshCalls_def)
qed

lemma vtyshOk_no_vtysh: "vtyshCalls t = [] \<Longrightarrow> vtyshOk t"
proof (induction t)
  case Nil
  then show ?case by (simp add: vtyshOk_def)
next
  case (Cons e t)
  obtain c ok where e: "e = (c, ok)" by fastforce
  with Cons show ?case by (cases c) (simp_all add: vtyshOk_def vtyshCalls_def)
qed

lemma routeLine_no_refresh: "staticsAfter [(CVtysh (refreshArgs cfg), ok)] S = S"
  by (simp add: staticsAfter_def argsEffect_def refreshArgs_def lineEffect_def HasPrefix_def)

lemma planeKeys_mono: "a \<subseteq> b \<Longrightarrow> planeKeys cfg a \<subseteq> planeKeys cfg b"
  by (auto simp: planeKeys_def)


lemma er_add_set:
  "set (er_addFRR env cfg desired statics rm) = set desired \<inter> set statics - set (er_currentFRR env cfg rm)"
  by (auto simp: er_addFRR_def needsFRR_def)

lemma er_del_set:
  assumes "set statics \<subseteq> set desired"
  shows "set (er_currentFRR env cfg rm) - set statics \<subseteq> set (er_delFRR env cfg desired statics rm)"
    and "set (er_delFRR env cfg desired statics rm) \<inter> set statics = {}"
  using assms by (auto simp: er_delFRR_def staleFRR_def Let_def set_uniq_by_id staleKernel_def)

text \<open>
  C10: one run brings FRR to the desired statics. If FRR's configuration held the statics the
  listing reported, next to any lines of an operator's own, and no \<open>vtysh\<close> call failed, then
  after the run it holds exactly one static per wanted address, and the operator's lines.
\<close>

theorem frr_plane_converges:
  assumes "\<not> cf_DryRun cfg"
    and "\<forall>e \<in> set (er_current env cfg rm). isIPv4 (kr_IP e)"
    and "set statics \<subseteq> set desired" and "\<forall>ip \<in> set statics. isIPv4 ip"
    and "vtyshOk (callsOf rm (snd (ensureRoutes env cfg desired statics ipDev skip rm)))"
    and "foreign \<inter> range (routeLine cfg) = {}"
  shows "staticsAfter (callsOf rm (snd (ensureRoutes env cfg desired statics ipDev skip rm)))
       (routeLine cfg ` set (er_currentFRR env cfg rm) \<union> foreign) = routeLine cfg ` set statics \<union> foreign"
proof -
  let ?del = "er_delFRR env cfg desired statics rm"
  let ?add = "er_addFRR env cfg desired statics rm"
  let ?cur = "er_currentFRR env cfg rm"
  obtain R A F D K Z rm1 rm4 where p:
    "rm_hist (snd (ensureRoutes env cfg desired statics ipDev skip rm)) = rm_hist rm @ R @ A @ F @ D @ K @ Z"
    "writes R = []" "vtyshCalls A = []"
    "\<not> cf_DryRun cfg \<and> vtyshOk (F @ D) \<longrightarrow> (\<forall>S. staticsAfter (F @ D) S =
       (S \<union> routeLine cfg ` {ip \<in> set ?add. isIPv4 ip}) - routeLine cfg ` set ?del)"
    "vtyshCalls K = []" "Z = [] \<or> (\<exists>ok. Z = [(CVtysh (refreshArgs cfg), ok)])"
    by (rule ensureRoutes_planes [OF assms(2), where ipDev = ipDev and skip = skip and statics = statics and desired = desired], rule that, assumption+)
  have calls: "callsOf rm (snd (ensureRoutes env cfg desired statics ipDev skip rm)) = R @ A @ (F @ D) @ K @ Z"
    using p(1) by simp
  have fd: "vtyshOk (F @ D)" using assms(5) unfolding calls by simp
  have z: "staticsAfter Z S = S" for S using p(6) routeLine_no_refresh by auto
  have "staticsAfter (R @ A @ (F @ D) @ K @ Z) S = staticsAfter (F @ D) S" for S
    using effects_of_writes(2) [of R S] p(2) staticsAfter_no_vtysh [OF p(3)] staticsAfter_no_vtysh [OF p(5)] z
    by simp
  then have eq: "staticsAfter (R @ A @ (F @ D) @ K @ Z) S =
      (S \<union> routeLine cfg ` {ip \<in> set ?add. isIPv4 ip}) - routeLine cfg ` set ?del" for S
    using p(4) assms(1) fd by simp
  have addv: "{ip \<in> set ?add. isIPv4 ip} = set statics - set ?cur"
    using assms(3,4) by (auto simp: er_add_set)
  have foreign: "routeLine cfg x \<notin> foreign" for x using assms(6) by blast
  show ?thesis
    unfolding calls eq addv
    using er_del_set [OF assms(3), of env cfg rm] foreign by (auto simp: image_iff)
qed

subsection \<open>A concrete run\<close>

text \<open>
  A host on which every call succeeds, FRR lists one static through the agent's next-hop and the
  bridge carries that address's kernel route, both left over from an address that is gone.
\<close>

definition demo_rcfg :: config where
  "demo_rcfg = zeroConfig\<lparr>cf_BridgeDev := ''br-ex'', cf_VRFName := ''vrf-provider'', cf_VethNexthop := ''169.254.0.1''\<rparr>"

definition demo_doc :: json where
  "demo_doc = JObj [(''10.0.0.9/32'', JArr [JObj [(''selected'', JBool True), (''installed'', JBool True),
     (''nexthops'', JArr [JObj [(''ip'', JStr ''169.254.0.1'')]])]])]"

definition demo_link :: nl_link where
  "demo_link = \<lparr>ln_Index = 5, ln_Name = ''br-ex'', ln_Up = True, ln_MAC = ''02:00:00:00:00:01'', ln_Alias = '''',
     ln_ParentIndex = 0, ln_Kind = OtherLink ''bridge''\<rparr>"

definition demo_host :: host where
  "demo_host = \<lparr>
     h_vtysh = (\<lambda>h args. (''doc'', None)),
     h_json = (\<lambda>s. Some demo_doc), h_jsonStream = (\<lambda>s. Some []),
     h_linkByName = (\<lambda>h n. Inr demo_link), h_linkByIndex = (\<lambda>h i. Inr demo_link), h_linkList = (\<lambda>h. Inr []),
     h_routeReplace = (\<lambda>h r. None), h_routeDel = (\<lambda>h r. None),
     h_routeListTable = (\<lambda>h t p. Inr []),
     h_routeListLink = (\<lambda>h i. Inr [agentRoute demo_rcfg 5 (Net4 0x0A000009 32)]),
     h_ruleAdd = (\<lambda>h u. None), h_ruleDel = (\<lambda>h u. None), h_ovs = (\<lambda>h a i. ('''', None)),
     h_net = (\<lambda>h x. None), h_addrList = (\<lambda>h i. Inr []), h_polRuleList = (\<lambda>h. Inr []),
     h_gwRouteList = (\<lambda>h oif t pr. Inr []), h_nft = (\<lambda>h args s. ('''', None))\<rparr>"

definition demo_rm :: route_manager where
  "demo_rm = \<lparr>rm_hist = [], rm_frrRouteCache = None\<rparr>"

lemma demo_cfg_fields [simp]:
  "cf_DryRun demo_rcfg = False" "cf_PortForwardOnly demo_rcfg = False" "cf_RouteTableID demo_rcfg = 0"
  "cf_BridgeDev demo_rcfg = ''br-ex''" "cf_VethNexthop demo_rcfg = ''169.254.0.1''"
  by (simp_all add: demo_rcfg_def zeroConfig_def)

lemma demo_host_fields [simp]:
  "h_vtysh demo_host h args = (''doc'', None)" "h_json demo_host s = Some demo_doc"
  "h_linkByName demo_host h n = Inr demo_link" "h_linkList demo_host h = Inr []"
  "h_routeListLink demo_host h i = Inr [agentRoute demo_rcfg 5 (Net4 0x0A000009 32)]"
  "h_routeReplace demo_host h r = None" "h_routeDel demo_host h r = None"
  by (simp_all add: demo_host_def)

lemma demo_kernel_listing:
  "ListKernelRoutes demo_host demo_rcfg demo_rm =
     (Inr [\<lparr>kr_IP = ''10.0.0.9'', kr_Dev = ''br-ex''\<rparr>], snd (ListKernelRoutes demo_host demo_rcfg demo_rm))"
  by (simp add: ListKernelRoutes_def segmentCandidateLinks_def nl_calls is32_def dstString_def demo_link_def
      ip4String_def byte_of_def show_nat.simps digit_char_def)

lemma demo_current: "er_current demo_host demo_rcfg demo_rm = [\<lparr>kr_IP = ''10.0.0.9'', kr_Dev = ''br-ex''\<rparr>]"
  by (simp add: er_current_def listCurrent_def split_beta Let_def demo_kernel_listing [THEN arg_cong [of _ _ fst], simplified])

lemmas frr_eval = ListFRRRoutes_def staticFRRRoutes_def runVtysh_simp decodeRoutes_def decodeRouteEntry_def
  decodeNexthop_def jobj_def jarr_def jstr_def jbool_def jfield_def agentStatic_def entriesUseNexthop_def

lemma demo_trim: "TrimSpace ''doc'' = ''doc''"
  by (simp add: TrimSpace_def IsSpace_def)

lemma demo_decode: "decodeRoutes demo_doc =
   Some (Some [(''10.0.0.9/32'', [\<lparr>fe_Selected = True, fe_Installed = True, fe_Nexthops = [''169.254.0.1'']\<rparr>])])"
  by (simp add: demo_doc_def frr_eval)

lemma demo_static: "agentStatic demo_rcfg (''10.0.0.9/32'', [\<lparr>fe_Selected = True, fe_Installed = True, fe_Nexthops = [''169.254.0.1'']\<rparr>]) = [''10.0.0.9'']"
  by (simp add: agentStatic_def entriesUseNexthop_def go_net_eval mask4_def ip4String_def byte_of_def show_nat.simps digit_char_def)

lemma demo_list_frr:
  "rm_frrRouteCache rm = None \<Longrightarrow> ListFRRRoutes demo_host demo_rcfg rm = (Inr [''10.0.0.9''],
     (logCall (CVtysh (showStaticArgs demo_rcfg)) True rm)
       \<lparr>rm_frrRouteCache := Some [(''10.0.0.9/32'', [\<lparr>fe_Selected = True, fe_Installed = True, fe_Nexthops = [''169.254.0.1'']\<rparr>])]\<rparr>)"
  by (simp add: ListFRRRoutes_def staticFRRRoutes_def runVtysh_simp demo_trim demo_decode demo_static)

lemma demo_v4: "isIPv4 ''10.0.0.7''" "isIPv4 ''10.0.0.9''"
  by (simp_all add: isIPv4_def go_net_eval)

lemma demo_add_kernel: "isIPv4 ip \<Longrightarrow> \<exists>r. AddKernelRoute demo_host demo_rcfg ip dev rm =
   (None, logCall (CRouteReplace r) True (logCall (CLinkByName dev) True rm))"
  by (cases "ParseIP ip") (auto simp: AddKernelRoute_def nl_calls isIPv4_def)

lemma demo_del_kernel: "isIPv4 ip \<Longrightarrow> \<exists>r. DelKernelRoute demo_host demo_rcfg ip dev rm =
   (None, logCall (CRouteDel r) True (logCall (CLinkByName dev) True rm))"
  by (cases "ParseIP ip") (auto simp: DelKernelRoute_def nl_calls isIPv4_def)

lemma one_chunk: "chunks frrBatchSize [ip] = [[ip]]"
  by (simp add: chunks.simps [of 500 "[ip]"] frrBatchSize_def)

lemma demo_add_frr: "isIPv4 ip \<Longrightarrow> AddFRRRoutes demo_host demo_rcfg [ip] rm =
   (None, logCall (CVtysh (addArgs demo_rcfg [ip])) True (clearCache rm))"
  by (simp add: AddFRRRoutes_def validateIP_None one_chunk runVtysh_simp)

lemma demo_del_frr: "isIPv4 ip \<Longrightarrow> DelFRRRoutes demo_host demo_rcfg [ip] rm =
   (None, logCall (CVtysh (delArgs demo_rcfg [ip])) True (clearCache rm))"
  by (simp add: DelFRRRoutes_def validateIP_None one_chunk runVtysh_simp)

lemma demo_kernel_listing_calls:
  "rm_hist (snd (ListKernelRoutes demo_host demo_rcfg demo_rm)) =
     [(CLinkByName ''br-ex'', True), (CLinkList, True), (CRouteListLink 5, True)]"
  "rm_frrRouteCache (snd (ListKernelRoutes demo_host demo_rcfg demo_rm)) = None"
  by (simp_all add: ListKernelRoutes_def segmentCandidateLinks_def nl_calls demo_link_def demo_rm_def)

lemma demo_current_frr: "er_currentFRR demo_host demo_rcfg demo_rm = [''10.0.0.9'']"
  by (simp add: er_currentFRR_def listCurrent_def split_beta Let_def demo_kernel_listing_calls demo_list_frr)


definition demo_sync :: "route_sync_result \<times> route_manager" where
  "demo_sync = ensureRoutes demo_host demo_rcfg [''10.0.0.7''] [''10.0.0.7''] [] {} demo_rm"

lemma demo_sync_ok: "vtyshOk (callsOf demo_rm (snd demo_sync))"
proof -
  obtain rm1 where list: "listCurrent demo_host demo_rcfg demo_rm =
      ([\<lparr>kr_IP = ''10.0.0.9'', kr_Dev = ''br-ex''\<rparr>], [''10.0.0.9''], rm1)"
    using demo_current demo_current_frr
    by (cases "listCurrent demo_host demo_rcfg demo_rm") (auto simp: er_current_def er_currentFRR_def)
  have "vtyshOk (rm_hist (snd (snd (listCurrent demo_host demo_rcfg demo_rm))))"
    by (simp add: listCurrent_def split_beta Let_def demo_kernel_listing_calls demo_list_frr vtyshOk_def)
  then have h1: "vtyshOk (rm_hist rm1)" by (simp add: list)
  obtain r1 where add: "AddKernelRoute demo_host demo_rcfg ''10.0.0.7'' ''br-ex'' rm1 =
      (None, logCall (CRouteReplace r1) True (logCall (CLinkByName ''br-ex'') True rm1))"
    using demo_add_kernel [OF demo_v4(1)] by blast
  have keep: "desiredRouteDev demo_rcfg ''10.0.0.7'' [] = ''br-ex''" by (simp add: desiredRouteDev_def mget_def)
  have stale: "staleKernel [''10.0.0.7''] [\<lparr>kr_IP = ''10.0.0.9'', kr_Dev = ''br-ex''\<rparr>] = [\<lparr>kr_IP = ''10.0.0.9'', kr_Dev = ''br-ex''\<rparr>]"
    "staleFRR [''10.0.0.7''] [''10.0.0.7''] [\<lparr>kr_IP = ''10.0.0.9'', kr_Dev = ''br-ex''\<rparr>] [''10.0.0.9''] = [''10.0.0.9'']"
    by (simp_all add: staleKernel_def staleFRR_def Let_def)
  have needs: "needsKernel demo_rcfg [] {} [\<lparr>kr_IP = ''10.0.0.9'', kr_Dev = ''br-ex''\<rparr>] ''10.0.0.7''"
    "needsFRR [''10.0.0.7''] [''10.0.0.9''] ''10.0.0.7''"
    by (simp_all add: needsKernel_def needsFRR_def)
  let ?rm4 = "logCall (CVtysh (delArgs demo_rcfg [''10.0.0.9''])) True (clearCache
      (logCall (CVtysh (addArgs demo_rcfg [''10.0.0.7''])) True (clearCache
        (logCall (CRouteReplace r1) True (logCall (CLinkByName ''br-ex'') True rm1)))))"
  obtain r2 where del: "DelKernelRoute demo_host demo_rcfg ''10.0.0.9'' ''br-ex'' ?rm4 =
      (None, logCall (CRouteDel r2) True (logCall (CLinkByName ''br-ex'') True ?rm4))"
    using demo_del_kernel [OF demo_v4(2)] by blast
  have "rm_hist (snd demo_sync) = rm_hist rm1 @
     [(CLinkByName ''br-ex'', True), (CRouteReplace r1, True), (CVtysh (addArgs demo_rcfg [''10.0.0.7'']), True),
      (CVtysh (delArgs demo_rcfg [''10.0.0.9'']), True), (CLinkByName ''br-ex'', True), (CRouteDel r2, True),
      (CVtysh (refreshArgs demo_rcfg), True)]"
    unfolding demo_sync_def ensureRoutes_def list
    by (simp add: needs keep add stale demo_add_frr demo_del_frr demo_v4 del RefreshBGP_run Let_def)
       (simp add: clearCache_def)
  then have "vtyshOk (rm_hist (snd demo_sync))" using h1 by (simp add: vtyshOk_def)
  then show ?thesis by (simp add: callsOf_def demo_rm_def)
qed

lemma demo_current_v4: "\<forall>e \<in> set (er_current demo_host demo_rcfg demo_rm). isIPv4 (kr_IP e)"
  by (simp add: demo_current demo_v4)

lemma demo_stale: "staleKernel [''10.0.0.7''] (er_current demo_host demo_rcfg demo_rm) = [\<lparr>kr_IP = ''10.0.0.9'', kr_Dev = ''br-ex''\<rparr>]"
  by (simp add: demo_current staleKernel_def)


theorem frr_plane_converges_witness:
  "staticsAfter (callsOf demo_rm (snd demo_sync)) {routeLine demo_rcfg ''10.0.0.9'', ''operator line''} =
     {routeLine demo_rcfg ''10.0.0.7'', ''operator line''}"
proof -
  have "{''operator line''} \<inter> range (routeLine demo_rcfg) = {}"
    by (auto simp: routeLine_def)
  then show ?thesis
    using frr_plane_converges [of demo_rcfg demo_host demo_rm "[''10.0.0.7'']" "[''10.0.0.7'']" "[]" "{}" "{''operator line''}"]
      demo_current_v4 demo_sync_ok
    by (simp add: demo_sync_def demo_current_frr demo_v4 insert_commute)
qed

end
