(* ===== verification/FrrWatch.thy ===== *)
theory FrrWatch
  imports GoStrings
begin

section \<open>Detecting an FRR restart\<close>

text \<open>
  \<open>frr_watch.go\<close>: the agent polls \<open>show modules\<close>, reads the process ID of every FRR daemon out of
  the answer and decides from the sequence of answers when FRR restarted, when the follow-up
  reconcile is due and when to warn about an outage. \<open>parseFRRModules\<close> and the decision logic
  of \<open>frrWatchState\<close> are pure; a run of the watcher is a fold over the polls with their times.
  Running \<open>vtysh\<close> is outside the model: a poll is the text it printed or an error.
\<close>

type_synonym incarnation = "(string \<times> int) list"

text \<open>A missing key reads 0. \<open>maps.Equal\<close> compares the sizes, then looks every key up.\<close>

definition pidOf :: "incarnation \<Rightarrow> string \<Rightarrow> int" where
  "pidOf inc name = (case map_of inc name of None \<Rightarrow> 0 | Some pid \<Rightarrow> pid)"

definition mapsEqual :: "incarnation \<Rightarrow> incarnation \<Rightarrow> bool" where
  "mapsEqual a b \<longleftrightarrow> length a = length b \<and> list_all (\<lambda>(k, v). map_of b k = Some v) a"

subsection \<open>Reading the answer\<close>

text \<open>One line of the answer: the incarnation so far and the daemon whose section is open.\<close>

definition moduleLine :: "incarnation \<times> string \<Rightarrow> string \<Rightarrow> incarnation \<times> string" where
  "moduleLine st raw =
     (let (inc, daemon) = st; line = TrimSpace raw in
      case CutPrefix line ''Module information for '' of
        Some rest \<Rightarrow> (inc, case CutSuffix rest '':'' of Some name \<Rightarrow> name | None \<Rightarrow> '''')
      | None \<Rightarrow>
          (case CutPrefix line ''pid:'' of
             None \<Rightarrow> (inc, daemon)
           | Some rest \<Rightarrow>
               if daemon = '''' then (inc, daemon)
               else (case Atoi (TrimSpace rest) of
                       Some pid \<Rightarrow> if 0 < pid then AList.update daemon pid inc else inc
                     | None \<Rightarrow> inc, '''')))"

definition parseFRRModules :: "string \<Rightarrow> incarnation result" where
  "parseFRRModules out =
     (let (inc, _) = foldl moduleLine ([], '''') (Lines out)
      in if inc = [] then Inl (Err ''show modules answer names no daemon with a process ID'') else Inr inc)"

subsection \<open>The decision logic\<close>

record frr_step =
  fs_restart :: "string list"
  fs_followUp :: bool
  fs_warn :: bool
  fs_back :: bool

text \<open>
  A nil \<open>restart\<close> slice is the empty list: \<open>changedDaemons\<close> appends, so a non-nil result has an
  element. The zero time is \<open>None\<close>, other times are nanoseconds on the monotonic clock.
\<close>

record frr_watch_state =
  fw_known :: "incarnation option"
  fw_prev :: incarnation
  fw_sawFailure :: bool
  fw_failingSince :: "int option"
  fw_warned :: bool
  fw_followUpAt :: "int option"
  fw_followUpDelay :: int
  fw_outageWarnAfter :: int

definition changedDaemons :: "incarnation \<Rightarrow> incarnation \<Rightarrow> string list" where
  "changedDaemons old cur =
     sort (map fst (filter (\<lambda>(name, pid). pidOf old name \<noteq> pid) cur) @
           map fst (filter (\<lambda>(name, _). map_of cur name = None) old))"

definition primeState :: "incarnation result \<Rightarrow> frr_watch_state \<Rightarrow> frr_watch_state" where
  "primeState r s = (case r of Inl _ \<Rightarrow> s\<lparr>fw_sawFailure := True\<rparr> | Inr inc \<Rightarrow> s\<lparr>fw_known := Some inc\<rparr>)"

text \<open>The two branches of \<open>step\<close> on the outcome of the poll, then the follow-up they share.\<close>

definition failedPoll :: "int \<Rightarrow> frr_watch_state \<Rightarrow> frr_step \<times> frr_watch_state" where
  "failedPoll now s =
     (let s1 = s\<lparr>fw_prev := [], fw_sawFailure := fw_sawFailure s \<or> fw_known s = None,
                 fw_failingSince := (case fw_failingSince s of None \<Rightarrow> Some now | Some t \<Rightarrow> Some t)\<rparr>;
          since = (case fw_failingSince s1 of None \<Rightarrow> now | Some t \<Rightarrow> t);
          warn = (\<not> fw_warned s1 \<and> fw_outageWarnAfter s1 \<le> now - since)
      in (\<lparr>fs_restart = [], fs_followUp = False, fs_warn = warn, fs_back = False\<rparr>,
          s1\<lparr>fw_warned := fw_warned s1 \<or> warn\<rparr>))"

definition goodPoll :: "incarnation \<Rightarrow> int \<Rightarrow> frr_watch_state \<Rightarrow> frr_step \<times> frr_watch_state" where
  "goodPoll inc now s =
     (let settled = mapsEqual inc (fw_prev s);
          s1 = s\<lparr>fw_warned := False, fw_failingSince := None, fw_prev := inc\<rparr>;
          (restart, s2) =
            (if \<not> settled then ([], s1)
             else (case fw_known s1 of
                     None \<Rightarrow> (if fw_sawFailure s1 then changedDaemons [] inc else [], s1\<lparr>fw_known := Some inc\<rparr>)
                   | Some known \<Rightarrow>
                       if \<not> mapsEqual inc known then (changedDaemons known inc, s1\<lparr>fw_known := Some inc\<rparr>)
                       else ([], s1)));
          s3 = (if restart \<noteq> [] then s2\<lparr>fw_followUpAt := Some (now + fw_followUpDelay s2)\<rparr> else s2)
      in (\<lparr>fs_restart = restart, fs_followUp = False, fs_warn = False, fs_back = fw_warned s\<rparr>, s3))"

definition stepState :: "incarnation result \<Rightarrow> int \<Rightarrow> frr_watch_state \<Rightarrow> frr_step \<times> frr_watch_state" where
  "stepState r now s =
     (let (st, s1) = (case r of Inl _ \<Rightarrow> failedPoll now s | Inr inc \<Rightarrow> goodPoll inc now s)
      in case fw_followUpAt s1 of
           Some due \<Rightarrow> if due \<le> now then (st\<lparr>fs_followUp := True\<rparr>, s1\<lparr>fw_followUpAt := None\<rparr>) else (st, s1)
         | None \<Rightarrow> (st, s1))"

subsection \<open>The watcher\<close>

text \<open>
  One poll is the text \<open>vtysh\<close> printed, or its error, and the time. \<open>fw_triggers\<close> counts the
  calls of \<open>trigger\<close>. A poll whose context is done is not acted on and does not appear.
\<close>

definition newFRRWatchState :: frr_watch_state where
  "newFRRWatchState = \<lparr>fw_known = None, fw_prev = [], fw_sawFailure = False, fw_failingSince = None,
     fw_warned = False, fw_followUpAt = None, fw_followUpDelay = 5000000000, fw_outageWarnAfter = 30000000000\<rparr>"

definition readPoll :: "string result \<Rightarrow> incarnation result" where
  "readPoll out = (case out of Inl e \<Rightarrow> Inl e | Inr t \<Rightarrow> parseFRRModules t)"

definition primeWatch :: "string result \<Rightarrow> frr_watch_state \<Rightarrow> frr_watch_state" where
  "primeWatch out s = primeState (readPoll out) s"

definition pollOnce :: "string result \<Rightarrow> int \<Rightarrow> frr_watch_state \<times> nat \<Rightarrow> frr_step \<times> frr_watch_state \<times> nat" where
  "pollOnce out now w =
     (let (s, triggers) = w;
          (st, s1) = stepState (readPoll out) now s;
          t1 = (if fs_restart st \<noteq> [] then Suc triggers else triggers);
          t2 = (if fs_followUp st then Suc t1 else t1)
      in (st, s1, t2))"

fun runPolls :: "(string result \<times> int) list \<Rightarrow> frr_watch_state \<times> nat \<Rightarrow> frr_step list \<times> frr_watch_state \<times> nat" where
  "runPolls [] w = ([], w)"
| "runPolls ((out, now) # polls) w =
     (let (st, w1) = pollOnce out now w; (sts, w2) = runPolls polls w1 in (st # sts, w2))"

subsection \<open>Well-formed answers\<close>

definition wfInc :: "incarnation \<Rightarrow> bool" where
  "wfInc inc \<longleftrightarrow> distinct (map fst inc) \<and> list_all (\<lambda>(_, pid). 0 < pid) inc"

lemma wfInc_Nil [simp]: "wfInc []"
  by (simp add: wfInc_def)

lemma mapsEqual_iff:
  assumes "wfInc a" "wfInc b"
  shows "mapsEqual a b \<longleftrightarrow> map_of a = map_of b"
proof
  assume eq: "mapsEqual a b"
  then have sub: "set a \<subseteq> set b" by (auto simp: mapsEqual_def list_all_iff dest!: map_of_SomeD)
  have "distinct a" "distinct b" using assms by (simp_all add: wfInc_def distinct_map)
  then have "card (set a) = card (set b)" using eq by (simp add: mapsEqual_def distinct_card)
  then have "set a = set b" using sub by (intro card_subset_eq) simp_all
  then show "map_of a = map_of b"
    using assms by (intro map_of_inject_set [THEN iffD2]) (auto simp: wfInc_def)
next
  assume eq: "map_of a = map_of b"
  have "set a = set b" using eq assms by (simp add: map_of_inject_set wfInc_def)
  moreover have "distinct a" "distinct b" using assms by (simp_all add: wfInc_def distinct_map)
  ultimately have "length a = length b" by (metis distinct_card)
  then show "mapsEqual a b"
    using eq assms by (auto simp: mapsEqual_def list_all_iff wfInc_def simp flip: eq)
qed

lemma mapsEqual_Nil: "mapsEqual a [] \<longleftrightarrow> a = []"
  by (auto simp: mapsEqual_def)

lemma mapsEqual_Nil': "mapsEqual [] a \<longleftrightarrow> a = []"
  by (auto simp: mapsEqual_def)

lemma wfInc_pidOf: "wfInc inc \<Longrightarrow> pidOf inc n = 0 \<longleftrightarrow> map_of inc n = None"
  by (auto simp: pidOf_def wfInc_def list_all_iff split: option.splits dest!: map_of_SomeD)

lemma changedDaemons_set:
  assumes "wfInc old" "wfInc cur"
  shows "set (changedDaemons old cur) = {n. map_of old n \<noteq> map_of cur n}"
proof -
  have pid: "(n, pid) \<in> set cur \<longleftrightarrow> map_of cur n = Some pid" for n pid
    using assms(2) by (simp add: wfInc_def)
  have pos: "map_of cur n = Some pid \<Longrightarrow> 0 < pid" for n pid
    using assms(2) by (auto simp: wfInc_def list_all_iff dest!: map_of_SomeD)
  have "n \<in> set (changedDaemons old cur) \<longleftrightarrow>
      (\<exists>pid. (n, pid) \<in> set cur \<and> pidOf old n \<noteq> pid) \<or> (map_of cur n = None \<and> map_of old n \<noteq> None)" for n
    by (force simp: changedDaemons_def map_of_eq_None_iff)
  then have "n \<in> set (changedDaemons old cur) \<longleftrightarrow> map_of old n \<noteq> map_of cur n" for n
    using pos [of n] by (cases "map_of cur n"; cases "map_of old n") (auto simp: pid pidOf_def)
  then show ?thesis by blast
qed

lemma changedDaemons_Nil_iff:
  "wfInc old \<Longrightarrow> wfInc cur \<Longrightarrow> changedDaemons old cur = [] \<longleftrightarrow> mapsEqual cur old"
  using changedDaemons_set [of old cur] by (auto simp: mapsEqual_iff fun_eq_iff)

lemma AList_update_all:
  "list_all (\<lambda>(_, v). P v) m \<Longrightarrow> P v \<Longrightarrow> list_all (\<lambda>(_, v). P v) (AList.update k v m)"
  by (induction m) auto

lemma moduleLine_wf: "wfInc (fst st) \<Longrightarrow> wfInc (fst (moduleLine st l))"
  by (auto simp: moduleLine_def Let_def wfInc_def AList_update_all split: prod.splits option.splits)

lemma parseFRRModules_wf: "parseFRRModules out = Inr inc \<Longrightarrow> wfInc inc \<and> inc \<noteq> []"
proof -
  assume *: "parseFRRModules out = Inr inc"
  have "wfInc (fst (foldl moduleLine ([], '''') (Lines out)))"
    by (rule foldl_invariant [where P = "\<lambda>st. wfInc (fst st)"]) (simp_all add: moduleLine_wf)
  with * show ?thesis by (auto simp: parseFRRModules_def split: prod.splits if_splits)
qed

lemma readPoll_wf: "readPoll out = Inr inc \<Longrightarrow> wfInc inc \<and> inc \<noteq> []"
  by (auto simp: readPoll_def parseFRRModules_wf split: sum.splits)

subsection \<open>A restart is reported once it has settled\<close>

text \<open>The settled answers of a sequence of polls: those that equal the poll just before them.\<close>

fun settledAnswers :: "incarnation \<Rightarrow> incarnation result list \<Rightarrow> incarnation list" where
  "settledAnswers prev [] = []"
| "settledAnswers prev (Inl e # rs) = settledAnswers [] rs"
| "settledAnswers prev (Inr inc # rs) = (if mapsEqual inc prev then [inc] else []) @ settledAnswers inc rs"

definition firstRestart :: "frr_step list \<Rightarrow> string list option" where
  "firstRestart sts = map_option fs_restart (find (\<lambda>st. fs_restart st \<noteq> []) sts)"

lemma firstRestart_Cons: "firstRestart (st # sts) = (if fs_restart st \<noteq> [] then Some (fs_restart st) else firstRestart sts)"
  by (simp add: firstRestart_def)

text \<open>What one poll does to the parts of the state that decide about a restart.\<close>

lemma stepState_failed:
  "fs_restart (fst (stepState (Inl e) now s)) = []"
  "fw_prev (snd (stepState (Inl e) now s)) = []"
  "fw_known (snd (stepState (Inl e) now s)) = fw_known s"
  "fw_known s = None \<Longrightarrow> fw_sawFailure (snd (stepState (Inl e) now s))"
  by (auto simp: stepState_def failedPoll_def Let_def split: option.splits)

lemma stepState_good:
  "fw_prev (snd (stepState (Inr inc) now s)) = inc"
  "fw_sawFailure (snd (stepState (Inr inc) now s)) = fw_sawFailure s"
  "fs_restart (fst (stepState (Inr inc) now s)) =
     (if \<not> mapsEqual inc (fw_prev s) then []
      else case fw_known s of
             None \<Rightarrow> if fw_sawFailure s then changedDaemons [] inc else []
           | Some known \<Rightarrow> if mapsEqual inc known then [] else changedDaemons known inc)"
  "fw_known (snd (stepState (Inr inc) now s)) =
     (if \<not> mapsEqual inc (fw_prev s) then fw_known s
      else case fw_known s of None \<Rightarrow> Some inc
           | Some known \<Rightarrow> if mapsEqual inc known then Some known else Some inc)"
  by (auto simp: stepState_def goodPoll_def Let_def split: option.splits prod.splits if_splits)

lemma runPolls_Cons:
  "fst (runPolls ((out, now) # polls) (s, n)) =
     fst (stepState (readPoll out) now s) # fst (runPolls polls (snd (pollOnce out now (s, n))))"
  "fst (snd (pollOnce out now (s, n))) = snd (stepState (readPoll out) now s)"
  by (simp_all add: pollOnce_def split_beta Let_def)

declare runPolls.simps(2) [simp del]

lemma known_run:
  "fw_known s = Some K \<Longrightarrow> wfInc K \<Longrightarrow>
   firstRestart (fst (runPolls polls (s, n))) =
     map_option (changedDaemons K) (find (\<lambda>b. \<not> mapsEqual b K) (settledAnswers (fw_prev s) (map (\<lambda>p. readPoll (fst p)) polls)))"
proof (induction polls arbitrary: s n)
  case Nil
  then show ?case by (simp add: firstRestart_def)
next
  case (Cons p polls)
  obtain out now where p: "p = (out, now)" by fastforce
  obtain s' n' where s': "snd (pollOnce out now (s, n)) = (s', n')" by fastforce
  have s'_eq: "s' = snd (stepState (readPoll out) now s)" using runPolls_Cons(2) [of out now s n] s' by simp
  note run = runPolls_Cons(1) [of out now polls s n, unfolded s']
  show ?case
  proof (cases "readPoll out")
    case (Inl e)
    have "fw_known s' = Some K" "fw_prev s' = []" using Inl Cons.prems by (simp_all add: s'_eq stepState_failed)
    from Cons.IH [OF this(1) Cons.prems(2), of n'] this(2) show ?thesis
      using Inl by (simp add: p run firstRestart_Cons stepState_failed)
  next
    case (Inr inc)
    then have wf: "wfInc inc" "inc \<noteq> []" using readPoll_wf by auto
    show ?thesis
    proof (cases "mapsEqual inc (fw_prev s) \<and> \<not> mapsEqual inc K")
      case True
      then have "changedDaemons K inc \<noteq> []" using changedDaemons_Nil_iff [OF Cons.prems(2) wf(1)] by simp
      with True Inr Cons.prems show ?thesis by (simp add: p run firstRestart_Cons stepState_good)
    next
      case False
      have "fw_known s' = Some K" "fw_prev s' = inc"
        using Inr False Cons.prems by (auto simp: s'_eq stepState_good)
      from Cons.IH [OF this(1) Cons.prems(2), of n'] this(2) show ?thesis
        using Inr False Cons.prems by (auto simp: p run firstRestart_Cons stepState_good)
    qed
  qed
qed

lemma unknown_run:
  "fw_known s = None \<Longrightarrow> fw_sawFailure s \<Longrightarrow>
   firstRestart (fst (runPolls polls (s, n))) =
     map_option (changedDaemons []) (find (\<lambda>b. True) (settledAnswers (fw_prev s) (map (\<lambda>p. readPoll (fst p)) polls)))"
proof (induction polls arbitrary: s n)
  case Nil
  then show ?case by (simp add: firstRestart_def)
next
  case (Cons p polls)
  obtain out now where p: "p = (out, now)" by fastforce
  obtain s' n' where s': "snd (pollOnce out now (s, n)) = (s', n')" by fastforce
  have s'_eq: "s' = snd (stepState (readPoll out) now s)" using runPolls_Cons(2) [of out now s n] s' by simp
  note run = runPolls_Cons(1) [of out now polls s n, unfolded s']
  show ?case
  proof (cases "readPoll out")
    case (Inl e)
    have "fw_known s' = None" "fw_prev s' = []" "fw_sawFailure s'"
      using Inl Cons.prems by (simp_all add: s'_eq stepState_failed)
    from Cons.IH [OF this(1,3), of n'] this(2) show ?thesis
      using Inl by (simp add: p run firstRestart_Cons stepState_failed)
  next
    case (Inr inc)
    then have wf: "wfInc inc" "inc \<noteq> []" using readPoll_wf by auto
    show ?thesis
    proof (cases "mapsEqual inc (fw_prev s)")
      case True
      have "changedDaemons [] inc \<noteq> []" using changedDaemons_Nil_iff [OF wfInc_Nil wf(1)] wf(2) by (simp add: mapsEqual_Nil)
      with True Inr Cons.prems show ?thesis by (simp add: p run firstRestart_Cons stepState_good)
    next
      case False
      have "fw_known s' = None" "fw_prev s' = inc" "fw_sawFailure s'"
        using Inr False Cons.prems by (auto simp: s'_eq stepState_good)
      from Cons.IH [OF this(1,3), of n'] this(2) show ?thesis
        using Inr False Cons.prems by (auto simp: p run firstRestart_Cons stepState_good)
    qed
  qed
qed

text \<open>
  C30: no restart is missed and none is invented. The first restart a primed watcher reports is
  the first settled answer that differs from the incarnation the startup reconcile ran against,
  with exactly the daemons whose process ID changed, appeared or disappeared; an FRR that was not
  up at the start is reported at its first settled answer, with all its daemons. An answer that
  has not settled, and a failed poll, report nothing.
\<close>

theorem restart_is_the_first_settled_change:
  "(let sts = fst (runPolls polls (primeWatch out newFRRWatchState, 0));
        answers = settledAnswers [] (map (\<lambda>p. readPoll (fst p)) polls)
    in case readPoll out of
         Inr K \<Rightarrow> firstRestart sts = map_option (changedDaemons K) (find (\<lambda>b. \<not> mapsEqual b K) answers)
       | Inl _ \<Rightarrow> firstRestart sts = map_option (changedDaemons []) (find (\<lambda>b. True) answers)) \<and>
   {(old, cur). wfInc old \<and> wfInc cur} \<subseteq> {(old, cur). set (changedDaemons old cur) = {n. map_of old n \<noteq> map_of cur n}}"
proof -
  have "(case readPoll out of
         Inr K \<Rightarrow> firstRestart (fst (runPolls polls (primeWatch out newFRRWatchState, 0))) =
            map_option (changedDaemons K) (find (\<lambda>b. \<not> mapsEqual b K) (settledAnswers [] (map (\<lambda>p. readPoll (fst p)) polls)))
       | Inl _ \<Rightarrow> firstRestart (fst (runPolls polls (primeWatch out newFRRWatchState, 0))) =
            map_option (changedDaemons []) (find (\<lambda>b. True) (settledAnswers [] (map (\<lambda>p. readPoll (fst p)) polls))))"
  proof (cases "readPoll out")
    case (Inl e)
    then show ?thesis
      using unknown_run [of "primeWatch out newFRRWatchState" polls 0]
      by (simp add: primeWatch_def primeState_def newFRRWatchState_def)
  next
    case (Inr K)
    then show ?thesis
      using known_run [of "primeWatch out newFRRWatchState" K polls 0] readPoll_wf [OF Inr]
      by (simp add: primeWatch_def primeState_def newFRRWatchState_def)
  qed
  then show ?thesis using changedDaemons_set by (auto simp: Let_def)
qed

subsection \<open>The follow-up and the outage warning\<close>

lemma stepState_followUp:
  "fw_followUpDelay (snd (stepState r now s)) = fw_followUpDelay s"
  "fs_restart (fst (stepState r now s)) \<noteq> [] \<Longrightarrow> 0 < fw_followUpDelay s \<Longrightarrow>
     \<not> fs_followUp (fst (stepState r now s)) \<and>
     fw_followUpAt (snd (stepState r now s)) = Some (now + fw_followUpDelay s)"
  "fs_restart (fst (stepState r now s)) = [] \<Longrightarrow> fw_followUpAt s = Some due \<Longrightarrow>
     fs_followUp (fst (stepState r now s)) = (due \<le> now) \<and>
     fw_followUpAt (snd (stepState r now s)) = (if due \<le> now then None else Some due)"
  by (auto simp: stepState_def goodPoll_def failedPoll_def Let_def
      split: sum.splits option.splits prod.splits if_splits)

lemma pollOnce_parts:
  "fst (pollOnce out now w) = fst (stepState (readPoll out) now (fst w))"
  "fst (snd (pollOnce out now w)) = snd (stepState (readPoll out) now (fst w))"
  "snd (snd (pollOnce out now w)) = snd w +
     (if fs_restart (fst (pollOnce out now w)) \<noteq> [] then 1 else 0) +
     (if fs_followUp (fst (pollOnce out now w)) then 1 else 0)"
  by (simp_all add: pollOnce_def split_beta Let_def)

lemma runPolls_cons:
  "runPolls (p # polls) w =
     (let (sts, w2) = runPolls polls (snd (pollOnce (fst p) (snd p) w))
      in (fst (pollOnce (fst p) (snd p) w) # sts, w2))"
  by (cases p) (simp add: runPolls.simps(2) split_beta Let_def)

lemma waiting_run:
  assumes "fw_followUpAt (fst w) = Some due" and "list_all (\<lambda>p. snd p < due) polls"
    and "list_all (\<lambda>st. fs_restart st = []) (fst (runPolls polls w))"
  shows "list_all (\<lambda>st. \<not> fs_followUp st) (fst (runPolls polls w)) \<and>
    snd (snd (runPolls polls w)) = snd w \<and> fw_followUpAt (fst (snd (runPolls polls w))) = Some due"
  using assms
proof (induction polls arbitrary: w)
  case Nil
  then show ?case by simp
next
  case (Cons p polls)
  let ?w1 = "snd (pollOnce (fst p) (snd p) w)"
  have r: "fs_restart (fst (pollOnce (fst p) (snd p) w)) = []"
    and rest: "list_all (\<lambda>st. fs_restart st = []) (fst (runPolls polls ?w1))"
    using Cons.prems(3) by (simp_all add: runPolls_cons split_beta Let_def)
  have "\<not> due \<le> snd p" using Cons.prems(2) by simp
  with stepState_followUp(3) [of "readPoll (fst p)" "snd p" "fst w" due] r Cons.prems(1)
  have f: "\<not> fs_followUp (fst (pollOnce (fst p) (snd p) w))" "fw_followUpAt (fst ?w1) = Some due"
    by (simp_all add: pollOnce_parts)
  from Cons.IH [OF f(2) _ rest] Cons.prems(2) f(1) r show ?case
    by (simp add: runPolls_cons split_beta Let_def pollOnce_parts(3))
qed


lemma outage_step:
  "(if fs_warn (fst (stepState r now s)) then 1 else 0) + (if fw_warned s then 1 else 0) =
   (if fs_back (fst (stepState r now s)) then 1 else 0) + (if fw_warned (snd (stepState r now s)) then 1 else (0::nat))"
  by (auto simp: stepState_def goodPoll_def failedPoll_def Let_def
      split: sum.splits option.splits prod.splits if_splits)

text \<open>
  One outage is logged once. Over any run, the warnings that FRR cannot be read and the
  notices that it can be read again alternate, beginning with a warning: their numbers differ by
  one exactly while an outage that was warned about lasts.
\<close>

theorem outage_is_logged_once:
  "(let (sts, w) = runPolls polls (primeWatch out newFRRWatchState, n)
    in length (filter fs_warn sts) = length (filter fs_back sts) + (if fw_warned (fst w) then 1 else 0))"
proof -
  have "length (filter fs_warn (fst (runPolls polls w))) + (if fw_warned (fst w) then 1 else 0) =
      length (filter fs_back (fst (runPolls polls w))) + (if fw_warned (fst (snd (runPolls polls w))) then 1 else 0)" for w
  proof (induction polls arbitrary: w)
    case Nil
    then show ?case by simp
  next
    case (Cons p polls)
    from Cons [of "snd (pollOnce (fst p) (snd p) w)"] outage_step [of "readPoll (fst p)" "snd p" "fst w"]
    show ?case by (auto simp: runPolls_cons split_beta Let_def pollOnce_parts split: if_splits)
  qed
  from this [of "(primeWatch out newFRRWatchState, n)"] show ?thesis
    by (auto simp: primeWatch_def primeState_def newFRRWatchState_def split_beta Let_def split: sum.splits)
qed

subsection \<open>Printing and reading the module report\<close>

text \<open>
  The report \<open>vtysh\<close> prints: per daemon a header, the module table, the \<open>pid\<close> line and possibly
  more lines. A noise line is any line that is neither a header nor a \<open>pid\<close> line.
\<close>

record module_section =
  ms_daemon :: string
  ms_before :: "string list"
  ms_pid :: nat
  ms_after :: "string list"

definition textLine :: "string \<Rightarrow> string" where
  "textLine l = l @ [CHR 0x0A]"

definition renderSection :: "module_section \<Rightarrow> string" where
  "renderSection m =
     textLine (''Module information for '' @ ms_daemon m @ '':'') @ concat (map textLine (ms_before m)) @
     textLine (''  pid: '' @ show_nat (ms_pid m)) @ concat (map textLine (ms_after m))"

definition noiseLine :: "string \<Rightarrow> bool" where
  "noiseLine l \<longleftrightarrow> CHR 0x0A \<notin> set l \<and> \<not> HasPrefix (TrimSpace l) ''Module information for '' \<and>
     \<not> HasPrefix (TrimSpace l) ''pid:''"

definition wfSection :: "module_section \<Rightarrow> bool" where
  "wfSection m \<longleftrightarrow> ms_daemon m \<noteq> [] \<and> CHR 0x0A \<notin> set (ms_daemon m) \<and> 0 < ms_pid m \<and> ms_pid m < 2 ^ 63 \<and>
     list_all noiseLine (ms_before m) \<and> list_all noiseLine (ms_after m)"

lemma digit_not_space: "is_digit c \<Longrightarrow> \<not> IsSpace c"
  by (auto simp: is_digit_def IsSpace_def)

lemma TrimSpace_number: "list_all IsSpace a \<Longrightarrow> list_all IsSpace b \<Longrightarrow> TrimSpace (a @ show_nat n @ b) = show_nat n"
  using show_nat_digits [of n] digit_not_space
  by (intro TrimSpace_solid) (auto simp: list_all_iff)

lemma Atoi_show_nat: "n < 2 ^ 63 \<Longrightarrow> Atoi (show_nat n) = Some (int n)"
proof -
  assume n: "n < 2 ^ 63"
  have "hd (show_nat n) \<noteq> CHR ''-'' \<and> hd (show_nat n) \<noteq> CHR ''+''"
    using show_nat_digits [of n] show_nat_nonempty [of n] by (cases "show_nat n") (auto simp: is_digit_def)
  then show ?thesis using n parse_show_nat [of n]
    by (cases "show_nat n") (auto simp: Atoi_def HasPrefix_def)
qed

lemma TrimSpace_newline: "TrimSpace (l @ [CHR 0x0A]) = TrimSpace l"
proof (cases "list_all IsSpace l")
  case True
  then have "dropWhile IsSpace (l @ [CHR 0x0A]) = []" "dropWhile IsSpace l = []"
    by (simp_all only: dropWhile_eq_Nil_conv list_all_iff) (simp add: IsSpace_def)
  then show ?thesis by (simp only: TrimSpace_def)
next
  case False
  then have "dropWhile IsSpace (l @ [CHR 0x0A]) = dropWhile IsSpace l @ [CHR 0x0A]"
    by (auto simp: dropWhile_append list_all_iff)
  then show ?thesis by (simp add: TrimSpace_def IsSpace_def)
qed

lemma moduleLine_noise: "noiseLine l \<Longrightarrow> moduleLine st (textLine l) = st"
  by (simp add: moduleLine_def textLine_def TrimSpace_newline noiseLine_def CutPrefix_def split_beta Let_def)

lemma moduleLine_header:
  "ms_daemon m \<noteq> [] \<Longrightarrow> moduleLine (inc, d) (textLine (''Module information for '' @ ms_daemon m @ '':'')) = (inc, ms_daemon m)"
proof -
  let ?h = "''Module information for '' @ ms_daemon m @ '':''"
  have "TrimSpace ([] @ ?h @ [CHR 0x0A]) = ?h"
    by (rule TrimSpace_solid) (simp_all add: IsSpace_def)
  then have t: "TrimSpace (textLine ?h) = ''Module information for '' @ (ms_daemon m @ '':'')"
    by (simp add: textLine_def)
  show ?thesis
    unfolding moduleLine_def t by (simp only: Let_def case_prod_conv CutPrefix_def HasPrefix_append append_eq_conv_conj)
       (simp add: HasPrefix_def)
qed

lemma moduleLine_pid:
  "d \<noteq> [] \<Longrightarrow> 0 < n \<Longrightarrow> n < 2 ^ 63 \<Longrightarrow>
   moduleLine (inc, d) (textLine (''  pid: '' @ show_nat n)) = (AList.update d (int n) inc, '''')"
proof -
  assume a: "d \<noteq> []" "0 < n" "n < 2 ^ 63"
  have last: "\<not> IsSpace (last (show_nat n))"
    using show_nat_digits [of n] digit_not_space last_in_set [OF show_nat_nonempty] by (auto simp: list_all_iff)
  have "TrimSpace (''  '' @ (''pid: '' @ show_nat n) @ [CHR 0x0A]) = ''pid: '' @ show_nat n"
    by (rule TrimSpace_solid) (use last in \<open>simp_all add: IsSpace_def\<close>)
  then have t: "TrimSpace (textLine (''  pid: '' @ show_nat n)) = ''pid: '' @ show_nat n"
    by (simp add: textLine_def)
  have "TrimSpace ('' '' @ show_nat n @ []) = show_nat n"
    by (rule TrimSpace_number) (simp_all add: IsSpace_def)
  then show ?thesis
    unfolding moduleLine_def t using a Atoi_show_nat [OF a(3)]
    by (simp add: CutPrefix_def HasPrefix_def Let_def)
qed

lemma Lines_textLines:
  "list_all (\<lambda>l. CHR 0x0A \<notin> set l) ls \<Longrightarrow> Lines (concat (map textLine ls) @ t) = map textLine ls @ Lines t"
  by (induction ls) (simp_all add: textLine_def Lines_append)

lemma foldl_noise: "list_all noiseLine ls \<Longrightarrow> foldl moduleLine st (map textLine ls) = st"
  by (induction ls) (simp_all add: moduleLine_noise)

lemma renderSection_lines:
  assumes "wfSection m"
  shows "foldl moduleLine (inc, d) (Lines (renderSection m @ t)) =
    foldl moduleLine (AList.update (ms_daemon m) (int (ms_pid m)) inc, '''') (Lines t)"
proof -
  let ?ls = "[''Module information for '' @ ms_daemon m @ '':''] @ ms_before m @
      [''  pid: '' @ show_nat (ms_pid m)] @ ms_after m"
  have r: "renderSection m = concat (map textLine ?ls)" by (simp add: renderSection_def)
  have nl: "CHR 0x0A \<notin> set (show_nat (ms_pid m))" by (rule show_nat_no_char) (simp add: is_digit_def)
  have "list_all (\<lambda>l. CHR 0x0A \<notin> set l) ?ls"
    using assms nl by (auto simp: wfSection_def list_all_iff noiseLine_def)
  then have "Lines (renderSection m @ t) = map textLine ?ls @ Lines t" unfolding r by (rule Lines_textLines)
  then show ?thesis
    using assms unfolding wfSection_def
    by (elim conjE) (simp only: map_append foldl_append list.map foldl.simps moduleLine_header moduleLine_pid foldl_noise
        simp_thms if_True if_False not_False_eq_True)
qed

lemma update_new_key: "k \<notin> fst ` set m \<Longrightarrow> AList.update k v m = m @ [(k, v)]"
  by (induction m) auto

lemma foldl_sections:
  "list_all wfSection ms \<Longrightarrow> distinct (map ms_daemon ms) \<Longrightarrow> ms_daemon ` set ms \<inter> fst ` set inc = {} \<Longrightarrow>
   fst (foldl moduleLine (inc, d) (Lines (concat (map renderSection ms)))) = inc @ map (\<lambda>m. (ms_daemon m, int (ms_pid m))) ms"
proof (induction ms arbitrary: inc d)
  case Nil
  then show ?case by simp
next
  case (Cons m ms)
  then show ?case by (simp add: renderSection_lines update_new_key)
qed

text \<open>
  C32: reading back a report yields the daemons it was printed for. For any non-empty report of
  distinct daemons with positive process IDs, whatever lines surround the headers and the \<open>pid\<close>
  lines, the parser returns exactly the daemons with their process IDs, in order.
\<close>

theorem module_report_roundtrip:
  assumes "ms \<noteq> []" and "list_all wfSection ms" and "distinct (map ms_daemon ms)"
  shows "parseFRRModules (concat (map renderSection ms)) = Inr (map (\<lambda>m. (ms_daemon m, int (ms_pid m))) ms)"
  using foldl_sections [OF assms(2,3), of "[]" "''''"] assms(1)
  by (auto simp: parseFRRModules_def split: prod.splits)

subsection \<open>A restart, step by step\<close>

definition demo_module :: "string \<Rightarrow> nat \<Rightarrow> module_section" where
  "demo_module d n = \<lparr>ms_daemon = d, ms_before = [''libfrr'', ''''], ms_pid = n, ms_after = []\<rparr>"

definition demo_report :: "nat \<Rightarrow> nat \<Rightarrow> string" where
  "demo_report z b = concat (map renderSection [demo_module ''zebra'' z, demo_module ''bgpd'' b])"

lemma demo_sections: "0 < z \<Longrightarrow> z < 2 ^ 63 \<Longrightarrow> 0 < b \<Longrightarrow> b < 2 ^ 63 \<Longrightarrow>
   list_all wfSection [demo_module ''zebra'' z, demo_module ''bgpd'' b]"
  by (simp add: demo_module_def wfSection_def noiseLine_def TrimSpace_def IsSpace_def HasPrefix_def)

lemma module_report_roundtrip_witness:
  "parseFRRModules (demo_report 41 97) = Inr [(''zebra'', 41), (''bgpd'', 97)]"
  unfolding demo_report_def
  by (subst module_report_roundtrip) (use demo_sections [of 41 97] in \<open>simp_all add: demo_module_def\<close>)

text \<open>FRR restarts \<open>bgpd\<close> after the startup poll; the second equal answer reports it.\<close>

definition demo_primed :: "frr_watch_state \<times> nat" where
  "demo_primed = (newFRRWatchState\<lparr>fw_known := Some [(''zebra'', 41)], fw_prev := [(''zebra'', 53)]\<rparr>, 0)"

definition demo_settled :: string where
  "demo_settled = concat (map renderSection [demo_module ''zebra'' 53])"

lemma demo_poll: "readPoll (Inr demo_settled) = Inr [(''zebra'', 53)]"
proof -
  have "readPoll (Inr demo_settled) = Inr (map (\<lambda>m. (ms_daemon m, int (ms_pid m))) [demo_module ''zebra'' 53])"
    unfolding readPoll_def demo_settled_def sum.case
    using foldl_sections [of "[demo_module ''zebra'' 53]" "[]" "''''"] demo_sections [of 53 1]
    by (auto simp: parseFRRModules_def split: prod.splits)
  then show ?thesis by (simp add: demo_module_def)
qed

lemma demo_restart:
  "fst (pollOnce (Inr demo_settled) 7 demo_primed) =
     \<lparr>fs_restart = [''zebra''], fs_followUp = False, fs_warn = False, fs_back = False\<rparr>"
  "snd (pollOnce (Inr demo_settled) 7 demo_primed) =
     (newFRRWatchState\<lparr>fw_known := Some [(''zebra'', 53)], fw_prev := [(''zebra'', 53)], fw_followUpAt := Some 5000000007\<rparr>, 1)"
  by (simp_all add: pollOnce_def demo_primed_def demo_poll stepState_def goodPoll_def mapsEqual_def
      newFRRWatchState_def changedDaemons_def pidOf_def Let_def)


end
