(* ===== verification/DriftWatch.thy ===== *)
theory DriftWatch
  imports Prelude
begin

section \<open>The drift watcher's loop\<close>

text \<open>
  \<open>drift_watch.go\<close>: the loop the route watch and the flow watch run. It subscribes to a source of
  events, turns the events that are drift into a debounced and rate-limited reconcile trigger,
  and subscribes again with a backoff. \<open>run\<close> and \<open>consume\<close> are one step relation: every way out
  of a \<open>select\<close>, every subscribe outcome, the clock, the cancellation of the context and the
  publication of a new ownership are steps, so the invariants hold for every interleaving.
  Times and durations are nanoseconds; the zero time is \<open>None\<close>.
\<close>

subsection \<open>The backoff\<close>

definition nextBackoff :: "int \<Rightarrow> int \<Rightarrow> int \<Rightarrow> int \<Rightarrow> int" where
  "nextBackoff prev lived lo hi = (if prev = 0 \<or> hi \<le> lived then lo else min (2 * prev) hi)"

text \<open>The wait after \<open>n\<close> subscribes in a row that failed.\<close>

fun backoffAfter :: "int \<Rightarrow> int \<Rightarrow> nat \<Rightarrow> int" where
  "backoffAfter lo hi 0 = 0"
| "backoffAfter lo hi (Suc n) = nextBackoff (backoffAfter lo hi n) 0 lo hi"

lemma nextBackoff_bounds:
  assumes "0 < lo" "lo \<le> hi" "prev = 0 \<or> lo \<le> prev"
  shows "lo \<le> nextBackoff prev lived lo hi \<and> nextBackoff prev lived lo hi \<le> hi"
  using assms by (auto simp: nextBackoff_def)

text \<open>
  A subscribe that keeps failing waits twice as long each time, from the minimum up to the
  maximum and never beyond it, and a subscription that held for the maximum starts over. The
  wait before retry \<open>n + 1\<close> is \<open>min (2 ^ n * lo) hi\<close>.
\<close>

theorem backoff_doubles_to_the_maximum:
  assumes "0 < lo" and "lo \<le> hi"
  shows "backoffAfter lo hi (Suc n) = min (2 ^ n * lo) hi \<and>
     (\<forall>prev lived. nextBackoff prev (hi + lived * lived) lo hi = lo)"
proof
  show "backoffAfter lo hi (Suc n) = min (2 ^ n * lo) hi"
  proof (induction n)
    case 0
    then show ?case using assms by (simp add: nextBackoff_def)
  next
    case (Suc n)
    have "0 < backoffAfter lo hi (Suc n)" unfolding Suc using assms by simp
    then have "backoffAfter lo hi (Suc (Suc n)) = min (2 * backoffAfter lo hi (Suc n)) hi"
      using assms by (subst backoffAfter.simps(2)) (simp add: nextBackoff_def del: backoffAfter.simps)
    then have "backoffAfter lo hi (Suc (Suc n)) = min (2 * min (2 ^ n * lo) hi) hi" by (simp only: Suc)
    then show ?case using assms by (simp add: min_def)
  qed
  show "\<forall>prev lived. nextBackoff prev (hi + lived * lived) lo hi = lo"
    by (simp add: nextBackoff_def)
qed

lemma backoff_doubles_to_the_maximum_witness:
  "backoffAfter 1000000000 30000000000 6 = 30000000000"
  using backoff_doubles_to_the_maximum [of 1000000000 30000000000 5] by (simp add: eval_nat_numeral)

subsection \<open>The state of a watcher\<close>

record drift_config =
  dc_debounce :: int
  dc_minInterval :: int
  dc_backoffMin :: int
  dc_backoffMax :: int

text \<open>
  Where the goroutine is: about to subscribe, reading the events of a subscription that began at
  a time, waiting on the retry timer, or returned.
\<close>

datatype phase = Subscribing | Consuming int | Retrying int | Stopped

text \<open>Why \<open>trigger\<close> was called: the timer, a subscription that closed, one that came back.\<close>

datatype reason = ByTimer | ByClose | ByReturn

text \<open>
  \<open>dw_timer\<close> is the deadline of the pending trigger. The last three fields are ghosts: the calls
  of \<open>trigger\<close> with their times, newest first, when the oldest drift event not yet triggered for
  arrived, and the outage warnings logged.
\<close>

record 'o drift_state =
  dw_now :: int
  dw_ctxDone :: bool
  dw_phase :: phase
  dw_backoff :: int
  dw_outage :: bool
  dw_lastTrigger :: "int option"
  dw_timer :: "int option"
  dw_counts :: "(string \<times> nat) list"
  dw_owned :: 'o
  dw_triggers :: "(int \<times> reason) list"
  dw_firstDrift :: "int option"
  dw_warnings :: nat

definition startWatch :: "'o \<Rightarrow> 'o drift_state" where
  "startWatch owned = \<lparr>dw_now = 0, dw_ctxDone = False, dw_phase = Subscribing, dw_backoff = 0, dw_outage = False,
     dw_lastTrigger = None, dw_timer = None, dw_counts = [], dw_owned = owned,
     dw_triggers = [], dw_firstDrift = None, dw_warnings = 0\<rparr>"

subsection \<open>The operations\<close>

definition callTrigger :: "reason \<Rightarrow> 'o drift_state \<Rightarrow> 'o drift_state" where
  "callTrigger why w = w\<lparr>dw_lastTrigger := Some (dw_now w), dw_triggers := (dw_now w, why) # dw_triggers w,
     dw_firstDrift := None\<rparr>"

text \<open>\<open>fireTrigger\<close>: nothing is triggered once the context is done.\<close>

definition fireTrigger :: "reason \<Rightarrow> 'o drift_state \<Rightarrow> 'o drift_state" where
  "fireTrigger why w =
     (let w1 = w\<lparr>dw_timer := None\<rparr>
      in if dw_ctxDone w1 then w1 else callTrigger why (w1\<lparr>dw_counts := []\<rparr>))"

definition countOf :: "(string \<times> nat) list \<Rightarrow> string \<Rightarrow> nat" where
  "countOf counts kind = (case map_of counts kind of None \<Rightarrow> 0 | Some n \<Rightarrow> n)"

text \<open>A \<open>time.Since\<close> of the zero time is the longest duration there is.\<close>

definition timerDelay :: "drift_config \<Rightarrow> 'o drift_state \<Rightarrow> int" where
  "timerDelay cfg w =
     (case dw_lastTrigger w of
        None \<Rightarrow> dc_debounce cfg
      | Some t \<Rightarrow> max (dc_debounce cfg) (dc_minInterval cfg - (dw_now w - t)))"

definition onEvent :: "drift_config \<Rightarrow> ('o \<Rightarrow> 'e \<Rightarrow> string \<times> bool) \<Rightarrow> 'e \<Rightarrow> 'o drift_state \<Rightarrow> 'o drift_state" where
  "onEvent cfg classify ev w =
     (let (kind, drift) = classify (dw_owned w) ev in
      if \<not> drift then w
      else (let w1 = w\<lparr>dw_counts := AList.update kind (Suc (countOf (dw_counts w) kind)) (dw_counts w),
                       dw_firstDrift := (case dw_firstDrift w of None \<Rightarrow> Some (dw_now w) | Some t \<Rightarrow> Some t)\<rparr>
            in if dw_timer w1 = None then w1\<lparr>dw_timer := Some (dw_now w1 + timerDelay cfg w1)\<rparr> else w1))"

text \<open>
  The way out of \<open>consume\<close> on a closed channel; the timer that \<open>consume\<close> owned is gone with it.
  On a done context it just returns.
\<close>

definition consumeClosed :: "'o drift_state \<Rightarrow> 'o drift_state" where
  "consumeClosed w = (if dw_timer w \<noteq> None then fireTrigger ByClose w else w)"

definition consumeDone :: "'o drift_state \<Rightarrow> 'o drift_state" where
  "consumeDone w = w\<lparr>dw_timer := None\<rparr>"

text \<open>The end of one round of \<open>run\<close>, with how long its subscription held.\<close>

definition endRound :: "drift_config \<Rightarrow> int \<Rightarrow> 'o drift_state \<Rightarrow> 'o drift_state" where
  "endRound cfg lived w =
     (if dw_ctxDone w then w\<lparr>dw_phase := Stopped, dw_counts := []\<rparr>
      else (let w1 = (if \<not> dw_outage w then w\<lparr>dw_outage := True, dw_warnings := Suc (dw_warnings w)\<rparr> else w);
                b = nextBackoff (dw_backoff w1) lived (dc_backoffMin cfg) (dc_backoffMax cfg)
            in w1\<lparr>dw_backoff := b, dw_counts := [], dw_phase := Retrying (dw_now w1 + b)\<rparr>))"

definition subscribed :: "'o drift_state \<Rightarrow> 'o drift_state" where
  "subscribed w =
     (let w1 = (if dw_outage w then callTrigger ByReturn (w\<lparr>dw_outage := False\<rparr>) else w)
      in w1\<lparr>dw_counts := [], dw_timer := None, dw_phase := Consuming (dw_now w1)\<rparr>)"

subsection \<open>The step relation\<close>

inductive drift_step ::
  "drift_config \<Rightarrow> ('o \<Rightarrow> 'e \<Rightarrow> string \<times> bool) \<Rightarrow> 'o drift_state \<Rightarrow> 'o drift_state \<Rightarrow> bool" for cfg classify where
  tick: "0 \<le> d \<Longrightarrow> drift_step cfg classify w (w\<lparr>dw_now := dw_now w + d\<rparr>)"
| cancel: "drift_step cfg classify w (w\<lparr>dw_ctxDone := True\<rparr>)"
| setOwned: "drift_step cfg classify w (w\<lparr>dw_owned := owned\<rparr>)"
| loop_exit: "dw_phase w = Subscribing \<Longrightarrow> dw_ctxDone w \<Longrightarrow> drift_step cfg classify w (w\<lparr>dw_phase := Stopped\<rparr>)"
| unsupported: "dw_phase w = Subscribing \<Longrightarrow> \<not> dw_ctxDone w \<Longrightarrow> drift_step cfg classify w (w\<lparr>dw_phase := Stopped\<rparr>)"
| subscribe_fails: "dw_phase w = Subscribing \<Longrightarrow> drift_step cfg classify w (endRound cfg 0 w)"
| subscribe_works: "dw_phase w = Subscribing \<Longrightarrow> drift_step cfg classify w (subscribed w)"
| event: "dw_phase w = Consuming t \<Longrightarrow> drift_step cfg classify w (onEvent cfg classify ev w)"
| timer: "dw_phase w = Consuming t \<Longrightarrow> dw_timer w = Some due \<Longrightarrow> due \<le> dw_now w \<Longrightarrow>
    drift_step cfg classify w (fireTrigger ByTimer w)"
| closed: "dw_phase w = Consuming t \<Longrightarrow>
    drift_step cfg classify w (endRound cfg (dw_now w - t) (consumeClosed w))"
| ctx_done: "dw_phase w = Consuming t \<Longrightarrow> dw_ctxDone w \<Longrightarrow>
    drift_step cfg classify w (endRound cfg (dw_now w - t) (consumeDone w))"
| retry: "dw_phase w = Retrying due \<Longrightarrow> due \<le> dw_now w \<Longrightarrow> drift_step cfg classify w (w\<lparr>dw_phase := Subscribing\<rparr>)"
| retry_done: "dw_phase w = Retrying due \<Longrightarrow> dw_ctxDone w \<Longrightarrow> drift_step cfg classify w (w\<lparr>dw_phase := Stopped\<rparr>)"

inductive_cases drift_stepE [elim]: "drift_step cfg classify w w'"

definition drift_reachable :: "drift_config \<Rightarrow> ('o \<Rightarrow> 'e \<Rightarrow> string \<times> bool) \<Rightarrow> 'o drift_state \<Rightarrow> bool" where
  "drift_reachable cfg classify w \<longleftrightarrow> (\<exists>owned. (drift_step cfg classify)\<^sup>*\<^sup>* (startWatch owned) w)"

subsection \<open>What holds in every reachable state\<close>

text \<open>
  The trigger list is spaced: a trigger by the timer keeps the minimum interval to the one
  before it, and a trigger for a subscription that came back follows at least one backoff.
\<close>

fun spaced :: "drift_config \<Rightarrow> (int \<times> reason) list \<Rightarrow> bool" where
  "spaced cfg ((t, why) # (t', why') # ts) \<longleftrightarrow>
     t' \<le> t \<and> (why = ByTimer \<longrightarrow> dc_minInterval cfg \<le> t - t') \<and> (why = ByReturn \<longrightarrow> dc_backoffMin cfg \<le> t - t') \<and>
     spaced cfg ((t', why') # ts)"
| "spaced cfg ts \<longleftrightarrow> True"

definition wfDrift :: "drift_config \<Rightarrow> bool" where
  "wfDrift cfg \<longleftrightarrow> 0 \<le> dc_debounce cfg \<and> 0 < dc_backoffMin cfg \<and> dc_backoffMin cfg \<le> dc_backoffMax cfg"

text \<open>The trigger before now, if any, was at \<open>dw_lastTrigger\<close>.\<close>

definition lastOf :: "(int \<times> reason) list \<Rightarrow> int option" where
  "lastOf ts = (case ts of [] \<Rightarrow> None | (t, _) # _ \<Rightarrow> Some t)"

definition drift_inv :: "drift_config \<Rightarrow> 'o drift_state \<Rightarrow> bool" where
  "drift_inv cfg w \<longleftrightarrow>
     spaced cfg (dw_triggers w) \<and> dw_lastTrigger w = lastOf (dw_triggers w) \<and>
     (\<forall>t. dw_lastTrigger w = Some t \<longrightarrow> t \<le> dw_now w) \<and>
     (dw_backoff w = 0 \<or> (dc_backoffMin cfg \<le> dw_backoff w \<and> dw_backoff w \<le> dc_backoffMax cfg)) \<and>
     (case dw_phase w of
        Consuming t \<Rightarrow> \<not> dw_outage w \<and> t \<le> dw_now w \<and>
          (\<forall>due lt. dw_timer w = Some due \<longrightarrow> dw_lastTrigger w = Some lt \<longrightarrow> dc_minInterval cfg \<le> due - lt) \<and>
          (dw_ctxDone w \<or>
           (case dw_firstDrift w of
              None \<Rightarrow> dw_timer w = None
            | Some f \<Rightarrow> f \<le> dw_now w \<and> (\<exists>due. dw_timer w = Some due \<and> due \<le> f + max (dc_debounce cfg) (dc_minInterval cfg))))
      | Retrying due \<Rightarrow> dw_outage w \<and> dw_firstDrift w = None \<and> dw_timer w = None \<and>
          (\<forall>lt. dw_lastTrigger w = Some lt \<longrightarrow> dc_backoffMin cfg \<le> due - lt)
      | Subscribing \<Rightarrow> dw_firstDrift w = None \<and> dw_timer w = None \<and>
          (\<forall>lt. dw_lastTrigger w = Some lt \<longrightarrow> dw_outage w \<and> dc_backoffMin cfg \<le> dw_now w - lt)
      | Stopped \<Rightarrow> True) \<and>
     dw_warnings w = length (filter (\<lambda>(_, why). why = ByReturn) (dw_triggers w)) + (if dw_outage w then 1 else 0)"

lemma spaced_Cons:
  "spaced cfg ((t, why) # ts) \<longleftrightarrow> spaced cfg ts \<and>
     (\<forall>t'. lastOf ts = Some t' \<longrightarrow> t' \<le> t \<and> (why = ByTimer \<longrightarrow> dc_minInterval cfg \<le> t - t') \<and>
        (why = ByReturn \<longrightarrow> dc_backoffMin cfg \<le> t - t'))"
  by (cases ts) (auto simp: lastOf_def)

lemma lastOf_simps [simp]: "lastOf [] = None" "lastOf ((t, why) # ts) = Some t"
  by (simp_all add: lastOf_def)

lemma drift_inv_start: "drift_inv cfg (startWatch owned)"
  by (simp add: drift_inv_def startWatch_def)

lemma onEvent_inv:
  assumes "drift_inv cfg w" "dw_phase w = Consuming t" "wfDrift cfg"
  shows "drift_inv cfg (onEvent cfg classify ev w)"
proof (cases "snd (classify (dw_owned w) ev)")
  case False
  then show ?thesis using assms by (simp add: onEvent_def split_beta)
next
  case True
  have d: "timerDelay cfg w' \<le> max (dc_debounce cfg) (dc_minInterval cfg)"
    if "\<forall>lt. dw_lastTrigger w' = Some lt \<longrightarrow> lt \<le> dw_now w'" for w' :: "'a drift_state"
    using that by (auto simp: timerDelay_def split: option.splits)
  have m: "dc_minInterval cfg \<le> dw_now w' + timerDelay cfg w' - lt" if "dw_lastTrigger w' = Some lt" for w' :: "'a drift_state" and lt
    using that by (auto simp: timerDelay_def)
  let ?w1 = "w\<lparr>dw_counts := AList.update (fst (classify (dw_owned w) ev)) (Suc (countOf (dw_counts w) (fst (classify (dw_owned w) ev)))) (dw_counts w),
      dw_firstDrift := (case dw_firstDrift w of None \<Rightarrow> Some (dw_now w) | Some t \<Rightarrow> Some t)\<rparr>"
  have "timerDelay cfg ?w1 \<le> max (dc_debounce cfg) (dc_minInterval cfg)"
    by (rule d) (use assms(1) in \<open>simp add: drift_inv_def\<close>)
  moreover have "\<forall>lt. dw_lastTrigger w = Some lt \<longrightarrow> dc_minInterval cfg \<le> dw_now w + timerDelay cfg ?w1 - lt"
    using m [of ?w1] by simp
  ultimately show ?thesis
    using True assms(1,2) by (auto simp: onEvent_def split_beta Let_def drift_inv_def split: option.splits)
qed

lemma endRound_inv:
  assumes "spaced cfg (dw_triggers w)" "dw_lastTrigger w = lastOf (dw_triggers w)"
    and "\<forall>t. dw_lastTrigger w = Some t \<longrightarrow> t \<le> dw_now w"
    and "dw_backoff w = 0 \<or> (dc_backoffMin cfg \<le> dw_backoff w \<and> dw_backoff w \<le> dc_backoffMax cfg)"
    and "dw_ctxDone w \<or> (dw_firstDrift w = None \<and> dw_timer w = None)" "wfDrift cfg"
    and "dw_warnings w = length (filter (\<lambda>(_, why). why = ByReturn) (dw_triggers w)) + (if dw_outage w then 1 else 0)"
  shows "drift_inv cfg (endRound cfg lived w)"
proof -
  let ?b = "nextBackoff (dw_backoff w) lived (dc_backoffMin cfg) (dc_backoffMax cfg)"
  have "dc_backoffMin cfg \<le> ?b \<and> ?b \<le> dc_backoffMax cfg"
    by (rule nextBackoff_bounds) (use assms(4,6) in \<open>auto simp: wfDrift_def\<close>)
  then show ?thesis using assms(1-3,5,7) by (auto simp: endRound_def drift_inv_def Let_def) (use assms(4) in auto)
qed

lemma drift_inv_step:
  assumes "wfDrift cfg" "drift_inv cfg w" "drift_step cfg classify w w'"
  shows "drift_inv cfg w'"
  using assms(3)
proof cases
  case (tick d)
  have "drift_inv cfg (w\<lparr>dw_now := dw_now w + d\<rparr>)"
    using assms(2) tick(2) by (force simp: drift_inv_def split: phase.splits option.splits)
  then show ?thesis using tick by simp
next
  case (subscribe_works)
  then show ?thesis
    using assms(2) by (auto simp: drift_inv_def subscribed_def callTrigger_def Let_def spaced_Cons)
next
  case (event t ev)
  then show ?thesis by (simp only: onEvent_inv [OF assms(2) event(2) assms(1)])
next
  case (timer t due)
  then show ?thesis
    using assms(2) by (fastforce simp: drift_inv_def fireTrigger_def callTrigger_def Let_def spaced_Cons)
next
  case (closed t)
  show ?thesis unfolding closed(1)
    by (rule endRound_inv)
       (use assms closed(2) in \<open>auto simp: drift_inv_def consumeClosed_def fireTrigger_def callTrigger_def Let_def spaced_Cons
          split: option.splits\<close>)
next
  case (ctx_done t)
  show ?thesis unfolding ctx_done(1)
    by (rule endRound_inv) (use assms ctx_done(2,3) in \<open>auto simp: drift_inv_def consumeDone_def\<close>)
next
  case subscribe_fails
  show ?thesis unfolding subscribe_fails(1)
    by (rule endRound_inv) (use assms subscribe_fails(2) in \<open>auto simp: drift_inv_def\<close>)
qed (use assms(2) in \<open>auto simp: drift_inv_def split: phase.splits cong: option.case_cong\<close>)

lemma drift_invariant: "drift_reachable cfg classify w \<Longrightarrow> wfDrift cfg \<Longrightarrow> drift_inv cfg w"
proof -
  assume "drift_reachable cfg classify w" and wf: "wfDrift cfg"
  then obtain owned where "(drift_step cfg classify)\<^sup>*\<^sup>* (startWatch owned) w" by (auto simp: drift_reachable_def)
  then show ?thesis
    by (induction rule: rtranclp_induct) (auto intro: drift_inv_start drift_inv_step [OF wf])
qed



subsection \<open>A concrete run\<close>

text \<open>
  The production constants; a watcher whose every event is drift of one kind subscribes, sees an
  event, fires after the debounce, and sees the next event at once.
\<close>

definition driftDefaults :: drift_config where
  "driftDefaults = \<lparr>dc_debounce = 100000000, dc_minInterval = 1000000000, dc_backoffMin = 1000000000,
     dc_backoffMax = 30000000000\<rparr>"

definition demo_classify :: "unit \<Rightarrow> unit \<Rightarrow> string \<times> bool" where
  "demo_classify owned ev = (''kernel'', True)"

definition demo_w1 :: "unit drift_state" where
  "demo_w1 = onEvent driftDefaults demo_classify () (subscribed (startWatch ()))"

definition demo_w2 :: "unit drift_state" where
  "demo_w2 = fireTrigger ByTimer (demo_w1\<lparr>dw_now := dw_now demo_w1 + 100000000\<rparr>)"

definition demo_w3 :: "unit drift_state" where
  "demo_w3 = onEvent driftDefaults demo_classify () demo_w2"

lemmas demo_watch = demo_w1_def demo_w2_def demo_w3_def onEvent_def subscribed_def startWatch_def driftDefaults_def
  demo_classify_def fireTrigger_def callTrigger_def timerDelay_def countOf_def

lemma demo_phases [simp]:
  "dw_phase demo_w1 = Consuming 0" "dw_timer demo_w1 = Some 100000000" "dw_now demo_w1 = 0"
  "dw_phase demo_w2 = Consuming 0" "dw_firstDrift demo_w3 = Some 100000000" "\<not> dw_ctxDone demo_w3"
  "dw_phase demo_w3 = Consuming 0" "dw_timer demo_w3 = Some 1100000000" "dw_triggers demo_w3 = [(100000000, ByTimer)]"
  by (simp_all add: demo_watch Let_def)

lemma demo_w3_reachable: "drift_reachable driftDefaults demo_classify demo_w3"
proof -
  let ?step = "drift_step driftDefaults demo_classify"
  have "?step (startWatch ()) (subscribed (startWatch ()))"
    by (rule subscribe_works) (simp add: startWatch_def)
  moreover have "?step (subscribed (startWatch ())) demo_w1"
    unfolding demo_w1_def by (rule event [of _ 0]) (simp add: demo_watch Let_def)
  moreover have "?step demo_w1 (demo_w1\<lparr>dw_now := dw_now demo_w1 + 100000000\<rparr>)" by (rule tick) simp
  moreover have "?step (demo_w1\<lparr>dw_now := dw_now demo_w1 + 100000000\<rparr>) demo_w2"
    unfolding demo_w2_def by (rule timer [of _ 0 100000000]) simp_all
  moreover have "?step demo_w2 demo_w3"
    unfolding demo_w3_def by (rule event [of _ 0]) simp
  ultimately show ?thesis unfolding drift_reachable_def
    by (meson converse_rtranclp_into_rtranclp rtranclp.rtrancl_refl)
qed

lemma wfDrift_defaults: "wfDrift driftDefaults"
  by (simp add: wfDrift_def driftDefaults_def)



subsection \<open>The kinds a watch counts\<close>

text \<open>
  The log line of a trigger lists the counts of \<open>kinds\<close>. The contract of a watch is that its
  classification names one of them for every drift event; then no drift goes unlogged.
\<close>

locale kinded_watch =
  fixes classify :: "'o \<Rightarrow> 'e \<Rightarrow> string \<times> bool"
    and kinds :: "string list"
  assumes kind_listed: "classify owned ev = (kind, True) \<Longrightarrow> kind \<in> set kinds"
begin

lemma step_counts:
  "drift_step cfg classify w w' \<Longrightarrow> fst ` set (dw_counts w) \<subseteq> set kinds \<Longrightarrow> fst ` set (dw_counts w') \<subseteq> set kinds"
proof (induction rule: drift_step.induct)
  case (event w t ev)
  then show ?case
    using kind_listed [of "dw_owned w" ev] by (auto simp: onEvent_def Let_def split: prod.splits if_splits)
qed (auto simp: endRound_def subscribed_def fireTrigger_def callTrigger_def consumeClosed_def consumeDone_def Let_def)

lemma counts_listed: "drift_reachable cfg classify w \<Longrightarrow> fst ` set (dw_counts w) \<subseteq> set kinds"
proof -
  assume "drift_reachable cfg classify w"
  then obtain owned where "(drift_step cfg classify)\<^sup>*\<^sup>* (startWatch owned) w" by (auto simp: drift_reachable_def)
  then show ?thesis
    by (induction rule: rtranclp_induct) (auto simp: startWatch_def dest: step_counts)
qed

end

end
