(* ===== verification/RouteWatch.thy ===== *)
theory RouteWatch
  imports DriftWatch RouteSync
begin

section \<open>Which route notifications are drift\<close>

text \<open>
  \<open>route_watch.go\<close> and the conversion of netlink updates in \<open>routing_linux.go\<close>. The subscription
  itself is netlink's; an update is what it delivers. The watcher is the loop of
  \<^theory_text>\<open>DriftWatch\<close> with \<open>classifyRouteEvent\<close> over the published ownership.
\<close>

record route_event =
  re_Deleted :: bool
  re_Replaced :: bool
  re_KernelTable :: bool
  re_VRFTable :: bool
  re_AgentProto :: bool
  re_Dst :: string
  re_Gw :: string

record route_ownership =
  ro_KernelIPs :: "string set"
  ro_FRRIPs :: "string set"
  ro_LeakNets :: "string set"

definition newRouteOwnership :: "string list \<Rightarrow> string list \<Rightarrow> ipnet list \<Rightarrow> route_ownership" where
  "newRouteOwnership kernelIPs frrIPs leakNets =
     \<lparr>ro_KernelIPs = set kernelIPs, ro_FRRIPs = set frrIPs, ro_LeakNets = set (map NetString leakNets)\<rparr>"

definition routeDriftKindKernel :: string where
  "routeDriftKindKernel = ''kernel''"

definition routeDriftKindFRR :: string where
  "routeDriftKindFRR = ''frr''"

definition classifyRouteEvent :: "string \<Rightarrow> route_ownership \<Rightarrow> route_event \<Rightarrow> string \<times> bool" where
  "classifyRouteEvent vethNexthop owned ev =
     (let (ip, isHost) = (case CutSuffix (re_Dst ev) ''/32'' of Some t \<Rightarrow> (t, True) | None \<Rightarrow> (re_Dst ev, False)) in
      if re_Deleted ev then
        (if re_KernelTable ev \<and> re_AgentProto ev \<and> isHost \<and> ip \<in> ro_KernelIPs owned then (routeDriftKindKernel, True)
         else if re_VRFTable ev \<and> re_AgentProto ev \<and> re_Dst ev \<in> ro_LeakNets owned then (routeDriftKindKernel, True)
         else if re_VRFTable ev \<and> \<not> re_AgentProto ev \<and> isHost \<and> ip \<in> ro_FRRIPs owned then (routeDriftKindFRR, True)
         else ('''', False))
      else if \<not> re_Replaced ev \<or> re_AgentProto ev \<or> \<not> isHost then ('''', False)
      else if re_KernelTable ev \<and> ip \<in> ro_KernelIPs owned then (routeDriftKindKernel, True)
      else if re_VRFTable ev \<and> ip \<in> ro_FRRIPs owned \<and> re_Gw ev \<noteq> '''' \<and> re_Gw ev \<noteq> vethNexthop then (routeDriftKindFRR, True)
      else ('''', False))"

subsection \<open>From netlink updates to events\<close>

datatype nl_msg = RTM_NEWROUTE | RTM_DELROUTE | OtherMsg

record nl_update =
  up_Type :: nl_msg
  up_Replace :: bool
  up_Table :: int
  up_Dst :: "ipnet option"
  up_Protocol :: int
  up_Gw :: "netip option"
  up_MultiPath :: bool

definition rtTableMain :: int where
  "rtTableMain = 254"

definition watchedTable :: "config \<Rightarrow> int" where
  "watchedTable cfg = (if cf_RouteTableID cfg = 0 then rtTableMain else cf_RouteTableID cfg)"

definition toRouteEvent :: "nl_update \<Rightarrow> int \<Rightarrow> int \<Rightarrow> route_event option" where
  "toRouteEvent u kernelTable vrfTable =
     (if up_Type u = OtherMsg then None
      else if up_Table u \<noteq> kernelTable \<and> up_Table u \<noteq> vrfTable then None
      else (case up_Dst u of
              None \<Rightarrow> None
            | Some dst \<Rightarrow>
                if snd (MaskSize dst) \<noteq> 32 then None
                else Some \<lparr>re_Deleted = (up_Type u = RTM_DELROUTE),
                       re_Replaced = (up_Type u \<noteq> RTM_DELROUTE \<and> up_Replace u),
                       re_KernelTable = (up_Table u = kernelTable), re_VRFTable = (up_Table u = vrfTable),
                       re_AgentProto = (up_Protocol u = rtProtoOVNNetworkAgent), re_Dst = NetString dst,
                       re_Gw = (case up_Gw u of None \<Rightarrow> '''' | Some gw \<Rightarrow> if up_MultiPath u then '''' else IPString gw)\<rparr>))"

fun forwardRouteEvents :: "nl_update list \<Rightarrow> int \<Rightarrow> int \<Rightarrow> route_event list" where
  "forwardRouteEvents [] kernelTable vrfTable = []"
| "forwardRouteEvents (u # us) kernelTable vrfTable =
     (case toRouteEvent u kernelTable vrfTable of
        None \<Rightarrow> forwardRouteEvents us kernelTable vrfTable
      | Some ev \<Rightarrow> ev # forwardRouteEvents us kernelTable vrfTable)"

subsection \<open>The notifications of the agent's own calls\<close>

text \<open>
  What the kernel announces for a netlink call that succeeded: a replace is a new route with the
  replace flag, a delete a deleted one, with the call's table (the main table has its number),
  destination and protocol, and no gateway.
\<close>

definition announced :: "event \<Rightarrow> nl_update list" where
  "announced e =
     (let note = (\<lambda>t r. \<lparr>up_Type = t, up_Replace = (t = RTM_NEWROUTE),
             up_Table = (if nr_Table r = 0 then rtTableMain else nr_Table r), up_Dst = nr_Dst r,
             up_Protocol = nr_Protocol r, up_Gw = None, up_MultiPath = False\<rparr>)
      in case e of
           (CRouteReplace r, True) \<Rightarrow> [note RTM_NEWROUTE r]
         | (CRouteDel r, True) \<Rightarrow> [note RTM_DELROUTE r]
         | _ \<Rightarrow> [])"

definition driftOf :: "config \<Rightarrow> int \<Rightarrow> route_ownership \<Rightarrow> history \<Rightarrow> string list" where
  "driftOf cfg vrfTable owned h =
     map fst (filter snd (map (classifyRouteEvent (cf_VethNexthop cfg) owned)
       (forwardRouteEvents (concat (map announced h)) (watchedTable cfg) vrfTable)))"

text \<open>An address written the way \<open>net.IP.String\<close> prints it.\<close>

definition canonicalIPv4 :: "string \<Rightarrow> bool" where
  "canonicalIPv4 ip \<longleftrightarrow> (\<exists>w. ip = ip4String w)"

lemma forwardRouteEvents_append:
  "forwardRouteEvents (a @ b) k v = forwardRouteEvents a k v @ forwardRouteEvents b k v"
  by (induction a) (simp_all split: option.splits)

lemma driftOf_simps [simp]:
  "driftOf cfg v owned [] = []"
  "driftOf cfg v owned (h @ h') = driftOf cfg v owned h @ driftOf cfg v owned h'"
  by (simp_all add: driftOf_def forwardRouteEvents_append)

lemma driftOf_Cons: "driftOf cfg v owned (e # h) = driftOf cfg v owned [e] @ driftOf cfg v owned h"
  using driftOf_simps(2) [of cfg v owned "[e]" h] by simp

lemma driftOf_other:
  "(\<And>r. c \<noteq> CRouteReplace r \<and> c \<noteq> CRouteDel r) \<Longrightarrow> driftOf cfg v owned [(c, ok)] = []"
  by (cases c; cases ok) (auto simp: driftOf_def announced_def)

lemma driftOf_replace: "driftOf cfg v owned [(CRouteReplace (agentRoute cfg i d), ok)] = []"
  by (cases ok) (auto simp: driftOf_def announced_def toRouteEvent_def classifyRouteEvent_def Let_def split: prod.splits)

lemma CutSuffix_host: "CutSuffix (NetString (Net4 w 32)) ''/32'' = Some (ip4String w)"
  using CutSuffix_append [of "ip4String w" "''/32''"]
  by (simp add: NetString_def show_nat.simps digit_char_def)

lemma driftOf_delete:
  assumes "0 \<le> cf_RouteTableID cfg"
  shows "driftOf cfg v owned [(CRouteDel (agentRoute cfg i (Net4 w 32)), True)] =
    (if ip4String w \<in> ro_KernelIPs owned \<or>
        (watchedTable cfg = v \<and> NetString (Net4 w 32) \<in> ro_LeakNets owned) then [routeDriftKindKernel] else [])"
  using assms
  by (cases "cf_RouteTableID cfg = 0")
     (auto simp: driftOf_def announced_def toRouteEvent_def classifyRouteEvent_def CutSuffix_host Let_def
       tableOf_def watchedTable_def rtTableMain_def)

lemma driftOf_delete_failed: "driftOf cfg v owned [(CRouteDel r, False)] = []"
  by (simp add: driftOf_def announced_def)

subsection \<open>Own changes are not drift, foreign ones are\<close>

lemma canonical_hostNet: "ip = ip4String w \<Longrightarrow> ParseIP ip = Some p \<Longrightarrow> hostNet p = Net4 w 32"
  by (auto simp: hostNet_def)

lemma DelKernelRoute_shape:
  assumes "ParseIP ip = Some p"
  obtains "callsOf rm (snd (DelKernelRoute env cfg ip dev rm)) = []"
    | "callsOf rm (snd (DelKernelRoute env cfg ip dev rm)) = [(CLinkByName dev, False)]"
    | i u ok ok' where "callsOf rm (snd (DelKernelRoute env cfg ip dev rm)) =
         [(CLinkByName dev, True), (CRuleDel u, ok), (CRouteDel (agentRoute cfg i (hostNet p)), ok')]"
    | i ok' where "callsOf rm (snd (DelKernelRoute env cfg ip dev rm)) =
         [(CLinkByName dev, True), (CRouteDel (agentRoute cfg i (hostNet p)), ok')]"
proof (cases "cf_DryRun cfg")
  case True
  then show thesis using that(1) by (simp add: DelKernelRoute_def callsOf_def)
next
  case False
  show thesis
  proof (cases "h_linkByName env (rm_hist rm) dev")
    case (Inl e)
    then show thesis using that(2) False by (simp add: DelKernelRoute_def nl_calls callsOf_def)
  next
    case (Inr link)
    show thesis
    proof (cases "0 < cf_RouteTableID cfg")
      case True
      have "\<exists>i u ok ok'. callsOf rm (snd (DelKernelRoute env cfg ip dev rm)) =
         [(CLinkByName dev, True), (CRuleDel u, ok), (CRouteDel (agentRoute cfg i (hostNet p)), ok')]"
        using False Inr True assms
        by (auto simp: DelKernelRoute_def nl_calls removeIPRule_def callsOf_def split: option.splits prod.splits)
      then show thesis using that(3) by blast
    next
      case no_table: False
      have "\<exists>i ok'. callsOf rm (snd (DelKernelRoute env cfg ip dev rm)) =
         [(CLinkByName dev, True), (CRouteDel (agentRoute cfg i (hostNet p)), ok')]"
        using False Inr no_table assms
        by (auto simp: DelKernelRoute_def nl_calls callsOf_def split: option.splits prod.splits)
      then show thesis using that(4) by blast
    qed
  qed
qed

lemma driftOf_reads [simp]:
  "driftOf cfg v owned ((CLinkByName n, ok) # h) = driftOf cfg v owned h"
  "driftOf cfg v owned ((CRuleDel u, ok) # h) = driftOf cfg v owned h"
  by (cases ok; simp add: driftOf_Cons [of _ _ _ _ h] driftOf_other)+

lemma DelKernelRoute_drift:
  assumes "ip = ip4String w" "0 \<le> cf_RouteTableID cfg"
    and "ip \<notin> ro_KernelIPs owned" "NetString (Net4 w 32) \<notin> ro_LeakNets owned"
  shows "driftOf cfg v owned (callsOf rm (snd (DelKernelRoute env cfg ip dev rm))) = []"
proof -
  have p: "ParseIP ip = Some (mapped4 w)" by (simp add: assms(1))
  have net: "hostNet (mapped4 w) = Net4 w 32" by (simp add: hostNet_def)
  have del: "driftOf cfg v owned [(CRouteDel (agentRoute cfg i (Net4 w 32)), ok)] = []" for i ok
    using assms driftOf_delete [OF assms(2), of v owned i w] by (cases ok) (simp_all add: driftOf_delete_failed)
  from p show ?thesis
    by (rule DelKernelRoute_shape [of ip _ rm env cfg dev]) (simp_all add: net del)
qed

interpretation route_kinds: kinded_watch "classifyRouteEvent nexthop" "[routeDriftKindKernel, routeDriftKindFRR]" for nexthop
  by unfold_locales (auto simp: classifyRouteEvent_def Let_def split: prod.splits if_splits)

lemma callsOf_trans:
  "rm_hist rm1 = rm_hist rm @ t \<Longrightarrow> rm_hist rm2 = rm_hist rm1 @ u \<Longrightarrow>
   callsOf rm rm2 = callsOf rm rm1 @ callsOf rm1 rm2"
  by (simp add: callsOf_def)

lemma delKernelRoutes_drift:
  "list_all (\<lambda>e. \<exists>w. kr_IP e = ip4String w \<and> kr_IP e \<notin> ro_KernelIPs owned \<and> NetString (Net4 w 32) \<notin> ro_LeakNets owned) es \<Longrightarrow>
   0 \<le> cf_RouteTableID cfg \<Longrightarrow> driftOf cfg v owned (callsOf rm (delKernelRoutes env cfg es rm)) = []"
proof (induction es arbitrary: rm)
  case Nil
  then show ?case by (simp add: callsOf_def)
next
  case (Cons e es)
  let ?rm1 = "snd (DelKernelRoute env cfg (kr_IP e) (kr_Dev e) rm)"
  obtain t where t: "rm_hist ?rm1 = rm_hist rm @ t" using DelKernelRoute_calls by blast
  obtain u where u: "rm_hist (delKernelRoutes env cfg es ?rm1) = rm_hist ?rm1 @ u" using delKernelRoutes_calls by blast
  obtain w where w: "kr_IP e = ip4String w" "kr_IP e \<notin> ro_KernelIPs owned" "NetString (Net4 w 32) \<notin> ro_LeakNets owned"
    using Cons.prems(1) by auto
  from callsOf_trans [OF t u] DelKernelRoute_drift [OF w(1) Cons.prems(2) w(2,3), of v rm env "kr_Dev e"] Cons.IH [of ?rm1] Cons.prems
  show ?case by simp
qed



end
