(* ===== verification/ConfigCheck.thy ===== *)
theory ConfigCheck
  imports ConfigTypes Host OvnJoin
begin

section \<open>Validating the configuration\<close>

text \<open>
  The checks of \<open>config.go\<close>: the operating mode, the remote lists, the TLS material and
  \<open>validateSettings\<close>, in the code's order. A check returns an error or the configuration with
  its derived fields set; every caller discards the configuration on an error. The PEM files and
  their parsing (\<open>os\<close>, \<open>crypto/x509\<close>, \<open>crypto/tls\<close>) are a parameter.
\<close>

subsection \<open>Helpers\<close>

definition isIdentChar :: "char \<Rightarrow> bool" where
  "isIdentChar c \<longleftrightarrow> (let n = (of_char c :: nat) in
     (97 \<le> n \<and> n \<le> 122) \<or> (65 \<le> n \<and> n \<le> 90) \<or> (48 \<le> n \<and> n \<le> 57) \<or> c = CHR ''-'' \<or> c = CHR ''_'' \<or> c = CHR ''.'')"

definition isValidIdentifier :: "string \<Rightarrow> bool" where
  "isValidIdentifier s \<longleftrightarrow> list_all isIdentChar s \<and> 0 < length s"

definition bytes4 :: "32 word \<Rightarrow> 8 word list" where
  "bytes4 w = map (\<lambda>i. of_nat (byte_of i w)) [3, 2, 1, 0]"

definition ofBytes4 :: "8 word list \<Rightarrow> 32 word" where
  "ofBytes4 bs = of_nat (foldl (\<lambda>n b. 256 * n + unat b) 0 bs)"

text \<open>The loop of \<open>nextIPInSubnet\<close> runs from the last byte and stops at the first that does not wrap.\<close>

fun incrementLast :: "8 word list \<Rightarrow> 8 word list" where
  "incrementLast [] = []"
| "incrementLast (b # bs) = (let n = b + 1 in if n \<noteq> 0 then n # bs else n # incrementLast bs)"

definition nextIPInSubnet :: "netip \<Rightarrow> netip option" where
  "nextIPInSubnet ip =
     (case To4 ip of
        None \<Rightarrow> None
      | Some w \<Rightarrow> Some (mapped4 (ofBytes4 (rev (incrementLast (rev (bytes4 w)))))))"

text \<open>\<open>net.IP.String\<close> of a nil address.\<close>

definition nilIPString :: "netip option \<Rightarrow> string" where
  "nilIPString ip = (case ip of None \<Rightarrow> ''<nil>'' | Some i \<Rightarrow> IPString i)"

text \<open>\<open>net.SplitHostPort\<close>: the port follows the last colon; an IPv6 host is in brackets.\<close>

fun lastIndex :: "char \<Rightarrow> string \<Rightarrow> nat option" where
  "lastIndex c [] = None"
| "lastIndex c (d # s) = (case lastIndex c s of Some i \<Rightarrow> Some (Suc i) | None \<Rightarrow> if d = c then Some 0 else None)"

fun firstIndex :: "char \<Rightarrow> string \<Rightarrow> nat option" where
  "firstIndex c [] = None"
| "firstIndex c (d # s) = (if d = c then Some 0 else map_option Suc (firstIndex c s))"

definition SplitHostPort :: "string \<Rightarrow> (string \<times> string) result" where
  "SplitHostPort hp =
     (case lastIndex (CHR '':'') hp of
        None \<Rightarrow> Inl (Err ''missing port in address'')
      | Some i \<Rightarrow>
         (let tail = (\<lambda>host j k.
               if CHR ''['' \<in> set (drop j hp) then Inl (Err ''unexpected [ in address'')
               else if CHR '']'' \<in> set (drop k hp) then Inl (Err ''unexpected ] in address'')
               else Inr (host, drop (Suc i) hp))
          in if hp ! 0 = CHR ''['' then
               (case firstIndex (CHR '']'') hp of
                  None \<Rightarrow> Inl (Err ''missing ] in address'')
                | Some e \<Rightarrow>
                    if Suc e = length hp then Inl (Err ''missing port in address'')
                    else if Suc e = i then tail (take (e - 1) (drop 1 hp)) 1 (Suc e)
                    else if hp ! Suc e = CHR '':'' then Inl (Err ''too many colons in address'')
                    else Inl (Err ''missing port in address''))
             else if CHR '':'' \<in> set (take i hp) then Inl (Err ''too many colons in address'')
             else tail (take i hp) 0 0))"

subsection \<open>The operating mode\<close>

fun checkPFOnlyMasquerade :: "config \<Rightarrow> port_forward_vip list \<Rightarrow> err option" where
  "checkPFOnlyMasquerade cfg [] = None"
| "checkPFOnlyMasquerade cfg (pf # pfs) =
     (if pf_RouterMasquerade pf then Some (Err ''router_masquerade requires an OVN connection'')
      else if pf_HairpinMasquerade pf \<and> cf_NetworkCIDRs cfg = [] then
        Some (Err ''hairpin_masquerade in port-forward-only mode requires network_cidr to be set'')
      else checkPFOnlyMasquerade cfg pfs)"

definition validateMode :: "config \<Rightarrow> config result" where
  "validateMode cfg =
     (let sbSet = (cf_OVNSBRemote cfg \<noteq> ''''); nbSet = (cf_OVNNBRemote cfg \<noteq> '''') in
      if sbSet \<and> nbSet then Inr (cfg\<lparr>cf_PortForwardOnly := False\<rparr>)
      else if \<not> sbSet \<and> \<not> nbSet then
        (if cf_PortForwards cfg = [] then Inl (Err ''nothing to do'')
         else (let cfg1 = cfg\<lparr>cf_PortForwardOnly := True\<rparr> in
               case checkPFOnlyMasquerade cfg1 (cf_PortForwards cfg1) of Some e \<Rightarrow> Inl e | None \<Rightarrow> Inr cfg1))
      else Inl (Err ''incomplete OVN configuration''))"

subsection \<open>Remotes and TLS\<close>

definition ovsdbEndpoints :: "string \<Rightarrow> string list" where
  "ovsdbEndpoints remote = filter (\<lambda>p. p \<noteq> '''') (map TrimSpace (Split remote (CHR '','')))"

fun countSchemes :: "string list \<Rightarrow> nat \<Rightarrow> nat \<Rightarrow> (nat \<times> nat) result" where
  "countSchemes [] ssl plain = Inr (ssl, plain)"
| "countSchemes (endpoint # es) ssl plain =
     (case Cut endpoint '':'' of
        None \<Rightarrow> Inl (Err ''endpoint has no scheme'')
      | Some (scheme, _) \<Rightarrow>
          (let s = ToLower scheme in
           if s = ''ssl'' then countSchemes es (Suc ssl) plain
           else if s = ''tcp'' \<or> s = ''unix'' then countSchemes es ssl (Suc plain)
           else Inl (Err ''unsupported endpoint scheme'')))"

definition remoteUsesSSL :: "string \<Rightarrow> bool result" where
  "remoteUsesSSL remote =
     (case countSchemes (ovsdbEndpoints remote) 0 0 of
        Inl e \<Rightarrow> Inl e
      | Inr (ssl, plain) \<Rightarrow>
          if 0 < ssl \<and> 0 < plain then Inl (Err ''mixes ssl: and non-ssl endpoints'') else Inr (0 < ssl))"

text \<open>
  The file system and the certificate parsers: reading a file, its permission bits, the
  certificates of a PEM pool (\<open>None\<close> when it holds none), and a certificate with its key.
\<close>

record tls_files =
  tf_read :: "string \<Rightarrow> string result"
  tf_perm :: "string \<Rightarrow> nat result"
  tf_pool :: "string \<Rightarrow> string set option"
  tf_keyPair :: "string \<Rightarrow> string \<Rightarrow> tls_certificate result"

definition readPool :: "tls_files \<Rightarrow> string \<Rightarrow> string set option result" where
  "readPool files caPath =
     (if caPath = '''' then Inr None
      else (case tf_read files caPath of
              Inl _ \<Rightarrow> Inl (Err ''read ovn-ssl-ca'')
            | Inr pem \<Rightarrow> (case tf_pool files pem of
                 None \<Rightarrow> Inl (Err ''no PEM certificates found'')
               | Some pool \<Rightarrow> Inr (Some pool))))"

definition readKeyPair :: "tls_files \<Rightarrow> string \<Rightarrow> string \<Rightarrow> tls_certificate option result" where
  "readKeyPair files certPath keyPath =
     (if certPath = '''' then Inr None
      else (case tf_perm files keyPath of
              Inl _ \<Rightarrow> Inl (Err ''stat ovn-ssl-key'')
            | Inr perm \<Rightarrow>
                if take_bit 6 perm \<noteq> 0 then Inl (Err ''the private key must not be group- or world-accessible'')
                else (case tf_keyPair files certPath keyPath of
                        Inl _ \<Rightarrow> Inl (Err ''load ovn-ssl-cert'')
                      | Inr cert \<Rightarrow> Inr (Some cert))))"

definition ovnTLSConfig ::
  "tls_files \<Rightarrow> string \<Rightarrow> string \<Rightarrow> string \<Rightarrow> (string set option option \<times> tls_certificate option option) result" where
  "ovnTLSConfig files caPath certPath keyPath =
     (if caPath = '''' \<and> certPath = '''' \<and> keyPath = '''' then Inr (None, None)
      else if (certPath = '''') \<noteq> (keyPath = '''') then Inl (Err ''ovn-ssl-cert and ovn-ssl-key must be set together'')
      else (case readPool files caPath of
              Inl e \<Rightarrow> Inl e
            | Inr pool \<Rightarrow> (case readKeyPair files certPath keyPath of
                 Inl e \<Rightarrow> Inl e
               | Inr None \<Rightarrow> Inr (Some pool, None)
               | Inr (Some cert) \<Rightarrow> Inr (Some pool, Some (Some cert)))))"

text \<open>The suspicious combinations are only warned about.\<close>

definition validateTLS :: "tls_files \<Rightarrow> config \<Rightarrow> config result" where
  "validateTLS files cfg =
     (case remoteUsesSSL (cf_OVNSBRemote cfg) of
        Inl e \<Rightarrow> Inl e
      | Inr sbSSL \<Rightarrow> (case remoteUsesSSL (cf_OVNNBRemote cfg) of
          Inl e \<Rightarrow> Inl e
        | Inr nbSSL \<Rightarrow> (case ovnTLSConfig files (cf_OVNSSLCA cfg) (cf_OVNSSLCert cfg) (cf_OVNSSLKey cfg) of
            Inl e \<Rightarrow> Inl e
          | Inr (tls, cert) \<Rightarrow> Inr (cfg\<lparr>cf_OVNTLS := tls, cf_OVNClientCert := cert\<rparr>))))"

subsection \<open>validateSettings\<close>

fun parseFilters :: "string list \<Rightarrow> ipnet list \<Rightarrow> ipnet list result" where
  "parseFilters [] acc = Inr acc"
| "parseFilters (c # cs) acc =
     (case ParseCIDR c of
        None \<Rightarrow> Inl (Err ''invalid network-cidr'')
      | Some (_, cidr) \<Rightarrow> parseFilters cs (acc @ [cidr]))"

definition checkNetworks :: "config \<Rightarrow> config result" where
  "checkNetworks cfg =
     (if ParseIP (cf_VethNexthop cfg) = None then Inl (Err ''invalid veth-nexthop IP'')
      else if cf_VRFName cfg \<noteq> '''' \<and> \<not> isValidIdentifier (cf_VRFName cfg) then Inl (Err ''invalid vrf-name'')
      else if cf_RouteTableID cfg < 0 \<or> 252 < cf_RouteTableID cfg then Inl (Err ''invalid route-table-id'')
      else if cf_NetworkCIDRs cfg \<noteq> [] then
        (case parseFilters (cf_NetworkCIDRs cfg) [] of
           Inl e \<Rightarrow> Inl e
         | Inr fs \<Rightarrow> Inr (cfg\<lparr>cf_NetworkFilters := fs\<rparr>))
      else Inr cfg)"

definition checkTimings :: "config \<Rightarrow> err option" where
  "checkTimings cfg =
     (if cf_FRRPrefixList cfg \<noteq> '''' \<and> \<not> isValidIdentifier (cf_FRRPrefixList cfg) then Some (Err ''invalid frr-prefix-list'')
      else if cf_ReconcileInterval cfg \<le> 0 then Some (Err ''invalid reconcile-interval'')
      else if cf_DrainTimeout cfg < 0 then Some (Err ''invalid drain-timeout'')
      else if cf_DrainOnShutdown cfg \<and> cf_DrainTimeout cfg = 0 then Some (Err ''drain-on-shutdown requires a positive drain-timeout'')
      else if cf_DrainSettleDelay cfg < 0 then Some (Err ''invalid drain-settle-delay'')
      else if cf_StaleChassisGracePeriod cfg < 0 then Some (Err ''invalid stale-chassis-grace-period'')
      else if cf_MetricsListen cfg \<noteq> '''' \<and> isl (SplitHostPort (cf_MetricsListen cfg)) then Some (Err ''invalid metrics-listen'')
      else None)"

definition checkVethLeak :: "config \<Rightarrow> config result" where
  "checkVethLeak cfg =
     (if \<not> cf_VethLeakEnabled cfg then Inr cfg
      else if cf_VethLeakTableID cfg < 1 \<or> 252 < cf_VethLeakTableID cfg then Inl (Err ''invalid veth-leak-table-id'')
      else if cf_VethLeakRulePriority cfg < 2 then Inl (Err ''invalid veth-leak-rule-priority'')
      else if cf_VethLeakTableID cfg = cf_RouteTableID cfg \<and> cf_RouteTableID cfg \<noteq> 0 then
        Inl (Err ''veth-leak-table-id must not equal route-table-id'')
      else (let cfg1 = (if cf_VethProviderIP cfg = ''''
              then cfg\<lparr>cf_VethProviderIP := nilIPString (Option.bind (ParseIP (cf_VethNexthop cfg)) nextIPInSubnet)\<rparr>
              else cfg)
            in if ParseIP (cf_VethProviderIP cfg1) = None then Inl (Err ''invalid veth-provider-ip'') else Inr cfg1))"

fun checkDestAddrs :: "string list \<Rightarrow> string set \<Rightarrow> err option" where
  "checkDestAddrs [] seen = None"
| "checkDestAddrs (addr # addrs) seen =
     (case ParseIP addr of
        None \<Rightarrow> Some (Err ''invalid dest_addr'')
      | Some destIP \<Rightarrow>
          if To4 destIP = None then Some (Err ''IPv6 dest_addr not supported'')
          else if addr \<in> seen then Some (Err ''duplicate dest_addr'')
          else checkDestAddrs addrs (insert addr seen))"

definition ruleKey :: "port_forward_rule \<Rightarrow> string" where
  "ruleKey r = pr_Proto r @ ''/'' @ Itoa (pr_Port r)"

definition maxBackends :: nat where
  "maxBackends = 256"

definition checkRule :: "port_forward_rule \<Rightarrow> string set \<Rightarrow> err option" where
  "checkRule r seenRules =
     (if pr_Proto r \<noteq> ''tcp'' \<and> pr_Proto r \<noteq> ''udp'' then Some (Err ''invalid proto'')
      else if pr_Port r < 1 \<or> 65535 < pr_Port r then Some (Err ''invalid port'')
      else if ruleKey r \<in> seenRules then Some (Err ''duplicate port'')
      else if pr_DestAddr r \<noteq> '''' \<and> pr_DestAddrs r \<noteq> [] then Some (Err ''dest_addr and dest_addrs are mutually exclusive'')
      else if destAddrs r = [] then Some (Err ''dest_addr or dest_addrs required'')
      else if maxBackends < length (destAddrs r) then Some (Err ''too many dest_addrs'')
      else (case checkDestAddrs (destAddrs r) {} of
              Some e \<Rightarrow> Some e
            | None \<Rightarrow> if pr_DestPort r < 0 \<or> 65535 < pr_DestPort r then Some (Err ''invalid dest_port'') else None))"

fun checkRules :: "port_forward_rule list \<Rightarrow> string set \<Rightarrow> err option" where
  "checkRules [] seenRules = None"
| "checkRules (r # rs) seenRules =
     (case checkRule r seenRules of Some e \<Rightarrow> Some e | None \<Rightarrow> checkRules rs (insert (ruleKey r) seenRules))"

fun checkVIPs :: "port_forward_vip list \<Rightarrow> string set \<Rightarrow> err option" where
  "checkVIPs [] seenVIPs = None"
| "checkVIPs (pf # pfs) seenVIPs =
     (case ParseIP (pf_VIP pf) of
        None \<Rightarrow> Some (Err ''invalid VIP'')
      | Some vipIP \<Rightarrow>
          if To4 vipIP = None then Some (Err ''IPv6 VIP not supported'')
          else if pf_VIP pf \<in> seenVIPs then Some (Err ''duplicate VIP'')
          else if pf_Rules pf = [] then Some (Err ''no rules defined'')
          else (case checkRules (pf_Rules pf) {} of
                  Some e \<Rightarrow> Some e
                | None \<Rightarrow> checkVIPs pfs (insert (pf_VIP pf) seenVIPs)))"

definition checkPortForwards :: "config \<Rightarrow> config result" where
  "checkPortForwards cfg =
     (let cfg1 = cfg\<lparr>cf_PortForwardEnabled := (cf_PortForwards cfg \<noteq> [])\<rparr> in
      if \<not> cf_PortForwardEnabled cfg1 then Inr cfg1
      else if cf_PortForwardTableID cfg < 1 \<or> 252 < cf_PortForwardTableID cfg then Inl (Err ''invalid port-forward-table-id'')
      else if cf_PortForwardTableID cfg = cf_RouteTableID cfg \<and> cf_RouteTableID cfg \<noteq> 0 then
        Inl (Err ''port-forward-table-id must not equal route-table-id'')
      else if cf_PortForwardCTZone cfg < 1 \<or> 65535 < cf_PortForwardCTZone cfg then Inl (Err ''invalid port-forward-ct-zone'')
      else if cf_PortForwardTableID cfg = cf_VethLeakTableID cfg then
        Inl (Err ''port-forward-table-id must not equal veth-leak-table-id'')
      else if \<not> isValidIdentifier (cf_PortForwardDev cfg) then Inl (Err ''invalid port-forward-dev'')
      else if \<not> cf_VethLeakEnabled cfg then Inl (Err ''port forwarding requires veth_leak_enabled=true'')
      else (case checkVIPs (cf_PortForwards cfg) {} of Some e \<Rightarrow> Inl e | None \<Rightarrow> Inr cfg1))"

definition validateSettings :: "config \<Rightarrow> config result" where
  "validateSettings cfg =
     (case checkNetworks cfg of
        Inl e \<Rightarrow> Inl e
      | Inr cfg1 \<Rightarrow> (case checkTimings cfg1 of
          Some e \<Rightarrow> Inl e
        | None \<Rightarrow> (case checkVethLeak cfg1 of
            Inl e \<Rightarrow> Inl e
          | Inr cfg2 \<Rightarrow> checkPortForwards cfg2)))"

definition validateConfig :: "tls_files \<Rightarrow> config \<Rightarrow> config result" where
  "validateConfig files cfg =
     (case validateSettings cfg of Inl e \<Rightarrow> Inl e | Inr cfg1 \<Rightarrow> validateTLS files cfg1)"

subsection \<open>The next address\<close>

lemma unat_of_nat_byte: "n < 256 \<Longrightarrow> unat (of_nat n :: 8 word) = n"
  by (simp add: unat_of_nat take_bit_eq_mod)

lemma ofBytes4_four: "ofBytes4 [a, b, c, d] = of_nat (((unat a * 256 + unat b) * 256 + unat c) * 256 + unat d)"
  by (simp add: ofBytes4_def algebra_simps)

lemma unat_incr_byte:
  fixes b :: "8 word"
  shows "b + 1 \<noteq> 0 \<Longrightarrow> unat (b + 1) = unat b + 1" and "b + 1 = 0 \<Longrightarrow> unat b = 255"
proof -
  show "b + 1 \<noteq> 0 \<Longrightarrow> unat (b + 1) = unat b + 1" using unatSuc [of b] by (simp add: add.commute)
  assume "b + 1 = 0"
  then have "b = - 1" by (simp add: eq_neg_iff_add_eq_0)
  then show "unat b = 255" by (simp add: unsigned_minus_1_eq_mask mask_eq_exp_minus_1)
qed

lemma incrementLast_four:
  "ofBytes4 (rev (incrementLast [d, c, b, a])) = ofBytes4 [a, b, c, d] + 1"
proof -
  have of: "of_nat n + (1::32 word) = of_nat (n + 1)" for n by simp
  have big: "(4294967296 :: 32 word) = 0" by transfer simp
  show ?thesis
    unfolding ofBytes4_four of
    using unat_incr_byte [of a] unat_incr_byte [of b] unat_incr_byte [of c] unat_incr_byte [of d]
    by (cases "d + 1 = 0"; cases "c + 1 = 0"; cases "b + 1 = 0"; cases "a + 1 = 0")
       (simp_all add: Let_def ofBytes4_four algebra_simps big)
qed

lemma nextIP_word: "nextIPInSubnet ip = map_option (\<lambda>w. mapped4 (w + 1)) (To4 ip)"
proof (cases "To4 ip")
  case None
  then show ?thesis by (simp add: nextIPInSubnet_def)
next
  case (Some w)
  have b: "bytes4 w = [of_nat (byte_of 3 w), of_nat (byte_of 2 w), of_nat (byte_of 1 w), of_nat (byte_of 0 w)]"
    by (simp add: bytes4_def)
  have "ofBytes4 (bytes4 w) = w"
    unfolding b ofBytes4_four unat_of_nat_byte [OF byte_of_less] bytes_unat by simp
  then have "ofBytes4 (rev (incrementLast (rev (bytes4 w)))) = w + 1"
    using incrementLast_four unfolding b by (simp del: incrementLast.simps)
  then show ?thesis using Some by (simp add: nextIPInSubnet_def)
qed

text \<open>
  The loop that steps to the next address is addition of one on the 32-bit word, carry and
  wrap-around included: the address after 255.255.255.255 is 0.0.0.0.
\<close>

theorem next_ip_is_increment:
  "nextIPInSubnet ip = map_option (\<lambda>w. mapped4 (w + 1)) (To4 ip)"
  by (rule nextIP_word)

subsection \<open>What is accepted\<close>

text \<open>
  The declarative reading of the checks: ranges, IPv4 addresses, no duplicates, distinct tables.
\<close>

definition okRule :: "port_forward_rule \<Rightarrow> bool" where
  "okRule r \<longleftrightarrow> pr_Proto r \<in> {''tcp'', ''udp''} \<and> 1 \<le> pr_Port r \<and> pr_Port r \<le> 65535 \<and>
     0 \<le> pr_DestPort r \<and> pr_DestPort r \<le> 65535 \<and>
     (pr_DestAddr r = '''' \<or> pr_DestAddrs r = []) \<and> 1 \<le> length (destAddrs r) \<and> length (destAddrs r) \<le> 256 \<and>
     list_all isIPv4 (destAddrs r) \<and> distinct (destAddrs r)"

definition okVIP :: "port_forward_vip \<Rightarrow> bool" where
  "okVIP pf \<longleftrightarrow> isIPv4 (pf_VIP pf) \<and> pf_Rules pf \<noteq> [] \<and> list_all okRule (pf_Rules pf) \<and>
     distinct (map (\<lambda>r. (pr_Proto r, pr_Port r)) (pf_Rules pf))"

definition okPortForwards :: "config \<Rightarrow> bool" where
  "okPortForwards c \<longleftrightarrow> cf_PortForwards c = [] \<or>
     (1 \<le> cf_PortForwardTableID c \<and> cf_PortForwardTableID c \<le> 252 \<and> 1 \<le> cf_PortForwardCTZone c \<and>
      cf_PortForwardCTZone c \<le> 65535 \<and> cf_PortForwardTableID c \<noteq> cf_RouteTableID c \<and>
      cf_PortForwardTableID c \<noteq> cf_VethLeakTableID c \<and> isValidIdentifier (cf_PortForwardDev c) \<and>
      cf_VethLeakEnabled c \<and> list_all okVIP (cf_PortForwards c) \<and> distinct (map pf_VIP (cf_PortForwards c)))"

definition okVethLeak :: "config \<Rightarrow> bool" where
  "okVethLeak c \<longleftrightarrow> \<not> cf_VethLeakEnabled c \<or>
     (1 \<le> cf_VethLeakTableID c \<and> cf_VethLeakTableID c \<le> 252 \<and> 2 \<le> cf_VethLeakRulePriority c \<and>
      cf_VethLeakTableID c \<noteq> cf_RouteTableID c \<and>
      (if cf_VethProviderIP c = '''' then isIPv4 (cf_VethNexthop c) else ParseIP (cf_VethProviderIP c) \<noteq> None))"

definition okNetworks :: "config \<Rightarrow> bool" where
  "okNetworks c \<longleftrightarrow>
     ParseIP (cf_VethNexthop c) \<noteq> None \<and> (cf_VRFName c = '''' \<or> isValidIdentifier (cf_VRFName c)) \<and>
     0 \<le> cf_RouteTableID c \<and> cf_RouteTableID c \<le> 252 \<and> list_all (\<lambda>s. ParseCIDR s \<noteq> None) (cf_NetworkCIDRs c)"

definition okTimings :: "config \<Rightarrow> bool" where
  "okTimings c \<longleftrightarrow>
     (cf_FRRPrefixList c = '''' \<or> isValidIdentifier (cf_FRRPrefixList c)) \<and> 0 < cf_ReconcileInterval c \<and>
     0 \<le> cf_DrainTimeout c \<and> (\<not> cf_DrainOnShutdown c \<or> 0 < cf_DrainTimeout c) \<and> 0 \<le> cf_DrainSettleDelay c \<and>
     0 \<le> cf_StaleChassisGracePeriod c \<and> (cf_MetricsListen c = '''' \<or> \<not> isl (SplitHostPort (cf_MetricsListen c)))"

definition okSettings :: "config \<Rightarrow> bool" where
  "okSettings c \<longleftrightarrow> okNetworks c \<and> okTimings c \<and> okVethLeak c \<and> okPortForwards c"

text \<open>The derived fields of an accepted configuration.\<close>

definition derivedFields :: "config \<Rightarrow> config" where
  "derivedFields c = c\<lparr>
     cf_NetworkFilters := (if cf_NetworkCIDRs c = [] then cf_NetworkFilters c
        else map (\<lambda>s. case ParseCIDR s of Some (_, n) \<Rightarrow> n | None \<Rightarrow> Net4 0 0) (cf_NetworkCIDRs c)),
     cf_VethProviderIP := (if cf_VethLeakEnabled c \<and> cf_VethProviderIP c = ''''
        then (case Option.bind (ParseIP (cf_VethNexthop c)) To4 of Some w \<Rightarrow> ip4String (w + 1) | None \<Rightarrow> ''<nil>'')
        else cf_VethProviderIP c),
     cf_PortForwardEnabled := (cf_PortForwards c \<noteq> [])\<rparr>"

lemma isIPv4_iff: "isIPv4 s \<longleftrightarrow> (\<exists>p. ParseIP s = Some p \<and> To4 p \<noteq> None)"
  by (auto simp: isIPv4_def split: option.splits)

lemma checkDestAddrs_None:
  "checkDestAddrs addrs seen = None \<longleftrightarrow> list_all isIPv4 addrs \<and> distinct addrs \<and> set addrs \<inter> seen = {}"
  by (induction addrs arbitrary: seen) (auto simp: isIPv4_iff split: option.splits)

lemma ruleKey_inj:
  "pr_Proto r \<in> {''tcp'', ''udp''} \<Longrightarrow> pr_Proto r' \<in> {''tcp'', ''udp''} \<Longrightarrow>
   ruleKey r = ruleKey r' \<longleftrightarrow> (pr_Proto r, pr_Port r) = (pr_Proto r', pr_Port r')"
  by (auto simp: ruleKey_def Itoa_inj)

lemma checkRule_None:
  "checkRule r seen = None \<longleftrightarrow> okRule r \<and> ruleKey r \<notin> seen"
  using checkDestAddrs_None [of "destAddrs r" "{}"]
  by (cases "checkDestAddrs (destAddrs r) {}") (auto simp: checkRule_def okRule_def maxBackends_def Suc_le_eq)

lemma checkRules_None:
  "checkRules rs seen = None \<longleftrightarrow> list_all okRule rs \<and> distinct (map ruleKey rs) \<and> ruleKey ` set rs \<inter> seen = {}"
proof (induction rs arbitrary: seen)
  case (Cons r rs)
  then show ?case using checkRule_None [of r seen] by (cases "checkRule r seen") auto
qed simp

lemma distinct_ruleKey:
  "list_all okRule rs \<Longrightarrow> distinct (map ruleKey rs) \<longleftrightarrow> distinct (map (\<lambda>r. (pr_Proto r, pr_Port r)) rs)"
  by (induction rs) (use ruleKey_inj in \<open>auto simp: okRule_def list_all_iff image_iff\<close>)

lemma okVIP_checks:
  "okVIP pf \<longleftrightarrow> isIPv4 (pf_VIP pf) \<and> pf_Rules pf \<noteq> [] \<and> checkRules (pf_Rules pf) {} = None"
  using distinct_ruleKey [of "pf_Rules pf"] by (auto simp: okVIP_def checkRules_None)

lemma checkVIPs_None:
  "checkVIPs pfs seen = None \<longleftrightarrow> list_all okVIP pfs \<and> distinct (map pf_VIP pfs) \<and> pf_VIP ` set pfs \<inter> seen = {}"
  by (induction pfs arbitrary: seen) (auto simp: okVIP_checks isIPv4_iff split: option.splits)

lemma parseFilters_ok:
  "parseFilters cs acc =
    (if list_all (\<lambda>s. ParseCIDR s \<noteq> None) cs
     then Inr (acc @ map (\<lambda>s. case ParseCIDR s of Some (_, n) \<Rightarrow> n | None \<Rightarrow> Net4 0 0) cs)
     else Inl (Err ''invalid network-cidr''))"
  by (induction cs arbitrary: acc) (auto split: option.splits)

lemma nil_not_IP: "ParseIP ''<nil>'' = None"
  by (simp add: go_net_eval)

lemma provider_default:
  assumes "ParseIP nexthop \<noteq> None"
  shows "nilIPString (Option.bind (ParseIP nexthop) nextIPInSubnet) =
       (case Option.bind (ParseIP nexthop) To4 of Some w \<Rightarrow> ip4String (w + 1) | None \<Rightarrow> ''<nil>'')"
    and "(ParseIP (nilIPString (Option.bind (ParseIP nexthop) nextIPInSubnet)) \<noteq> None) = isIPv4 nexthop"
  using assms by (auto simp: nextIP_word nilIPString_def isIPv4_iff nil_not_IP split: option.splits)

lemma checkVethLeak_ok:
  assumes "ParseIP (cf_VethNexthop c) \<noteq> None"
  shows "(case checkVethLeak c of Inl _ \<Rightarrow> \<not> okVethLeak c
     | Inr c' \<Rightarrow> okVethLeak c \<and> c' = c\<lparr>cf_VethProviderIP := cf_VethProviderIP (derivedFields c)\<rparr>)"
  using provider_default [OF assms]
  by (auto simp: checkVethLeak_def okVethLeak_def derivedFields_def Let_def)

lemma checkPortForwards_ok:
  "(case checkPortForwards c of Inl _ \<Rightarrow> \<not> okPortForwards c
     | Inr c' \<Rightarrow> okPortForwards c \<and> c' = c\<lparr>cf_PortForwardEnabled := (cf_PortForwards c \<noteq> [])\<rparr>)"
  using checkVIPs_None [of "cf_PortForwards c" "{}"]
  by (cases "checkVIPs (cf_PortForwards c) {}") (auto simp: checkPortForwards_def okPortForwards_def Let_def)

lemma checkTimings_None: "checkTimings c = None \<longleftrightarrow> okTimings c"
  by (auto simp: checkTimings_def okTimings_def)

lemma checkNetworks_ok:
  "(case checkNetworks c of Inl _ \<Rightarrow> \<not> okNetworks c
    | Inr c' \<Rightarrow> okNetworks c \<and> c' = c\<lparr>cf_NetworkFilters := cf_NetworkFilters (derivedFields c)\<rparr>)"
  by (auto simp: checkNetworks_def okNetworks_def parseFilters_ok derivedFields_def)

lemma validateSettings_spec:
  "(case validateSettings c of
      Inl _ \<Rightarrow> \<not> okSettings c
    | Inr c' \<Rightarrow> okSettings c \<and> c' = derivedFields c)"
proof (cases "checkNetworks c")
  case (Inl e)
  then show ?thesis using checkNetworks_ok [of c] by (simp add: validateSettings_def okSettings_def)
next
  case (Inr c1)
  then have c1: "c1 = c\<lparr>cf_NetworkFilters := cf_NetworkFilters (derivedFields c)\<rparr>" and nets: "okNetworks c"
    using checkNetworks_ok [of c] by simp_all
  have same: "checkTimings c1 = checkTimings c" "okVethLeak c1 = okVethLeak c"
    "cf_VethProviderIP (derivedFields c1) = cf_VethProviderIP (derivedFields c)"
    unfolding c1 by (simp_all add: checkTimings_def okVethLeak_def derivedFields_def)
  show ?thesis
  proof (cases "checkTimings c")
    case (Some e)
    then have "\<not> okSettings c" using checkTimings_None [of c] by (simp add: okSettings_def)
    then show ?thesis using Inr Some same by (simp add: validateSettings_def)
  next
    case None
    have n1: "ParseIP (cf_VethNexthop c1) \<noteq> None" using nets by (simp add: c1 okNetworks_def)
    show ?thesis
    proof (cases "checkVethLeak c1")
      case (Inl e)
      then have "\<not> okSettings c" using checkVethLeak_ok [OF n1] same by (simp add: okSettings_def)
      then show ?thesis using \<open>checkNetworks c = Inr c1\<close> None same Inl by (simp add: validateSettings_def)
    next
      case veth: (Inr c2)
      then have c2: "okVethLeak c" "c2 = c1\<lparr>cf_VethProviderIP := cf_VethProviderIP (derivedFields c)\<rparr>"
        using checkVethLeak_ok [OF n1] same by simp_all
      have pf: "okPortForwards c2 = okPortForwards c" unfolding c2(2) c1 by (simp add: okPortForwards_def)
      have v: "validateSettings c = checkPortForwards c2" using Inr None same veth by (simp add: validateSettings_def)
      have d: "c2\<lparr>cf_PortForwardEnabled := (cf_PortForwards c2 \<noteq> [])\<rparr> = derivedFields c"
        unfolding c2(2) c1 by (simp add: derivedFields_def)
      have "okSettings c = okPortForwards c" using nets None checkTimings_None [of c] c2(1) by (simp add: okSettings_def)
      then show ?thesis
        unfolding v using checkPortForwards_ok [of c2] pf d by (cases "checkPortForwards c2") simp_all
    qed
  qed
qed

lemma derived_ok: "okSettings c \<Longrightarrow> okSettings (derivedFields c) \<and> derivedFields (derivedFields c) = derivedFields c"
proof -
  assume ok: "okSettings c"
  have prov: "cf_VethLeakEnabled c \<Longrightarrow> ParseIP (cf_VethProviderIP (derivedFields c)) \<noteq> None \<and> cf_VethProviderIP (derivedFields c) \<noteq> ''''"
  proof -
    assume en: "cf_VethLeakEnabled c"
    have ne: "ParseIP '''' = None" by (simp add: go_net_eval)
    show "ParseIP (cf_VethProviderIP (derivedFields c)) \<noteq> None \<and> cf_VethProviderIP (derivedFields c) \<noteq> ''''"
    proof (cases "cf_VethProviderIP c = ''''")
      case True
      then obtain p w where "ParseIP (cf_VethNexthop c) = Some p" "To4 p = Some w"
        using ok en by (auto simp: okSettings_def okVethLeak_def isIPv4_iff)
      then have eq: "cf_VethProviderIP (derivedFields c) = ip4String (w + 1)" using en True by (simp add: derivedFields_def)
      show ?thesis unfolding eq using ne by (metis ParseIP_ip4String option.distinct(1))
    next
      case False
      then show ?thesis using ok en by (auto simp: okSettings_def okVethLeak_def derivedFields_def)
    qed
  qed
  have "okSettings (derivedFields c)"
    using ok prov unfolding okSettings_def
    by (auto simp: okNetworks_def okTimings_def okVethLeak_def okPortForwards_def derivedFields_def)
  moreover have "derivedFields (derivedFields c) = derivedFields c"
    using prov by (auto simp: derivedFields_def)
  ultimately show ?thesis ..
qed

text \<open>
  C23: the validation accepts exactly the sane configurations. \<open>validateSettings\<close> succeeds if and
  only if every range, address, identifier and uniqueness condition holds, and then returns the
  configuration with its three derived fields set and nothing else changed: the parsed network
  filters, the provider address (by default the next-hop plus one) and the port-forward switch.
  Validating the result again changes nothing.
\<close>

theorem settings_accepted_iff_sane:
  "(case validateSettings c of
      Inl _ \<Rightarrow> \<not> okSettings c
    | Inr c' \<Rightarrow> okSettings c \<and> c' = derivedFields c \<and> validateSettings c' = Inr c')"
proof (cases "validateSettings c")
  case (Inl e)
  then show ?thesis using validateSettings_spec [of c] by simp
next
  case (Inr c')
  then have ok: "okSettings c" "c' = derivedFields c" using validateSettings_spec [of c] by simp_all
  then have "okSettings c'" "derivedFields c' = c'" using derived_ok by simp_all
  then have "validateSettings c' = Inr c'" using validateSettings_spec [of c'] by (simp split: sum.splits)
  with ok Inr show ?thesis by simp
qed

subsection \<open>Remotes and duplicate VIPs\<close>

definition schemeOf :: "string \<Rightarrow> string option" where
  "schemeOf endpoint = map_option (\<lambda>(s, _). ToLower s) (Cut endpoint '':'')"

lemma countSchemes_ok:
  "countSchemes es a b =
    (if list_all (\<lambda>e. schemeOf e \<in> Some ` {''ssl'', ''tcp'', ''unix''}) es
     then Inr (a + length (filter (\<lambda>e. schemeOf e = Some ''ssl'') es),
               b + length (filter (\<lambda>e. schemeOf e \<noteq> Some ''ssl'') es))
     else Inl (projl (countSchemes es a b)))"
proof (induction es arbitrary: a b)
  case Nil
  then show ?case by simp
next
  case (Cons e es)
  show ?case
  proof (cases "schemeOf e")
    case None
    then show ?thesis by (simp add: schemeOf_def)
  next
    case (Some s)
    then obtain t where "Cut e '':'' = Some t" "ToLower (fst t) = s" by (auto simp: schemeOf_def)
    then show ?thesis
      using Some Cons [of "Suc a" b] Cons [of a "Suc b"] by (cases t) (auto simp: Let_def)
  qed
qed

text \<open>
  A failover cannot downgrade the connection. A remote list is accepted exactly when every
  endpoint names a known scheme, in any letter case, and all of them agree; it is dialled over
  TLS when that scheme is \<open>ssl\<close> for all of its endpoints, and a list that mixes is refused.
\<close>

theorem remote_list_never_mixes:
  "(case remoteUsesSSL remote of
      Inr True \<Rightarrow> ovsdbEndpoints remote \<noteq> [] \<and> list_all (\<lambda>e. schemeOf e = Some ''ssl'') (ovsdbEndpoints remote)
    | Inr False \<Rightarrow> list_all (\<lambda>e. schemeOf e \<in> {Some ''tcp'', Some ''unix''}) (ovsdbEndpoints remote)
    | Inl _ \<Rightarrow> list_ex (\<lambda>e. schemeOf e \<notin> {Some ''ssl'', Some ''tcp'', Some ''unix''}) (ovsdbEndpoints remote) \<or>
        (Some ''ssl'' \<in> schemeOf ` set (ovsdbEndpoints remote) \<and>
         schemeOf ` set (ovsdbEndpoints remote) \<inter> {Some ''tcp'', Some ''unix''} \<noteq> {}))"
proof -
  let ?es = "ovsdbEndpoints remote"
  show ?thesis
  proof (cases "list_all (\<lambda>e. schemeOf e \<in> Some ` {''ssl'', ''tcp'', ''unix''}) ?es")
    case True
    then have ok: "remoteUsesSSL remote =
      (if 0 < length (filter (\<lambda>e. schemeOf e = Some ''ssl'') ?es) \<and> 0 < length (filter (\<lambda>e. schemeOf e \<noteq> Some ''ssl'') ?es)
       then Inl (Err ''mixes ssl: and non-ssl endpoints'')
       else Inr (0 < length (filter (\<lambda>e. schemeOf e = Some ''ssl'') ?es)))"
      by (simp add: remoteUsesSSL_def countSchemes_ok [of ?es 0 0])
    consider "list_all (\<lambda>e. schemeOf e = Some ''ssl'') ?es" "?es \<noteq> []"
      | "list_all (\<lambda>e. schemeOf e \<noteq> Some ''ssl'') ?es"
      | "\<exists>e\<in>set ?es. schemeOf e = Some ''ssl''" "\<exists>e\<in>set ?es. schemeOf e \<noteq> Some ''ssl''"
      unfolding list_all_iff by (cases "?es = []") (simp, blast)
    then show ?thesis
    proof cases
      case 1
      then have "filter (\<lambda>e. schemeOf e = Some ''ssl'') ?es = ?es" "filter (\<lambda>e. schemeOf e \<noteq> Some ''ssl'') ?es = []"
        by (auto simp: list_all_iff filter_id_conv filter_empty_conv)
      with ok 1 show ?thesis by simp
    next
      case 2
      then have "filter (\<lambda>e. schemeOf e = Some ''ssl'') ?es = []" by (auto simp: list_all_iff filter_empty_conv)
      with ok 2 True show ?thesis by (auto simp: list_all_iff)
    next
      case 3
      then have "0 < length (filter (\<lambda>e. schemeOf e = Some ''ssl'') ?es)" "0 < length (filter (\<lambda>e. schemeOf e \<noteq> Some ''ssl'') ?es)"
        by (auto simp: filter_empty_conv)
      with ok have "remoteUsesSSL remote = Inl (Err ''mixes ssl: and non-ssl endpoints'')" by simp
      with 3 True show ?thesis by (force simp: list_all_iff list_ex_iff)
    qed
  next
    case False
    then have "countSchemes ?es 0 0 = Inl (projl (countSchemes ?es 0 0))" using countSchemes_ok [of ?es 0 0] by metis
    then obtain err where "countSchemes ?es 0 0 = Inl err" by blast
    then have "remoteUsesSSL remote = Inl err" by (simp add: remoteUsesSSL_def)
    with False show ?thesis by (auto simp: list_all_iff list_ex_iff)
  qed
qed

lemma v6loop_unfold:
  "0 < m \<Longrightarrow> v6loop m gs e s = v6loop (Suc (m - 1)) gs e s"
  by simp

lemma replicate_five: "replicate 5 x = [x, x, x, x, x]"
  by (simp add: eval_nat_numeral)

lemmas v6loop_numerals = v6loop_unfold [of 8, unfolded v6loop.simps(2), simplified]
  v6loop_unfold [of 7, unfolded v6loop.simps(2), simplified]

text \<open>
  The duplicate check of VIPs compares texts, not addresses: a list with the same address
  twice, once written as an IPv4-mapped IPv6 address, passes all checks.
\<close>

theorem duplicate_vip_slips_through:
  "\<exists>a b. ParseIP (pf_VIP a) = ParseIP (pf_VIP b) \<and> pf_VIP a \<noteq> pf_VIP b \<and> checkVIPs [a, b] {} = None"
proof -
  let ?r = "\<lparr>pr_Proto = ''tcp'', pr_Port = 443, pr_DestAddr = ''10.0.0.5'', pr_DestAddrs = [], pr_DestPort = 0, pr_Masquerade = None\<rparr>"
  let ?vip = "\<lambda>v. \<lparr>pf_VIP = v, pf_ManageVIP = True, pf_Masquerade = False, pf_HairpinMasquerade = False,
     pf_RouterMasquerade = False, pf_Rules = [?r]\<rparr>"
  have a: "ParseIP ''192.0.2.1'' = Some (mapped4 0xC0000201)" by (simp add: go_net_eval)
  have b: "ParseIP ''::ffff:192.0.2.1'' = Some (mapped4 0xC0000201)"
    by (simp add: go_net_eval parseV6_def v6loop_numerals groups_word_def hex_num_def is_hex_def hex_val_def mapped4_def
        mask_eq_exp_minus_1 push_bit_eq_mult replicate_five)
  have "isIPv4 ''10.0.0.5''" by (simp add: isIPv4_def go_net_eval)
  then have "list_all okVIP [?vip ''192.0.2.1'', ?vip ''::ffff:192.0.2.1'']"
    by (simp add: okVIP_def okRule_def destAddrs_def isIPv4_iff a b)
  then have "checkVIPs [?vip ''192.0.2.1'', ?vip ''::ffff:192.0.2.1''] {} = None" by (simp only: checkVIPs_None) simp
  then show ?thesis
    by (intro exI [of _ "?vip ''192.0.2.1''"] exI [of _ "?vip ''::ffff:192.0.2.1''"]) (simp add: a b)
qed

end
