(* ===== verification/ConfigRegistry.thy ===== *)
theory ConfigRegistry
  imports ConfigCheck
begin

section \<open>The option registry and the configuration layers\<close>

text \<open>
  The registry of \<open>config.go\<close>: one row per option with its flag, its key, its default and the
  field it binds, and the layers applied over it: defaults, the config file, the environment and
  the flags set on the command line. A field accessor is a getter and an updater of the
  \<open>config\<close> record. What the YAML library decodes a node to, in each type the options ask
  for, is part of the node; the flag library's result is the list of flags set with their values.
\<close>

subsection \<open>Parsing values\<close>

definition ParseBool :: "string \<Rightarrow> bool option" where
  "ParseBool s =
     (if s \<in> {''1'', ''t'', ''T'', ''true'', ''TRUE'', ''True''} then Some True
      else if s \<in> {''0'', ''f'', ''F'', ''false'', ''FALSE'', ''False''} then Some False
      else None)"

text \<open>
  \<open>time.ParseDuration\<close>: a sign, then numbers with a unit each. The product of a fraction and
  its unit is taken exactly and rounded down, which is what Go's floating point gives for the
  fractions a nanosecond can resolve.
\<close>

definition unitMap :: "string \<Rightarrow> nat option" where
  "unitMap u = map_of [(''ns'', 1), (''us'', 1000), ([CHR 0xC2, CHR 0xB5] @ ''s'', 1000), ([CHR 0xCE, CHR 0xBC] @ ''s'', 1000),
     (''ms'', 1000000), (''s'', 1000000000), (''m'', 60000000000), (''h'', 3600000000000)] u"

definition maxDur :: nat where
  "maxDur = 2 ^ 63"

fun leadingInt :: "string \<Rightarrow> nat \<Rightarrow> (nat \<times> string) option" where
  "leadingInt [] x = Some (x, [])"
| "leadingInt (c # s) x =
     (if \<not> is_digit c then Some (x, c # s)
      else if maxDur div 10 < x then None
      else (let y = x * 10 + digit_val c in if maxDur < y then None else leadingInt s y))"

fun leadingFraction :: "string \<Rightarrow> nat \<Rightarrow> nat \<Rightarrow> bool \<Rightarrow> nat \<times> nat \<times> string" where
  "leadingFraction [] x scale over = (x, scale, [])"
| "leadingFraction (c # s) x scale over =
     (if \<not> is_digit c then (x, scale, c # s)
      else if over then leadingFraction s x scale True
      else if (maxDur - 1) div 10 < x then leadingFraction s x scale True
      else (let y = x * 10 + digit_val c in
            if maxDur < y then leadingFraction s x scale True else leadingFraction s y (scale * 10) False))"

definition unitChar :: "char \<Rightarrow> bool" where
  "unitChar c \<longleftrightarrow> c \<noteq> CHR ''.'' \<and> \<not> is_digit c"

text \<open>One number with its unit: the nanoseconds and what follows it.\<close>

definition durationTerm :: "string \<Rightarrow> (nat \<times> string) option" where
  "durationTerm s =
     (if s = [] \<or> \<not> (hd s = CHR ''.'' \<or> is_digit (hd s)) then None
      else (case leadingInt s 0 of
        None \<Rightarrow> None
      | Some (v, s1) \<Rightarrow>
          (let pre = (length s1 \<noteq> length s);
               (f, scale, s2) = (if s1 \<noteq> [] \<and> hd s1 = CHR ''.'' then leadingFraction (tl s1) 0 1 False else (0, 1, s1));
               post = (s1 \<noteq> [] \<and> hd s1 = CHR ''.'' \<and> length s2 \<noteq> length (tl s1));
               u = takeWhile unitChar s2; s3 = dropWhile unitChar s2
           in if \<not> pre \<and> \<not> post then None
              else if u = [] then None
              else (case unitMap u of
                      None \<Rightarrow> None
                    | Some unit \<Rightarrow>
                        if maxDur div unit < v then None
                        else (let w = v * unit + (if 0 < f then f * unit div scale else 0) in
                              if 0 < f \<and> maxDur < w then None else Some (w, s3))))))"

lemma leadingInt_length: "leadingInt s x = Some (v, r) \<Longrightarrow> length r \<le> length s"
  by (induction s x rule: leadingInt.induct) (auto simp: Let_def split: if_splits)

lemma leadingFraction_length: "leadingFraction s x sc b = (f, sc', r) \<Longrightarrow> length r \<le> length s"
  by (induction s x sc b rule: leadingFraction.induct) (auto simp: Let_def split: if_splits)

lemma durationTerm_length: "durationTerm s = Some (w, r) \<Longrightarrow> length r < length s"
proof -
  assume *: "durationTerm s = Some (w, r)"
  then obtain v s1 where l: "leadingInt s 0 = Some (v, s1)" and s: "s \<noteq> []"
    by (auto simp: durationTerm_def split: if_splits option.splits)
  obtain f scale s2 where fr: "(if s1 \<noteq> [] \<and> hd s1 = CHR ''.'' then leadingFraction (tl s1) 0 1 False else (0, 1, s1)) = (f, scale, s2)"
    by (metis prod_cases3)
  have "takeWhile unitChar s2 \<noteq> []" and r: "r = dropWhile unitChar s2"
    using * l fr by (auto simp: durationTerm_def Let_def split: if_splits option.splits)
  then have "length r < length s2"
    by (metis add.commute append_Nil2 length_append length_greater_0_conv less_add_same_cancel1 takeWhile_dropWhile_id)
  also have "length s2 \<le> length s1"
    using fr leadingFraction_length [of "tl s1" 0 1 False f scale s2] by (auto split: if_splits)
  also have "\<dots> \<le> length s" using leadingInt_length [OF l] .
  finally show ?thesis .
qed

function durationTerms :: "string \<Rightarrow> nat \<Rightarrow> nat option" where
  "durationTerms s d =
     (if s = [] then Some d
      else (case durationTerm s of
              None \<Rightarrow> None
            | Some (w, r) \<Rightarrow> if maxDur < d + w then None else durationTerms r (d + w)))"
  by pat_completeness auto

termination
  by (relation "measure (\<lambda>(s, d). length s)") (auto dest: durationTerm_length)

declare durationTerms.simps [simp del]

definition ParseDuration :: "string \<Rightarrow> int option" where
  "ParseDuration s0 =
     (let neg = HasPrefix s0 ''-'';
          s = (if HasPrefix s0 ''-'' \<or> HasPrefix s0 ''+'' then tl s0 else s0)
      in if s = ''0'' then Some 0
         else if s = '''' then None
         else (case durationTerms s 0 of
                 None \<Rightarrow> None
               | Some d \<Rightarrow> if neg then Some (- int d) else if maxDur - 1 < d then None else Some (int d)))"

subsection \<open>Options\<close>

datatype opt_value =
    VString string
  | VBool bool
  | VInt int
  | VDuration int
  | VStrings "string list"
  | VForwards "port_forward_vip list"

datatype opt_kind = StringOpt | BoolOpt | IntOpt | DurationOpt | StringSliceOpt | PortForwardsOpt

record config_option =
  op_Flag :: string
  op_Key :: string
  op_kind :: opt_kind
  op_default :: "opt_value option"
  op_value :: "config \<Rightarrow> opt_value"
  op_put :: "opt_value \<Rightarrow> config \<Rightarrow> config"

definition upperChar :: "char \<Rightarrow> char" where
  "upperChar c = (case map_of (zip lower_letters upper_letters) c of None \<Rightarrow> c | Some d \<Rightarrow> d)"

definition envVarName :: "string \<Rightarrow> string" where
  "envVarName flagName = ''OVN_NETWORK_'' @ map upperChar (map (\<lambda>c. if c = CHR ''-'' then CHR ''_'' else c) flagName)"

definition yamlKeyName :: "string \<Rightarrow> string" where
  "yamlKeyName flagName = map (\<lambda>c. if c = CHR ''-'' then CHR ''_'' else c) flagName"

definition EnvVar :: "config_option \<Rightarrow> string" where
  "EnvVar o1 = (if op_Flag o1 = '''' then '''' else envVarName (op_Flag o1))"

definition stringOpt :: "string \<Rightarrow> string \<Rightarrow> (config \<Rightarrow> string) \<Rightarrow> ((string \<Rightarrow> string) \<Rightarrow> config \<Rightarrow> config) \<Rightarrow> config_option" where
  "stringOpt f d get upd = \<lparr>op_Flag = f, op_Key = yamlKeyName f, op_kind = StringOpt, op_default = Some (VString d),
     op_value = (\<lambda>c. VString (get c)), op_put = (\<lambda>v. upd (\<lambda>old. case v of VString s \<Rightarrow> s | _ \<Rightarrow> old))\<rparr>"

definition boolOpt :: "string \<Rightarrow> bool \<Rightarrow> (config \<Rightarrow> bool) \<Rightarrow> ((bool \<Rightarrow> bool) \<Rightarrow> config \<Rightarrow> config) \<Rightarrow> config_option" where
  "boolOpt f d get upd = \<lparr>op_Flag = f, op_Key = yamlKeyName f, op_kind = BoolOpt, op_default = Some (VBool d),
     op_value = (\<lambda>c. VBool (get c)), op_put = (\<lambda>v. upd (\<lambda>old. case v of VBool s \<Rightarrow> s | _ \<Rightarrow> old))\<rparr>"

definition intOpt :: "string \<Rightarrow> int \<Rightarrow> (config \<Rightarrow> int) \<Rightarrow> ((int \<Rightarrow> int) \<Rightarrow> config \<Rightarrow> config) \<Rightarrow> config_option" where
  "intOpt f d get upd = \<lparr>op_Flag = f, op_Key = yamlKeyName f, op_kind = IntOpt, op_default = Some (VInt d),
     op_value = (\<lambda>c. VInt (get c)), op_put = (\<lambda>v. upd (\<lambda>old. case v of VInt s \<Rightarrow> s | _ \<Rightarrow> old))\<rparr>"

definition durationOpt :: "string \<Rightarrow> int \<Rightarrow> (config \<Rightarrow> int) \<Rightarrow> ((int \<Rightarrow> int) \<Rightarrow> config \<Rightarrow> config) \<Rightarrow> config_option" where
  "durationOpt f d get upd = \<lparr>op_Flag = f, op_Key = yamlKeyName f, op_kind = DurationOpt, op_default = Some (VDuration d),
     op_value = (\<lambda>c. VDuration (get c)), op_put = (\<lambda>v. upd (\<lambda>old. case v of VDuration s \<Rightarrow> s | _ \<Rightarrow> old))\<rparr>"

definition stringSliceOpt ::
  "string \<Rightarrow> (config \<Rightarrow> string list) \<Rightarrow> ((string list \<Rightarrow> string list) \<Rightarrow> config \<Rightarrow> config) \<Rightarrow> config_option" where
  "stringSliceOpt f get upd = \<lparr>op_Flag = f, op_Key = yamlKeyName f, op_kind = StringSliceOpt, op_default = None,
     op_value = (\<lambda>c. VStrings (get c)), op_put = (\<lambda>v. upd (\<lambda>old. case v of VStrings s \<Rightarrow> s | _ \<Rightarrow> old))\<rparr>"

definition portForwardsOpt ::
  "string \<Rightarrow> (config \<Rightarrow> port_forward_vip list) \<Rightarrow>
   ((port_forward_vip list \<Rightarrow> port_forward_vip list) \<Rightarrow> config \<Rightarrow> config) \<Rightarrow> config_option" where
  "portForwardsOpt key get upd = \<lparr>op_Flag = '''', op_Key = key, op_kind = PortForwardsOpt, op_default = None,
     op_value = (\<lambda>c. VForwards (get c)), op_put = (\<lambda>v. upd (\<lambda>old. case v of VForwards s \<Rightarrow> s | _ \<Rightarrow> old))\<rparr>"

definition configOptions :: "config_option list" where
  "configOptions = [
     stringOpt ''ovn-sb-remote'' '''' cf_OVNSBRemote cf_OVNSBRemote_update,
     stringOpt ''ovn-nb-remote'' '''' cf_OVNNBRemote cf_OVNNBRemote_update,
     stringOpt ''ovn-ssl-ca'' '''' cf_OVNSSLCA cf_OVNSSLCA_update,
     stringOpt ''ovn-ssl-cert'' '''' cf_OVNSSLCert cf_OVNSSLCert_update,
     stringOpt ''ovn-ssl-key'' '''' cf_OVNSSLKey cf_OVNSSLKey_update,
     stringOpt ''bridge-dev'' ''br-ex'' cf_BridgeDev cf_BridgeDev_update,
     stringOpt ''vrf-name'' ''vrf-provider'' cf_VRFName cf_VRFName_update,
     stringOpt ''veth-nexthop'' ''169.254.0.1'' cf_VethNexthop cf_VethNexthop_update,
     stringSliceOpt ''network-cidr'' cf_NetworkCIDRs cf_NetworkCIDRs_update,
     stringOpt ''gateway-port'' '''' cf_GatewayPort cf_GatewayPort_update,
     intOpt ''route-table-id'' 0 cf_RouteTableID cf_RouteTableID_update,
     stringOpt ''bridge-ip'' ''169.254.169.254'' cf_BridgeIP cf_BridgeIP_update,
     stringOpt ''ovs-wrapper'' '''' cf_OVSWrapper cf_OVSWrapper_update,
     durationOpt ''reconcile-interval'' 60000000000 cf_ReconcileInterval cf_ReconcileInterval_update,
     boolOpt ''route-watch'' True cf_RouteWatch cf_RouteWatch_update,
     boolOpt ''ovs-flow-watch'' True cf_OVSFlowWatch cf_OVSFlowWatch_update,
     boolOpt ''frr-watch'' True cf_FRRWatch cf_FRRWatch_update,
     stringOpt ''log-level'' ''info'' cf_LogLevel cf_LogLevel_update,
     boolOpt ''dry-run'' False cf_DryRun cf_DryRun_update,
     boolOpt ''cleanup-on-shutdown'' True cf_CleanupOnShutdown cf_CleanupOnShutdown_update,
     boolOpt ''drain-on-shutdown'' True cf_DrainOnShutdown cf_DrainOnShutdown_update,
     durationOpt ''drain-timeout'' 60000000000 cf_DrainTimeout cf_DrainTimeout_update,
     durationOpt ''drain-settle-delay'' 500000000 cf_DrainSettleDelay cf_DrainSettleDelay_update,
     stringOpt ''frr-prefix-list'' ''ANNOUNCED-NETWORKS'' cf_FRRPrefixList cf_FRRPrefixList_update,
     durationOpt ''stale-chassis-grace-period'' 300000000000 cf_StaleChassisGracePeriod cf_StaleChassisGracePeriod_update,
     boolOpt ''veth-leak-enabled'' True cf_VethLeakEnabled cf_VethLeakEnabled_update,
     stringOpt ''veth-provider-ip'' '''' cf_VethProviderIP cf_VethProviderIP_update,
     intOpt ''veth-leak-table-id'' 200 cf_VethLeakTableID cf_VethLeakTableID_update,
     intOpt ''veth-leak-rule-priority'' 2000 cf_VethLeakRulePriority cf_VethLeakRulePriority_update,
     stringOpt ''metrics-listen'' '''' cf_MetricsListen cf_MetricsListen_update,
     stringOpt ''port-forward-dev'' ''loopback1'' cf_PortForwardDev cf_PortForwardDev_update,
     intOpt ''port-forward-table-id'' 201 cf_PortForwardTableID cf_PortForwardTableID_update,
     boolOpt ''port-forward-l3mdev-accept'' False cf_PortForwardL3mdevAccept cf_PortForwardL3mdevAccept_update,
     intOpt ''port-forward-ct-zone'' 64000 cf_PortForwardCTZone cf_PortForwardCTZone_update,
     portForwardsOpt ''port_forwards'' cf_PortForwards cf_PortForwards_update]"

lemmas option_simps = stringOpt_def boolOpt_def intOpt_def durationOpt_def stringSliceOpt_def portForwardsOpt_def

definition copyValue :: "config_option \<Rightarrow> config \<Rightarrow> config \<Rightarrow> config" where
  "copyValue o1 dst src = op_put o1 (op_value o1 src) dst"

text \<open>The values an option's own type has.\<close>

definition fitsKind :: "config_option \<Rightarrow> opt_value \<Rightarrow> bool" where
  "fitsKind o1 v = (case (op_kind o1, v) of
       (StringOpt, VString _) \<Rightarrow> True | (BoolOpt, VBool _) \<Rightarrow> True | (IntOpt, VInt _) \<Rightarrow> True
     | (DurationOpt, VDuration _) \<Rightarrow> True | (StringSliceOpt, VStrings _) \<Rightarrow> True
     | (PortForwardsOpt, VForwards _) \<Rightarrow> True | _ \<Rightarrow> False)"

subsection \<open>The registry as an interface\<close>

text \<open>
  A configuration layer asks every option for the value its source gives, stops at the first
  value that does not parse and stores the others.
\<close>

fun applyLayer :: "('o \<Rightarrow> 'v \<Rightarrow> 'c \<Rightarrow> 'c) \<Rightarrow> ('o \<Rightarrow> 'v option result) \<Rightarrow> 'o list \<Rightarrow> 'c \<Rightarrow> 'c result" where
  "applyLayer put source [] c = Inr c"
| "applyLayer put source (o1 # os) c =
     (case source o1 of
        Inl e \<Rightarrow> Inl e
      | Inr None \<Rightarrow> applyLayer put source os c
      | Inr (Some v) \<Rightarrow> applyLayer put source os (put o1 v c))"

locale option_registry =
  fixes opts :: "'o list" and key :: "'o \<Rightarrow> 'k" and val :: "'o \<Rightarrow> 'c \<Rightarrow> 'v" and put :: "'o \<Rightarrow> 'v \<Rightarrow> 'c \<Rightarrow> 'c"
    and fits :: "'o \<Rightarrow> 'v \<Rightarrow> bool"
  assumes keys_distinct: "distinct (map key opts)"
    and value_fits: "o1 \<in> set opts \<Longrightarrow> fits o1 (val o1 c)"
    and put_value: "o1 \<in> set opts \<Longrightarrow> fits o1 v \<Longrightarrow> val o1 (put o1 v c) = v"
    and put_other: "o1 \<in> set opts \<Longrightarrow> o2 \<in> set opts \<Longrightarrow> key o1 \<noteq> key o2 \<Longrightarrow> val o2 (put o1 v c) = val o2 c"
begin

lemma key_eq: "o1 \<in> set opts \<Longrightarrow> o2 \<in> set opts \<Longrightarrow> key o1 = key o2 \<Longrightarrow> o1 = o2"
  using keys_distinct by (auto simp: distinct_map dest: inj_onD)

lemma distinct_opts: "distinct opts"
  using keys_distinct by (simp add: distinct_map)

lemma put_val:
  "o1 \<in> set opts \<Longrightarrow> o2 \<in> set opts \<Longrightarrow> fits o1 v \<Longrightarrow> val o2 (put o1 v c) = (if o2 = o1 then v else val o2 c)"
  using put_value put_other key_eq by metis

lemma applyLayer_value:
  assumes "set os \<subseteq> set opts" and "distinct os" and "o1 \<in> set opts"
    and fit: "\<And>o2 v. o2 \<in> set os \<Longrightarrow> source o2 = Inr (Some v) \<Longrightarrow> fits o2 v"
    and res: "applyLayer put source os c = Inr c'"
  shows "val o1 c' = (if o1 \<in> set os then (case source o1 of Inr (Some v) \<Rightarrow> v | _ \<Rightarrow> val o1 c) else val o1 c)"
  using assms
proof (induction os arbitrary: c)
  case (Cons o2 os)
  then have sub: "o2 \<in> set opts" "set os \<subseteq> set opts" "distinct os" "o2 \<notin> set os" by auto
  show ?case
  proof (cases "source o2")
    case (Inl e)
    then show ?thesis using Cons.prems by simp
  next
    case (Inr w)
    show ?thesis
    proof (cases w)
      case None
      then have "applyLayer put source os c = Inr c'" using Cons.prems Inr by simp
      then have "val o1 c' = (if o1 \<in> set os then (case source o1 of Inr (Some v) \<Rightarrow> v | _ \<Rightarrow> val o1 c) else val o1 c)"
        using Cons.IH [of c] Cons.prems(3,4) sub by (meson list.set_intros(2))
      then show ?thesis using Inr None by auto
    next
      case (Some v)
      then have "applyLayer put source os (put o2 v c) = Inr c'" using Cons.prems Inr by simp
      then have "val o1 c' = (if o1 \<in> set os then (case source o1 of Inr (Some x) \<Rightarrow> x | _ \<Rightarrow> val o1 (put o2 v c)) else val o1 (put o2 v c))"
        using Cons.IH [of "put o2 v c"] Cons.prems(3,4) sub by (meson list.set_intros(2))
      moreover have "fits o2 v" using Cons.prems(4) Inr Some by simp
      ultimately show ?thesis
        using put_val [OF sub(1) Cons.prems(3)] Inr Some sub(4) by (auto split: sum.splits option.splits)
    qed
  qed
qed simp

lemma applyLayer_all:
  assumes "o1 \<in> set opts" and "\<And>o2 v. o2 \<in> set opts \<Longrightarrow> source o2 = Inr (Some v) \<Longrightarrow> fits o2 v"
    and "applyLayer put source opts c = Inr c'"
  shows "val o1 c' = (case source o1 of Inr (Some v) \<Rightarrow> v | _ \<Rightarrow> val o1 c)"
  using applyLayer_value [OF subset_refl distinct_opts assms] assms(1) by (simp only: if_True)

lemma applyLayer_ok: "(\<exists>c'. applyLayer put source os c = Inr c') \<longleftrightarrow> list_all (\<lambda>o1. \<not> isl (source o1)) os"
  by (induction os arbitrary: c) (auto split: sum.splits option.splits)

end

lemma configOptions_keys: "distinct (map op_Key configOptions)"
  by (simp add: configOptions_def option_simps yamlKeyName_def)

lemma configOptions_value:
  "list_all (\<lambda>o1. \<forall>c v. fitsKind o1 (op_value o1 c) \<and> (fitsKind o1 v \<longrightarrow> op_value o1 (op_put o1 v c) = v)) configOptions"
  by (simp add: configOptions_def option_simps fitsKind_def split: opt_value.splits)

lemma configOptions_other:
  "list_all (\<lambda>o1. list_all (\<lambda>o2. op_Key o1 = op_Key o2 \<or> (\<forall>c v. op_value o2 (op_put o1 v c) = op_value o2 c)) configOptions) configOptions"
  by (simp add: configOptions_def option_simps yamlKeyName_def)

interpretation registry: option_registry configOptions op_Key op_value op_put fitsKind
proof unfold_locales
  show "distinct (map op_Key configOptions)" by (rule configOptions_keys)
next
  fix o1 c assume "o1 \<in> set configOptions"
  then show "fitsKind o1 (op_value o1 c)" using configOptions_value by (simp add: list_all_iff)
next
  fix o1 v c assume "o1 \<in> set configOptions" "fitsKind o1 v"
  then show "op_value o1 (op_put o1 v c) = v" using configOptions_value by (simp add: list_all_iff)
next
  fix o1 o2 v c assume "o1 \<in> set configOptions" "o2 \<in> set configOptions" "op_Key o1 \<noteq> op_Key o2"
  then show "op_value o2 (op_put o1 v c) = op_value o2 c" using configOptions_other by (simp add: list_all_iff) blast
qed

subsection \<open>The layers\<close>

text \<open>
  A YAML node, as the options decode it: whether it is null, the text of a scalar, and what the
  YAML library decodes it to in each type. A null node is not handed to \<open>UnmarshalYAML\<close>.
\<close>

record yaml_node =
  yn_null :: bool
  yn_scalar :: "string option"
  yn_string :: "string result"
  yn_bool :: "bool result"
  yn_int :: "int result"
  yn_strings :: "string list result"
  yn_forwards :: "port_forward_vip list result"

definition StringOrSlice :: "yaml_node \<Rightarrow> string list result" where
  "StringOrSlice n =
     (if yn_null n then Inr []
      else (case yn_scalar n of Some s \<Rightarrow> Inr [s] | None \<Rightarrow> yn_strings n))"

definition invalidOpt :: "string \<Rightarrow> err" where
  "invalidOpt name = Err (''invalid '' @ name)"

text \<open>The value a config-file node gives an option; \<open>None\<close> when the option ignores it as not set.\<close>

definition yamlValue :: "config_option \<Rightarrow> yaml_node \<Rightarrow> opt_value option result" where
  "yamlValue o1 n =
     (let bad = Inl (invalidOpt (op_Key o1)) in
      case op_kind o1 of
        StringOpt \<Rightarrow> (case yn_string n of Inl _ \<Rightarrow> bad | Inr s \<Rightarrow> Inr (if s \<noteq> '''' then Some (VString s) else None))
      | BoolOpt \<Rightarrow> (case yn_bool n of Inl _ \<Rightarrow> bad | Inr b \<Rightarrow> Inr (Some (VBool b)))
      | IntOpt \<Rightarrow> (case yn_int n of Inl _ \<Rightarrow> bad | Inr i \<Rightarrow> Inr (Some (VInt i)))
      | DurationOpt \<Rightarrow> (case yn_string n of
            Inl _ \<Rightarrow> bad
          | Inr s \<Rightarrow> if s = '''' then Inr None
              else (case ParseDuration s of None \<Rightarrow> bad | Some d \<Rightarrow> Inr (Some (VDuration d))))
      | StringSliceOpt \<Rightarrow> (case StringOrSlice n of Inl _ \<Rightarrow> bad | Inr l \<Rightarrow> Inr (if l \<noteq> [] then Some (VStrings l) else None))
      | PortForwardsOpt \<Rightarrow> (case yn_forwards n of Inl _ \<Rightarrow> bad | Inr l \<Rightarrow> Inr (if l \<noteq> [] then Some (VForwards l) else None)))"

text \<open>The value an environment variable gives. The port-forward list has no variable.\<close>

definition envValue :: "config_option \<Rightarrow> string \<Rightarrow> opt_value result" where
  "envValue o1 s =
     (let bad = Inl (invalidOpt (EnvVar o1)) in
      case op_kind o1 of
        StringOpt \<Rightarrow> Inr (VString s)
      | BoolOpt \<Rightarrow> (case ParseBool s of None \<Rightarrow> bad | Some b \<Rightarrow> Inr (VBool b))
      | IntOpt \<Rightarrow> (case Atoi s of None \<Rightarrow> bad | Some i \<Rightarrow> Inr (VInt i))
      | DurationOpt \<Rightarrow> (case ParseDuration s of None \<Rightarrow> bad | Some d \<Rightarrow> Inr (VDuration d))
      | StringSliceOpt \<Rightarrow> Inr (VStrings (splitAndTrim s (CHR '','')))
      | PortForwardsOpt \<Rightarrow> bad)"

text \<open>
  What the flag library stored for a flag: its own boolean or integer, or the text.
\<close>

datatype flag_value = FString string | FBool bool | FInt int

definition flagValue :: "config_option \<Rightarrow> flag_value \<Rightarrow> opt_value result" where
  "flagValue o1 v =
     (let bad = Inl (invalidOpt (CHR ''-'' # op_Flag o1)) in
      case (op_kind o1, v) of
        (StringOpt, FString s) \<Rightarrow> Inr (VString s)
      | (BoolOpt, FBool b) \<Rightarrow> Inr (VBool b)
      | (IntOpt, FInt i) \<Rightarrow> Inr (VInt i)
      | (DurationOpt, FString s) \<Rightarrow> (case ParseDuration s of None \<Rightarrow> bad | Some d \<Rightarrow> Inr (VDuration d))
      | (StringSliceOpt, FString s) \<Rightarrow> Inr (VStrings (splitAndTrim s (CHR '','')))
      | _ \<Rightarrow> bad)"

text \<open>Layer 0: the defaults, over the zero configuration.\<close>

definition defaultSource :: "config_option \<Rightarrow> opt_value option result" where
  "defaultSource o1 = Inr (op_default o1)"

text \<open>Layer 1: the config file, a map from keys to nodes. Unknown keys are warned about.\<close>

definition fileSource :: "(string \<Rightarrow> yaml_node option) \<Rightarrow> config_option \<Rightarrow> opt_value option result" where
  "fileSource doc o1 = (case doc (op_Key o1) of None \<Rightarrow> Inr None | Some node \<Rightarrow> yamlValue o1 node)"

definition applyFileConfig :: "config \<Rightarrow> (string \<Rightarrow> yaml_node option) \<Rightarrow> config result" where
  "applyFileConfig cfg doc = applyLayer op_put (fileSource doc) configOptions cfg"

text \<open>Layer 2: the environment. An empty variable is not set.\<close>

definition envSource :: "(string \<Rightarrow> string) \<Rightarrow> config_option \<Rightarrow> opt_value option result" where
  "envSource env o1 =
     (if op_kind o1 = PortForwardsOpt then Inr None
      else if env (EnvVar o1) = '''' then Inr None
      else (case envValue o1 (env (EnvVar o1)) of Inl e \<Rightarrow> Inl e | Inr v \<Rightarrow> Inr (Some v)))"

definition applyEnvConfig :: "config \<Rightarrow> (string \<Rightarrow> string) \<Rightarrow> config result" where
  "applyEnvConfig cfg env = applyLayer op_put (envSource env) configOptions cfg"

text \<open>
  Layer 3: the flags the user set, in the order \<open>flag.Visit\<close> walks them. Flags that belong to no
  option (\<open>config\<close>, \<open>version\<close>, \<open>check-config\<close>) are passed over.
\<close>

definition byFlag :: "string \<Rightarrow> config_option option" where
  "byFlag name = map_of (rev (map (\<lambda>o1. (op_Flag o1, o1)) (filter (\<lambda>o1. op_Flag o1 \<noteq> '''') configOptions))) name"

fun applyFlags :: "config \<Rightarrow> (string \<times> flag_value) list \<Rightarrow> config result" where
  "applyFlags cfg [] = Inr cfg"
| "applyFlags cfg ((name, v) # fs) =
     (case byFlag name of
        None \<Rightarrow> applyFlags cfg fs
      | Some o1 \<Rightarrow> (case flagValue o1 v of
            Inl e \<Rightarrow> Inl e
          | Inr w \<Rightarrow> applyFlags (op_put o1 w cfg) fs))"

text \<open>
  What the flag library makes of the arguments: the action flags and the flags set. The path of
  the config file defaults to an environment variable.
\<close>

record parsed_flags =
  pa_config :: "string option"
  pa_version :: bool
  pa_checkConfig :: bool
  pa_set :: "(string \<times> flag_value) list"

definition configPath :: "parsed_flags \<Rightarrow> (string \<Rightarrow> string) \<Rightarrow> string" where
  "configPath fs env = (case pa_config fs of Some p \<Rightarrow> p | None \<Rightarrow> env ''OVN_NETWORK_CONFIG'')"

definition fileLayer :: "(string \<Rightarrow> (string \<Rightarrow> yaml_node option) result) \<Rightarrow> string \<Rightarrow> config \<Rightarrow> config result" where
  "fileLayer readConfigFile path cfg =
     (if path = '''' then Inr cfg
      else (case readConfigFile path of Inl e \<Rightarrow> Inl e | Inr doc \<Rightarrow> applyFileConfig cfg doc))"

definition layeredConfig ::
  "(string \<Rightarrow> (string \<Rightarrow> yaml_node option) result) \<Rightarrow> (string \<Rightarrow> string) \<Rightarrow> parsed_flags \<Rightarrow> config result" where
  "layeredConfig readConfigFile env fs =
     (case applyLayer op_put defaultSource configOptions zeroConfig of
        Inl e \<Rightarrow> Inl e
      | Inr cfg0 \<Rightarrow> (case fileLayer readConfigFile (configPath fs env) cfg0 of
          Inl e \<Rightarrow> Inl e
        | Inr cfg1 \<Rightarrow> (case applyEnvConfig cfg1 env of
            Inl e \<Rightarrow> Inl e
          | Inr cfg2 \<Rightarrow> (case applyFlags cfg2 (pa_set fs) of
              Inl e \<Rightarrow> Inl e
            | Inr cfg3 \<Rightarrow> Inr (cfg3\<lparr>cf_CheckConfig := pa_checkConfig fs\<rparr>)))))"

definition loadConfig ::
  "(string \<Rightarrow> (string \<Rightarrow> yaml_node option) result) \<Rightarrow> tls_files \<Rightarrow> (string \<Rightarrow> string) \<Rightarrow> parsed_flags result \<Rightarrow> config result" where
  "loadConfig readConfigFile files env args =
     (case args of
        Inl e \<Rightarrow> Inl e
      | Inr fs \<Rightarrow>
          if pa_version fs then Inl (Err ''version requested'')
          else (case layeredConfig readConfigFile env fs of
              Inl e \<Rightarrow> Inl e
            | Inr cfg \<Rightarrow> (case validateConfig files cfg of
                Inl e \<Rightarrow> Inl e
              | Inr cfg1 \<Rightarrow> validateMode cfg1)))"

subsection \<open>Precedence\<close>

definition flagSource :: "(string \<times> flag_value) list \<Rightarrow> config_option \<Rightarrow> opt_value option result" where
  "flagSource fs o1 =
     (if op_Flag o1 = '''' then Inr None
      else (case map_of fs (op_Flag o1) of
              None \<Rightarrow> Inr None
            | Some v \<Rightarrow> (case flagValue o1 v of Inl e \<Rightarrow> Inl e | Inr w \<Rightarrow> Inr (Some w))))"

definition orElse :: "opt_value option result \<Rightarrow> opt_value \<Rightarrow> opt_value" where
  "orElse s d = (case s of Inr (Some v) \<Rightarrow> v | _ \<Rightarrow> d)"

definition docOf :: "(string \<Rightarrow> (string \<Rightarrow> yaml_node option) result) \<Rightarrow> string \<Rightarrow> string \<Rightarrow> yaml_node option" where
  "docOf readConfigFile path = (if path = '''' then (\<lambda>_. None) else (case readConfigFile path of Inr doc \<Rightarrow> doc | Inl _ \<Rightarrow> (\<lambda>_. None)))"

definition effectiveValue ::
  "(string \<Rightarrow> yaml_node option) \<Rightarrow> (string \<Rightarrow> string) \<Rightarrow> (string \<times> flag_value) list \<Rightarrow> config_option \<Rightarrow> opt_value" where
  "effectiveValue doc env fs o1 =
     orElse (flagSource fs o1) (orElse (envSource env o1) (orElse (fileSource doc o1)
       (orElse (defaultSource o1) (op_value o1 zeroConfig))))"

lemma default_fits: "o1 \<in> set configOptions \<Longrightarrow> defaultSource o1 = Inr (Some v) \<Longrightarrow> fitsKind o1 v"
proof -
  have "list_all (\<lambda>o1. case op_default o1 of None \<Rightarrow> True | Some v \<Rightarrow> fitsKind o1 v) configOptions"
    by (simp add: configOptions_def option_simps fitsKind_def)
  then show "o1 \<in> set configOptions \<Longrightarrow> defaultSource o1 = Inr (Some v) \<Longrightarrow> fitsKind o1 v"
    by (auto simp: list_all_iff defaultSource_def dest!: bspec)
qed

lemma file_fits: "fileSource doc o1 = Inr (Some v) \<Longrightarrow> fitsKind o1 v"
  by (auto simp: fileSource_def yamlValue_def fitsKind_def Let_def split: option.splits opt_kind.splits sum.splits if_splits)

lemma env_fits: "envSource env o1 = Inr (Some v) \<Longrightarrow> fitsKind o1 v"
  by (auto simp: envSource_def envValue_def fitsKind_def Let_def split: option.splits opt_kind.splits sum.splits if_splits)

lemma flag_fits: "flagSource fs o1 = Inr (Some v) \<Longrightarrow> fitsKind o1 v"
  by (auto simp: flagSource_def flagValue_def fitsKind_def Let_def
      split: option.splits opt_kind.splits flag_value.splits sum.splits if_splits)

lemma flags_distinct: "distinct (map op_Flag configOptions)"
  by (simp add: configOptions_def option_simps)

lemma byFlag_Some: "byFlag name = Some o1 \<longleftrightarrow> o1 \<in> set configOptions \<and> op_Flag o1 = name \<and> name \<noteq> ''''"
proof -
  let ?rows = "rev (map (\<lambda>o1. (op_Flag o1, o1)) (filter (\<lambda>o1. op_Flag o1 \<noteq> '''') configOptions))"
  have "map fst ?rows = rev (map op_Flag (filter (\<lambda>o1. op_Flag o1 \<noteq> '''') configOptions))"
    by (simp add: rev_map comp_def)
  then have "distinct (map fst ?rows)" using flags_distinct by (simp add: distinct_map_filter)
  then have "byFlag name = Some o1 \<longleftrightarrow> (name, o1) \<in> set ?rows" by (simp add: byFlag_def map_of_eq_Some_iff)
  then show ?thesis by auto
qed

lemma applyFlags_layer:
  "\<forall>(n, v) \<in> set fs. map_of gs n = Some v \<Longrightarrow>
   applyFlags cfg fs = applyLayer op_put (flagSource gs) (List.map_filter byFlag (map fst fs)) cfg"
proof (induction fs arbitrary: cfg)
  case (Cons f fs)
  obtain n v where f: "f = (n, v)" by fastforce
  show ?case
  proof (cases "byFlag n")
    case None
    then show ?thesis using Cons f by simp
  next
    case (Some o1)
    then have "flagSource gs o1 = (case flagValue o1 v of Inl e \<Rightarrow> Inl e | Inr w \<Rightarrow> Inr (Some w))"
      using Cons.prems f by (simp add: flagSource_def byFlag_Some)
    then show ?thesis using Cons f Some by (cases "flagValue o1 v") simp_all
  qed
qed simp

lemma flagged_options:
  assumes "distinct (map fst fs)"
  shows "distinct (List.map_filter byFlag (map fst fs))" "set (List.map_filter byFlag (map fst fs)) \<subseteq> set configOptions"
    "o1 \<in> set configOptions \<Longrightarrow> o1 \<notin> set (List.map_filter byFlag (map fst fs)) \<Longrightarrow> flagSource fs o1 = Inr None"
proof -
  have mf: "set (List.map_filter byFlag ns) = {o1. \<exists>n \<in> set ns. byFlag n = Some o1}" for ns
    by (induction ns) (auto split: option.splits)
  have "distinct ns \<Longrightarrow> distinct (List.map_filter byFlag ns)" for ns
    by (induction ns) (auto simp: mf byFlag_Some split: option.splits)
  then show "distinct (List.map_filter byFlag (map fst fs))" using assms .
  show "set (List.map_filter byFlag (map fst fs)) \<subseteq> set configOptions" by (auto simp: mf byFlag_Some)
  show "o1 \<in> set configOptions \<Longrightarrow> o1 \<notin> set (List.map_filter byFlag (map fst fs)) \<Longrightarrow> flagSource fs o1 = Inr None"
  proof -
    assume o1: "o1 \<in> set configOptions" and "o1 \<notin> set (List.map_filter byFlag (map fst fs))"
    then have "op_Flag o1 = '''' \<or> op_Flag o1 \<notin> fst ` set fs" by (force simp: mf byFlag_Some)
    then have "op_Flag o1 = '''' \<or> map_of fs (op_Flag o1) = None" by (simp add: map_of_eq_None_iff)
    then show "flagSource fs o1 = Inr None" by (auto simp: flagSource_def)
  qed
qed

lemma derived_values:
  "o1 \<in> set configOptions \<Longrightarrow> op_Key o1 \<noteq> ''veth_provider_ip'' \<Longrightarrow> op_value o1 (derivedFields c) = op_value o1 c"
proof -
  have "list_all (\<lambda>o1. op_Key o1 = ''veth_provider_ip'' \<or> (\<forall>c. op_value o1 (derivedFields c) = op_value o1 c)) configOptions"
    by (simp add: configOptions_def option_simps yamlKeyName_def derivedFields_def)
  then show "o1 \<in> set configOptions \<Longrightarrow> op_Key o1 \<noteq> ''veth_provider_ip'' \<Longrightarrow> op_value o1 (derivedFields c) = op_value o1 c"
    by (auto simp: list_all_iff)
qed

text \<open>Fields that are no option: setting them changes no option's value.\<close>

lemma internal_fields:
  assumes "o1 \<in> set configOptions"
  shows "op_value o1 (c\<lparr>cf_CheckConfig := b\<rparr>) = op_value o1 c"
    and "op_value o1 (c\<lparr>cf_PortForwardOnly := b\<rparr>) = op_value o1 c"
    and "op_value o1 (c\<lparr>cf_OVNTLS := t, cf_OVNClientCert := h\<rparr>) = op_value o1 c"
proof -
  have "list_all (\<lambda>o1. \<forall>c b t h. op_value o1 (c\<lparr>cf_CheckConfig := b\<rparr>) = op_value o1 c \<and>
      op_value o1 (c\<lparr>cf_PortForwardOnly := b\<rparr>) = op_value o1 c \<and>
      op_value o1 (c\<lparr>cf_OVNTLS := t, cf_OVNClientCert := h\<rparr>) = op_value o1 c) configOptions"
    by (simp add: configOptions_def option_simps)
  then show "op_value o1 (c\<lparr>cf_CheckConfig := b\<rparr>) = op_value o1 c"
    "op_value o1 (c\<lparr>cf_PortForwardOnly := b\<rparr>) = op_value o1 c"
    "op_value o1 (c\<lparr>cf_OVNTLS := t, cf_OVNClientCert := h\<rparr>) = op_value o1 c"
    using assms by (auto simp: list_all_iff)
qed

lemma layered_value:
  assumes res: "layeredConfig readConfigFile env fs = Inr cfg" and o1: "o1 \<in> set configOptions"
    and flags: "distinct (map fst (pa_set fs))"
  shows "op_value o1 cfg = effectiveValue (docOf readConfigFile (configPath fs env)) env (pa_set fs) o1"
proof -
  let ?path = "configPath fs env"
  let ?mf = "List.map_filter byFlag (map fst (pa_set fs))"
  from res obtain c0 c1 c2 c3 where l0: "applyLayer op_put defaultSource configOptions zeroConfig = Inr c0"
    and l1: "fileLayer readConfigFile ?path c0 = Inr c1" and l2: "applyEnvConfig c1 env = Inr c2"
    and l3: "applyFlags c2 (pa_set fs) = Inr c3" and cfg: "cfg = c3\<lparr>cf_CheckConfig := pa_checkConfig fs\<rparr>"
    unfolding layeredConfig_def by (auto split: sum.splits)
  have v0: "op_value o1 c0 = orElse (defaultSource o1) (op_value o1 zeroConfig)"
    unfolding orElse_def by (rule registry.applyLayer_all [OF o1 default_fits l0])
  have v1: "op_value o1 c1 = orElse (fileSource (docOf readConfigFile ?path) o1) (op_value o1 c0)"
  proof (cases "?path = ''''")
    case True
    then show ?thesis using l1 by (simp add: fileLayer_def docOf_def fileSource_def orElse_def)
  next
    case False
    then obtain doc where doc: "readConfigFile ?path = Inr doc" and l: "applyLayer op_put (fileSource doc) configOptions c0 = Inr c1"
      using l1 by (auto simp: fileLayer_def applyFileConfig_def split: sum.splits)
    show ?thesis
      using registry.applyLayer_all [OF o1 file_fits l] doc False
      by (simp only: orElse_def docOf_def if_False sum.case)
  qed
  have v2: "op_value o1 c2 = orElse (envSource env o1) (op_value o1 c1)"
    unfolding orElse_def by (rule registry.applyLayer_all [OF o1 env_fits l2 [unfolded applyEnvConfig_def]])
  have "\<forall>(n, v) \<in> set (pa_set fs). map_of (pa_set fs) n = Some v" using flags by auto
  then have l3': "applyLayer op_put (flagSource (pa_set fs)) ?mf c2 = Inr c3" using l3 applyFlags_layer by metis
  have v3: "op_value o1 c3 = orElse (flagSource (pa_set fs) o1) (op_value o1 c2)"
  proof (cases "o1 \<in> set ?mf")
    case True
    then show ?thesis
      using registry.applyLayer_value [OF flagged_options(2) [OF flags] flagged_options(1) [OF flags] o1 flag_fits l3']
      by (simp only: orElse_def if_True)
  next
    case False
    then show ?thesis
      using registry.applyLayer_value [OF flagged_options(2) [OF flags] flagged_options(1) [OF flags] o1 flag_fits l3']
        flagged_options(3) [OF flags o1 False] by (simp only: orElse_def if_False sum.case option.case)
  qed
  show ?thesis
    unfolding cfg internal_fields(1) [OF o1] v3 v2 v1 v0 effectiveValue_def ..
qed

lemma validateMode_fields: "validateMode c = Inr c' \<Longrightarrow> \<exists>b. c' = c\<lparr>cf_PortForwardOnly := b\<rparr>"
  by (auto simp: validateMode_def Let_def split: if_splits option.splits)

lemma validateTLS_fields: "validateTLS files c = Inr c' \<Longrightarrow> \<exists>t h. c' = c\<lparr>cf_OVNTLS := t, cf_OVNClientCert := h\<rparr>"
  by (auto simp: validateTLS_def split: sum.splits)

lemma validateSettings_Inr: "validateSettings c = Inr c' \<Longrightarrow> okSettings c \<and> c' = derivedFields c"
  using validateSettings_spec [of c] by simp

lemma loadConfig_steps:
  assumes "loadConfig readConfigFile files env args = Inr cfg"
  obtains fs c0 t h b where "args = Inr fs" "\<not> pa_version fs" "layeredConfig readConfigFile env fs = Inr c0"
    "okSettings c0" "cfg = (derivedFields c0)\<lparr>cf_OVNTLS := t, cf_OVNClientCert := h, cf_PortForwardOnly := b\<rparr>"
proof -
  from assms obtain fs c0 c1 c2 where "args = Inr fs" "\<not> pa_version fs" "layeredConfig readConfigFile env fs = Inr c0"
    and c1: "validateSettings c0 = Inr c1" and c2: "validateTLS files c1 = Inr c2" and m: "validateMode c2 = Inr cfg"
    by (auto simp: loadConfig_def validateConfig_def split: sum.splits if_splits)
  moreover obtain t h where "c2 = c1\<lparr>cf_OVNTLS := t, cf_OVNClientCert := h\<rparr>" using validateTLS_fields [OF c2] by blast
  moreover obtain b where "cfg = c2\<lparr>cf_PortForwardOnly := b\<rparr>" using validateMode_fields [OF m] by blast
  ultimately show thesis using that validateSettings_Inr [OF c1] by metis
qed


subsection \<open>A run of the loader\<close>

definition demoEnv :: "string \<Rightarrow> string" where
  "demoEnv n = (if n = ''OVN_NETWORK_LOG_LEVEL'' then ''debug'' else '''')"

definition demoFlags :: parsed_flags where
  "demoFlags = \<lparr>pa_config = None, pa_version = False, pa_checkConfig = False,
     pa_set = [(''ovn-nb-remote'', FString ''tcp:nb''), (''ovn-sb-remote'', FString ''tcp:sb'')]\<rparr>"

definition demoFiles :: tls_files where
  "demoFiles = \<lparr>tf_read = (\<lambda>_. Inl (Err ''none'')), tf_perm = (\<lambda>_. Inl (Err ''none'')), tf_pool = (\<lambda>_. None),
     tf_keyPair = (\<lambda>_ _. Inl (Err ''none''))\<rparr>"

definition defaultConfig :: config where
  "defaultConfig = foldl (\<lambda>c o1. case op_default o1 of None \<Rightarrow> c | Some v \<Rightarrow> op_put o1 v c) zeroConfig configOptions"

lemma default_layer: "applyLayer op_put defaultSource os c = Inr (foldl (\<lambda>c o1. case op_default o1 of None \<Rightarrow> c | Some v \<Rightarrow> op_put o1 v c) c os)"
  by (induction os arbitrary: c) (simp_all add: defaultSource_def split: option.splits)

lemma demo_env: "applyEnvConfig c demoEnv = Inr (c\<lparr>cf_LogLevel := ''debug''\<rparr>)"
  by (simp add: applyEnvConfig_def envSource_def configOptions_def option_simps demoEnv_def EnvVar_def envVarName_def
      envValue_def upperChar_def lower_letters_def upper_letters_def)

lemma demo_flags: "applyFlags c (pa_set demoFlags) = Inr (c\<lparr>cf_OVNNBRemote := ''tcp:nb'', cf_OVNSBRemote := ''tcp:sb''\<rparr>)"
  by (simp add: demoFlags_def byFlag_def configOptions_def option_simps flagValue_def)

lemma default_values: "defaultConfig = zeroConfig\<lparr>
    cf_BridgeDev := ''br-ex'', cf_VRFName := ''vrf-provider'', cf_VethNexthop := ''169.254.0.1'',
    cf_BridgeIP := ''169.254.169.254'', cf_ReconcileInterval := 60000000000, cf_RouteWatch := True,
    cf_OVSFlowWatch := True, cf_FRRWatch := True, cf_LogLevel := ''info'', cf_CleanupOnShutdown := True,
    cf_DrainOnShutdown := True, cf_DrainTimeout := 60000000000, cf_DrainSettleDelay := 500000000,
    cf_FRRPrefixList := ''ANNOUNCED-NETWORKS'', cf_StaleChassisGracePeriod := 300000000000,
    cf_VethLeakEnabled := True, cf_VethLeakTableID := 200, cf_VethLeakRulePriority := 2000,
    cf_PortForwardDev := ''loopback1'', cf_PortForwardTableID := 201, cf_PortForwardCTZone := 64000\<rparr>"
  by (simp add: defaultConfig_def configOptions_def option_simps zeroConfig_def)

definition demoConfig :: config where
  "demoConfig = defaultConfig\<lparr>cf_LogLevel := ''debug'', cf_OVNNBRemote := ''tcp:nb'', cf_OVNSBRemote := ''tcp:sb'', cf_CheckConfig := False\<rparr>"

lemma demo_layered: "layeredConfig rc demoEnv demoFlags = Inr demoConfig"
proof -
  have "configPath demoFlags demoEnv = ''''" by (simp add: configPath_def demoFlags_def demoEnv_def)
  moreover have "pa_checkConfig demoFlags = False" by (simp add: demoFlags_def)
  ultimately show ?thesis
    unfolding layeredConfig_def default_layer defaultConfig_def [symmetric]
    by (simp add: fileLayer_def demo_env demo_flags demoConfig_def)
qed

lemma default_nexthop: "ParseIP ''169.254.0.1'' \<noteq> None" "isIPv4 ''169.254.0.1''"
  by (simp_all add: isIPv4_def go_net_eval)

lemma default_names: "isValidIdentifier ''vrf-provider''" "isValidIdentifier ''ANNOUNCED-NETWORKS''"
  by (simp_all add: isValidIdentifier_def isIdentChar_def)

lemma demo_ok: "okSettings demoConfig"
  unfolding okSettings_def demoConfig_def default_values
  by (intro conjI)
     (simp_all add: okNetworks_def okTimings_def okVethLeak_def okPortForwards_def zeroConfig_def default_nexthop default_names)

lemma demo_load: "\<exists>cfg. loadConfig rc demoFiles demoEnv (Inr demoFlags) = Inr cfg"
proof -
  have v: "validateSettings demoConfig = Inr (derivedFields demoConfig)"
    using validateSettings_spec [of demoConfig] demo_ok by (simp split: sum.splits)
  have r: "remoteUsesSSL ''tcp:sb'' = Inr False" "remoteUsesSSL ''tcp:nb'' = Inr False"
    by (simp_all add: remoteUsesSSL_def ovsdbEndpoints_def TrimSpace_def IsSpace_def ToLower_def lower_char_def lower_letters_def upper_letters_def HasPrefix_def)
  have f: "cf_OVNSBRemote demoConfig = ''tcp:sb''" "cf_OVNNBRemote demoConfig = ''tcp:nb''" "cf_OVNSSLCA demoConfig = ''''"
    "cf_OVNSSLCert demoConfig = ''''" "cf_OVNSSLKey demoConfig = ''''"
    by (simp_all add: demoConfig_def default_values zeroConfig_def)
  have d: "cf_OVNSBRemote (derivedFields c) = cf_OVNSBRemote c" "cf_OVNNBRemote (derivedFields c) = cf_OVNNBRemote c"
    "cf_OVNSSLCA (derivedFields c) = cf_OVNSSLCA c" "cf_OVNSSLCert (derivedFields c) = cf_OVNSSLCert c"
    "cf_OVNSSLKey (derivedFields c) = cf_OVNSSLKey c" for c
    by (simp_all add: derivedFields_def)
  have "validateTLS demoFiles (derivedFields demoConfig) = Inr ((derivedFields demoConfig)\<lparr>cf_OVNTLS := None, cf_OVNClientCert := None\<rparr>)"
    by (simp add: validateTLS_def d f r ovnTLSConfig_def)
  then have "validateConfig demoFiles demoConfig = Inr ((derivedFields demoConfig)\<lparr>cf_OVNTLS := None, cf_OVNClientCert := None\<rparr>)"
    by (simp add: validateConfig_def v)
  then show ?thesis
    by (simp add: loadConfig_def demo_layered validateMode_def d f) (simp add: demoFlags_def)
qed


subsection \<open>Durations stay in range\<close>

lemma durationTerms_bounded: "durationTerms s d = Some e \<Longrightarrow> d \<le> maxDur \<Longrightarrow> e \<le> maxDur"
proof (induction s d rule: durationTerms.induct)
  case (1 s d)
  show ?case
  proof (cases "s = []")
    case True
    then show ?thesis using "1.prems" by (simp add: durationTerms.simps)
  next
    case False
    then obtain w r where t: "durationTerm s = Some (w, r)" using "1.prems"
      by (cases "durationTerm s") (auto simp: durationTerms.simps [of s d])
    have "durationTerms s d = (if maxDur < d + w then None else durationTerms r (d + w))"
      using False t by (simp add: durationTerms.simps [of s d])
    then show ?thesis using "1.IH" [OF False t refl] "1.prems" by (simp split: if_splits)
  qed
qed

text \<open>
  A parsed duration fits the 64 bits of a \<open>time.Duration\<close>: an accepted text, whatever its
  digits, units, fractions and sign, never wraps around to another duration.
\<close>

theorem parsed_duration_in_range:
  "(case ParseDuration s of None \<Rightarrow> True | Some d \<Rightarrow> - (2 ^ 63) \<le> d \<and> d < 2 ^ 63)"
proof -
  define t where "t = (if HasPrefix s ''-'' \<or> HasPrefix s ''+'' then tl s else s)"
  have "durationTerms t 0 = Some e \<Longrightarrow> int e \<le> 2 ^ 63" for e
    using durationTerms_bounded [of t 0 e] by (simp add: maxDur_def)
  then show ?thesis
    unfolding ParseDuration_def Let_def t_def [symmetric]
    by (cases "durationTerms t 0") (auto simp: maxDur_def)
qed

subsection \<open>Unknown keys\<close>

definition unknownKeys :: "string list \<Rightarrow> string list" where
  "unknownKeys docKeys = sort (filter (\<lambda>k. k \<notin> op_Key ` set configOptions) docKeys)"

end
