(* ===== verification/Reload.thy ===== *)
theory Reload
  imports ConfigRegistry OvnLoop
begin

section \<open>Configuration reload\<close>

text \<open>
  \<open>reload.go\<close>: a SIGHUP re-reads the configuration, plans which changed keys the running agent
  takes over and which need a restart, and puts the plan into effect. Slices are compared by
  their elements, where \<open>reflect.DeepEqual\<close> tells a nil slice from an empty one: for the
  port-forward list the code may report such a change as applied. The routing layer's two
  host-side cleanups are recorded as calls, each with the configuration the routing layer holds
  at that moment; their errors are only logged.
\<close>

definition reloadableKeys :: "string list" where
  "reloadableKeys = [''log_level'', ''reconcile_interval'', ''frr_prefix_list'', ''stale_chassis_grace_period'',
     ''port_forwards'', ''cleanup_on_shutdown'', ''drain_on_shutdown'', ''drain_timeout'', ''drain_settle_delay'',
     ''ovn_ssl_cert'', ''ovn_ssl_key'']"

datatype restart_reason = StartupOnly | PortForwardToggle | ClientCertToggle | CAContent

record restart_change =
  rc_Key :: string
  rc_Reason :: restart_reason

record reload_plan =
  rp_merged :: config
  rp_next :: config
  rp_applied :: "string list"
  rp_restartRequired :: "restart_change list"

text \<open>The leaf is the head of the certificate chain. Two holders differ when the leaves do.\<close>

fun certChain :: "tls_certificate \<Rightarrow> string list" where
  "certChain (TlsCertificate n chain) = chain"

definition clientCertChanged :: "tls_certificate option \<Rightarrow> tls_certificate option \<Rightarrow> bool" where
  "clientCertChanged ca cb =
     (case (ca, cb) of
        (Some x, Some y) \<Rightarrow>
          if certChain x = [] \<or> certChain y = [] then ca \<noteq> cb else hd (certChain x) \<noteq> hd (certChain y)
      | _ \<Rightarrow> ca \<noteq> cb)"

definition caContentChanged :: "string set option option \<Rightarrow> string set option option \<Rightarrow> bool" where
  "caContentChanged a b = (case (a, b) of (Some (Some x), Some (Some y)) \<Rightarrow> x \<noteq> y | _ \<Rightarrow> False)"

definition holderCert :: "tls_certificate option option \<Rightarrow> tls_certificate option" where
  "holderCert h = (case h of Some c \<Rightarrow> c | None \<Rightarrow> None)"

text \<open>One turn of the loop of \<open>planReload\<close> over the registry.\<close>

definition planOption :: "config \<Rightarrow> config \<Rightarrow> reload_plan \<Rightarrow> config_option \<Rightarrow> reload_plan" where
  "planOption running next1 p o1 =
     (let both = (cf_OVNClientCert running \<noteq> None \<and> cf_OVNClientCert next1 \<noteq> None);
          apply1 = p\<lparr>rp_applied := rp_applied p @ [op_Key o1]\<rparr>;
          restart = (\<lambda>r. p\<lparr>rp_restartRequired := rp_restartRequired p @ [\<lparr>rc_Key = op_Key o1, rc_Reason = r\<rparr>]\<rparr>)
      in if op_value o1 running = op_value o1 next1 then
           (if op_Key o1 = ''ovn_ssl_cert'' \<and> both \<and>
               clientCertChanged (holderCert (cf_OVNClientCert running)) (holderCert (cf_OVNClientCert next1)) then apply1
            else if op_Key o1 = ''ovn_ssl_ca'' \<and> caContentChanged (cf_OVNTLS running) (cf_OVNTLS next1) then restart CAContent
            else p)
         else if op_Key o1 \<notin> set reloadableKeys then restart StartupOnly
         else if op_Key o1 = ''port_forwards'' \<and> (cf_PortForwards running = []) \<noteq> (cf_PortForwards next1 = []) then
           restart PortForwardToggle
         else if (op_Key o1 = ''ovn_ssl_cert'' \<or> op_Key o1 = ''ovn_ssl_key'') \<and> \<not> both then restart ClientCertToggle
         else apply1\<lparr>rp_merged := copyValue o1 (rp_merged p) next1\<rparr>)"

definition planReload :: "config \<Rightarrow> config \<Rightarrow> reload_plan result" where
  "planReload running next1 =
     (let p = foldl (planOption running next1)
                \<lparr>rp_merged = running, rp_next = next1, rp_applied = [], rp_restartRequired = []\<rparr> configOptions
      in case validateSettings (rp_merged p) of
           Inl e \<Rightarrow> Inl e
         | Inr m1 \<Rightarrow> (case validateMode m1 of
             Inl e \<Rightarrow> Inl e
           | Inr m2 \<Rightarrow> Inr (p\<lparr>rp_merged := m2\<rparr>)))"

definition withdrawnManagedVIPs :: "port_forward_vip list \<Rightarrow> port_forward_vip list \<Rightarrow> string list" where
  "withdrawnManagedVIPs running next1 =
     (let stillManaged = set (map pf_VIP (filter pf_ManageVIP next1))
      in map pf_VIP (filter (\<lambda>pf. pf_ManageVIP pf \<and> pf_VIP pf \<notin> stillManaged) running))"

subsection \<open>Putting a plan into effect\<close>

datatype log_level = LevelDebug | LevelInfo | LevelWarn | LevelError

definition parseLogLevel :: "string \<Rightarrow> log_level" where
  "parseLogLevel level =
     (let l = ToLower level in
      if l = ''debug'' then LevelDebug
      else if l = ''warn'' \<or> l = ''warning'' then LevelWarn
      else if l = ''error'' then LevelError
      else LevelInfo)"

datatype reload_call = EmptyPrefixList config | WithdrawVIPs config "string list"

text \<open>
  The agent as far as a reload touches it: its configuration and the routing layer's copy, the
  settle delay of the OVN client (\<open>None\<close> without one), the chassis tracker, the log level, the
  certificate the shared holder serves, the two signal channels, the host calls and the outcome
  metric.
\<close>

record reload_agent =
  ra_cfg :: config
  ra_routingCfg :: config
  ra_settleDelay :: "int option"
  ra_missing :: "(string \<times> int) list"
  ra_logLevel :: log_level
  ra_reconcileCh :: bool
  ra_reloadCh :: bool
  ra_calls :: "reload_call list"
  ra_outcomes :: "string list"

definition RequestReload :: "reload_agent \<Rightarrow> reload_agent" where
  "RequestReload a = a\<lparr>ra_reloadCh := signal (ra_reloadCh a)\<rparr>"

text \<open>
  The holder is shared by every copy of the configuration, so the new certificate appears in the
  agent's and the routing layer's copies at once.
\<close>

definition storeCert :: "tls_certificate option \<Rightarrow> config \<Rightarrow> config" where
  "storeCert cert c = c\<lparr>cf_OVNClientCert := Some cert\<rparr>"

definition applied :: "reload_plan \<Rightarrow> string \<Rightarrow> bool" where
  "applied p key \<longleftrightarrow> key \<in> set (rp_applied p)"

definition emptyOldList :: "reload_plan \<Rightarrow> reload_agent \<Rightarrow> reload_agent" where
  "emptyOldList p a =
     (if applied p ''frr_prefix_list'' \<and> cf_FRRPrefixList (ra_cfg a) \<noteq> ''''
      then a\<lparr>ra_calls := ra_calls a @ [EmptyPrefixList (ra_routingCfg a)]\<rparr> else a)"

definition withdrawOldVIPs :: "reload_plan \<Rightarrow> reload_agent \<Rightarrow> reload_agent" where
  "withdrawOldVIPs p a =
     (let vips = withdrawnManagedVIPs (cf_PortForwards (ra_cfg a)) (cf_PortForwards (rp_merged p))
      in if applied p ''port_forwards'' \<and> vips \<noteq> []
         then a\<lparr>ra_calls := ra_calls a @ [WithdrawVIPs (ra_routingCfg a) vips]\<rparr> else a)"

definition switchConfig :: "reload_plan \<Rightarrow> reload_agent \<Rightarrow> reload_agent" where
  "switchConfig p a = a\<lparr>ra_cfg := rp_merged p, ra_routingCfg := rp_merged p\<rparr>"

definition applySettleDelay :: "reload_plan \<Rightarrow> reload_agent \<Rightarrow> reload_agent" where
  "applySettleDelay p a =
     (if applied p ''drain_settle_delay'' \<and> ra_settleDelay a \<noteq> None
      then a\<lparr>ra_settleDelay := Some (cf_DrainSettleDelay (rp_merged p))\<rparr> else a)"

definition resetTracker :: "reload_plan \<Rightarrow> reload_agent \<Rightarrow> reload_agent" where
  "resetTracker p a =
     (if applied p ''stale_chassis_grace_period'' \<and> cf_StaleChassisGracePeriod (rp_merged p) \<le> 0
      then a\<lparr>ra_missing := []\<rparr> else a)"

definition applyLogLevel :: "reload_plan \<Rightarrow> reload_agent \<Rightarrow> reload_agent" where
  "applyLogLevel p a =
     (if applied p ''log_level'' then a\<lparr>ra_logLevel := parseLogLevel (cf_LogLevel (rp_merged p))\<rparr> else a)"

definition swapClientCert :: "reload_plan \<Rightarrow> reload_agent \<Rightarrow> reload_agent" where
  "swapClientCert p a =
     (let cert = holderCert (cf_OVNClientCert (rp_next p)) in
      if applied p ''ovn_ssl_cert'' \<or> applied p ''ovn_ssl_key''
      then a\<lparr>ra_cfg := storeCert cert (ra_cfg a), ra_routingCfg := storeCert cert (ra_routingCfg a)\<rparr> else a)"

definition applyReload :: "reload_agent \<Rightarrow> reload_plan \<Rightarrow> reload_agent" where
  "applyReload a p =
     swapClientCert p (applyLogLevel p (resetTracker p (applySettleDelay p
       (switchConfig p (withdrawOldVIPs p (emptyOldList p a))))))"

lemmas apply_step_defs = emptyOldList_def withdrawOldVIPs_def switchConfig_def applySettleDelay_def resetTracker_def
  applyLogLevel_def swapClientCert_def Let_def

definition reload :: "reload_agent \<Rightarrow> (config result) option \<Rightarrow> (reload_plan result) \<times> reload_agent" where
  "reload a loaded =
     (case loaded of
        None \<Rightarrow> (Inl (Err ''configuration reload is not configured''), a)
      | Some (Inl e) \<Rightarrow> (Inl e, a)
      | Some (Inr next1) \<Rightarrow> (case planReload (ra_cfg a) next1 of
            Inl e \<Rightarrow> (Inl e, a)
          | Inr p \<Rightarrow> (Inr p, applyReload a p)))"

definition handleReload :: "reload_agent \<Rightarrow> (config result) option \<Rightarrow> bool \<times> reload_agent" where
  "handleReload a loaded =
     (case reload a loaded of
        (Inl _, a1) \<Rightarrow> (False, a1\<lparr>ra_outcomes := ra_outcomes a1 @ [''error'']\<rparr>)
      | (Inr p, a1) \<Rightarrow>
          (let a2 = a1\<lparr>ra_outcomes := ra_outcomes a1 @ [''success'']\<rparr>;
               a3 = (if rp_applied p \<noteq> [] then a2\<lparr>ra_reconcileCh := signal (ra_reconcileCh a2)\<rparr> else a2)
           in (''reconcile_interval'' \<in> set (rp_applied p), a3)))"

subsection \<open>What a plan decides\<close>

text \<open>Which changed options a reload takes over, and why the others wait for a restart.\<close>

definition takesNew :: "config \<Rightarrow> config \<Rightarrow> config_option \<Rightarrow> bool" where
  "takesNew running next1 o1 \<longleftrightarrow> op_value o1 running \<noteq> op_value o1 next1 \<and> op_Key o1 \<in> set reloadableKeys \<and>
     (op_Key o1 = ''port_forwards'' \<longrightarrow> (cf_PortForwards running = []) = (cf_PortForwards next1 = [])) \<and>
     (op_Key o1 \<in> {''ovn_ssl_cert'', ''ovn_ssl_key''} \<longrightarrow>
        cf_OVNClientCert running \<noteq> None \<and> cf_OVNClientCert next1 \<noteq> None)"

definition certReplaced :: "config \<Rightarrow> config \<Rightarrow> config_option \<Rightarrow> bool" where
  "certReplaced running next1 o1 \<longleftrightarrow> op_Key o1 = ''ovn_ssl_cert'' \<and> op_value o1 running = op_value o1 next1 \<and>
     cf_OVNClientCert running \<noteq> None \<and> cf_OVNClientCert next1 \<noteq> None \<and>
     clientCertChanged (holderCert (cf_OVNClientCert running)) (holderCert (cf_OVNClientCert next1))"

definition mustRestart :: "config \<Rightarrow> config \<Rightarrow> config_option \<Rightarrow> bool" where
  "mustRestart running next1 o1 \<longleftrightarrow>
     (op_value o1 running \<noteq> op_value o1 next1 \<and> \<not> takesNew running next1 o1) \<or>
     (op_value o1 running = op_value o1 next1 \<and> op_Key o1 = ''ovn_ssl_ca'' \<and> caContentChanged (cf_OVNTLS running) (cf_OVNTLS next1))"

lemmas plan_defs = takesNew_def certReplaced_def mustRestart_def

lemma planOption_step:
  "rp_merged (planOption r n p o1) = (if takesNew r n o1 then copyValue o1 (rp_merged p) n else rp_merged p)"
  "rp_next (planOption r n p o1) = rp_next p"
  "rp_applied (planOption r n p o1) = rp_applied p @ (if takesNew r n o1 \<or> certReplaced r n o1 then [op_Key o1] else [])"
  "map rc_Key (rp_restartRequired (planOption r n p o1)) =
     map rc_Key (rp_restartRequired p) @ (if mustRestart r n o1 then [op_Key o1] else [])"
  by (auto simp: planOption_def Let_def plan_defs)

lemma plan_fold:
  "rp_merged (foldl (planOption r n) p os) = foldl (\<lambda>m o1. if takesNew r n o1 then copyValue o1 m n else m) (rp_merged p) os"
  "rp_next (foldl (planOption r n) p os) = rp_next p"
  "rp_applied (foldl (planOption r n) p os) = rp_applied p @ map op_Key (filter (\<lambda>o1. takesNew r n o1 \<or> certReplaced r n o1) os)"
  "map rc_Key (rp_restartRequired (foldl (planOption r n) p os)) =
     map rc_Key (rp_restartRequired p) @ map op_Key (filter (mustRestart r n) os)"
  by (induction os arbitrary: p) (simp_all add: planOption_step)

lemma copy_fold:
  assumes "set os \<subseteq> set configOptions" and "o1 \<in> set configOptions"
  shows "op_value o1 (foldl (\<lambda>m o2. if P o2 then copyValue o2 m n else m) c os) =
    (if o1 \<in> set os \<and> P o1 then op_value o1 n else op_value o1 c)"
  using assms(1)
proof (induction os arbitrary: c)
  case (Cons o2 os)
  have "op_value o1 (copyValue o2 c n) = (if o1 = o2 then op_value o1 n else op_value o1 c)"
    using registry.put_val [OF _ assms(2) registry.value_fits] Cons.prems by (simp add: copyValue_def)
  then show ?case using Cons by auto
qed simp

lemma copy_fold_internal:
  "set os \<subseteq> set configOptions \<Longrightarrow>
   cf_OVNTLS (foldl (\<lambda>m o2. if P o2 then copyValue o2 m n else m) c os) = cf_OVNTLS c \<and>
   cf_OVNClientCert (foldl (\<lambda>m o2. if P o2 then copyValue o2 m n else m) c os) = cf_OVNClientCert c"
proof (induction os arbitrary: c)
  case (Cons o2 os)
  have "list_all (\<lambda>o1. \<forall>c n. cf_OVNTLS (copyValue o1 c n) = cf_OVNTLS c \<and> cf_OVNClientCert (copyValue o1 c n) = cf_OVNClientCert c) configOptions"
    by (simp add: configOptions_def option_simps copyValue_def)
  then have "cf_OVNTLS (copyValue o2 c n) = cf_OVNTLS c \<and> cf_OVNClientCert (copyValue o2 c n) = cf_OVNClientCert c"
    using Cons.prems by (simp add: list_all_iff)
  then show ?case using Cons by simp
qed simp

lemma planReload_Inr:
  assumes "planReload r n = Inr p"
  obtains m b where "\<And>o1. o1 \<in> set configOptions \<Longrightarrow> op_value o1 m = (if takesNew r n o1 then op_value o1 n else op_value o1 r)"
    and "cf_OVNTLS m = cf_OVNTLS r" and "cf_OVNClientCert m = cf_OVNClientCert r" and "okSettings m"
    and "rp_merged p = (derivedFields m)\<lparr>cf_PortForwardOnly := b\<rparr>" and "rp_next p = n"
    and "rp_applied p = map op_Key (filter (\<lambda>o1. takesNew r n o1 \<or> certReplaced r n o1) configOptions)"
    and "map rc_Key (rp_restartRequired p) = map op_Key (filter (mustRestart r n) configOptions)"
proof -
  define q where "q = foldl (planOption r n) \<lparr>rp_merged = r, rp_next = n, rp_applied = [], rp_restartRequired = []\<rparr> configOptions"
  obtain m1 m2 where m1: "validateSettings (rp_merged q) = Inr m1" and m2: "validateMode m1 = Inr m2" and p: "p = q\<lparr>rp_merged := m2\<rparr>"
    using assms by (auto simp: planReload_def q_def [symmetric] split: sum.splits)
  have ok: "okSettings (rp_merged q)" "m1 = derivedFields (rp_merged q)" using validateSettings_Inr [OF m1] by simp_all
  obtain b where b: "m2 = m1\<lparr>cf_PortForwardOnly := b\<rparr>" using validateMode_fields [OF m2] by blast
  show thesis
  proof (rule that [of "rp_merged q" b])
    fix o1 assume "o1 \<in> set configOptions"
    then show "op_value o1 (rp_merged q) = (if takesNew r n o1 then op_value o1 n else op_value o1 r)"
      by (simp add: q_def plan_fold copy_fold)
  next
    show "cf_OVNTLS (rp_merged q) = cf_OVNTLS r" "cf_OVNClientCert (rp_merged q) = cf_OVNClientCert r"
      using copy_fold_internal [OF subset_refl] by (simp_all add: q_def plan_fold)
  qed (use ok b p in \<open>simp_all add: q_def plan_fold\<close>)
qed

lemma key_filter:
  assumes "o1 \<in> set configOptions"
  shows "op_Key o1 \<in> op_Key ` set (filter P configOptions) \<longleftrightarrow> P o1"
  using assms by (auto simp: image_iff dest: registry.key_eq)

text \<open>Options by their field.\<close>

abbreviation providerOption :: config_option where
  "providerOption \<equiv> stringOpt ''veth-provider-ip'' '''' cf_VethProviderIP cf_VethProviderIP_update"

abbreviation forwardsOption :: config_option where
  "forwardsOption \<equiv> portForwardsOpt ''port_forwards'' cf_PortForwards cf_PortForwards_update"

lemma named_options:
  "providerOption \<in> set configOptions" "forwardsOption \<in> set configOptions"
  "boolOpt ''veth-leak-enabled'' True cf_VethLeakEnabled cf_VethLeakEnabled_update \<in> set configOptions"
  "stringOpt ''veth-nexthop'' ''169.254.0.1'' cf_VethNexthop cf_VethNexthop_update \<in> set configOptions"
  "stringOpt ''frr-prefix-list'' ''ANNOUNCED-NETWORKS'' cf_FRRPrefixList cf_FRRPrefixList_update \<in> set configOptions"
  unfolding configOptions_def by (simp_all only: list.set insert_iff simp_thms)

lemma provider_key: "op_Key o1 = ''veth_provider_ip'' \<Longrightarrow> o1 \<in> set configOptions \<Longrightarrow> o1 = providerOption"
  using registry.key_eq [OF _ named_options(1), of o1] by (simp add: stringOpt_def yamlKeyName_def)

lemma startup_keys:
  "\<not> takesNew r n providerOption" "\<not> takesNew r n (boolOpt ''veth-leak-enabled'' True cf_VethLeakEnabled cf_VethLeakEnabled_update)"
  "\<not> takesNew r n (stringOpt ''veth-nexthop'' ''169.254.0.1'' cf_VethNexthop cf_VethNexthop_update)"
  by (simp_all add: takesNew_def option_simps yamlKeyName_def reloadableKeys_def)

lemma derived_provider:
  assumes "derivedFields r = r" and "cf_VethProviderIP m = cf_VethProviderIP r" "cf_VethLeakEnabled m = cf_VethLeakEnabled r"
    "cf_VethNexthop m = cf_VethNexthop r"
  shows "cf_VethProviderIP (derivedFields m) = cf_VethProviderIP r"
proof -
  have "cf_VethProviderIP (derivedFields r) = cf_VethProviderIP r" using assms(1) by simp
  then show ?thesis using assms(2-4) by (auto simp: derivedFields_def)
qed

lemma merged_value:
  assumes "planReload running next1 = Inr p" and "derivedFields running = running" and o1: "o1 \<in> set configOptions"
  shows "op_value o1 (rp_merged p) = (if takesNew running next1 o1 then op_value o1 next1 else op_value o1 running)"
proof -
  obtain m b where m: "\<And>o1. o1 \<in> set configOptions \<Longrightarrow> op_value o1 m = (if takesNew running next1 o1 then op_value o1 next1 else op_value o1 running)"
    and merged: "rp_merged p = (derivedFields m)\<lparr>cf_PortForwardOnly := b\<rparr>"
    using assms(1) by (rule planReload_Inr) blast
  have v: "op_value o1 (rp_merged p) = op_value o1 (derivedFields m)" unfolding merged internal_fields [OF o1] ..
  show ?thesis
  proof (cases "op_Key o1 = ''veth_provider_ip''")
    case True
    then have eq: "o1 = providerOption" using provider_key o1 by blast
    have "cf_VethProviderIP m = cf_VethProviderIP running" "cf_VethLeakEnabled m = cf_VethLeakEnabled running"
      "cf_VethNexthop m = cf_VethNexthop running"
      using m [OF named_options(1)] m [OF named_options(3)] m [OF named_options(4)]
      by (simp_all only: startup_keys if_False) (simp_all add: option_simps)
    then have "cf_VethProviderIP (derivedFields m) = cf_VethProviderIP running"
      using derived_provider assms(2) by blast
    then have "op_value providerOption (derivedFields m) = op_value providerOption running" by (simp add: stringOpt_def)
    with v show ?thesis unfolding eq by (simp only: startup_keys if_False)
  next
    case False
    show ?thesis unfolding v derived_values [OF o1 False] by (rule m [OF o1])
  qed
qed

text \<open>
  C25: a reload decides every option exactly once and never silently. Against a validated running
  configuration, the merged configuration has the new value for the keys reported as applied and
  the running value for all others; a key is applied only if it is on the reloadable list; a key
  whose value changed is reported either as applied or as needing a restart, never both; and the
  running agent's TLS settings stay in place.
\<close>

theorem reload_decides_every_key:
  assumes "planReload running next1 = Inr p" and "validateSettings running = Inr running"
    and "o1 \<in> set configOptions"
  shows "op_value o1 (rp_merged p) = (if op_Key o1 \<in> set (rp_applied p) then op_value o1 next1 else op_value o1 running) \<and>
    (op_Key o1 \<in> set (rp_applied p) \<longrightarrow> op_Key o1 \<in> set reloadableKeys) \<and>
    (op_value o1 running \<noteq> op_value o1 next1 \<longrightarrow>
      (op_Key o1 \<in> set (rp_applied p)) \<noteq> (op_Key o1 \<in> rc_Key ` set (rp_restartRequired p))) \<and>
    cf_OVNTLS (rp_merged p) = cf_OVNTLS running \<and> cf_OVNClientCert (rp_merged p) = cf_OVNClientCert running"
proof (intro conjI)
  obtain m b where "cf_OVNTLS m = cf_OVNTLS running" "cf_OVNClientCert m = cf_OVNClientCert running"
    and merged: "rp_merged p = (derivedFields m)\<lparr>cf_PortForwardOnly := b\<rparr>"
    and ap: "rp_applied p = map op_Key (filter (\<lambda>o1. takesNew running next1 o1 \<or> certReplaced running next1 o1) configOptions)"
    and re: "map rc_Key (rp_restartRequired p) = map op_Key (filter (mustRestart running next1) configOptions)"
    using assms(1) by (rule planReload_Inr) blast
  then show "cf_OVNTLS (rp_merged p) = cf_OVNTLS running" "cf_OVNClientCert (rp_merged p) = cf_OVNClientCert running"
    by (simp_all add: derivedFields_def)
  have a: "op_Key o1 \<in> set (rp_applied p) \<longleftrightarrow> takesNew running next1 o1 \<or> certReplaced running next1 o1"
    unfolding ap set_map using key_filter [OF assms(3)] .
  have r: "op_Key o1 \<in> rc_Key ` set (rp_restartRequired p) \<longleftrightarrow> mustRestart running next1 o1"
    using key_filter [OF assms(3)] by (metis re set_map)
  have "derivedFields running = running" using validateSettings_Inr [OF assms(2)] by simp
  then show "op_value o1 (rp_merged p) = (if op_Key o1 \<in> set (rp_applied p) then op_value o1 next1 else op_value o1 running)"
    unfolding a using merged_value [OF assms(1) _ assms(3)] by (simp add: certReplaced_def)
  show "op_Key o1 \<in> set (rp_applied p) \<longrightarrow> op_Key o1 \<in> set reloadableKeys"
    unfolding a by (auto simp: takesNew_def certReplaced_def reloadableKeys_def)
  show "op_value o1 running \<noteq> op_value o1 next1 \<longrightarrow>
      (op_Key o1 \<in> set (rp_applied p)) \<noteq> (op_Key o1 \<in> rc_Key ` set (rp_restartRequired p))"
    unfolding a r by (auto simp: certReplaced_def mustRestart_def)
qed

subsection \<open>Reloading the same configuration\<close>

lemma change_irreflexive: "\<not> clientCertChanged c c" "\<not> caContentChanged t t"
  by (auto simp: clientCertChanged_def caContentChanged_def split: option.splits)

lemma planReload_same:
  assumes "validateSettings c = Inr c" and "validateMode c = Inr c"
  shows "planReload c c = Inr \<lparr>rp_merged = c, rp_next = c, rp_applied = [], rp_restartRequired = []\<rparr>"
proof -
  have "foldl (planOption c c) p os = p" for p os
    by (induction os) (simp_all add: planOption_def Let_def change_irreflexive)
  then show ?thesis using assms by (simp add: planReload_def)
qed

lemma validateMode_again: "validateMode c = Inr c' \<Longrightarrow> validateMode c' = Inr c'"
proof -
  assume ok: "validateMode c = Inr c'"
  have pfs: "checkPFOnlyMasquerade (c\<lparr>cf_PortForwardOnly := b\<rparr>) pfs = checkPFOnlyMasquerade c pfs" for b pfs
    by (induction pfs) simp_all
  have "validateMode (c\<lparr>cf_PortForwardOnly := b\<rparr>) = validateMode c" for b
    unfolding validateMode_def Let_def by (simp split: option.split)
  then show "validateMode c' = Inr c'" using validateMode_fields [OF ok] ok by auto
qed

text \<open>What the loader returns passes both checks again.\<close>

lemma loaded_valid:
  assumes "loadConfig readConfigFile files env args = Inr cfg"
  shows "validateSettings cfg = Inr cfg \<and> validateMode cfg = Inr cfg"
proof -
  from assms obtain c0 c1 c2 where c1: "validateSettings c0 = Inr c1" and c2: "validateTLS files c1 = Inr c2"
    and m: "validateMode c2 = Inr cfg"
    by (auto simp: loadConfig_def validateConfig_def split: sum.splits if_splits)
  obtain t h where h: "c2 = c1\<lparr>cf_OVNTLS := t, cf_OVNClientCert := h\<rparr>" using validateTLS_fields [OF c2] by blast
  obtain b where b: "cfg = c2\<lparr>cf_PortForwardOnly := b\<rparr>" using validateMode_fields [OF m] by blast
  have "okSettings c0" "c1 = derivedFields c0" using validateSettings_Inr [OF c1] by simp_all
  then have c1: "okSettings c1" "derivedFields c1 = c1" using derived_ok by simp_all
  have "okSettings cfg"
    using c1(1) unfolding b h okSettings_def
    by (simp add: okNetworks_def okTimings_def okVethLeak_def okPortForwards_def)
  moreover have "derivedFields cfg = (derivedFields c1)\<lparr>cf_OVNTLS := t, cf_OVNClientCert := h, cf_PortForwardOnly := b\<rparr>"
    unfolding b h by (simp add: derivedFields_def)
  then have "derivedFields cfg = cfg" by (simp add: c1 b h)
  ultimately have "validateSettings cfg = Inr cfg" using validateSettings_spec [of cfg] by (simp split: sum.splits)
  then show ?thesis using validateMode_again [OF m] by simp
qed

text \<open>
  A reload of an unchanged configuration is a no-op. When the agent runs a configuration
  the loader returned and the loader returns it again, the plan is empty, the agent's state is
  unchanged but for the success counter, no reconcile is triggered and the ticker is kept.
\<close>

theorem unchanged_reload_is_noop:
  assumes "loadConfig readConfigFile files env args = Inr (ra_cfg a)" and "ra_routingCfg a = ra_cfg a"
  shows "handleReload a (Some (loadConfig readConfigFile files env args)) =
    (False, a\<lparr>ra_outcomes := ra_outcomes a @ [''success'']\<rparr>)"
proof -
  have "planReload (ra_cfg a) (ra_cfg a) =
      Inr \<lparr>rp_merged = ra_cfg a, rp_next = ra_cfg a, rp_applied = [], rp_restartRequired = []\<rparr>"
    using planReload_same loaded_valid [OF assms(1)] by blast
  then show ?thesis
    using assms(2) by (simp add: assms(1) handleReload_def reload_def applyReload_def apply_step_defs applied_def)
qed

subsection \<open>Applying a plan\<close>

definition managedVIPs :: "config \<Rightarrow> string set" where
  "managedVIPs c = pf_VIP ` {pf \<in> set (cf_PortForwards c). pf_ManageVIP pf}"

fun callConfig :: "reload_call \<Rightarrow> config" where
  "callConfig (EmptyPrefixList c) = c"
| "callConfig (WithdrawVIPs c _) = c"

fun withdrawnBy :: "reload_call \<Rightarrow> string set" where
  "withdrawnBy (EmptyPrefixList _) = {}"
| "withdrawnBy (WithdrawVIPs _ vips) = set vips"

lemma withdrawn_set: "set (withdrawnManagedVIPs (cf_PortForwards c) (cf_PortForwards d)) = managedVIPs c - managedVIPs d"
  by (auto simp: withdrawnManagedVIPs_def managedVIPs_def Let_def)

lemma storeCert_fields [simp]:
  "cf_PortForwards (storeCert x c) = cf_PortForwards c" "cf_FRRPrefixList (storeCert x c) = cf_FRRPrefixList c"
  by (simp_all add: storeCert_def)

lemma apply_step_fields:
  "ra_calls (swapClientCert p a) = ra_calls a" "ra_calls (applyLogLevel p a) = ra_calls a"
  "ra_calls (resetTracker p a) = ra_calls a" "ra_calls (applySettleDelay p a) = ra_calls a"
  "ra_calls (switchConfig p a) = ra_calls a" "ra_cfg (emptyOldList p a) = ra_cfg a"
  "ra_routingCfg (emptyOldList p a) = ra_routingCfg a"
  "ra_cfg (applyLogLevel p a) = ra_cfg a" "ra_cfg (resetTracker p a) = ra_cfg a" "ra_cfg (applySettleDelay p a) = ra_cfg a"
  "ra_routingCfg (applyLogLevel p a) = ra_routingCfg a" "ra_routingCfg (resetTracker p a) = ra_routingCfg a"
  "ra_routingCfg (applySettleDelay p a) = ra_routingCfg a"
  "ra_cfg (switchConfig p a) = rp_merged p" "ra_routingCfg (switchConfig p a) = rp_merged p"
  by (simp_all add: apply_step_defs)

lemma applyReload_cfg:
  "ra_cfg (applyReload a p) = ra_routingCfg (applyReload a p)"
  "managedVIPs (ra_cfg (applyReload a p)) = managedVIPs (rp_merged p)"
  "cf_FRRPrefixList (ra_cfg (applyReload a p)) = cf_FRRPrefixList (rp_merged p)"
  by (simp_all add: applyReload_def swapClientCert_def Let_def apply_step_fields managedVIPs_def)

lemma applyReload_calls:
  "ra_calls (applyReload a p) = ra_calls a @
    (if applied p ''frr_prefix_list'' \<and> cf_FRRPrefixList (ra_cfg a) \<noteq> '''' then [EmptyPrefixList (ra_routingCfg a)] else []) @
    (if applied p ''port_forwards'' \<and> withdrawnManagedVIPs (cf_PortForwards (ra_cfg a)) (cf_PortForwards (rp_merged p)) \<noteq> []
     then [WithdrawVIPs (ra_routingCfg a) (withdrawnManagedVIPs (cf_PortForwards (ra_cfg a)) (cf_PortForwards (rp_merged p)))] else [])"
  by (simp add: applyReload_def apply_step_fields withdrawOldVIPs_def Let_def) (simp add: emptyOldList_def)

text \<open>
  C26: a reload is all or nothing and leaves nothing of the old configuration behind. A reload
  that fails to load or to validate leaves the agent as it was. One that succeeds hands the same
  merged configuration to the agent and the routing layer; every host-side cleanup ran before the
  switch, under the old configuration; the addresses withdrawn are exactly those the old
  configuration managed and the new one does not; and the previous prefix-list is emptied
  whenever its name changes.
\<close>

theorem reload_leaves_nothing_behind:
  "(case reload a loaded of
      (Inl _, a') \<Rightarrow> a' = a
    | (Inr p, a') \<Rightarrow>
        ra_routingCfg a' = ra_cfg a' \<and>
        (\<exists>calls. ra_calls a' = ra_calls a @ calls \<and>
          callConfig ` set calls \<subseteq> {ra_routingCfg a} \<and>
          \<Union> (withdrawnBy ` set calls) = managedVIPs (ra_cfg a) - managedVIPs (ra_cfg a') \<and>
          (EmptyPrefixList (ra_routingCfg a) \<in> set calls \<or>
           cf_FRRPrefixList (ra_cfg a) \<in> {'''', cf_FRRPrefixList (ra_cfg a')})))"
proof (cases "fst (reload a loaded)")
  case (Inl e)
  then show ?thesis by (auto simp: reload_def split: option.splits sum.splits)
next
  case (Inr p)
  then obtain next1 where p: "planReload (ra_cfg a) next1 = Inr p" and r: "reload a loaded = (Inr p, applyReload a p)"
    by (auto simp: reload_def split: option.splits sum.splits)
  obtain m b where m: "\<And>o1. o1 \<in> set configOptions \<Longrightarrow> op_value o1 m = (if takesNew (ra_cfg a) next1 o1 then op_value o1 next1 else op_value o1 (ra_cfg a))"
    and merged: "rp_merged p = (derivedFields m)\<lparr>cf_PortForwardOnly := b\<rparr>"
    and ap: "rp_applied p = map op_Key (filter (\<lambda>o1. takesNew (ra_cfg a) next1 o1 \<or> certReplaced (ra_cfg a) next1 o1) configOptions)"
    using p by (rule planReload_Inr) blast
  have keep: "op_value o1 m = op_value o1 (ra_cfg a)" if "o1 \<in> set configOptions" "\<not> applied p (op_Key o1)" for o1
    using that m key_filter by (auto simp: applied_def ap)
  have fields: "cf_PortForwards (rp_merged p) = cf_PortForwards m" "cf_FRRPrefixList (rp_merged p) = cf_FRRPrefixList m"
    unfolding merged by (simp_all add: derivedFields_def)
  have vips: "applied p ''port_forwards'' \<or> managedVIPs (ra_cfg a) - managedVIPs (rp_merged p) = {}"
    using keep [OF named_options(2)] fields by (auto simp: portForwardsOpt_def managedVIPs_def)
  have plist: "applied p ''frr_prefix_list'' \<or> cf_FRRPrefixList (rp_merged p) = cf_FRRPrefixList (ra_cfg a)"
    using keep [OF named_options(5)] fields by (auto simp: stringOpt_def yamlKeyName_def)
  define vs where "vs = withdrawnManagedVIPs (cf_PortForwards (ra_cfg a)) (cf_PortForwards (rp_merged p))"
  define empties where "empties = (if applied p ''frr_prefix_list'' \<and> cf_FRRPrefixList (ra_cfg a) \<noteq> '''' then [EmptyPrefixList (ra_routingCfg a)] else [])"
  define withdraws where "withdraws = (if applied p ''port_forwards'' \<and> vs \<noteq> [] then [WithdrawVIPs (ra_routingCfg a) vs] else [])"
  have vs: "set vs = managedVIPs (ra_cfg a) - managedVIPs (rp_merged p)" unfolding vs_def by (rule withdrawn_set)
  have calls: "ra_calls (applyReload a p) = ra_calls a @ empties @ withdraws"
    unfolding applyReload_calls empties_def withdraws_def vs_def ..
  have cfgs: "callConfig ` set (empties @ withdraws) \<subseteq> {ra_routingCfg a}" by (auto simp: empties_def withdraws_def)
  have "\<Union> (withdrawnBy ` set (empties @ withdraws)) = (if applied p ''port_forwards'' then set vs else {})"
    by (simp add: empties_def withdraws_def)
  then have union: "\<Union> (withdrawnBy ` set (empties @ withdraws)) = managedVIPs (ra_cfg a) - managedVIPs (rp_merged p)"
    using vips vs by auto
  have old: "EmptyPrefixList (ra_routingCfg a) \<in> set (empties @ withdraws) \<or>
      cf_FRRPrefixList (ra_cfg a) \<in> {'''', cf_FRRPrefixList (rp_merged p)}"
    using plist by (auto simp: empties_def)
  have "ra_routingCfg (applyReload a p) = ra_cfg (applyReload a p)" by (simp only: applyReload_cfg(1))
  then show ?thesis
    unfolding r prod.case sum.case applyReload_cfg(2,3) using calls cfgs union old by blast
qed

subsection \<open>A reload\<close>

text \<open>
  A running port-forward-free configuration reloaded with another log level and bridge.
\<close>

definition demoRunning :: config where
  "demoRunning = derivedFields demoConfig"

definition demoNext :: config where
  "demoNext = demoRunning\<lparr>cf_LogLevel := ''warn'', cf_BridgeDev := ''br-2''\<rparr>"

lemma demo_running_valid: "validateSettings demoRunning = Inr demoRunning"
  using validateSettings_spec [of demoRunning] derived_ok [OF demo_ok]
  by (simp add: demoRunning_def split: sum.splits)

lemma demo_plan: "\<exists>p. planReload demoRunning demoNext = Inr p \<and> rp_applied p = [''log_level'']"
proof -
  have "foldl (planOption demoRunning demoNext)
      \<lparr>rp_merged = demoRunning, rp_next = demoNext, rp_applied = [], rp_restartRequired = []\<rparr> configOptions =
      \<lparr>rp_merged = demoRunning\<lparr>cf_LogLevel := ''warn''\<rparr>, rp_next = demoNext, rp_applied = [''log_level''],
       rp_restartRequired = [\<lparr>rc_Key = ''bridge_dev'', rc_Reason = StartupOnly\<rparr>]\<rparr>"
    by (simp add: configOptions_def option_simps yamlKeyName_def planOption_def reloadableKeys_def demoNext_def copyValue_def
        demoRunning_def demoConfig_def default_values derivedFields_def zeroConfig_def Let_def caContentChanged_def)
  moreover have "validateSettings (demoRunning\<lparr>cf_LogLevel := ''warn''\<rparr>) = Inr (demoRunning\<lparr>cf_LogLevel := ''warn''\<rparr>)"
  proof -
    have "okSettings (demoRunning\<lparr>cf_LogLevel := ''warn''\<rparr>)"
      using derived_ok [OF demo_ok] unfolding okSettings_def demoRunning_def
      by (simp add: okNetworks_def okTimings_def okVethLeak_def okPortForwards_def)
    moreover have "derivedFields (demoRunning\<lparr>cf_LogLevel := ''warn''\<rparr>) = (derivedFields demoRunning)\<lparr>cf_LogLevel := ''warn''\<rparr>"
      by (simp add: derivedFields_def)
    moreover have "derivedFields demoRunning = demoRunning" using derived_ok [OF demo_ok] by (simp add: demoRunning_def)
    ultimately show ?thesis using validateSettings_spec [of "demoRunning\<lparr>cf_LogLevel := ''warn''\<rparr>"] by (simp split: sum.splits)
  qed
  moreover have "\<exists>m. validateMode (demoRunning\<lparr>cf_LogLevel := ''warn''\<rparr>) = Inr m"
    by (simp add: validateMode_def demoRunning_def derivedFields_def demoConfig_def)
  ultimately show ?thesis by (auto simp: planReload_def Let_def)
qed

lemma reload_decides_every_key_witness:
  "\<exists>p. planReload demoRunning demoNext = Inr p \<and>
     op_value (stringOpt ''log-level'' ''info'' cf_LogLevel cf_LogLevel_update) (rp_merged p) = VString ''warn'' \<and>
     op_value (stringOpt ''bridge-dev'' ''br-ex'' cf_BridgeDev cf_BridgeDev_update) (rp_merged p) = VString ''br-ex''"
proof -
  let ?l = "stringOpt ''log-level'' ''info'' cf_LogLevel cf_LogLevel_update"
  let ?b = "stringOpt ''bridge-dev'' ''br-ex'' cf_BridgeDev cf_BridgeDev_update"
  obtain p where p: "planReload demoRunning demoNext = Inr p" and ap: "rp_applied p = [''log_level'']" using demo_plan by blast
  have mem: "?l \<in> set configOptions" "?b \<in> set configOptions"
    unfolding configOptions_def by (simp_all only: list.set insert_iff simp_thms)
  note decide = reload_decides_every_key [OF p demo_running_valid, THEN conjunct1]
  have "op_value ?l (rp_merged p) = VString ''warn''"
    using decide [OF mem(1)] by (simp add: ap stringOpt_def yamlKeyName_def demoNext_def)
  moreover have "op_value ?b (rp_merged p) = VString ''br-ex''"
    using decide [OF mem(2)]
    by (simp add: ap stringOpt_def yamlKeyName_def demoRunning_def derivedFields_def demoConfig_def default_values)
  ultimately show ?thesis using p by blast
qed

lemma unchanged_reload_is_noop_witness:
  "\<exists>cfg a. loadConfig (\<lambda>_. Inl (Err ''none'')) demoFiles demoEnv (Inr demoFlags) = Inr cfg \<and> ra_cfg a = cfg \<and>
     handleReload a (Some (Inr cfg)) = (False, a\<lparr>ra_outcomes := [''success'']\<rparr>)"
proof -
  let ?rc = "\<lambda>_. Inl (Err ''none'')"
  obtain cfg where cfg: "loadConfig ?rc demoFiles demoEnv (Inr demoFlags) = Inr cfg" using demo_load by blast
  let ?a = "\<lparr>ra_cfg = cfg, ra_routingCfg = cfg, ra_settleDelay = Some 5, ra_missing = [], ra_logLevel = LevelDebug,
    ra_reconcileCh = False, ra_reloadCh = False, ra_calls = [], ra_outcomes = []\<rparr>"
  have "handleReload ?a (Some (loadConfig ?rc demoFiles demoEnv (Inr demoFlags))) = (False, ?a\<lparr>ra_outcomes := ra_outcomes ?a @ [''success'']\<rparr>)"
    by (rule unchanged_reload_is_noop) (simp_all add: cfg)
  then show ?thesis using cfg by (intro exI [of _ cfg] exI [of _ ?a]) simp
qed

end
