(* ===== verification/FlowText.thy ===== *)
theory FlowText
  imports GoNet
begin

section \<open>OpenFlow rules as text\<close>

text \<open>
  The pure half of \<open>ovs.go\<close>: the rules the agent renders for \<open>ovs-ofctl\<close>, the identity of a flow,
  the spelling actions are compared in, and the reader of a dump. The lemmas show that the reader
  applied to a rendered rule returns the very identity the agent keeps for it.
\<close>

definition ovsCookieMACTweak :: string where
  "ovsCookieMACTweak = ''0x999''"

definition ovsCookieHairpin :: string where
  "ovsCookieHairpin = ''0x998''"

definition flowPlaneMACTweak :: string where
  "flowPlaneMACTweak = ''mactweak''"

definition flowPlaneHairpin :: string where
  "flowPlaneHairpin = ''hairpin''"

definition macTweakFlowPriority :: int where
  "macTweakFlowPriority = 900"

definition hairpinFlowPriority :: int where
  "hairpinFlowPriority = 910"

definition MACTweakFlow :: "string \<Rightarrow> string \<Rightarrow> string \<Rightarrow> bool \<Rightarrow> string" where
  "MACTweakFlow cookie ofport mac ipv6 =
     (let proto = (if ipv6 then ''ipv6'' else ''ip'')
      in ''cookie='' @ cookie @ '',priority='' @ Itoa macTweakFlowPriority @ '','' @ proto @ '',in_port='' @ ofport @
         '',actions=mod_dl_dst:'' @ mac @ '',NORMAL'')"

definition HairpinFlow :: "string \<Rightarrow> string \<Rightarrow> string \<Rightarrow> string \<Rightarrow> string \<Rightarrow> bool \<Rightarrow> string" where
  "HairpinFlow cookie ofport ip bridgeMAC routerMAC ipv6 =
     (if ipv6 then
        ''cookie='' @ cookie @ '',priority='' @ Itoa hairpinFlowPriority @ '',ipv6,in_port='' @ ofport @ '',ipv6_dst='' @ ip @ ''/128'' @
        '',actions=mod_dl_src:'' @ bridgeMAC @ '',mod_dl_dst:'' @ routerMAC @ '',output:in_port''
      else
        ''cookie='' @ cookie @ '',priority='' @ Itoa hairpinFlowPriority @ '',ip,in_port='' @ ofport @ '',ip_dst='' @ ip @ ''/32'' @
        '',actions=mod_dl_src:'' @ bridgeMAC @ '',mod_dl_dst:'' @ routerMAC @ '',output:in_port'')"

definition flowPlaneForCookie :: "string \<Rightarrow> (string \<times> int) option" where
  "flowPlaneForCookie cookie =
     (if cookie = ovsCookieHairpin then Some (flowPlaneHairpin, hairpinFlowPriority)
      else if cookie = ovsCookieMACTweak then Some (flowPlaneMACTweak, macTweakFlowPriority)
      else None)"

record flow_key =
  fk_priority :: int
  fk_ipv6 :: bool
  fk_inPort :: string
  fk_dst :: string

record desired_flow =
  df_key :: flow_key
  df_actions :: string
  df_spec :: string

record parsed_flow =
  pf_key :: flow_key
  pf_actions :: string

definition deleteMatch :: "string \<Rightarrow> flow_key \<Rightarrow> string" where
  "deleteMatch cookie k =
     (let (proto, dstField) = (if fk_ipv6 k then (''ipv6'', ''ipv6_dst'') else (''ip'', ''nw_dst''));
          match = ''cookie='' @ cookie @ ''/-1,priority='' @ Itoa (fk_priority k) @ '','' @ proto @ '',in_port='' @ fk_inPort k
      in if fk_dst k \<noteq> '''' then match @ '','' @ dstField @ ''='' @ fk_dst k else match)"

definition canonicalIP :: "string \<Rightarrow> string" where
  "canonicalIP s = (case ParseIP s of None \<Rightarrow> '''' | Some ip \<Rightarrow> IPString ip)"

text \<open>The two halves of \<open>strings.Cut\<close>, which are the string and the empty one without a match.\<close>

definition cutBefore :: "string \<Rightarrow> string \<Rightarrow> string" where
  "cutBefore s sep = (case Cut s sep of Some (a, _) \<Rightarrow> a | None \<Rightarrow> s)"

definition cutAfter :: "string \<Rightarrow> string \<Rightarrow> string" where
  "cutAfter s sep = (case Cut s sep of Some (_, b) \<Rightarrow> b | None \<Rightarrow> '''')"

definition flowActions :: "string \<Rightarrow> string" where
  "flowActions spec = cutAfter spec '',actions=''"

definition normalizeAction :: "string \<Rightarrow> string" where
  "normalizeAction a =
     (let p = TrimSpace a in
      if p = ''in_port'' then ''output:in_port''
      else if HasPrefix p ''set_field:'' \<and> HasSuffix p ''->eth_src'' then
        ''mod_dl_src:'' @ TrimSuffix (TrimPrefix p ''set_field:'') ''->eth_src''
      else if HasPrefix p ''set_field:'' \<and> HasSuffix p ''->eth_dst'' then
        ''mod_dl_dst:'' @ TrimSuffix (TrimPrefix p ''set_field:'') ''->eth_dst''
      else p)"

definition normalizeActions :: "string \<Rightarrow> string" where
  "normalizeActions actions = Join (map normalizeAction (Split (ToLower actions) CHR '','')) '',''"

subsection \<open>Reading a match and a dump\<close>

record flow_scan =
  fs_key :: flow_key
  fs_havePriority :: bool
  fs_haveProto :: bool
  fs_haveInPort :: bool
  fs_malformedPort :: bool
  fs_malformedDst :: bool

definition emptyKey :: flow_key where
  "emptyKey = \<lparr>fk_priority = 0, fk_ipv6 = False, fk_inPort = '''', fk_dst = ''''\<rparr>"

definition emptyScan :: flow_scan where
  "emptyScan = \<lparr>fs_key = emptyKey, fs_havePriority = False, fs_haveProto = False, fs_haveInPort = False,
     fs_malformedPort = False, fs_malformedDst = False\<rparr>"

definition scanField :: "flow_scan \<Rightarrow> string \<Rightarrow> flow_scan" where
  "scanField st f =
     (let key = fs_key st in
      if f = ''ip'' then st\<lparr>fs_haveProto := True\<rparr>
      else if f = ''ipv6'' then st\<lparr>fs_haveProto := True, fs_key := key\<lparr>fk_ipv6 := True\<rparr>\<rparr>
      else if HasPrefix f ''priority='' then
        (case Atoi (TrimPrefix f ''priority='') of
           None \<Rightarrow> st
         | Some p \<Rightarrow> st\<lparr>fs_key := key\<lparr>fk_priority := p\<rparr>, fs_havePriority := True\<rparr>)
      else if HasPrefix f ''in_port='' then
        (let port = TrimPrefix f ''in_port='' in
         if Atoi port = None then st\<lparr>fs_malformedPort := True\<rparr>
         else st\<lparr>fs_key := key\<lparr>fk_inPort := port\<rparr>, fs_haveInPort := True\<rparr>)
      else if HasPrefix f ''nw_dst='' \<or> HasPrefix f ''ip_dst='' \<or> HasPrefix f ''ipv6_dst='' then
        (let value = cutAfter f ''=''; addr = cutBefore value ''/''; dst = canonicalIP addr
         in st\<lparr>fs_key := key\<lparr>fk_dst := dst\<rparr>, fs_malformedDst := (fs_malformedDst st \<or> dst = '''')\<rparr>)
      else st)"

definition matchSep :: "char \<Rightarrow> bool" where
  "matchSep c \<longleftrightarrow> c = CHR '','' \<or> IsSpace c"

definition parseFlowMatch :: "string \<Rightarrow> flow_key \<times> bool \<times> bool" where
  "parseFlowMatch match =
     (let st = foldl scanField emptyScan (FieldsFunc matchSep [] match)
      in (fs_key st, fs_havePriority st,
          fs_haveProto st \<and> fs_haveInPort st \<and> \<not> fs_malformedPort st \<and> \<not> fs_malformedDst st))"

definition parseDumpLine :: "string \<Rightarrow> parsed_flow option" where
  "parseDumpLine line =
     (if \<not> Contains line ''cookie='' then None
      else (case Cut line '' actions='' of
              None \<Rightarrow> None
            | Some (match, actions) \<Rightarrow>
                (case parseFlowMatch match of (key, havePriority, ok) \<Rightarrow>
                   if \<not> ok \<or> \<not> havePriority then None
                   else Some \<lparr>pf_key = key, pf_actions = normalizeActions actions\<rparr>)))"

definition parseFlowDump :: "string \<Rightarrow> parsed_flow list" where
  "parseFlowDump out = List.map_filter parseDumpLine (Split out CHR 0x0A)"

text \<open>A deletion the flow monitor of \<open>flow_watch.go\<close> reports. Its line carries no priority.\<close>

record flow_event =
  ev_Plane :: string
  ev_Key :: flow_key

definition parseFlowMonitorLine :: "string \<Rightarrow> flow_event option" where
  "parseFlowMonitorLine line =
     (let fields = Fields line in
      if fields = [] \<or> hd fields \<noteq> ''event=DELETED'' \<or> ''table=0'' \<notin> set fields then None
      else (case find (\<lambda>f. HasPrefix f ''cookie='') fields of
              None \<Rightarrow> None
            | Some f \<Rightarrow>
                (case flowPlaneForCookie (TrimPrefix f ''cookie='') of
                   None \<Rightarrow> None
                 | Some (plane, priority) \<Rightarrow>
                     (case parseFlowMatch line of (key, _, ok) \<Rightarrow>
                        if \<not> ok then None
                        else Some \<lparr>ev_Plane = plane, ev_Key = key\<lparr>fk_priority := priority\<rparr>\<rparr>))))"

subsection \<open>A rendered rule reads back as its identity\<close>

lemma FieldsFunc_acc: "list_all (\<lambda>c. \<not> sep c) f \<Longrightarrow> FieldsFunc sep acc (f @ s) = FieldsFunc sep (rev f @ acc) s"
  by (induction f arbitrary: acc) simp_all

lemma FieldsFunc_field:
  "list_all (\<lambda>c. \<not> sep c) f \<Longrightarrow> f \<noteq> [] \<Longrightarrow> sep c \<Longrightarrow> FieldsFunc sep [] (f @ c # s) = f # FieldsFunc sep [] s"
  by (simp add: FieldsFunc_acc)

lemma FieldsFunc_last: "list_all (\<lambda>c. \<not> sep c) f \<Longrightarrow> f \<noteq> [] \<Longrightarrow> FieldsFunc sep [] f = [f]"
  using FieldsFunc_acc [of sep f "[]" "[]"] by simp

definition plainField :: "string \<Rightarrow> bool" where
  "plainField f \<longleftrightarrow> list_all (\<lambda>c. \<not> matchSep c) f"

lemma plainField_append [simp]: "plainField (f @ g) \<longleftrightarrow> plainField f \<and> plainField g"
  by (simp add: plainField_def)

lemma plainField_Cons [simp]: "plainField (c # g) \<longleftrightarrow> \<not> matchSep c \<and> plainField g" "plainField []"
  by (simp_all add: plainField_def)

lemma matchFields:
  "plainField f \<Longrightarrow> f \<noteq> [] \<Longrightarrow> FieldsFunc matchSep [] (f @ CHR '','' # s) = f # FieldsFunc matchSep [] s"
  "plainField f \<Longrightarrow> f \<noteq> [] \<Longrightarrow> FieldsFunc matchSep [] f = [f]"
  by (simp_all add: FieldsFunc_field FieldsFunc_last plainField_def matchSep_def)

text \<open>The first occurrence of a separator that starts with a character the front does not contain
  twice in a row: a front whose commas are not followed by the second character of the separator.\<close>

fun avoids :: "char \<Rightarrow> char \<Rightarrow> string \<Rightarrow> bool" where
  "avoids x y (c # d # s) \<longleftrightarrow> \<not> (c = x \<and> d = y) \<and> avoids x y (d # s)"
| "avoids x y _ \<longleftrightarrow> True"

lemma avoids_plain: "x \<notin> set s \<Longrightarrow> avoids x y s"
  by (induction x y s rule: avoids.induct) auto

lemma avoids_append: "avoids x y s \<Longrightarrow> avoids x y t \<Longrightarrow> s = [] \<or> last s \<noteq> x \<Longrightarrow> avoids x y (s @ t)"
proof (induction s)
  case (Cons c s)
  then show ?case by (cases s; cases t) auto
qed simp

lemma Cut_avoids:
  "x \<noteq> y \<Longrightarrow> avoids x y a \<Longrightarrow> Cut (a @ (x # y # r) @ b) (x # y # r) = Some (a, b)"
proof (induction a)
  case (Cons c a)
  then show ?case by (cases a) (auto simp: HasPrefix_def)
qed (simp add: HasPrefix_def)

lemma parse_nat_digits: "parse_nat s = Some n \<Longrightarrow> list_all is_digit s"
  by (auto simp: parse_nat_def split: if_splits)

lemma digit_not_sep: "is_digit c \<Longrightarrow> \<not> matchSep c"
  by (auto simp: is_digit_def matchSep_def IsSpace_def)

lemma Atoi_plain:
  assumes "Atoi s = Some n" shows "plainField s" "CHR '','' \<notin> set s" "CHR 0x0A \<notin> set s" "CHR ''='' \<notin> set s"
proof -
  define t where "t = (if HasPrefix s ''-'' \<or> HasPrefix s ''+'' then tl s else s)"
  have "\<exists>m. parse_nat t = Some m" using assms by (auto simp: Atoi_def t_def Let_def split: option.splits)
  then have d: "list_all is_digit t" using parse_nat_digits by blast
  have s: "s = t \<or> s = CHR ''-'' # t \<or> s = CHR ''+'' # t"
    by (auto simp: t_def HasPrefix_iff)
  have "\<not> matchSep CHR ''-''" "\<not> matchSep CHR ''+''" by (simp_all add: matchSep_def IsSpace_def)
  then show pf: "plainField s"
    using s d by (auto simp: plainField_def list_all_iff dest: digit_not_sep)
  then show "CHR '','' \<notin> set s" "CHR 0x0A \<notin> set s"
    by (auto simp: plainField_def list_all_iff matchSep_def IsSpace_def)
  have "\<not> is_digit CHR ''=''" by (simp add: is_digit_def)
  then show "CHR ''='' \<notin> set s" using s d by (auto simp: list_all_iff)
qed

lemma addr_plain: "list_all addr_char s \<Longrightarrow> plainField s \<and> CHR '','' \<notin> set s \<and> CHR ''/'' \<notin> set s \<and> CHR 0x0A \<notin> set s"
proof -
  assume s: "list_all addr_char s"
  have "\<not> matchSep c \<and> c \<noteq> CHR '','' \<and> c \<noteq> CHR ''/'' \<and> c \<noteq> CHR 0x0A" if "addr_char c" for c
    using that by (auto simp: addr_char_def is_hex_def hex_val_def matchSep_def IsSpace_def)
  with s show ?thesis by (auto simp: plainField_def list_all_iff)
qed

lemma show_hex_hex: "list_all is_hex (show_hex n) \<and> show_hex n \<noteq> []"
proof (induction n rule: show_hex.induct)
  case (1 n)
  have hc: "d < 16 \<Longrightarrow> is_hex (hex_char d)" for d :: nat
  proof -
    assume "d < 16"
    then have "d \<in> {0, 1, 2, 3, 4, 5, 6, 7, 8, 9, 10, 11, 12, 13, 14, 15}" by (simp add: eval_nat_numeral less_Suc_eq)
    then show ?thesis by (elim insertE) (simp_all add: hex_char_def is_hex_def hex_val_def)
  qed
  show ?case using 1 hc by (subst (1 2) show_hex.simps) auto
qed

lemma Join_chars: "list_all (list_all P) xs \<Longrightarrow> list_all P sep \<Longrightarrow> list_all P (Join xs sep)"
  by (induction xs sep rule: Join.induct) auto

lemma hexes_chars: "list_all addr_char (Join (map show_hex gs) '':'')"
proof (rule Join_chars)
  have "list_all addr_char (show_hex g)" for g
    using show_hex_hex [of g] by (auto simp: list_all_iff addr_char_def)
  then show "list_all (list_all addr_char) (map show_hex gs)" by (simp add: list_all_iff)
qed (simp add: addr_char_def)

lemma IPString_chars: "list_all addr_char (IPString p) \<and> IPString p \<noteq> ''''"
proof (cases "To4 p")
  case (Some w)
  have "list_all addr_char (show_nat n)" for n
    using show_nat_digits [of n] by (auto simp: list_all_iff addr_char_def dest: is_digit_is_hex)
  then show ?thesis using Some by (simp add: IPString_def ip4String_def addr_char_def)
next
  case None
  have "Join (map show_hex (groups_of p)) '':'' \<noteq> ''''"
  proof (subst Join_eq_Nil_iff)
    have "show_hex n \<noteq> []" for n using show_hex_hex by blast
    then show "[] \<notin> set (map show_hex (groups_of p))" by (metis (no_types, lifting) ex_map_conv)
  qed (simp add: groups_of_def)
  then show ?thesis using None hexes_chars
    by (simp add: IPString_def ip6String_def addr_char_def Let_def split: prod.split)
qed

definition readSpec :: "string \<Rightarrow> (flow_key \<times> string) option" where
  "readSpec s =
     (case Cut s '',actions='' of
        None \<Rightarrow> None
      | Some (m, a) \<Rightarrow>
          (case parseFlowMatch m of (k, havePriority, ok) \<Rightarrow>
             if ok \<and> havePriority then Some (k, normalizeActions a) else None))"

lemma priority_text: "Itoa macTweakFlowPriority = ''900''" "Itoa hairpinFlowPriority = ''910''"
  by (simp_all add: macTweakFlowPriority_def hairpinFlowPriority_def Itoa_def show_nat.simps digit_char_def)

lemma priority_field:
  "scanField st ''priority=900'' = st\<lparr>fs_key := (fs_key st)\<lparr>fk_priority := macTweakFlowPriority\<rparr>, fs_havePriority := True\<rparr>"
  "scanField st ''priority=910'' = st\<lparr>fs_key := (fs_key st)\<lparr>fk_priority := hairpinFlowPriority\<rparr>, fs_havePriority := True\<rparr>"
  by (simp_all add: scanField_def HasPrefix_def TrimPrefix_def Atoi_def parse_nat_def is_digit_def digit_val_def
      macTweakFlowPriority_def hairpinFlowPriority_def)

lemma cookie_field: "scanField st (''cookie='' @ c) = st"
  by (simp add: scanField_def HasPrefix_def)

lemma proto_field:
  "scanField st ''ip'' = st\<lparr>fs_haveProto := True\<rparr>"
  "scanField st ''ipv6'' = st\<lparr>fs_haveProto := True, fs_key := (fs_key st)\<lparr>fk_ipv6 := True\<rparr>\<rparr>"
  by (simp_all add: scanField_def)

lemma port_field:
  "Atoi port = Some n \<Longrightarrow> scanField st (''in_port='' @ port) = st\<lparr>fs_key := (fs_key st)\<lparr>fk_inPort := port\<rparr>, fs_haveInPort := True\<rparr>"
  by (simp add: scanField_def HasPrefix_def TrimPrefix_def)

lemma Cut_char: "c \<notin> set a \<Longrightarrow> Cut (a @ c # b) [c] = Some (a, b)"
  by (induction a) (auto simp: HasPrefix_def)

lemma dst_field:
  assumes "ParseIP ip = Some p" and f: "f = ''ip_dst='' @ ip @ ''/32'' \<or> f = ''ipv6_dst='' @ ip @ ''/128''"
  shows "scanField st f = st\<lparr>fs_key := (fs_key st)\<lparr>fk_dst := IPString p\<rparr>\<rparr>"
proof -
  have chars: "CHR ''/'' \<notin> set ip" using ParseIP_chars [OF assms(1)] addr_plain by blast
  obtain tl where tl: "cutAfter f ''='' = ip @ ''/'' @ tl"
  proof -
    from f show ?thesis
    proof
      assume "f = ''ip_dst='' @ ip @ ''/32''"
      then show ?thesis using Cut_char [of "CHR ''=''" "''ip_dst''" "ip @ ''/32''"] that [of "''32''"] by (simp add: cutAfter_def)
    next
      assume "f = ''ipv6_dst='' @ ip @ ''/128''"
      then show ?thesis using Cut_char [of "CHR ''=''" "''ipv6_dst''" "ip @ ''/128''"] that [of "''128''"] by (simp add: cutAfter_def)
    qed
  qed
  have "cutBefore (ip @ ''/'' @ tl) ''/'' = ip" using Cut_slash [OF chars] by (simp add: cutBefore_def)
  moreover have "canonicalIP ip = IPString p" using assms(1) by (simp add: canonicalIP_def)
  ultimately show ?thesis using f tl IPString_chars [of p] by (auto simp: scanField_def HasPrefix_def)
qed

lemma parseFlowMatch_tweak:
  assumes "Atoi port = Some n" and "plainField cookie"
  shows "parseFlowMatch (''cookie='' @ cookie @ '',priority=900,'' @ (if v6 then ''ipv6'' else ''ip'') @ '',in_port='' @ port) =
    (\<lparr>fk_priority = macTweakFlowPriority, fk_ipv6 = v6, fk_inPort = port, fk_dst = ''''\<rparr>, True, True)"
proof -
  have "FieldsFunc matchSep [] (''cookie='' @ cookie @ '',priority=900,'' @ (if v6 then ''ipv6'' else ''ip'') @ '',in_port='' @ port) =
      [''cookie='' @ cookie, ''priority=900'', if v6 then ''ipv6'' else ''ip'', ''in_port='' @ port]"
    using matchFields(1) [of "''cookie='' @ cookie" "''priority=900,'' @ (if v6 then ''ipv6'' else ''ip'') @ '',in_port='' @ port"]
      matchFields(1) [of "''priority=900''" "(if v6 then ''ipv6'' else ''ip'') @ '',in_port='' @ port"]
      matchFields(1) [of "''ipv6''" "''in_port='' @ port"] matchFields(1) [of "''ip''" "''in_port='' @ port"]
      matchFields(2) [of "''in_port='' @ port"] assms Atoi_plain(1) [OF assms(1)]
    by (auto simp: matchSep_def IsSpace_def)
  then show ?thesis
    using port_field [OF assms(1)] cookie_field
    by (simp add: parseFlowMatch_def Let_def emptyScan_def emptyKey_def proto_field priority_field)
qed

lemma parseFlowMatch_hairpin:
  assumes "Atoi port = Some n" and "plainField cookie" and "ParseIP ip = Some p"
  shows "parseFlowMatch (''cookie='' @ cookie @ '',priority=910,'' @
      (if v6 then ''ipv6'' else ''ip'') @ '',in_port='' @ port @ (if v6 then '',ipv6_dst='' @ ip @ ''/128'' else '',ip_dst='' @ ip @ ''/32'')) =
    (\<lparr>fk_priority = hairpinFlowPriority, fk_ipv6 = v6, fk_inPort = port, fk_dst = IPString p\<rparr>, True, True)"
proof -
  let ?dst = "if v6 then ''ipv6_dst='' @ ip @ ''/128'' else ''ip_dst='' @ ip @ ''/32''"
  have ip: "plainField ip" using ParseIP_chars [OF assms(3)] addr_plain by blast
  then have dst: "plainField ?dst" "?dst \<noteq> []" by (auto simp: matchSep_def IsSpace_def)
  have "FieldsFunc matchSep [] (''cookie='' @ cookie @ '',priority=910,'' @
      (if v6 then ''ipv6'' else ''ip'') @ '',in_port='' @ port @ CHR '','' # ?dst) =
      [''cookie='' @ cookie, ''priority=910'', if v6 then ''ipv6'' else ''ip'', ''in_port='' @ port, ?dst]"
    using matchFields(1) [of "''cookie='' @ cookie" "''priority=910,'' @ (if v6 then ''ipv6'' else ''ip'') @ '',in_port='' @ port @ CHR '','' # ?dst"]
      matchFields(1) [of "''priority=910''" "(if v6 then ''ipv6'' else ''ip'') @ '',in_port='' @ port @ CHR '','' # ?dst"]
      matchFields(1) [of "''ipv6''" "''in_port='' @ port @ CHR '','' # ?dst"] matchFields(1) [of "''ip''" "''in_port='' @ port @ CHR '','' # ?dst"]
      matchFields(1) [of "''in_port='' @ port" ?dst] matchFields(2) [OF dst] assms Atoi_plain(1) [OF assms(1)]
    by (cases v6) (simp_all add: matchSep_def IsSpace_def)
  moreover have "scanField st ?dst = st\<lparr>fs_key := (fs_key st)\<lparr>fk_dst := IPString p\<rparr>\<rparr>" for st
    by (rule dst_field [OF assms(3)]) simp
  moreover have "CHR '','' # ?dst = (if v6 then '',ipv6_dst='' @ ip @ ''/128'' else '',ip_dst='' @ ip @ ''/32'')" by simp
  ultimately show ?thesis
    using port_field [OF assms(1)] cookie_field
    by (simp add: parseFlowMatch_def Let_def emptyScan_def emptyKey_def proto_field priority_field)
qed

text \<open>The separator of the actions is found where the renderer put it.\<close>

lemma Cut_actions: "avoids CHR '','' CHR ''a'' m \<Longrightarrow> Cut (m @ '',actions='' @ a) '',actions='' = Some (m, a)"
  using Cut_avoids [of "CHR '',''" "CHR ''a''" m "''ctions=''" a] by simp

lemma avoids_field: "CHR '','' \<notin> set f \<Longrightarrow> avoids CHR '','' y g \<Longrightarrow> g = [] \<or> hd g \<noteq> y \<Longrightarrow> avoids CHR '','' y (f @ CHR '','' # g)"
proof (induction f)
  case Nil
  then show ?case by (cases g) auto
next
  case (Cons c f)
  then show ?case by (cases f) auto
qed

lemma MACTweakFlow_reads:
  assumes "Atoi port = Some n" and "plainField cookie"
  shows "readSpec (MACTweakFlow cookie port mac v6) =
    Some (\<lparr>fk_priority = macTweakFlowPriority, fk_ipv6 = v6, fk_inPort = port, fk_dst = ''''\<rparr>,
          normalizeActions (flowActions (MACTweakFlow cookie port mac v6)))"
proof -
  let ?m = "''cookie='' @ cookie @ '',priority=900,'' @ (if v6 then ''ipv6'' else ''ip'') @ '',in_port='' @ port"
  let ?a = "''mod_dl_dst:'' @ mac @ '',NORMAL''"
  have spec: "MACTweakFlow cookie port mac v6 = ?m @ '',actions='' @ ?a"
    by (simp add: MACTweakFlow_def priority_text)
  have "CHR '','' \<notin> set cookie" using assms(2) by (auto simp: plainField_def list_all_iff matchSep_def)
  then have "avoids CHR '','' CHR ''a'' ?m"
    using Atoi_plain(2) [OF assms(1)]
      avoids_field [of "''cookie='' @ cookie" "CHR ''a''" "''priority=900,'' @ (if v6 then ''ipv6'' else ''ip'') @ '',in_port='' @ port"]
      avoids_field [of "''priority=900''" "CHR ''a''" "(if v6 then ''ipv6'' else ''ip'') @ '',in_port='' @ port"]
      avoids_field [of "''ipv6''" "CHR ''a''" "''in_port='' @ port"] avoids_field [of "''ip''" "CHR ''a''" "''in_port='' @ port"]
      avoids_plain [of "CHR '',''" "''in_port='' @ port" "CHR ''a''"]
    by (cases v6) simp_all
  then have "Cut (MACTweakFlow cookie port mac v6) '',actions='' = Some (?m, ?a)" unfolding spec by (rule Cut_actions)
  then show ?thesis
    using parseFlowMatch_tweak [OF assms, of v6] by (simp add: readSpec_def flowActions_def cutAfter_def)
qed

lemma HairpinFlow_reads:
  assumes "Atoi port = Some n" and "plainField cookie" and "ParseIP ip = Some p"
  shows "readSpec (HairpinFlow cookie port ip bridgeMAC routerMAC v6) =
    Some (\<lparr>fk_priority = hairpinFlowPriority, fk_ipv6 = v6, fk_inPort = port, fk_dst = IPString p\<rparr>,
          normalizeActions (flowActions (HairpinFlow cookie port ip bridgeMAC routerMAC v6)))"
proof -
  let ?dst = "if v6 then ''ipv6_dst='' @ ip @ ''/128'' else ''ip_dst='' @ ip @ ''/32''"
  let ?m = "''cookie='' @ cookie @ '',priority=910,'' @ (if v6 then ''ipv6'' else ''ip'') @ '',in_port='' @ port @
      (if v6 then '',ipv6_dst='' @ ip @ ''/128'' else '',ip_dst='' @ ip @ ''/32'')"
  let ?a = "''mod_dl_src:'' @ bridgeMAC @ '',mod_dl_dst:'' @ routerMAC @ '',output:in_port''"
  have spec: "HairpinFlow cookie port ip bridgeMAC routerMAC v6 = ?m @ '',actions='' @ ?a"
    by (simp add: HairpinFlow_def priority_text)
  have ip: "CHR '','' \<notin> set ip" using ParseIP_chars [OF assms(3)] addr_plain by blast
  have m: "?m = ''cookie='' @ cookie @ '',priority=910,'' @ (if v6 then ''ipv6'' else ''ip'') @ '',in_port='' @ port @ CHR '','' # ?dst"
    by simp
  have "CHR '','' \<notin> set cookie" using assms(2) by (auto simp: plainField_def list_all_iff matchSep_def)
  then have "avoids CHR '','' CHR ''a'' ?m"
    unfolding m using Atoi_plain(2) [OF assms(1)] ip
      avoids_field [of "''cookie='' @ cookie" "CHR ''a''" "''priority=910,'' @ (if v6 then ''ipv6'' else ''ip'') @ '',in_port='' @ port @ CHR '','' # ?dst"]
      avoids_field [of "''priority=910''" "CHR ''a''" "(if v6 then ''ipv6'' else ''ip'') @ '',in_port='' @ port @ CHR '','' # ?dst"]
      avoids_field [of "''ipv6''" "CHR ''a''" "''in_port='' @ port @ CHR '','' # ?dst"]
      avoids_field [of "''ip''" "CHR ''a''" "''in_port='' @ port @ CHR '','' # ?dst"]
      avoids_field [of "''in_port='' @ port" "CHR ''a''" ?dst]
      avoids_plain [of "CHR '',''" "?dst" "CHR ''a''"]
    by (cases v6) simp_all
  then have "Cut (HairpinFlow cookie port ip bridgeMAC routerMAC v6) '',actions='' = Some (?m, ?a)" unfolding spec by (rule Cut_actions)
  then show ?thesis
    using parseFlowMatch_hairpin [OF assms, of v6] by (simp add: readSpec_def flowActions_def cutAfter_def)
qed

text \<open>A strict delete names one flow only.\<close>

definition keyFields :: "flow_key \<Rightarrow> string list" where
  "keyFields k = [''priority='' @ Itoa (fk_priority k), if fk_ipv6 k then ''ipv6'' else ''ip'', ''in_port='' @ fk_inPort k] @
     (if fk_dst k = '''' then [] else [(if fk_ipv6 k then ''ipv6_dst='' else ''nw_dst='') @ fk_dst k])"

definition plainKey :: "flow_key \<Rightarrow> bool" where
  "plainKey k \<longleftrightarrow> CHR '','' \<notin> set (fk_inPort k) \<and> CHR '','' \<notin> set (fk_dst k)"

lemma Itoa_no_comma: "CHR '','' \<notin> set (Itoa i)"
proof -
  have "\<not> is_digit CHR '',''" by (simp add: is_digit_def)
  then show ?thesis by (simp add: Itoa_def show_nat_no_char)
qed

lemma Split_deleteMatch:
  assumes "CHR '','' \<notin> set cookie" and "plainKey k"
  shows "Split (deleteMatch cookie k) CHR '','' = (''cookie='' @ cookie @ ''/-1'') # keyFields k"
proof -
  have parts: "CHR '','' \<notin> set (''cookie='' @ cookie @ ''/-1'')" "CHR '','' \<notin> set (''priority='' @ Itoa (fk_priority k))"
    "CHR '','' \<notin> set (''in_port='' @ fk_inPort k)" "CHR '','' \<notin> set ((if fk_ipv6 k then ''ipv6_dst='' else ''nw_dst='') @ fk_dst k)"
    using assms Itoa_no_comma by (simp_all add: plainKey_def)
  have m: "deleteMatch cookie k = (''cookie='' @ cookie @ ''/-1'') @ CHR '','' # (''priority='' @ Itoa (fk_priority k)) @ CHR '','' #
      (if fk_ipv6 k then ''ipv6'' else ''ip'') @ CHR '','' # (''in_port='' @ fk_inPort k) @
      (if fk_dst k = '''' then [] else CHR '','' # (if fk_ipv6 k then ''ipv6_dst='' else ''nw_dst='') @ fk_dst k)"
    by (simp add: deleteMatch_def)
  show ?thesis
    unfolding m keyFields_def
    using Split_append [OF parts(1)] Split_append [OF parts(2)] Split_append [OF parts(3)]
      Split_append [of "CHR '',''" "''ipv6''"] Split_append [of "CHR '',''" "''ip''"] Split_no_sep [OF parts(3)] Split_no_sep [OF parts(4)]
    by (cases "fk_ipv6 k"; cases "fk_dst k = ''''") (simp_all del: append_Cons append.simps(2))
qed

lemma deleteMatch_inj:
  assumes "CHR '','' \<notin> set cookie" and "plainKey k" "plainKey k'" and "deleteMatch cookie k = deleteMatch cookie k'"
  shows "k = k'"
proof -
  have "keyFields k = keyFields k'" using Split_deleteMatch assms by (metis list.inject)
  then show ?thesis by (cases k; cases k') (auto simp: keyFields_def Itoa_inj split: if_splits)
qed

end
