(* ===== verification/NetDev.thy ===== *)
theory NetDev
  imports KernelRoutes
begin

section \<open>The bridge and the per-VLAN segment interfaces\<close>

text \<open>
  The device half of \<open>routing_linux.go\<close>: the provider bridge, the VLAN interfaces the agent
  creates or adopts on it, and their addresses. An operation of the route manager is a function
  of its state that returns a result; \<open>andThen\<close> is the early return after a failed call.
\<close>

type_synonym ('s, 'a) op = "'s \<Rightarrow> 'a result \<times> 's"

definition ret :: "'a \<Rightarrow> ('s, 'a) op" where
  "ret x s = (Inr x, s)"

definition fail :: "string \<Rightarrow> ('s, 'a) op" where
  "fail msg s = (Inl (Err msg), s)"

definition andThen :: "('s, 'a) op \<Rightarrow> ('a \<Rightarrow> ('s, 'b) op) \<Rightarrow> ('s, 'b) op" where
  "andThen m f s = (case m s of (Inl e, s1) \<Rightarrow> (Inl e, s1) | (Inr x, s1) \<Rightarrow> f x s1)"

text \<open>A lookup whose error is wrapped, a write whose error is returned, one tolerated, one ignored.\<close>

definition find_or :: "string \<Rightarrow> ('s \<Rightarrow> (errno + 'a) \<times> 's) \<Rightarrow> ('s, 'a) op" where
  "find_or msg m s = (case m s of (Inl _, s1) \<Rightarrow> (Inl (Err msg), s1) | (Inr x, s1) \<Rightarrow> (Inr x, s1))"

definition must :: "string \<Rightarrow> ('s \<Rightarrow> errno option \<times> 's) \<Rightarrow> ('s, unit) op" where
  "must msg m s = (case m s of (Some _, s1) \<Rightarrow> (Inl (Err msg), s1) | (None, s1) \<Rightarrow> (Inr (), s1))"

definition mustUnless :: "(errno \<Rightarrow> bool) \<Rightarrow> string \<Rightarrow> ('s \<Rightarrow> errno option \<times> 's) \<Rightarrow> ('s, unit) op" where
  "mustUnless p msg m s =
     (case m s of (Some e, s1) \<Rightarrow> (if p e then Inr () else Inl (Err msg), s1) | (None, s1) \<Rightarrow> (Inr (), s1))"

definition attempt :: "('s \<Rightarrow> errno option \<times> 's) \<Rightarrow> ('s, unit) op" where
  "attempt m s = (Inr (), snd (m s))"

lemmas op_defs = ret_def fail_def andThen_def find_or_def must_def mustUnless_def attempt_def

subsection \<open>Calls\<close>

definition doNet :: "host \<Rightarrow> net_op \<Rightarrow> 'z route_manager_scheme \<Rightarrow> errno option \<times> 'z route_manager_scheme" where
  "doNet env x rm = (let e = h_net env (rm_hist rm) x in (e, logCall (CNet x) (e = None) rm))"

definition addrList :: "host \<Rightarrow> int \<Rightarrow> 'z route_manager_scheme \<Rightarrow> (errno + netip list) \<times> 'z route_manager_scheme" where
  "addrList env i rm = (let r = h_addrList env (rm_hist rm) i in (r, logCall (CAddrList i) (\<not> isl r) rm))"

definition polRuleList :: "host \<Rightarrow> 'z route_manager_scheme \<Rightarrow> (errno + pol_rule list) \<times> 'z route_manager_scheme" where
  "polRuleList env rm = (let r = h_polRuleList env (rm_hist rm) in (r, logCall CPolRuleList (\<not> isl r) rm))"

definition gwRouteList ::
  "host \<Rightarrow> int option \<Rightarrow> int \<Rightarrow> int option \<Rightarrow> 'z route_manager_scheme \<Rightarrow> (errno + gw_route list) \<times> 'z route_manager_scheme" where
  "gwRouteList env oif t pr rm =
     (let r = h_gwRouteList env (rm_hist rm) oif t pr in (r, logCall (CGwRouteList oif t pr) (\<not> isl r) rm))"

lemmas net_calls = nl_calls doNet_def addrList_def polRuleList_def gwRouteList_def

subsection \<open>The bridge\<close>

definition CheckBridgeDevice :: "host \<Rightarrow> config \<Rightarrow> int \<Rightarrow> ('z route_manager_scheme, unit) op" where
  "CheckBridgeDevice env cfg euid =
     (if cf_DryRun cfg then ret ()
      else if euid \<noteq> 0 then fail ''agent must run as root''
      else andThen (find_or ''bridge device not found'' (linkByName env (cf_BridgeDev cfg))) (\<lambda>link.
           if \<not> ln_Up link then must ''failed to bring up bridge device'' (doNet env (LinkSetUp (ln_Index link)))
           else ret ()))"

definition ensureIPOnDev :: "host \<Rightarrow> string \<Rightarrow> string \<Rightarrow> ('z route_manager_scheme, unit) op" where
  "ensureIPOnDev env ip dev =
     (case ParseIP ip of
        None \<Rightarrow> fail ''invalid IP''
      | Some parsedIP \<Rightarrow>
          andThen (find_or ''find bridge'' (linkByName env dev)) (\<lambda>link.
          andThen (find_or ''list addrs'' (addrList env (ln_Index link))) (\<lambda>addrs.
            if parsedIP \<in> set addrs then ret ()
            else must ''add IP'' (doNet env (AddrAdd (ln_Index link) (hostNet parsedIP))))))"

definition EnsureBridgeIP :: "host \<Rightarrow> config \<Rightarrow> string \<Rightarrow> ('z route_manager_scheme, unit) op" where
  "EnsureBridgeIP env cfg ip = (if cf_DryRun cfg then ret () else ensureIPOnDev env ip (cf_BridgeDev cfg))"

definition RemoveBridgeIP :: "host \<Rightarrow> config \<Rightarrow> string \<Rightarrow> ('z route_manager_scheme, unit) op" where
  "RemoveBridgeIP env cfg ip =
     (if cf_DryRun cfg then ret ()
      else (case ParseIP ip of
        None \<Rightarrow> fail ''invalid IP''
      | Some parsedIP \<Rightarrow>
          andThen (find_or ''find bridge'' (linkByName env (cf_BridgeDev cfg))) (\<lambda>link.
            must ''remove IP'' (doNet env (AddrDel (ln_Index link) (hostNet parsedIP))))))"

definition enableProxyARPOnDev :: "host \<Rightarrow> string \<Rightarrow> ('z route_manager_scheme, unit) op" where
  "enableProxyARPOnDev env dev =
     must ''enable proxy ARP''
       (doNet env (WriteFile (''/proc/sys/net/ipv4/conf/'' @ dev @ ''/proxy_arp'') (''1'' @ [CHR 0x0A])))"

definition EnableProxyARP :: "host \<Rightarrow> config \<Rightarrow> ('z route_manager_scheme, unit) op" where
  "EnableProxyARP env cfg = (if cf_DryRun cfg then ret () else enableProxyARPOnDev env (cf_BridgeDev cfg))"

definition GetBridgeMAC :: "host \<Rightarrow> config \<Rightarrow> ('z route_manager_scheme, string) op" where
  "GetBridgeMAC env cfg =
     andThen (find_or ''find bridge'' (linkByName env (cf_BridgeDev cfg))) (\<lambda>link. ret (ln_MAC link))"

subsection \<open>Segment interfaces\<close>

definition segmentLinkAlias :: string where
  "segmentLinkAlias = ''ovn-network-agent''"

definition ifNameSize :: nat where
  "ifNameSize = 15"

definition segmentIfaceName :: "string \<Rightarrow> int \<Rightarrow> string result" where
  "segmentIfaceName bridgeDev tag =
     (let name = bridgeDev @ ''.'' @ Itoa tag
      in if ifNameSize < length name then Inl (Err ''segment interface name too long'') else Inr name)"

definition verifyAdoptedSegmentLink :: "nl_link \<Rightarrow> int \<Rightarrow> int \<Rightarrow> err option" where
  "verifyAdoptedSegmentLink link tag parentIndex =
     (case ln_Kind link of
        VlanLink vid \<Rightarrow>
          if vid \<noteq> tag then Some (Err ''existing interface carries another VLAN id'')
          else if ln_ParentIndex link \<noteq> parentIndex then Some (Err ''existing interface has another parent'')
          else None
      | _ \<Rightarrow> Some (Err ''existing interface is not a VLAN subinterface''))"

text \<open>The lookup, the creation when it fails, or the check of what is adopted.\<close>

definition createOrAdopt :: "host \<Rightarrow> string \<Rightarrow> int \<Rightarrow> int \<Rightarrow> ('z route_manager_scheme, nl_link) op" where
  "createOrAdopt env name tag parentIndex rm =
     (case linkByName env name rm of
        (Inl _, rm1) \<Rightarrow>
          andThen (must ''create VLAN interface'' (doNet env (LinkAddVlan name parentIndex tag))) (\<lambda>_.
          andThen (find_or ''find after creation'' (linkByName env name)) (\<lambda>link.
          andThen (attempt (doNet env (LinkSetAlias (ln_Index link) segmentLinkAlias))) (\<lambda>_.
            ret link))) rm1
      | (Inr link, rm1) \<Rightarrow>
          (case verifyAdoptedSegmentLink link tag parentIndex of
             Some e \<Rightarrow> (Inl e, rm1)
           | None \<Rightarrow> (Inr link, rm1)))"

definition EnsureSegmentInterface :: "host \<Rightarrow> config \<Rightarrow> int \<Rightarrow> ('z route_manager_scheme, string \<times> string) op" where
  "EnsureSegmentInterface env cfg tag =
     (case segmentIfaceName (cf_BridgeDev cfg) tag of
        Inl e \<Rightarrow> Pair (Inl e)
      | Inr name \<Rightarrow>
          andThen (find_or ''find bridge'' (linkByName env (cf_BridgeDev cfg))) (\<lambda>parent.
          andThen (createOrAdopt env name tag (ln_Index parent)) (\<lambda>link.
          andThen (if \<not> ln_Up link then must ''bring up'' (doNet env (LinkSetUp (ln_Index link))) else ret ()) (\<lambda>_.
          andThen (if cf_BridgeIP cfg \<noteq> '''' then ensureIPOnDev env (cf_BridgeIP cfg) name else ret ()) (\<lambda>_.
          andThen (enableProxyARPOnDev env name) (\<lambda>_.
            ret (name, ln_MAC link)))))))"

definition isAgentSegment :: "nl_link \<Rightarrow> nl_link \<Rightarrow> bool" where
  "isAgentSegment parent l \<longleftrightarrow>
     (case ln_Kind l of VlanLink _ \<Rightarrow> True | _ \<Rightarrow> False) \<and> ln_ParentIndex l = ln_Index parent \<and> ln_Alias l = segmentLinkAlias"

definition agentSegmentLinks :: "host \<Rightarrow> config \<Rightarrow> ('z route_manager_scheme, nl_link list) op" where
  "agentSegmentLinks env cfg =
     andThen (find_or ''find bridge'' (linkByName env (cf_BridgeDev cfg))) (\<lambda>parent.
     andThen (find_or ''list links'' (linkList env)) (\<lambda>links.
       ret (filter (isAgentSegment parent) links)))"

definition vlanTag :: "nl_link \<Rightarrow> int" where
  "vlanTag l = (case ln_Kind l of VlanLink v \<Rightarrow> v | _ \<Rightarrow> 0)"

fun pruneLinks :: "host \<Rightarrow> int set \<Rightarrow> nl_link list \<Rightarrow> 'z route_manager_scheme \<Rightarrow> 'z route_manager_scheme" where
  "pruneLinks env keepTags [] rm = rm"
| "pruneLinks env keepTags (l # ls) rm =
     (if vlanTag l \<in> keepTags then pruneLinks env keepTags ls rm
      else pruneLinks env keepTags ls (snd (doNet env (LinkDel (ln_Index l)) rm)))"

definition PruneSegmentInterfaces :: "host \<Rightarrow> config \<Rightarrow> int set \<Rightarrow> ('z route_manager_scheme, unit) op" where
  "PruneSegmentInterfaces env cfg keepTags =
     (if cf_DryRun cfg then ret ()
      else andThen (agentSegmentLinks env cfg) (\<lambda>vlans rm. (Inr (), pruneLinks env keepTags vlans rm)))"

definition TeardownSegmentInterfaces :: "host \<Rightarrow> config \<Rightarrow> ('z route_manager_scheme, unit) op" where
  "TeardownSegmentInterfaces env cfg =
     (if cf_DryRun cfg then ret () else PruneSegmentInterfaces env cfg {})"

subsection \<open>Only the agent's own links are removed\<close>

lemma pruneLinks_hist:
  "\<exists>t. rm_hist (pruneLinks env keepTags ls rm) = rm_hist rm @ t \<and>
     map fst t = map (\<lambda>l. CNet (LinkDel (ln_Index l))) (filter (\<lambda>l. vlanTag l \<notin> keepTags) ls)"
proof (induction ls arbitrary: rm)
  case (Cons l ls)
  show ?case
  proof (cases "vlanTag l \<in> keepTags")
    case False
    obtain ok where s: "rm_hist (snd (doNet env (LinkDel (ln_Index l)) rm)) = rm_hist rm @ [(CNet (LinkDel (ln_Index l)), ok)]"
      by (simp add: doNet_def Let_def)
    show ?thesis using Cons.IH [of "snd (doNet env (LinkDel (ln_Index l)) rm)"] False s by auto
  qed (use Cons.IH in simp)
qed simp

text \<open>
  Pruning never touches an operator's interface. The links a prune deletes, or tries to, are
  exactly the VLAN interfaces on the provider bridge that carry the agent's alias and whose tag is
  not kept; with no answer to its two lookups it deletes nothing, and it changes nothing else.
\<close>

theorem prune_spares_foreign_links:
  "(let h = rm_hist rm; calls = callsOf rm (snd (PruneSegmentInterfaces env cfg keepTags rm)) in
    map fst (writes calls) =
      (case (h_linkByName env h (cf_BridgeDev cfg), h_linkList env (h @ [(CLinkByName (cf_BridgeDev cfg), True)])) of
         (Inr parent, Inr links) \<Rightarrow>
           if cf_DryRun cfg then [] else
             map (\<lambda>l. CNet (LinkDel (ln_Index l)))
               (filter (\<lambda>l. isAgentSegment parent l \<and> vlanTag l \<notin> keepTags) links)
       | _ \<Rightarrow> []))"
proof (cases "cf_DryRun cfg")
  case True
  then show ?thesis by (simp add: PruneSegmentInterfaces_def ret_def callsOf_def split: sum.split)
next
  case dry: False
  let ?h = "rm_hist rm" and ?c1 = "CLinkByName (cf_BridgeDev cfg)"
  show ?thesis
  proof (cases "h_linkByName env ?h (cf_BridgeDev cfg)")
    case (Inl e)
    then show ?thesis using dry
      by (simp add: PruneSegmentInterfaces_def agentSegmentLinks_def op_defs net_calls)
  next
    case parent: (Inr parent)
    show ?thesis
    proof (cases "h_linkList env (?h @ [(?c1, True)])")
      case (Inl e)
      then show ?thesis using dry parent
        by (simp add: PruneSegmentInterfaces_def agentSegmentLinks_def op_defs net_calls)
    next
      case (Inr links)
      define rm1 where "rm1 = logCall CLinkList True (logCall ?c1 True rm)"
      have run: "snd (PruneSegmentInterfaces env cfg keepTags rm) = pruneLinks env keepTags (filter (isAgentSegment parent) links) rm1"
        using dry parent Inr by (simp add: PruneSegmentInterfaces_def agentSegmentLinks_def op_defs net_calls rm1_def)
      obtain t where t: "rm_hist (pruneLinks env keepTags (filter (isAgentSegment parent) links) rm1) = rm_hist rm1 @ t"
        and ft: "map fst t = map (\<lambda>l. CNet (LinkDel (ln_Index l))) (filter (\<lambda>l. vlanTag l \<notin> keepTags) (filter (isAgentSegment parent) links))"
        using pruneLinks_hist by blast
      have "callsOf rm (snd (PruneSegmentInterfaces env cfg keepTags rm)) = [(?c1, True), (CLinkList, True)] @ t"
        unfolding run by (rule callsOf_append) (use t in \<open>simp add: rm1_def\<close>)
      moreover have "writes t = t"
      proof -
        have "\<not> isRead c" if "(c, ok) \<in> set t" for c ok
        proof -
          have "c \<in> set (map fst t)" using that by force
          then show ?thesis unfolding ft by auto
        qed
        then show ?thesis by (auto simp: writes_def filter_id_conv)
      qed
      ultimately show ?thesis using dry parent Inr ft by (simp add: conj_commute)
    qed
  qed
qed

end
