(* ===== verification/OvsSegments.thy ===== *)
theory OvsSegments
  imports FlowText NetDev DesiredState RouteSync
begin

section \<open>Localnet segments and their bindings\<close>

text \<open>
  The half of \<open>ovs.go\<close> that runs OVS commands and binds each localnet segment to the patch port
  that carries it and to the kernel interface behind it. The state extends the route manager's by
  the fields \<open>ovs.go\<close> keeps: the bindings, what was learnt about the wrapper and \<open>ovs-ofctl\<close>, and
  the ownership published to the flow watch (\<open>None\<close> when there is none).
\<close>

record segment_binding =
  sb_patchPort :: string
  sb_ofport :: string
  sb_kernelDev :: string
  sb_kernelMAC :: string
  sb_vlanTag :: "int option"

type_synonym segment_map = "(string \<times> segment_binding) list"

record ovs_manager = route_manager +
  om_segments :: segment_map
  om_wrapperStdinOK :: "bool option"
  om_ofctlBundleOK :: "bool option"
  om_warnedWrapperStdin :: bool
  om_warnedOfctlBundle :: bool
  om_flowWatch :: "(string \<Rightarrow> flow_key set) option"

lemma logCall_ovs_fields [simp]:
  "om_segments (logCall c ok rm) = om_segments rm"
  "om_wrapperStdinOK (logCall c ok rm) = om_wrapperStdinOK rm"
  "om_ofctlBundleOK (logCall c ok rm) = om_ofctlBundleOK rm"
  "om_flowWatch (logCall c ok rm) = om_flowWatch rm"
  by (simp_all add: logCall_def)

subsection \<open>Running OVS commands\<close>

definition ovsArgv :: "string list \<Rightarrow> string list \<Rightarrow> string list" where
  "ovsArgv wrapper cmd = wrapper @ cmd"

definition ovsWrapper :: "config \<Rightarrow> string list" where
  "ovsWrapper cfg = Fields (cf_OVSWrapper cfg)"

definition runOVSStdin ::
  "host \<Rightarrow> config \<Rightarrow> string \<Rightarrow> string list \<Rightarrow> 'z route_manager_scheme \<Rightarrow> (string \<times> err option) \<times> 'z route_manager_scheme" where
  "runOVSStdin env cfg input cmd rm =
     (let argv = ovsArgv (ovsWrapper cfg) cmd; (out, e) = h_ovs env (rm_hist rm) argv input
      in ((out, e), logCall (COVS argv input) (e = None) rm))"

text \<open>A command without a \<open>Stdin\<close> reads the null device.\<close>

definition runOVS ::
  "host \<Rightarrow> config \<Rightarrow> string list \<Rightarrow> 'z route_manager_scheme \<Rightarrow> (string \<times> err option) \<times> 'z route_manager_scheme" where
  "runOVS env cfg cmd = runOVSStdin env cfg '''' cmd"

text \<open>The output of a command whose failure is returned.\<close>

definition ovsOut :: "string \<Rightarrow> host \<Rightarrow> config \<Rightarrow> string list \<Rightarrow> ('z route_manager_scheme, string) op" where
  "ovsOut msg env cfg cmd rm =
     (case runOVS env cfg cmd rm of
        ((_, Some _), s) \<Rightarrow> (Inl (Err msg), s)
      | ((out, None), s) \<Rightarrow> (Inr out, s))"

definition getOFPort :: "host \<Rightarrow> config \<Rightarrow> string \<Rightarrow> ('z route_manager_scheme, string) op" where
  "getOFPort env cfg port =
     andThen (ovsOut ''get ofport'' env cfg [''ovs-vsctl'', ''get'', ''Interface'', port, ''ofport'']) (\<lambda>out.
       (let ofport = TrimSpace out in
        if ofport = '''' \<or> ofport = ''-1'' then fail ''invalid ofport'' else ret ofport))"

fun firstPatch :: "host \<Rightarrow> config \<Rightarrow> string list \<Rightarrow> ('z route_manager_scheme, string) op" where
  "firstPatch env cfg [] = fail ''no patch port found on bridge''"
| "firstPatch env cfg (port # ports) =
     (\<lambda>rm. (case runOVS env cfg [''ovs-vsctl'', ''--if-exists'', ''get'', ''Interface'', port, ''type''] rm of
        ((_, Some _), s) \<Rightarrow> firstPatch env cfg ports s
      | ((typeOut, None), s) \<Rightarrow> if TrimSpace typeOut = ''patch'' then ret port s else firstPatch env cfg ports s))"

definition discoverPatchPort :: "host \<Rightarrow> config \<Rightarrow> ('z route_manager_scheme, string) op" where
  "discoverPatchPort env cfg =
     andThen (ovsOut ''list-ports'' env cfg [''ovs-vsctl'', ''list-ports'', cf_BridgeDev cfg]) (\<lambda>out.
       firstPatch env cfg (Fields (TrimSpace out)))"

subsection \<open>Binding segments\<close>

definition ovsLocalnetPortKey :: string where
  "ovsLocalnetPortKey = ''ovn-localnet-port''"

fun tagsEqual :: "int option \<Rightarrow> int option \<Rightarrow> bool" where
  "tagsEqual (Some a) (Some b) \<longleftrightarrow> a = b"
| "tagsEqual None None \<longleftrightarrow> True"
| "tagsEqual _ _ \<longleftrightarrow> False"

definition fallbackBinding :: "host \<Rightarrow> config \<Rightarrow> ('z route_manager_scheme, segment_binding) op" where
  "fallbackBinding env cfg =
     andThen (discoverPatchPort env cfg) (\<lambda>patchPort.
     andThen (getOFPort env cfg patchPort) (\<lambda>ofport.
     andThen (GetBridgeMAC env cfg) (\<lambda>mac.
       ret \<lparr>sb_patchPort = patchPort, sb_ofport = ofport, sb_kernelDev = cf_BridgeDev cfg, sb_kernelMAC = mac, sb_vlanTag = None\<rparr>)))"

fun patchPorts :: "host \<Rightarrow> config \<Rightarrow> string list \<Rightarrow> smap \<Rightarrow> ('z route_manager_scheme, smap) op" where
  "patchPorts env cfg [] m = ret m"
| "patchPorts env cfg (port # ports) m =
     (\<lambda>rm. (case runOVS env cfg [''ovs-vsctl'', ''--if-exists'', ''get'', ''Port'', port, ''external_ids:'' @ ovsLocalnetPortKey] rm of
        ((_, Some _), s) \<Rightarrow> patchPorts env cfg ports m s
      | ((val, None), s) \<Rightarrow>
          (let name = TrimByte CHR 0x22 (TrimSpace val)
           in patchPorts env cfg ports (if name \<noteq> '''' then AList.update name port m else m) s)))"

text \<open>
  One segment: \<open>Inr (Some b)\<close> binds it, \<open>Inr None\<close> skips it, an error aborts the discovery. The
  fallback binding is resolved once and shared.
\<close>

definition bindPatched :: "host \<Rightarrow> config \<Rightarrow> string \<Rightarrow> desired_segment \<Rightarrow> ('z route_manager_scheme, segment_binding option) op" where
  "bindPatched env cfg patchPort d =
     andThen (getOFPort env cfg patchPort) (\<lambda>ofport.
       (case ds_VLANTag d of
          None \<Rightarrow> andThen (GetBridgeMAC env cfg) (\<lambda>mac.
            ret (Some \<lparr>sb_patchPort = patchPort, sb_ofport = ofport, sb_kernelDev = cf_BridgeDev cfg, sb_kernelMAC = mac, sb_vlanTag = None\<rparr>))
        | Some tag \<Rightarrow> (\<lambda>rm. (case EnsureSegmentInterface env cfg tag rm of
              (Inl _, s) \<Rightarrow> ret None s
            | (Inr (dev, mac), s) \<Rightarrow>
                ret (Some \<lparr>sb_patchPort = patchPort, sb_ofport = ofport, sb_kernelDev = dev, sb_kernelMAC = mac, sb_vlanTag = Some tag\<rparr>) s))))"

definition getFallback :: "host \<Rightarrow> config \<Rightarrow> segment_binding option \<Rightarrow> ('z route_manager_scheme, segment_binding) op" where
  "getFallback env cfg fallback = (case fallback of None \<Rightarrow> fallbackBinding env cfg | Some b \<Rightarrow> ret b)"

fun bindSegments ::
  "host \<Rightarrow> config \<Rightarrow> smap \<Rightarrow> segment_binding option \<Rightarrow> segment_map \<Rightarrow> desired_segment list \<Rightarrow> ('z route_manager_scheme, segment_map) op" where
  "bindSegments env cfg patch fallback segs [] = ret segs"
| "bindSegments env cfg patch fallback segs (d # ds) =
     (let patchPort = (if ds_LocalnetPort d \<noteq> '''' then mget patch (ds_LocalnetPort d) else '''') in
      if patchPort = '''' then
        andThen (getFallback env cfg fallback) (\<lambda>b.
          bindSegments env cfg patch (Some b) (AList.update (ds_LocalnetPort d) b segs) ds)
      else
        andThen (bindPatched env cfg patchPort d) (\<lambda>r.
          bindSegments env cfg patch fallback
            (case r of None \<Rightarrow> segs | Some b \<Rightarrow> AList.update (ds_LocalnetPort d) b segs) ds))"

definition byKey :: "desired_segment list \<Rightarrow> (string \<times> desired_segment) list" where
  "byKey desired = foldl (\<lambda>m d. AList.update (ds_LocalnetPort d) d m) [] desired"

text \<open>The fast path. \<open>order\<close> stands for the order in which Go walks the map.\<close>

fun allCurrent :: "host \<Rightarrow> config \<Rightarrow> (string \<times> desired_segment) list \<Rightarrow> segment_map \<Rightarrow> 'z route_manager_scheme \<Rightarrow> bool \<times> 'z route_manager_scheme" where
  "allCurrent env cfg [] segs rm = (True, rm)"
| "allCurrent env cfg ((key, d) # ds) segs rm =
     (case map_of segs key of
        None \<Rightarrow> (False, rm)
      | Some b \<Rightarrow>
          if \<not> tagsEqual (sb_vlanTag b) (ds_VLANTag d) then (False, rm)
          else (case getOFPort env cfg (sb_patchPort b) rm of
                  (Inl _, s) \<Rightarrow> (False, s)
                | (Inr ofport, s) \<Rightarrow> if ofport \<noteq> sb_ofport b then (False, s) else allCurrent env cfg ds segs s))"

definition walk :: "(string list \<Rightarrow> string list) \<Rightarrow> (string \<times> 'v) list \<Rightarrow> (string \<times> 'v) list" where
  "walk order m = map (\<lambda>k. (k, the (map_of m k))) (order (map fst m))"

definition segmentsCurrent ::
  "host \<Rightarrow> config \<Rightarrow> (string list \<Rightarrow> string list) \<Rightarrow> desired_segment list \<Rightarrow> ovs_manager \<Rightarrow> bool \<times> ovs_manager" where
  "segmentsCurrent env cfg order desired rm =
     (let segs = om_segments rm in
      if segs = [] then (False, rm)
      else if length (byKey desired) \<noteq> length segs then (False, rm)
      else allCurrent env cfg (walk order (byKey desired)) segs rm)"

definition refreshSegmentBindings ::
  "host \<Rightarrow> config \<Rightarrow> (string list \<Rightarrow> string list) \<Rightarrow> desired_segment list \<Rightarrow> ovs_manager \<Rightarrow> err option \<times> ovs_manager" where
  "refreshSegmentBindings env cfg order desired rm =
     (case segmentsCurrent env cfg order desired rm of
        (True, rm1) \<Rightarrow> (None, rm1)
      | (False, rm1) \<Rightarrow>
          (case andThen (ovsOut ''list-ports'' env cfg [''ovs-vsctl'', ''list-ports'', cf_BridgeDev cfg]) (\<lambda>out.
                andThen (patchPorts env cfg (Fields (TrimSpace out)) []) (\<lambda>patch.
                  bindSegments env cfg patch None [] desired)) (rm1\<lparr>om_segments := []\<rparr>) of
             (Inl e, rm2) \<Rightarrow> (Some e, rm2)
           | (Inr segs, rm2) \<Rightarrow> (None, rm2\<lparr>om_segments := segs\<rparr>)))"

definition sortedSegmentKeys :: "segment_map \<Rightarrow> string list" where
  "sortedSegmentKeys segs = sort (map fst segs)"

definition segmentBindingFor :: "ovs_manager \<Rightarrow> string \<Rightarrow> segment_binding option" where
  "segmentBindingFor rm localnetPort =
     (case map_of (om_segments rm) localnetPort of Some b \<Rightarrow> Some b | None \<Rightarrow> map_of (om_segments rm) '''')"

definition SegmentDev :: "config \<Rightarrow> ovs_manager \<Rightarrow> string \<Rightarrow> string" where
  "SegmentDev cfg rm localnetPort =
     (case segmentBindingFor rm localnetPort of Some b \<Rightarrow> sb_kernelDev b | None \<Rightarrow> cf_BridgeDev cfg)"

definition SegmentResolved :: "ovs_manager \<Rightarrow> string \<Rightarrow> bool" where
  "SegmentResolved rm localnetPort \<longleftrightarrow> map_of (om_segments rm) localnetPort \<noteq> None"

definition SegmentMAC :: "ovs_manager \<Rightarrow> string \<Rightarrow> string" where
  "SegmentMAC rm localnetPort = (case segmentBindingFor rm localnetPort of Some b \<Rightarrow> sb_kernelMAC b | None \<Rightarrow> '''')"

subsection \<open>Operations that only talk to the host\<close>

text \<open>An operation that changes nothing of the state but the history it appends to.\<close>

definition hostOnly :: "('z route_manager_scheme \<Rightarrow> 'r \<times> 'z route_manager_scheme) \<Rightarrow> bool" where
  "hostOnly m \<longleftrightarrow> (\<forall>rm. \<exists>t. snd (m rm) = rm\<lparr>rm_hist := rm_hist rm @ t\<rparr>)"

named_theorems host_only \<open>operations that only append to the history\<close>

lemma hostOnly_id: "(\<And>rm. snd (m rm) = rm) \<Longrightarrow> hostOnly m"
  unfolding hostOnly_def by (metis append_Nil2 route_manager.surjective route_manager.update_convs(1))

lemma hostOnly_log: "(\<And>rm. snd (m rm) = logCall (c rm) (ok rm) rm) \<Longrightarrow> hostOnly m"
  unfolding hostOnly_def logCall_def by blast

lemma hostOnly_bind:
  assumes "hostOnly m" and "\<And>x. hostOnly (f x)" and "\<And>rm. g rm = (case m rm of (x, s) \<Rightarrow> f x s)"
  shows "hostOnly g"
  unfolding hostOnly_def
proof
  fix rm
  obtain t where t: "snd (m rm) = rm\<lparr>rm_hist := rm_hist rm @ t\<rparr>" using assms(1) unfolding hostOnly_def by blast
  have "snd (g rm) = snd (f (fst (m rm)) (snd (m rm)))" by (simp add: assms(3) split_beta)
  moreover obtain u where "snd (f (fst (m rm)) (snd (m rm))) = (snd (m rm))\<lparr>rm_hist := rm_hist (snd (m rm)) @ u\<rparr>"
    using assms(2) unfolding hostOnly_def by blast
  ultimately have "snd (g rm) = rm\<lparr>rm_hist := rm_hist rm @ (t @ u)\<rparr>" unfolding t by simp
  then show "\<exists>u. snd (g rm) = rm\<lparr>rm_hist := rm_hist rm @ u\<rparr>" by blast
qed

lemma hostOnly_pair [host_only]: "hostOnly (Pair x)" "hostOnly (\<lambda>rm. (y, rm))"
  by (simp_all add: hostOnly_id)

lemma hostOnly_ret [host_only]: "hostOnly (ret x)" "hostOnly (fail msg)"
  by (simp_all add: hostOnly_id ret_def fail_def)

lemma hostOnly_andThen [host_only]: "hostOnly m \<Longrightarrow> (\<And>x. hostOnly (f x)) \<Longrightarrow> hostOnly (andThen m f)"
proof (rule hostOnly_bind [where f = "\<lambda>r. case r of Inl e \<Rightarrow> Pair (Inl e) | Inr x \<Rightarrow> f x"])
  assume "\<And>x. hostOnly (f x)"
  then show "hostOnly (case r of Inl e \<Rightarrow> Pair (Inl e) | Inr x \<Rightarrow> f x)" for r
    by (cases r) (auto intro: host_only)
qed (auto simp: andThen_def split: prod.splits sum.splits)

lemma hostOnly_find_or [host_only]: "hostOnly m \<Longrightarrow> hostOnly (find_or msg m)"
proof (rule hostOnly_bind [where f = "\<lambda>r s. (case r of Inl _ \<Rightarrow> Inl (Err msg) | Inr x \<Rightarrow> Inr x, s)"])
qed (auto simp: find_or_def intro: hostOnly_id split: prod.splits sum.splits)

lemma hostOnly_must [host_only]: "hostOnly m \<Longrightarrow> hostOnly (must msg m)"
proof (rule hostOnly_bind [where f = "\<lambda>r s. (case r of Some _ \<Rightarrow> Inl (Err msg) | None \<Rightarrow> Inr (), s)"])
qed (auto simp: must_def intro: hostOnly_id split: prod.splits option.splits)

lemma hostOnly_attempt [host_only]: "hostOnly m \<Longrightarrow> hostOnly (attempt m)"
  by (auto simp: hostOnly_def attempt_def)

lemma hostOnly_calls [host_only]:
  "hostOnly (linkByName env n)" "hostOnly (linkList env)" "hostOnly (doNet env x)" "hostOnly (addrList env i)"
  by (rule hostOnly_log, simp add: net_calls Let_def)+

lemma hostOnly_runOVSStdin [host_only]: "hostOnly (runOVSStdin env cfg input cmd)"
proof (rule hostOnly_log)
  fix rm :: "'a route_manager_scheme"
  show "snd (runOVSStdin env cfg input cmd rm) =
      logCall (COVS (ovsArgv (ovsWrapper cfg) cmd) input) (snd (h_ovs env (rm_hist rm) (ovsArgv (ovsWrapper cfg) cmd) input) = None) rm"
    by (simp add: runOVSStdin_def Let_def split_beta)
qed

lemma hostOnly_runOVS [host_only]: "hostOnly (runOVS env cfg cmd)"
  unfolding runOVS_def by (rule hostOnly_runOVSStdin)

lemma hostOnly_if [host_only]: "hostOnly a \<Longrightarrow> hostOnly b \<Longrightarrow> hostOnly (if c then a else b)"
  by simp

lemma hostOnly_ovsOut [host_only]: "hostOnly (ovsOut msg env cfg cmd)"
proof (rule hostOnly_bind [where m = "runOVS env cfg cmd" and f = "\<lambda>r s. (case r of (_, Some _) \<Rightarrow> Inl (Err msg) | (out, None) \<Rightarrow> Inr out, s)"])
qed (auto simp: ovsOut_def intro: host_only hostOnly_id split: prod.splits option.splits)

lemma hostOnly_getOFPort [host_only]: "hostOnly (getOFPort env cfg port)"
  unfolding getOFPort_def Let_def by (intro host_only)

lemma hostOnly_firstPatch [host_only]: "hostOnly (firstPatch env cfg ports)"
proof (induction ports)
  case (Cons port ports)
  show ?case
    by (rule hostOnly_bind [where m = "runOVS env cfg [''ovs-vsctl'', ''--if-exists'', ''get'', ''Interface'', port, ''type'']"
          and f = "\<lambda>r. case r of (_, Some _) \<Rightarrow> firstPatch env cfg ports
            | (typeOut, None) \<Rightarrow> if TrimSpace typeOut = ''patch'' then ret port else firstPatch env cfg ports"])
       (use Cons in \<open>auto intro: host_only split: prod.splits option.splits\<close>)
qed (simp add: host_only)

lemma hostOnly_GetBridgeMAC [host_only]: "hostOnly (GetBridgeMAC env cfg)"
  unfolding GetBridgeMAC_def by (intro host_only)

lemma hostOnly_fallback [host_only]: "hostOnly (fallbackBinding env cfg)" "hostOnly (getFallback env cfg fb)"
proof -
  show 1: "hostOnly (fallbackBinding env cfg)"
    unfolding fallbackBinding_def discoverPatchPort_def by (intro host_only)
  show "hostOnly (getFallback env cfg fb)"
    using 1 by (cases fb) (simp_all add: getFallback_def host_only)
qed

lemma hostOnly_createOrAdopt [host_only]: "hostOnly (createOrAdopt env name tag parent)"
  by (rule hostOnly_bind [where m = "linkByName env name" and f = "\<lambda>r. case r of
        Inl _ \<Rightarrow> andThen (must ''create VLAN interface'' (doNet env (LinkAddVlan name parent tag))) (\<lambda>_.
          andThen (find_or ''find after creation'' (linkByName env name)) (\<lambda>link.
          andThen (attempt (doNet env (LinkSetAlias (ln_Index link) segmentLinkAlias))) (\<lambda>_. ret link)))
      | Inr link \<Rightarrow> (case verifyAdoptedSegmentLink link tag parent of Some e \<Rightarrow> Pair (Inl e) | None \<Rightarrow> Pair (Inr link))"])
     (auto simp: createOrAdopt_def intro!: host_only split: prod.splits sum.splits option.splits)

lemma hostOnly_ensureIP [host_only]: "hostOnly (ensureIPOnDev env ip dev)"
  unfolding ensureIPOnDev_def by (cases "ParseIP ip") (auto intro!: host_only)

lemma hostOnly_EnsureSegmentInterface [host_only]: "hostOnly (EnsureSegmentInterface env cfg tag)"
  unfolding EnsureSegmentInterface_def enableProxyARPOnDev_def
  by (cases "segmentIfaceName (cf_BridgeDev cfg) tag") (auto intro!: host_only)

lemma hostOnly_patchPorts [host_only]: "hostOnly (patchPorts env cfg ports m)"
proof (induction ports arbitrary: m)
  case (Cons port ports)
  show ?case
    by (rule hostOnly_bind [where m = "runOVS env cfg [''ovs-vsctl'', ''--if-exists'', ''get'', ''Port'', port, ''external_ids:'' @ ovsLocalnetPortKey]"
          and f = "\<lambda>r. case r of (_, Some _) \<Rightarrow> patchPorts env cfg ports m
            | (val, None) \<Rightarrow> (let name = TrimByte CHR 0x22 (TrimSpace val)
                in patchPorts env cfg ports (if name \<noteq> '''' then AList.update name port m else m))"])
       (use Cons in \<open>auto simp: Let_def intro: host_only split: prod.splits option.splits\<close>)
qed (simp add: host_only)

subsection \<open>Every binding was checked in this pass\<close>

definition portQuery :: "config \<Rightarrow> string \<Rightarrow> string list" where
  "portQuery cfg port = ovsArgv (ovsWrapper cfg) [''ovs-vsctl'', ''get'', ''Interface'', port, ''ofport'']"

text \<open>OVS gave the binding's port number for its patch port at some call after \<open>h0\<close>.\<close>

definition answeredSince :: "host \<Rightarrow> config \<Rightarrow> history \<Rightarrow> history \<Rightarrow> segment_binding \<Rightarrow> bool" where
  "answeredSince env cfg h0 h b \<longleftrightarrow>
     (\<exists>t u out. h = h0 @ t @ u \<and> h_ovs env (h0 @ t) (portQuery cfg (sb_patchPort b)) '''' = (out, None) \<and>
        TrimSpace out = sb_ofport b \<and> sb_ofport b \<noteq> '''' \<and> sb_ofport b \<noteq> ''-1'')"

lemma answered_later: "answeredSince env cfg h0 h b \<Longrightarrow> answeredSince env cfg h0 (h @ v) b"
  unfolding answeredSince_def by (metis append.assoc)

lemma hostOnly_hist:
  assumes "hostOnly m" and "m rm = (r, s)"
  obtains t where "s = rm\<lparr>rm_hist := rm_hist rm @ t\<rparr>" "rm_hist s = rm_hist rm @ t"
proof -
  obtain t where "snd (m rm) = rm\<lparr>rm_hist := rm_hist rm @ t\<rparr>" using assms(1) unfolding hostOnly_def by blast
  then show ?thesis using assms(2) that [of t] by simp
qed

lemma andThen_Inr:
  assumes "andThen m f rm = (Inr y, s)"
  obtains x s1 where "m rm = (Inr x, s1)" "f x s1 = (Inr y, s)"
  using assms by (auto simp: andThen_def split: prod.splits sum.splits)

lemma ret_Inr [simp]: "ret x rm = (Inr y, s) \<longleftrightarrow> y = x \<and> s = rm" "fail msg rm = (Inr y, s) \<longleftrightarrow> False"
  by (auto simp: ret_def fail_def)

lemma getOFPort_answer:
  assumes "getOFPort env cfg port rm = (Inr ofport, s)" and "sb_patchPort b = port" "sb_ofport b = ofport" and "rm_hist rm = h0 @ t"
  shows "answeredSince env cfg h0 (rm_hist s) b"
proof -
  obtain out e where h: "h_ovs env (rm_hist rm) (portQuery cfg port) '''' = (out, e)" by fastforce
  have "e = None \<and> TrimSpace out = ofport \<and> ofport \<noteq> '''' \<and> ofport \<noteq> ''-1'' \<and>
      rm_hist s = rm_hist rm @ [(COVS (portQuery cfg port) '''', True)]"
    using assms(1) h
    by (cases e) (auto simp: getOFPort_def ovsOut_def runOVS_def runOVSStdin_def portQuery_def Let_def op_defs split: if_splits prod.splits)
  then show ?thesis using h assms(2-4) unfolding answeredSince_def by (metis append.assoc)
qed

lemma snd_set_update: "snd ` set (AList.update k v m) \<subseteq> insert v (snd ` set m)"
  by (induction m) auto

definition bound :: "segment_map \<Rightarrow> string \<Rightarrow> bool" where
  "bound m k \<longleftrightarrow> map_of m k \<noteq> None"

lemma bound_update [simp]: "bound (AList.update k v m) k' \<longleftrightarrow> k' = k \<or> bound m k'"
  by (simp add: bound_def)

lemma fallback_answered:
  assumes "fallbackBinding env cfg rm = (Inr b, s)" and "rm_hist rm = h0 @ t"
  shows "answeredSince env cfg h0 (rm_hist s) b"
proof -
  obtain port s1 ofport s2 mac s3 where d: "discoverPatchPort env cfg rm = (Inr port, s1)"
    and p: "getOFPort env cfg port s1 = (Inr ofport, s2)" and m: "GetBridgeMAC env cfg s2 = (Inr mac, s3)"
    and b: "b = \<lparr>sb_patchPort = port, sb_ofport = ofport, sb_kernelDev = cf_BridgeDev cfg, sb_kernelMAC = mac, sb_vlanTag = None\<rparr>" "s = s3"
    using assms(1) unfolding fallbackBinding_def by (auto elim!: andThen_Inr)
  have "hostOnly (discoverPatchPort env cfg :: ('z route_manager_scheme, string) op)" for env :: host and cfg
    unfolding discoverPatchPort_def by (intro host_only)
  then obtain t1 where t1: "rm_hist s1 = rm_hist rm @ t1" using d by (rule hostOnly_hist)
  obtain t3 where t3: "rm_hist s3 = rm_hist s2 @ t3" by (rule hostOnly_hist [OF hostOnly_GetBridgeMAC m])
  have "answeredSince env cfg h0 (rm_hist s2) b"
    by (rule getOFPort_answer [OF p, where t = "t @ t1"]) (use b t1 assms(2) in simp_all)
  then show ?thesis unfolding b(2) t3 by (rule answered_later)
qed

lemma bindPatched_answered:
  assumes "bindPatched env cfg port d rm = (Inr (Some b), s)" and "rm_hist rm = h0 @ t"
  shows "answeredSince env cfg h0 (rm_hist s) b"
proof -
  obtain ofport s1 where p: "getOFPort env cfg port rm = (Inr ofport, s1)"
    and r: "(case ds_VLANTag d of
          None \<Rightarrow> andThen (GetBridgeMAC env cfg) (\<lambda>mac.
            ret (Some \<lparr>sb_patchPort = port, sb_ofport = ofport, sb_kernelDev = cf_BridgeDev cfg, sb_kernelMAC = mac, sb_vlanTag = None\<rparr>))
        | Some tag \<Rightarrow> (\<lambda>rm. (case EnsureSegmentInterface env cfg tag rm of
              (Inl _, s) \<Rightarrow> ret None s
            | (Inr (dev, mac), s) \<Rightarrow>
                ret (Some \<lparr>sb_patchPort = port, sb_ofport = ofport, sb_kernelDev = dev, sb_kernelMAC = mac, sb_vlanTag = Some tag\<rparr>) s))) s1
        = (Inr (Some b), s)"
    using assms(1) unfolding bindPatched_def by (auto elim!: andThen_Inr)
  have "sb_patchPort b = port \<and> sb_ofport b = ofport \<and> (\<exists>v. rm_hist s = rm_hist s1 @ v)"
  proof (cases "ds_VLANTag d")
    case None
    then obtain mac s2 where "GetBridgeMAC env cfg s1 = (Inr mac, s2)" "s = s2" "sb_patchPort b = port" "sb_ofport b = ofport"
      using r by (auto elim!: andThen_Inr)
    then show ?thesis using hostOnly_hist [OF hostOnly_GetBridgeMAC] by metis
  next
    case (Some tag)
    then obtain dm s2 where e: "EnsureSegmentInterface env cfg tag s1 = (Inr dm, s2)" "s = s2" "sb_patchPort b = port" "sb_ofport b = ofport"
      using r by (auto split: prod.splits sum.splits)
    then show ?thesis using hostOnly_hist [OF hostOnly_EnsureSegmentInterface] by metis
  qed
  then obtain v where v: "rm_hist s = rm_hist s1 @ v" "sb_patchPort b = port" "sb_ofport b = ofport" by blast
  have "answeredSince env cfg h0 (rm_hist s1) b" using getOFPort_answer [OF p v(2,3) assms(2)] .
  then show ?thesis unfolding v(1) by (rule answered_later)
qed

lemma hostOnly_bindPatched [host_only]: "hostOnly (bindPatched env cfg port d)"
  unfolding bindPatched_def
proof (rule hostOnly_andThen [OF hostOnly_getOFPort])
  fix ofport
  show "hostOnly (case ds_VLANTag d of
          None \<Rightarrow> andThen (GetBridgeMAC env cfg) (\<lambda>mac.
            ret (Some \<lparr>sb_patchPort = port, sb_ofport = ofport, sb_kernelDev = cf_BridgeDev cfg, sb_kernelMAC = mac, sb_vlanTag = None\<rparr>))
        | Some tag \<Rightarrow> (\<lambda>rm. (case EnsureSegmentInterface env cfg tag rm of
              (Inl _, s) \<Rightarrow> ret None s
            | (Inr (dev, mac), s) \<Rightarrow>
                ret (Some \<lparr>sb_patchPort = port, sb_ofport = ofport, sb_kernelDev = dev, sb_kernelMAC = mac, sb_vlanTag = Some tag\<rparr>) s)))"
  proof (cases "ds_VLANTag d")
    case (Some tag)
    have "hostOnly (\<lambda>rm. (case EnsureSegmentInterface env cfg tag rm of
              (Inl _, s) \<Rightarrow> ret None s
            | (Inr (dev, mac), s) \<Rightarrow>
                ret (Some \<lparr>sb_patchPort = port, sb_ofport = ofport, sb_kernelDev = dev, sb_kernelMAC = mac, sb_vlanTag = Some tag\<rparr>) s))"
      by (rule hostOnly_bind [OF hostOnly_EnsureSegmentInterface [of env cfg tag], where f = "\<lambda>r. case r of Inl _ \<Rightarrow> ret None
          | Inr (dev, mac) \<Rightarrow> ret (Some \<lparr>sb_patchPort = port, sb_ofport = ofport, sb_kernelDev = dev, sb_kernelMAC = mac, sb_vlanTag = Some tag\<rparr>)"])
         (auto intro: host_only split: sum.splits prod.splits)
    then show ?thesis using Some by simp
  qed (auto intro!: host_only)
qed

lemma bindSegments_answered:
  assumes "bindSegments env cfg patch fb segs ds rm = (Inr segs', s)" and "rm_hist rm = h0 @ t"
    and "\<forall>b \<in> snd ` set segs \<union> set_option fb. answeredSince env cfg h0 (rm_hist rm) b" and "distinct (map fst segs)"
  shows "(\<forall>b \<in> snd ` set segs'. answeredSince env cfg h0 (rm_hist s) b) \<and> distinct (map fst segs') \<and>
    (\<forall>k. bound segs k \<longrightarrow> bound segs' k) \<and>
    (\<forall>d \<in> set ds. ds_VLANTag d = None \<longrightarrow> bound segs' (ds_LocalnetPort d))"
  using assms
proof (induction ds arbitrary: fb segs rm t)
  case Nil
  then show ?case by simp
next
  case (Cons d ds)
  let ?port = "if ds_LocalnetPort d \<noteq> '''' then mget patch (ds_LocalnetPort d) else ''''"
  show ?case
  proof (cases "?port = ''''")
    case True
    then obtain b s1 where f: "getFallback env cfg fb rm = (Inr b, s1)"
      and r: "bindSegments env cfg patch (Some b) (AList.update (ds_LocalnetPort d) b segs) ds s1 = (Inr segs', s)"
      using Cons.prems(1) by (auto simp: Let_def elim!: andThen_Inr split: if_splits)
    obtain t1 where t1: "rm_hist s1 = rm_hist rm @ t1" by (rule hostOnly_hist [OF hostOnly_fallback(2) f])
    have b: "answeredSince env cfg h0 (rm_hist s1) b"
      using f Cons.prems(2,3) fallback_answered by (cases fb) (auto simp: getFallback_def)
    have "\<forall>b' \<in> snd ` set (AList.update (ds_LocalnetPort d) b segs) \<union> set_option (Some b). answeredSince env cfg h0 (rm_hist s1) b'"
      proof
      fix b' assume "b' \<in> snd ` set (AList.update (ds_LocalnetPort d) b segs) \<union> set_option (Some b)"
      then have "b' = b \<or> b' \<in> snd ` set segs \<union> set_option fb" using snd_set_update [of "ds_LocalnetPort d" b segs] by auto
      then show "answeredSince env cfg h0 (rm_hist s1) b'"
        unfolding t1 using b [unfolded t1] Cons.prems(3) answered_later by blast
    qed
    note ih = Cons.IH [OF r _ this, of "t @ t1"]
    have "rm_hist s1 = h0 @ t @ t1" "distinct (map fst (AList.update (ds_LocalnetPort d) b segs))"
      using t1 Cons.prems(2,4) by simp_all
    note ih = ih [OF this]
    show ?thesis using ih by simp
  next
    case False
    then obtain x s1 where f: "bindPatched env cfg ?port d rm = (Inr x, s1)"
      and r: "bindSegments env cfg patch fb (case x of None \<Rightarrow> segs | Some b \<Rightarrow> AList.update (ds_LocalnetPort d) b segs) ds s1 = (Inr segs', s)"
      using Cons.prems(1) by (auto simp: Let_def elim!: andThen_Inr split: if_splits)
    obtain t1 where t1: "rm_hist s1 = rm_hist rm @ t1" by (rule hostOnly_hist [OF hostOnly_bindPatched f])
    have some: "x \<noteq> None" if "ds_VLANTag d = None"
      using f that by (auto simp: bindPatched_def elim!: andThen_Inr)
    show ?thesis
    proof (cases x)
      case None
      have "\<forall>b' \<in> snd ` set segs \<union> set_option fb. answeredSince env cfg h0 (rm_hist s1) b'"
        unfolding t1 using Cons.prems(3) answered_later by blast
      note ih = Cons.IH [OF _ _ this, of "t @ t1"]
      have "rm_hist s1 = h0 @ t @ t1" "bindSegments env cfg patch fb segs ds s1 = (Inr segs', s)"
        using t1 Cons.prems(2) r None by simp_all
      note ih = ih [OF this(2,1) Cons.prems(4)]
      show ?thesis using ih some None by auto
    next
      case (Some b)
      have b: "answeredSince env cfg h0 (rm_hist s1) b" using f Some bindPatched_answered Cons.prems(2) by blast
      have "\<forall>b' \<in> snd ` set (AList.update (ds_LocalnetPort d) b segs) \<union> set_option fb. answeredSince env cfg h0 (rm_hist s1) b'"
        proof
      fix b' assume "b' \<in> snd ` set (AList.update (ds_LocalnetPort d) b segs) \<union> set_option fb"
      then have "b' = b \<or> b' \<in> snd ` set segs \<union> set_option fb" using snd_set_update [of "ds_LocalnetPort d" b segs] by auto
      then show "answeredSince env cfg h0 (rm_hist s1) b'"
        unfolding t1 using b [unfolded t1] Cons.prems(3) answered_later by blast
    qed
      note ih = Cons.IH [OF _ _ this, of "t @ t1"]
      have "rm_hist s1 = h0 @ t @ t1" "distinct (map fst (AList.update (ds_LocalnetPort d) b segs))"
        "bindSegments env cfg patch fb (AList.update (ds_LocalnetPort d) b segs) ds s1 = (Inr segs', s)"
        using t1 Cons.prems(2,4) r Some by simp_all
      note ih = ih [OF this(3,1,2)]
      show ?thesis using ih by simp
    qed
  qed
qed

lemma allCurrent_answered:
  assumes "allCurrent env cfg ds segs rm = (ok, s)" and "rm_hist rm = h0 @ t"
  shows "(\<exists>u. s = rm\<lparr>rm_hist := rm_hist rm @ u\<rparr>) \<and>
    (ok \<longrightarrow> (\<forall>k \<in> fst ` set ds. \<exists>b. map_of segs k = Some b \<and> answeredSince env cfg h0 (rm_hist s) b))"
  using assms
proof (induction ds arbitrary: rm t)
  case Nil
  then show ?case by (auto intro!: exI [of _ "[]"])
next
  case (Cons kd ds)
  obtain k d where kd: "kd = (k, d)" by fastforce
  have same: "\<exists>u. rm = rm\<lparr>rm_hist := rm_hist rm @ u\<rparr>" by (intro exI [of _ "[]"]) simp
  show ?case
  proof (cases "map_of segs k")
    case None
    then show ?thesis using Cons.prems(1) kd same by auto
  next
    case (Some b)
    show ?thesis
    proof (cases "tagsEqual (sb_vlanTag b) (ds_VLANTag d)")
      case False
      then show ?thesis using Cons.prems(1) kd Some same by auto
    next
      case True
      obtain r s1 where g: "getOFPort env cfg (sb_patchPort b) rm = (r, s1)" by fastforce
      obtain t1 where t1: "s1 = rm\<lparr>rm_hist := rm_hist rm @ t1\<rparr>" by (rule hostOnly_hist [OF hostOnly_getOFPort g])
      show ?thesis
      proof (cases "r = Inr (sb_ofport b)")
        case False
        then have "s = s1" "\<not> ok" using Cons.prems(1) kd Some True g by (auto split: sum.splits if_splits)
        then show ?thesis using t1 by blast
      next
        case r: True
        have rest: "allCurrent env cfg ds segs s1 = (ok, s)" using Cons.prems(1) kd Some True g r by simp
        have a: "answeredSince env cfg h0 (rm_hist s1) b"
          using getOFPort_answer [OF g [unfolded r] refl refl Cons.prems(2)] .
        have h1: "rm_hist s1 = h0 @ (t @ t1)" using t1 Cons.prems(2) by simp
        obtain u where u: "s = s1\<lparr>rm_hist := rm_hist s1 @ u\<rparr>" using Cons.IH [OF rest h1] by blast
        then have "answeredSince env cfg h0 (rm_hist s) b" using answered_later [OF a, of u] by simp
        moreover have "s = rm\<lparr>rm_hist := rm_hist rm @ (t1 @ u)\<rparr>" using u t1 by simp
        ultimately show ?thesis using Cons.IH [OF rest h1] Some kd by auto
      qed
    qed
  qed
qed

lemma byKey_keys: "set (map fst (byKey desired)) = ds_LocalnetPort ` set desired \<and> distinct (map fst (byKey desired))"
proof -
  have "set (map fst (foldl (\<lambda>m d. AList.update (ds_LocalnetPort d) d m) m desired)) = set (map fst m) \<union> ds_LocalnetPort ` set desired
      \<and> (distinct (map fst m) \<longrightarrow> distinct (map fst (foldl (\<lambda>m d. AList.update (ds_LocalnetPort d) d m) m desired)))" for m
    by (induction desired arbitrary: m) auto
  from this [of "[]"] show ?thesis by (simp add: byKey_def)
qed

text \<open>
  C34: no flow is ever built on a stale port number. After a refresh, on the fast path as on the
  slow one, every binding's OpenFlow port is what OVS answered for its patch port during this very
  call, each key is bound once, and every desired flat segment is bound; a refresh that fails
  leaves no binding at all. The order in which Go walks the desired map does not matter.
\<close>

theorem bindings_are_fresh:
  assumes keys: "distinct (map fst (om_segments rm))" and order: "\<And>xs. set (order xs) = set xs"
    and run: "refreshSegmentBindings env cfg order desired rm = (e, rm')"
  shows "(\<forall>b \<in> snd ` set (om_segments rm'). answeredSince env cfg (rm_hist rm) (rm_hist rm') b) \<and>
    distinct (map fst (om_segments rm')) \<and>
    (e = None \<longrightarrow> (\<forall>d \<in> set desired. ds_VLANTag d = None \<longrightarrow> SegmentResolved rm' (ds_LocalnetPort d))) \<and>
    (e \<noteq> None \<longrightarrow> om_segments rm' = [])"
proof -
  let ?h0 = "rm_hist rm" and ?segs = "om_segments rm"
  obtain fast rm1 where f: "segmentsCurrent env cfg order desired rm = (fast, rm1)" by fastforce
  have h0: "rm_hist rm = ?h0 @ []" by simp
  have fast: "(\<exists>u. rm1 = rm\<lparr>rm_hist := ?h0 @ u\<rparr>) \<and> (fast \<longrightarrow> length (byKey desired) = length ?segs \<and>
      (\<forall>k \<in> ds_LocalnetPort ` set desired. \<exists>b. map_of ?segs k = Some b \<and> answeredSince env cfg ?h0 (rm_hist rm1) b))"
  proof (cases "?segs = [] \<or> length (byKey desired) \<noteq> length ?segs")
    case True
    then have "rm1 = rm" "\<not> fast" using f by (auto simp: segmentsCurrent_def Let_def split: if_splits)
    then show ?thesis by (auto intro!: exI [of _ "[]"])
  next
    case False
    then have "allCurrent env cfg (walk order (byKey desired)) ?segs rm = (fast, rm1)" using f by (simp add: segmentsCurrent_def)
    note ac = allCurrent_answered [OF this h0]
    have "fst ` set (walk order (byKey desired)) = set (order (map fst (byKey desired)))" by (simp add: walk_def image_image)
    also have "\<dots> = ds_LocalnetPort ` set desired" using order byKey_keys [of desired] by simp
    finally show ?thesis using ac False by simp
  qed
  show ?thesis
  proof (cases fast)
    case True
    then have r: "e = None" "rm' = rm1" using run f by (auto simp: refreshSegmentBindings_def)
    obtain u where u: "rm1 = rm\<lparr>rm_hist := ?h0 @ u\<rparr>" using fast by blast
    have sub: "ds_LocalnetPort ` set desired \<subseteq> fst ` set ?segs"
      using fast True by (metis (mono_tags, lifting) map_of_eq_None_iff option.distinct(1) subsetI)
    have "card (ds_LocalnetPort ` set desired) = length (byKey desired)"
      using byKey_keys [of desired] distinct_card by (metis length_map)
    moreover have "card (fst ` set ?segs) = length ?segs" using keys distinct_card by (metis length_map list.set_map)
    ultimately have eq: "ds_LocalnetPort ` set desired = fst ` set ?segs"
      using sub fast True card_subset_eq [of "fst ` set ?segs"] by simp
    have "answeredSince env cfg ?h0 (rm_hist rm1) b" if "(k, b) \<in> set ?segs" for k b
    proof -
      have "map_of ?segs k = Some b" using keys that by simp
      moreover have "k \<in> ds_LocalnetPort ` set desired" unfolding eq using that by force
      ultimately show ?thesis using fast True by (metis option.inject)
    qed
    then show ?thesis using r u keys fast True by (auto simp: SegmentResolved_def)
  next
    case False
    let ?go = "andThen (ovsOut ''list-ports'' env cfg [''ovs-vsctl'', ''list-ports'', cf_BridgeDev cfg]) (\<lambda>out.
                andThen (patchPorts env cfg (Fields (TrimSpace out)) []) (\<lambda>patch.
                  bindSegments env cfg patch None [] desired))"
    obtain u where u: "rm1 = rm\<lparr>rm_hist := ?h0 @ u\<rparr>" using fast by blast
    show ?thesis
    proof (cases "?go (rm1\<lparr>om_segments := []\<rparr>)")
      case (Pair r rm2)
      show ?thesis
      proof (cases r)
        case (Inl x)
        then have "e = Some x" "rm' = rm2" using run f False Pair by (auto simp: refreshSegmentBindings_def)
        moreover have "om_segments rm2 = []"
        proof -
          have "hostOnly (bindSegments env cfg patch fb segs ds :: (ovs_manager, segment_map) op)" for patch fb segs ds
          proof (induction ds arbitrary: fb segs)
            case (Cons d ds)
            then show ?case by (auto simp: Let_def intro!: host_only)
          qed (simp add: host_only)
          then have "hostOnly (?go :: (ovs_manager, segment_map) op)" by (intro host_only)
          then show ?thesis by (rule hostOnly_hist [where m = ?go]) (rule Pair, simp)
        qed
        ultimately show ?thesis by simp
      next
        case (Inr segs')
        then have r: "e = None" "rm' = rm2\<lparr>om_segments := segs'\<rparr>" using run f False Pair by (auto simp: refreshSegmentBindings_def)
        obtain out s1 patch s2 where o: "ovsOut ''list-ports'' env cfg [''ovs-vsctl'', ''list-ports'', cf_BridgeDev cfg] (rm1\<lparr>om_segments := []\<rparr>) = (Inr out, s1)"
          and p: "patchPorts env cfg (Fields (TrimSpace out)) [] s1 = (Inr patch, s2)"
          and b: "bindSegments env cfg patch None [] desired s2 = (Inr segs', rm2)"
          using Pair Inr by (auto elim!: andThen_Inr)
        obtain t1 where t1: "rm_hist s1 = rm_hist (rm1\<lparr>om_segments := []\<rparr>) @ t1" by (rule hostOnly_hist [OF hostOnly_ovsOut o])
        obtain t2 where t2: "rm_hist s2 = rm_hist s1 @ t2" by (rule hostOnly_hist [OF hostOnly_patchPorts p])
        have "rm_hist s2 = ?h0 @ (u @ t1 @ t2)" using u t1 t2 by simp
        note ba = bindSegments_answered [OF b this]
        have "SegmentResolved rm' k = bound segs' k" for k using r by (simp add: SegmentResolved_def bound_def)
        then show ?thesis using r ba by simp
      qed
    qed
  qed
qed

definition demo_ovs :: "string list \<Rightarrow> string \<times> err option" where
  "demo_ovs a =
     (if last a = ''ofport'' then (''5'' @ [CHR 0x0A], None) else if last a = ''type'' then (''patch'', None)
      else if HasPrefix (last a) ''external_ids'' then (CHR 0x22 # ''phys'' @ [CHR 0x22], None) else (''patch-br-ex'', None))"

definition demo_ovs_host :: host where
  "demo_ovs_host = demo_host\<lparr>h_ovs := (\<lambda>h a i. demo_ovs a)\<rparr>"

definition demo_om :: ovs_manager where
  "demo_om = \<lparr>rm_hist = [], rm_frrRouteCache = None, om_segments = [], om_wrapperStdinOK = None, om_ofctlBundleOK = None,
     om_warnedWrapperStdin = False, om_warnedOfctlBundle = False, om_flowWatch = Some (\<lambda>_. {})\<rparr>"

definition demo_segment :: desired_segment where
  "demo_segment = \<lparr>ds_LocalnetPort = ''phys'', ds_VLANTag = None\<rparr>"

lemma demo_wrapper [simp]: "ovsWrapper demo_rcfg = []"
  by (simp add: ovsWrapper_def demo_rcfg_def zeroConfig_def Fields_def)

lemma demo_bind:
  "\<exists>rm'. refreshSegmentBindings demo_ovs_host demo_rcfg (\<lambda>xs. xs) [demo_segment] demo_om = (None, rm') \<and>
     om_segments rm' = [(''phys'', \<lparr>sb_patchPort = ''patch-br-ex'', sb_ofport = ''5'', sb_kernelDev = ''br-ex'',
       sb_kernelMAC = ''02:00:00:00:00:01'', sb_vlanTag = None\<rparr>)]"
  by (simp add: refreshSegmentBindings_def segmentsCurrent_def demo_om_def op_defs ovsOut_def runOVS_def runOVSStdin_def
      ovsArgv_def demo_ovs_host_def demo_ovs_def HasPrefix_def TrimSpace_def IsSpace_def Fields_def TrimByte_def demo_segment_def
      mget_def bindPatched_def getOFPort_def GetBridgeMAC_def net_calls demo_host_def demo_link_def)

lemma bindings_are_fresh_witness:
  "\<exists>rm'. refreshSegmentBindings demo_ovs_host demo_rcfg (\<lambda>xs. xs) [demo_segment] demo_om = (None, rm') \<and>
     (\<forall>b \<in> snd ` set (om_segments rm'). answeredSince demo_ovs_host demo_rcfg [] (rm_hist rm') b) \<and> SegmentResolved rm' ''phys''"
proof -
  obtain rm' where run: "refreshSegmentBindings demo_ovs_host demo_rcfg (\<lambda>xs. xs) [demo_segment] demo_om = (None, rm')"
    using demo_bind by blast
  have "distinct (map fst (om_segments demo_om))" "rm_hist demo_om = []" by (simp_all add: demo_om_def)
  then show ?thesis using bindings_are_fresh [OF _ _ run] run by (simp add: demo_segment_def)
qed

end
