(* ===== verification/VethLeak.thy ===== *)
theory VethLeak
  imports NetDev RouteWatch
begin

section \<open>The veth leak between the default VRF and the provider VRF\<close>

text \<open>
  The veth half of \<open>routing_linux.go\<close>: the pair and its addresses, the ingress exception, the
  per-network routes and rules, the repair of a lost next-hop, and the teardown. The loops that
  Go runs over a map take the order of its keys as a parameter.
\<close>

definition vethDefaultName :: string where
  "vethDefaultName = ''veth-default''"

definition vethProviderName :: string where
  "vethProviderName = ''veth-provider''"

definition vethPrefixLen :: nat where
  "vethPrefixLen = 30"

text \<open>\<open>&net.IPNet{IP: ip, Mask: net.CIDRMask(30, 32)}\<close>.\<close>

definition vethNet :: "netip \<Rightarrow> ipnet" where
  "vethNet p = (case To4 p of Some w \<Rightarrow> Net4 w vethPrefixLen | None \<Rightarrow> Net6 p vethPrefixLen)"

definition vethIngressRulePriority :: "config \<Rightarrow> int" where
  "vethIngressRulePriority cfg = cf_VethLeakRulePriority cfg - 1"

definition getVRFTableID :: "host \<Rightarrow> config \<Rightarrow> ('z route_manager_scheme, int) op" where
  "getVRFTableID env cfg =
     andThen (find_or ''find VRF'' (linkByName env (cf_VRFName cfg))) (\<lambda>link.
       case ln_Kind link of VrfLink t \<Rightarrow> ret t | _ \<Rightarrow> fail ''not a VRF device'')"

subsection \<open>The ingress exception\<close>

definition ingressRule :: "config \<Rightarrow> pol_rule" where
  "ingressRule cfg = \<lparr>po_Src = None, po_Dst = None, po_Iif = vethDefaultName, po_Mark = 0, po_Table = rtTableMain,
     po_Priority = vethIngressRulePriority cfg\<rparr>"

text \<open>The loop deletes every other rule with the selector and notes whether the wanted one is there.\<close>

fun ingressLoop :: "host \<Rightarrow> config \<Rightarrow> pol_rule list \<Rightarrow> bool \<Rightarrow> 'z route_manager_scheme \<Rightarrow> bool \<times> 'z route_manager_scheme" where
  "ingressLoop env cfg [] present rm = (present, rm)"
| "ingressLoop env cfg (r # rs) present rm =
     (if po_Iif r \<noteq> vethDefaultName then ingressLoop env cfg rs present rm
      else if po_Priority r = vethIngressRulePriority cfg \<and> po_Table r = rtTableMain then ingressLoop env cfg rs True rm
      else ingressLoop env cfg rs present (snd (doNet env (PolRuleDel r) rm)))"

definition ensureVethIngressRule :: "host \<Rightarrow> config \<Rightarrow> ('z route_manager_scheme, unit) op" where
  "ensureVethIngressRule env cfg =
     andThen (find_or ''list policy rules'' (polRuleList env)) (\<lambda>rules rm.
       (let (present, rm1) = ingressLoop env cfg rules False rm
        in if present then ret () rm1
           else mustUnless isFileExists ''add veth ingress rule'' (doNet env (PolRuleAdd (ingressRule cfg))) rm1))"

fun removeRules :: "host \<Rightarrow> (pol_rule \<Rightarrow> bool) \<Rightarrow> pol_rule list \<Rightarrow> 'z route_manager_scheme \<Rightarrow> 'z route_manager_scheme" where
  "removeRules env p [] rm = rm"
| "removeRules env p (r # rs) rm =
     (if p r then removeRules env p rs (snd (doNet env (PolRuleDel r) rm)) else removeRules env p rs rm)"

text \<open>List the rules and delete those that match, ignoring a list that fails.\<close>

definition sweepRules :: "host \<Rightarrow> (pol_rule \<Rightarrow> bool) \<Rightarrow> 'z route_manager_scheme \<Rightarrow> 'z route_manager_scheme" where
  "sweepRules env p rm =
     (case polRuleList env rm of (Inl _, rm1) \<Rightarrow> rm1 | (Inr rules, rm1) \<Rightarrow> removeRules env p rules rm1)"

definition removeVethIngressRules :: "host \<Rightarrow> 'z route_manager_scheme \<Rightarrow> 'z route_manager_scheme" where
  "removeVethIngressRules env = sweepRules env (\<lambda>r. po_Iif r = vethDefaultName)"

subsection \<open>The per-network state\<close>

definition isLeakRule :: "config \<Rightarrow> pol_rule \<Rightarrow> bool" where
  "isLeakRule cfg r \<longleftrightarrow> po_Table r = cf_VethLeakTableID cfg \<and> po_Priority r = cf_VethLeakRulePriority cfg \<and> po_Src r \<noteq> None"

definition srcKey :: "pol_rule \<Rightarrow> string" where
  "srcKey r = (case po_Src r of Some n \<Rightarrow> NetString n | None \<Rightarrow> '''')"

definition leakRoute :: "int \<Rightarrow> int \<Rightarrow> netip option \<Rightarrow> ipnet \<Rightarrow> gw_route" where
  "leakRoute linkIndex vrfTable nexthopIP n = \<lparr>gr_LinkIndex = linkIndex, gr_Dst = Some n, gr_Gw = nexthopIP,
     gr_Table = vrfTable, gr_Protocol = rtProtoOVNNetworkAgent\<rparr>"

definition leakRule :: "config \<Rightarrow> ipnet \<Rightarrow> pol_rule" where
  "leakRule cfg n = \<lparr>po_Src = Some n, po_Dst = None, po_Iif = '''', po_Mark = 0, po_Table = cf_VethLeakTableID cfg,
     po_Priority = cf_VethLeakRulePriority cfg\<rparr>"

definition currentNets :: "netip option \<Rightarrow> gw_route list \<Rightarrow> string list" where
  "currentNets nexthopIP routes =
     remdups (map (\<lambda>r. NetString (the (gr_Dst r)))
       (filter (\<lambda>r. gr_Dst r \<noteq> None \<and> gr_Gw r \<noteq> None \<and> gr_Gw r = nexthopIP \<and> gr_Protocol r = rtProtoOVNNetworkAgent) routes))"

definition desiredSet :: "ipnet list \<Rightarrow> (string \<times> ipnet) list" where
  "desiredSet desired = foldl (\<lambda>m n. AList.update (NetString n) n m) [] desired"

fun addRoutes :: "host \<Rightarrow> (ipnet \<Rightarrow> gw_route) \<Rightarrow> string list \<Rightarrow> (string \<times> ipnet) list \<Rightarrow> ('z route_manager_scheme, unit) op" where
  "addRoutes env route current [] = ret ()"
| "addRoutes env route current ((key, n) # ds) =
     (if key \<in> set current then addRoutes env route current ds
      else andThen (must ''add VRF route'' (doNet env (GwRouteReplace (route n)))) (\<lambda>_. addRoutes env route current ds))"

fun addRules :: "host \<Rightarrow> config \<Rightarrow> string list \<Rightarrow> (string \<times> ipnet) list \<Rightarrow> ('z route_manager_scheme, unit) op" where
  "addRules env cfg current [] = ret ()"
| "addRules env cfg current ((key, n) # ds) =
     (if key \<in> set current then addRules env cfg current ds
      else andThen (mustUnless isFileExists ''add policy rule'' (doNet env (PolRuleAdd (leakRule cfg n))))
             (\<lambda>_. addRules env cfg current ds))"

fun delStaleRoutes ::
  "host \<Rightarrow> (ipnet \<Rightarrow> gw_route) \<Rightarrow> (string \<times> ipnet) list \<Rightarrow> string list \<Rightarrow> 'z route_manager_scheme \<Rightarrow> 'z route_manager_scheme" where
  "delStaleRoutes env route desired [] rm = rm"
| "delStaleRoutes env route desired (key # keys) rm =
     (if map_of desired key \<noteq> None then delStaleRoutes env route desired keys rm
      else (case ParseCIDR key of
              None \<Rightarrow> delStaleRoutes env route desired keys rm
            | Some (_, staleNet) \<Rightarrow>
                delStaleRoutes env route desired keys (snd (doNet env (GwRouteDel (route staleNet)) rm))))"

text \<open>
  \<open>order\<close> stands for Go's map iteration: for each of the three loops over a map it gives the keys
  in some order.
\<close>

definition reorder :: "(nat \<Rightarrow> string list \<Rightarrow> string list) \<Rightarrow> nat \<Rightarrow> (string \<times> ipnet) list \<Rightarrow> (string \<times> ipnet) list" where
  "reorder order i m = map (\<lambda>k. (k, the (map_of m k))) (order i (map fst m))"

definition syncLeakNetworks ::
  "host \<Rightarrow> config \<Rightarrow> (nat \<Rightarrow> string list \<Rightarrow> string list) \<Rightarrow> (string \<times> ipnet) list \<Rightarrow> (ipnet \<Rightarrow> gw_route) \<Rightarrow> string list \<Rightarrow>
   ('z route_manager_scheme, unit) op" where
  "syncLeakNetworks env cfg order want route curNets rm =
     (let (allRules, rm1) = (case polRuleList env rm of (Inl _, s) \<Rightarrow> ([], s) | (Inr rs, s) \<Rightarrow> (rs, s));
          curRules = map srcKey (filter (isLeakRule cfg) allRules)
      in andThen (addRoutes env route curNets (reorder order 0 want)) (\<lambda>_.
         andThen (addRules env cfg curRules (reorder order 1 want)) (\<lambda>_ s.
           (Inr (), sweepRules env (\<lambda>r. isLeakRule cfg r \<and> map_of want (srcKey r) = None)
                      (delStaleRoutes env route want (order 2 curNets) s)))) rm1)"

definition ReconcileVethLeakNetworks ::
  "host \<Rightarrow> config \<Rightarrow> (nat \<Rightarrow> string list \<Rightarrow> string list) \<Rightarrow> ipnet list \<Rightarrow> ('z route_manager_scheme, unit) op" where
  "ReconcileVethLeakNetworks env cfg order desired =
     (if \<not> cf_VethLeakEnabled cfg then ret ()
      else if cf_DryRun cfg then ret ()
      else (let nexthopIP = ParseIP (cf_VethNexthop cfg) in
        andThen (find_or ''find veth-provider'' (linkByName env vethProviderName)) (\<lambda>prov.
        andThen (ensureVethIngressRule env cfg) (\<lambda>_.
        andThen (getVRFTableID env cfg) (\<lambda>vrfTable.
        andThen (find_or ''list VRF routes''
            (gwRouteList env (Some (ln_Index prov)) vrfTable (Some rtProtoOVNNetworkAgent))) (\<lambda>routes.
          syncLeakNetworks env cfg order (desiredSet desired) (leakRoute (ln_Index prov) vrfTable nexthopIP)
            (currentNets nexthopIP routes)))))))"

subsection \<open>Setting up, refreshing and tearing down\<close>

definition createVeth :: "host \<Rightarrow> ('z route_manager_scheme, nl_link) op" where
  "createVeth env rm =
     (case linkByName env vethDefaultName rm of
        (Inl _, rm1) \<Rightarrow>
          andThen (must ''create veth pair'' (doNet env (LinkAddVeth vethDefaultName vethProviderName))) (\<lambda>_.
            find_or ''find after creation'' (linkByName env vethDefaultName)) rm1
      | (Inr link, rm1) \<Rightarrow> (Inr link, rm1))"

definition ipOr :: "netip option \<Rightarrow> netip" where
  "ipOr p = (case p of Some w \<Rightarrow> w | None \<Rightarrow> 0)"

definition leakDefault :: "config \<Rightarrow> int \<Rightarrow> netip option \<Rightarrow> gw_route" where
  "leakDefault cfg linkIndex providerIP = \<lparr>gr_LinkIndex = linkIndex, gr_Dst = None, gr_Gw = providerIP,
     gr_Table = cf_VethLeakTableID cfg, gr_Protocol = 0\<rparr>"

definition SetupVethLeak :: "host \<Rightarrow> config \<Rightarrow> (nat \<Rightarrow> string list \<Rightarrow> string list) \<Rightarrow> ('z route_manager_scheme, unit) op" where
  "SetupVethLeak env cfg order =
     (if \<not> cf_VethLeakEnabled cfg then ret ()
      else if cf_DryRun cfg then ret ()
      else (let nexthopIP = ParseIP (cf_VethNexthop cfg); providerIP = ParseIP (cf_VethProviderIP cfg) in
        andThen (createVeth env) (\<lambda>vethDefault.
        andThen (find_or ''find veth-provider'' (linkByName env vethProviderName)) (\<lambda>vethProvider.
        andThen (find_or ''find VRF'' (linkByName env (cf_VRFName cfg))) (\<lambda>vrf.
        andThen (must ''set master'' (doNet env (LinkSetMaster (ln_Index vethProvider) (ln_Index vrf)))) (\<lambda>_.
        andThen (must ''assign IP'' (doNet env (AddrReplace (ln_Index vethDefault) (vethNet (ipOr nexthopIP))))) (\<lambda>_.
        andThen (must ''assign IP'' (doNet env (AddrReplace (ln_Index vethProvider) (vethNet (ipOr providerIP))))) (\<lambda>_.
        andThen (must ''bring up'' (doNet env (LinkSetUp (ln_Index vethDefault)))) (\<lambda>_.
        andThen (must ''bring up'' (doNet env (LinkSetUp (ln_Index vethProvider)))) (\<lambda>_.
        andThen (find_or ''refetch'' (linkByName env vethDefaultName)) (\<lambda>vethDefault2.
        andThen (find_or ''refetch'' (linkByName env vethProviderName)) (\<lambda>vethProvider2.
        andThen (must ''set neighbor'' (doNet env (NeighSet (ln_Index vethDefault2) (ipOr providerIP) (ln_MAC vethProvider2)))) (\<lambda>_.
        andThen (must ''set neighbor'' (doNet env (NeighSet (ln_Index vethProvider2) (ipOr nexthopIP) (ln_MAC vethDefault2)))) (\<lambda>_.
        andThen (must ''add default route'' (doNet env (GwRouteReplace (leakDefault cfg (ln_Index vethDefault2) providerIP)))) (\<lambda>_.
        andThen (ensureVethIngressRule env cfg) (\<lambda>_.
          if cf_NetworkFilters cfg \<noteq> [] then ReconcileVethLeakNetworks env cfg order (cf_NetworkFilters cfg)
          else ret ())))))))))))))))) "

definition RefreshVethNexthop ::
  "host \<Rightarrow> config \<Rightarrow> (nat \<Rightarrow> string list \<Rightarrow> string list) \<Rightarrow> ipnet list \<Rightarrow> ('z route_manager_scheme, unit) op" where
  "RefreshVethNexthop env cfg order networks =
     (if \<not> cf_VethLeakEnabled cfg then ret ()
      else if cf_DryRun cfg then ret ()
      else (case (ParseIP (cf_VethProviderIP cfg), ParseIP (cf_VethNexthop cfg)) of
        (None, _) \<Rightarrow> fail ''invalid veth provider IP''
      | (Some _, None) \<Rightarrow> fail ''invalid veth nexthop''
      | (Some providerIP, Some nexthopIP) \<Rightarrow>
          andThen (find_or ''find veth-provider'' (linkByName env vethProviderName)) (\<lambda>vethProvider.
          andThen (find_or ''find veth-default'' (linkByName env vethDefaultName)) (\<lambda>vethDefault.
          andThen (mustUnless isNoSuchAddr ''remove IP'' (doNet env (AddrDel (ln_Index vethProvider) (vethNet providerIP)))) (\<lambda>_.
          andThen (mustUnless isFileExists ''re-add IP'' (doNet env (AddrAdd (ln_Index vethProvider) (vethNet providerIP)))) (\<lambda>_.
          andThen (must ''set neighbor'' (doNet env (NeighSet (ln_Index vethProvider) nexthopIP (ln_MAC vethDefault)))) (\<lambda>_.
            ReconcileVethLeakNetworks env cfg order networks)))))))"

fun delRoutes :: "host \<Rightarrow> gw_route list \<Rightarrow> 'z route_manager_scheme \<Rightarrow> 'z route_manager_scheme" where
  "delRoutes env [] rm = rm"
| "delRoutes env (r # rs) rm = delRoutes env rs (snd (doNet env (GwRouteDel r) rm))"

definition sweepVRFRoutes :: "host \<Rightarrow> config \<Rightarrow> 'z route_manager_scheme \<Rightarrow> 'z route_manager_scheme" where
  "sweepVRFRoutes env cfg rm =
     (case linkByName env vethProviderName rm of
        (Inl _, rm1) \<Rightarrow> rm1
      | (Inr vethProvider, rm1) \<Rightarrow> (case getVRFTableID env cfg rm1 of
          (Inl _, rm2) \<Rightarrow> rm2
        | (Inr vrfTable, rm2) \<Rightarrow> (case gwRouteList env (Some (ln_Index vethProvider)) vrfTable None rm2 of
            (Inl _, rm3) \<Rightarrow> rm3
          | (Inr routes, rm3) \<Rightarrow> delRoutes env routes rm3)))"

definition TeardownVethLeak :: "host \<Rightarrow> config \<Rightarrow> ('z route_manager_scheme, unit) op" where
  "TeardownVethLeak env cfg rm =
     (if \<not> cf_VethLeakEnabled cfg then ret () rm
      else if cf_DryRun cfg then ret () rm
      else (let providerIP = ParseIP (cf_VethProviderIP cfg);
                rm1 = sweepRules env (\<lambda>r. po_Table r = cf_VethLeakTableID cfg \<and> po_Priority r = cf_VethLeakRulePriority cfg) rm;
                rm2 = removeVethIngressRules env rm1;
                rm3 = (case linkByName env vethDefaultName rm2 of
                         (Inl _, s) \<Rightarrow> s
                       | (Inr vd, s) \<Rightarrow> snd (doNet env (GwRouteDel (leakDefault cfg (ln_Index vd) providerIP)) s));
                rm4 = sweepVRFRoutes env cfg rm3
            in (case linkByName env vethDefaultName rm4 of
                  (Inl _, s) \<Rightarrow> ret () s
                | (Inr vd, s) \<Rightarrow> must ''delete veth pair'' (doNet env (LinkDel (ln_Index vd))) s)))"

text \<open>The default route a port-forward VIP depends on. Both spellings of a default count.\<close>

definition hasDefaultRoute :: "gw_route list \<Rightarrow> bool" where
  "hasDefaultRoute routes =
     list_ex (\<lambda>r. case gr_Dst r of None \<Rightarrow> True | Some d \<Rightarrow> fst (MaskSize d) = 0) routes"

definition VRFDefaultRoutePresent :: "host \<Rightarrow> config \<Rightarrow> ('z route_manager_scheme, bool) op" where
  "VRFDefaultRoutePresent env cfg =
     (if cf_DryRun cfg then ret True
      else andThen (getVRFTableID env cfg) (\<lambda>t.
           andThen (find_or ''list VRF default route'' (gwRouteList env None t None)) (\<lambda>routes.
             ret (hasDefaultRoute routes))))"

text \<open>\<open>CleanupRoutingTable\<close> deletes every rule into the dedicated table and every route of it.\<close>

definition CleanupRoutingTable :: "host \<Rightarrow> config \<Rightarrow> ('z route_manager_scheme, unit) op" where
  "CleanupRoutingTable env cfg =
     (if cf_RouteTableID cfg = 0 then ret ()
      else if cf_DryRun cfg then ret ()
      else andThen (find_or ''list ip rules'' (polRuleList env)) (\<lambda>rules rm.
        andThen (find_or ''list routes in table'' (gwRouteList env None (cf_RouteTableID cfg) None)) (\<lambda>routes s.
          (Inr (), delRoutes env routes s))
          (removeRules env (\<lambda>r. po_Table r = cf_RouteTableID cfg) rules rm)))"

subsection \<open>The policy rules over a run\<close>

text \<open>
  The documented effect of adding and deleting a policy rule on the set of rules, and a host whose
  listing and whose "exists" answer agree with it.
\<close>

fun ruleEffect :: "event \<Rightarrow> pol_rule set \<Rightarrow> pol_rule set" where
  "ruleEffect (CNet (PolRuleAdd r), True) R = insert r R"
| "ruleEffect (CNet (PolRuleDel r), True) R = R - {r}"
| "ruleEffect _ R = R"

definition rulesAfter :: "history \<Rightarrow> pol_rule set \<Rightarrow> pol_rule set" where
  "rulesAfter h R = fold ruleEffect h R"

definition honestRules :: "host \<Rightarrow> pol_rule set \<Rightarrow> bool" where
  "honestRules env R0 \<longleftrightarrow>
     (\<forall>h. \<exists>rs. h_polRuleList env h = Inr rs \<and> set rs = rulesAfter h R0) \<and>
     (\<forall>h r e. h_net env h (PolRuleAdd r) = Some e \<longrightarrow> isFileExists e \<longrightarrow> r \<in> rulesAfter h R0) \<and>
     (\<forall>h r. h_net env h (PolRuleDel r) = None)"

text \<open>An ingress exception in force, and the networks with a leak rule.\<close>

definition guarded :: "config \<Rightarrow> pol_rule set \<Rightarrow> bool" where
  "guarded cfg R \<longleftrightarrow> (\<exists>r \<in> R. po_Iif r = vethDefaultName \<and> po_Priority r = vethIngressRulePriority cfg \<and> po_Table r = rtTableMain)"

definition leakKeys :: "config \<Rightarrow> pol_rule set \<Rightarrow> string set" where
  "leakKeys cfg R = srcKey ` {r \<in> R. isLeakRule cfg r}"

lemma rulesAfter_snoc [simp]: "rulesAfter (h @ [e]) R = ruleEffect e (rulesAfter h R)"
  by (simp add: rulesAfter_def)

text \<open>A property of the history that holds at every call from one state to another.\<close>

definition through :: "(history \<Rightarrow> bool) \<Rightarrow> 'z route_manager_scheme \<Rightarrow> 'z route_manager_scheme \<Rightarrow> bool" where
  "through G rm rm' \<longleftrightarrow> (\<exists>t. rm_hist rm' = rm_hist rm @ t \<and> (\<forall>n. G (rm_hist rm @ take n t)))"

lemma through_refl: "through G rm rm \<longleftrightarrow> G (rm_hist rm)"
  by (simp add: through_def)

lemma through_ends: "through G rm rm' \<Longrightarrow> G (rm_hist rm) \<and> G (rm_hist rm')"
proof -
  assume "through G rm rm'"
  then obtain t where t: "rm_hist rm' = rm_hist rm @ t" "\<And>n. G (rm_hist rm @ take n t)" by (auto simp: through_def)
  then show ?thesis using t(2) [of 0] t(2) [of "length t"] by simp
qed

lemma through_trans: "through G a b \<Longrightarrow> through G b c \<Longrightarrow> through G a c"
proof -
  assume "through G a b" "through G b c"
  then obtain t u where t: "rm_hist b = rm_hist a @ t" "\<And>n. G (rm_hist a @ take n t)"
    and u: "rm_hist c = rm_hist b @ u" "\<And>n. G (rm_hist b @ take n u)" by (auto simp: through_def)
  have "G (rm_hist a @ take n (t @ u))" for n
    using t(2) [of n] u(2) [of "n - length t"] by (cases "n \<le> length t") (simp_all add: t(1))
  then show ?thesis using t(1) u(1) by (auto simp: through_def intro!: exI [of _ "t @ u"])
qed

lemma through_mono: "through G a b \<Longrightarrow> (\<And>h. G h \<Longrightarrow> G' h) \<Longrightarrow> through G' a b"
  by (auto simp: through_def)

lemma through_log: "G (rm_hist rm) \<Longrightarrow> G (rm_hist rm @ [(c, ok)]) \<Longrightarrow> through G rm (logCall c ok rm)"
proof -
  assume "G (rm_hist rm)" "G (rm_hist rm @ [(c, ok)])"
  then have "G (rm_hist rm @ take n [(c, ok)])" for n by (cases n) simp_all
  then show ?thesis by (auto simp: through_def)
qed

lemma through_same: "G (rm_hist a) \<Longrightarrow> rm_hist b = rm_hist a \<Longrightarrow> through G a b"
  by (simp add: through_def)

text \<open>A call that is neither an add nor a delete of a rule keeps the rules.\<close>

definition noRule :: "host_call \<Rightarrow> bool" where
  "noRule c \<longleftrightarrow> (case c of CNet (PolRuleAdd _) \<Rightarrow> False | CNet (PolRuleDel _) \<Rightarrow> False | _ \<Rightarrow> True)"

lemma noRule_effect: "noRule c \<Longrightarrow> ruleEffect (c, ok) R = R"
  by (cases "((c, ok), R)" rule: ruleEffect.cases) (auto simp: noRule_def)

definition rulesOf :: "pol_rule set \<Rightarrow> 'z route_manager_scheme \<Rightarrow> pol_rule set" where
  "rulesOf R0 rm = rulesAfter (rm_hist rm) R0"

definition along :: "pol_rule set \<Rightarrow> (pol_rule set \<Rightarrow> bool) \<Rightarrow> 'z route_manager_scheme \<Rightarrow> 'z route_manager_scheme \<Rightarrow> bool" where
  "along R0 P = through (\<lambda>h. P (rulesAfter h R0))"

lemma rulesOf_log: "rulesOf R0 (logCall c ok rm) = ruleEffect (c, ok) (rulesOf R0 rm)"
  by (simp add: rulesOf_def)

lemma along_log: "P (rulesOf R0 rm) \<Longrightarrow> P (ruleEffect (c, ok) (rulesOf R0 rm)) \<Longrightarrow> along R0 P rm (logCall c ok rm)"
  unfolding along_def rulesOf_def by (rule through_log) simp_all

lemma along_trans: "along R0 P a b \<Longrightarrow> along R0 P b c \<Longrightarrow> along R0 P a c"
  unfolding along_def by (rule through_trans)

lemma along_refl: "along R0 P a a \<longleftrightarrow> P (rulesOf R0 a)"
  by (simp add: along_def through_refl rulesOf_def)

lemma along_ends: "along R0 P a b \<Longrightarrow> P (rulesOf R0 b)"
  unfolding along_def rulesOf_def using through_ends by blast

lemma along_mono: "along R0 P a b \<Longrightarrow> (\<And>R. P R \<Longrightarrow> P' R) \<Longrightarrow> along R0 P' a b"
  unfolding along_def by (erule through_mono)

lemma andThen_along:
  assumes "along R0 P s (snd (m s))"
    and "\<And>x s1. m s = (Inr x, s1) \<Longrightarrow> along R0 P s1 (snd (f x s1))"
  shows "along R0 P s (snd (andThen m f s))"
  using assms by (cases "m s") (auto simp: andThen_def split: sum.splits intro: along_trans)

text \<open>Calls that read or change something else.\<close>

definition quiet :: "('z route_manager_scheme \<Rightarrow> 'z route_manager_scheme) \<Rightarrow> bool" where
  "quiet f \<longleftrightarrow> (\<forall>R0 P rm. rulesOf R0 (f rm) = rulesOf R0 rm \<and> (P (rulesOf R0 rm) \<longrightarrow> along R0 P rm (f rm)))"

lemma quiet_log: "noRule c \<Longrightarrow> quiet (\<lambda>rm. logCall c (ok rm) rm)"
  by (simp add: quiet_def rulesOf_log noRule_effect along_log)

lemma quiet_comp: "quiet f \<Longrightarrow> quiet g \<Longrightarrow> quiet (\<lambda>rm. g (f rm))"
  unfolding quiet_def by (metis along_trans)

lemma quiet_id: "quiet (\<lambda>rm. rm)"
  by (simp add: quiet_def along_refl)

lemma quiet_case: "(\<And>x. quiet (f x)) \<Longrightarrow> quiet (\<lambda>rm. f (g rm) rm)"
  by (simp add: quiet_def)

lemma quiet_linkByName: "quiet (\<lambda>rm. snd (linkByName env n rm))"
  by (simp add: linkByName_def Let_def quiet_log noRule_def)

lemma quiet_polRuleList: "quiet (\<lambda>rm. snd (polRuleList env rm))"
  by (simp add: polRuleList_def Let_def quiet_log noRule_def)

lemma quiet_gwRouteList: "quiet (\<lambda>rm. snd (gwRouteList env oif t pr rm))"
  by (simp add: gwRouteList_def Let_def quiet_log noRule_def)

lemma quiet_doNet: "noRule (CNet x) \<Longrightarrow> quiet (\<lambda>rm. snd (doNet env x rm))"
  by (simp add: doNet_def Let_def quiet_log)

lemma quiet_find_or: "quiet (\<lambda>rm. snd (m rm)) \<Longrightarrow> quiet (\<lambda>rm. snd (find_or msg m rm))"
proof -
  have "snd (find_or msg m rm) = snd (m rm)" for rm by (auto simp: find_or_def split: prod.splits sum.splits)
  then show "quiet (\<lambda>rm. snd (m rm)) \<Longrightarrow> quiet (\<lambda>rm. snd (find_or msg m rm))" by simp
qed

lemma quiet_must: "quiet (\<lambda>rm. snd (m rm)) \<Longrightarrow> quiet (\<lambda>rm. snd (must msg m rm))"
proof -
  have "snd (must msg m rm) = snd (m rm)" for rm by (auto simp: must_def split: prod.splits option.splits)
  then show "quiet (\<lambda>rm. snd (m rm)) \<Longrightarrow> quiet (\<lambda>rm. snd (must msg m rm))" by simp
qed

lemma quiet_andThen:
  assumes "quiet (\<lambda>rm. snd (m rm))" and "\<And>x. quiet (\<lambda>rm. snd (f x rm))"
  shows "quiet (\<lambda>rm. snd (andThen m f rm))"
  unfolding quiet_def
proof (intro allI conjI impI)
  fix R0 P and rm :: "'a route_manager_scheme"
  obtain r s1 where m: "m rm = (r, s1)" by fastforce
  have 1: "rulesOf R0 s1 = rulesOf R0 rm" "P (rulesOf R0 rm) \<Longrightarrow> along R0 P rm s1"
    using assms(1) m unfolding quiet_def by (metis snd_conv)+
  have 2: "rulesOf R0 (snd (f x s1)) = rulesOf R0 s1" "P (rulesOf R0 s1) \<Longrightarrow> along R0 P s1 (snd (f x s1))" for x
    using assms(2) [of x] unfolding quiet_def by blast+
  show "rulesOf R0 (snd (andThen m f rm)) = rulesOf R0 rm"
    using 1(1) 2(1) by (cases r) (simp_all add: andThen_def m)
  assume "P (rulesOf R0 rm)"
  then show "along R0 P rm (snd (andThen m f rm))"
    using 1 2(2) by (cases r) (auto simp: andThen_def m intro: along_trans)
qed

lemma quiet_getVRFTableID: "quiet (\<lambda>rm. snd (getVRFTableID env cfg rm))"
  unfolding getVRFTableID_def
  by (rule quiet_andThen [OF quiet_find_or [OF quiet_linkByName]])
     (auto simp: ret_def fail_def quiet_id split: link_kind.splits)

lemma doNet_along:
  assumes "P (rulesOf R0 rm)" and "P (ruleEffect (CNet x, h_net env (rm_hist rm) x = None) (rulesOf R0 rm))"
  shows "along R0 P rm (snd (doNet env x rm))"
  using assms by (simp add: doNet_def Let_def along_log)

lemma doNet_rules:
  "rulesOf R0 (snd (doNet env x rm)) = ruleEffect (CNet x, h_net env (rm_hist rm) x = None) (rulesOf R0 rm)"
  by (simp add: doNet_def Let_def rulesOf_log)

lemma honest_del:
  assumes "honestRules env R0"
  shows "rulesOf R0 (snd (doNet env (PolRuleDel r) rm)) = rulesOf R0 rm - {r}"
  using assms by (simp add: doNet_rules honestRules_def)

lemma honest_del_along:
  assumes "honestRules env R0" and "P (rulesOf R0 rm)" and "P (rulesOf R0 rm - {r})"
  shows "along R0 P rm (snd (doNet env (PolRuleDel r) rm))"
  using assms by (intro doNet_along) (simp_all add: honestRules_def)

text \<open>Adding a rule that may exist: on success it is there, whatever the answer was.\<close>

lemma honest_add:
  assumes "honestRules env R0" and m: "m = mustUnless isFileExists msg (doNet env (PolRuleAdd r)) rm"
  shows "snd m = snd (doNet env (PolRuleAdd r) rm)" and "\<not> isl (fst m) \<Longrightarrow> rulesOf R0 (snd m) = insert r (rulesOf R0 rm)"
    and "rulesOf R0 (snd m) \<subseteq> insert r (rulesOf R0 rm)" and "rulesOf R0 rm \<subseteq> rulesOf R0 (snd m)"
proof -
  show s: "snd m = snd (doNet env (PolRuleAdd r) rm)"
    unfolding m by (auto simp: mustUnless_def split: prod.splits option.splits)
  have eff: "rulesOf R0 (snd m) = (if h_net env (rm_hist rm) (PolRuleAdd r) = None then insert r (rulesOf R0 rm) else rulesOf R0 rm)"
    unfolding s doNet_rules by (cases "h_net env (rm_hist rm) (PolRuleAdd r)") simp_all
  show "rulesOf R0 (snd m) \<subseteq> insert r (rulesOf R0 rm)" "rulesOf R0 rm \<subseteq> rulesOf R0 (snd m)"
    unfolding eff by auto
  show "\<not> isl (fst m) \<Longrightarrow> rulesOf R0 (snd m) = insert r (rulesOf R0 rm)"
  proof (cases "h_net env (rm_hist rm) (PolRuleAdd r)")
    case None
    then show ?thesis unfolding s doNet_rules by simp
  next
    case (Some e)
    assume "\<not> isl (fst m)"
    then have "isFileExists e" using Some unfolding m by (auto simp: mustUnless_def doNet_def Let_def split: if_splits)
    then have "r \<in> rulesOf R0 rm" using assms(1) Some unfolding honestRules_def rulesOf_def by blast
    then show ?thesis unfolding s doNet_rules using Some by auto
  qed
qed

lemma add_along:
  assumes "P (rulesOf R0 rm)" and "P (insert r (rulesOf R0 rm))"
  shows "along R0 P rm (snd (mustUnless isFileExists msg (doNet env (PolRuleAdd r)) rm))"
proof -
  have "snd (mustUnless isFileExists msg (doNet env (PolRuleAdd r)) rm) = snd (doNet env (PolRuleAdd r) rm)"
    by (auto simp: mustUnless_def split: prod.splits option.splits)
  then show ?thesis
    using assms by (cases "h_net env (rm_hist rm) (PolRuleAdd r) = None") (auto intro!: doNet_along)
qed

lemma honest_list: "honestRules env R0 \<Longrightarrow> \<exists>rs. polRuleList env rm = (Inr rs, logCall CPolRuleList True rm) \<and> set rs = rulesOf R0 rm"
  unfolding honestRules_def polRuleList_def rulesOf_def Let_def by (metis sum.disc(2))

lemma list_quiet:
  "rulesOf R0 (logCall CPolRuleList ok rm) = rulesOf R0 rm" "P (rulesOf R0 rm) \<Longrightarrow> along R0 P rm (logCall CPolRuleList ok rm)"
  by (simp_all add: rulesOf_log noRule_effect along_log noRule_def)

definition wantedIngress :: "config \<Rightarrow> pol_rule \<Rightarrow> bool" where
  "wantedIngress cfg r \<longleftrightarrow> po_Iif r = vethDefaultName \<and> po_Priority r = vethIngressRulePriority cfg \<and> po_Table r = rtTableMain"

lemma guarded_iff: "guarded cfg R \<longleftrightarrow> (\<exists>r \<in> R. wantedIngress cfg r)"
  by (simp add: guarded_def wantedIngress_def)

lemma wanted_ingressRule: "wantedIngress cfg (ingressRule cfg)" "\<not> isLeakRule cfg (ingressRule cfg)"
  by (simp_all add: wantedIngress_def ingressRule_def isLeakRule_def)

lemma leak_not_ingress: "isLeakRule cfg r \<Longrightarrow> \<not> wantedIngress cfg r"
  by (simp add: isLeakRule_def wantedIngress_def vethIngressRulePriority_def)

lemma leakKeys_mono: "R \<subseteq> S \<Longrightarrow> leakKeys cfg R \<subseteq> leakKeys cfg S"
  by (auto simp: leakKeys_def)

lemma ingressLoop_rules:
  assumes honest: "honestRules env R0"
  shows "ingressLoop env cfg rs present rm = (present', rm') \<Longrightarrow>
    present' = (present \<or> (\<exists>r \<in> set rs. wantedIngress cfg r)) \<and>
    rulesOf R0 rm' = rulesOf R0 rm - {r \<in> set rs. po_Iif r = vethDefaultName \<and> \<not> wantedIngress cfg r} \<and>
    along R0 (\<lambda>R. R \<subseteq> rulesOf R0 rm) rm rm'"
proof (induction rs arbitrary: present rm)
  case Nil
  then show ?case by (auto simp: along_refl)
next
  case (Cons r rs)
  consider "po_Iif r \<noteq> vethDefaultName" | "wantedIngress cfg r" | "po_Iif r = vethDefaultName" "\<not> wantedIngress cfg r" by blast
  then show ?case
  proof cases
    case 1
    then show ?thesis using Cons by (auto simp: wantedIngress_def)
  next
    case 2
    then show ?thesis using Cons.IH [of True rm] Cons.prems by (auto simp: wantedIngress_def)
  next
    case 3
    define rm1 where "rm1 = snd (doNet env (PolRuleDel r) rm)"
    have 1: "rulesOf R0 rm1 = rulesOf R0 rm - {r}" unfolding rm1_def by (rule honest_del [OF honest])
    have "along R0 (\<lambda>R. R \<subseteq> rulesOf R0 rm) rm rm1" unfolding rm1_def by (rule honest_del_along [OF honest]) auto
    moreover have "ingressLoop env cfg rs present rm1 = (present', rm')"
      using Cons.prems 3 unfolding rm1_def wantedIngress_def by (auto split: if_splits)
    then have "present' = (present \<or> (\<exists>r \<in> set rs. wantedIngress cfg r)) \<and>
        rulesOf R0 rm' = rulesOf R0 rm1 - {r \<in> set rs. po_Iif r = vethDefaultName \<and> \<not> wantedIngress cfg r} \<and>
        along R0 (\<lambda>R. R \<subseteq> rulesOf R0 rm1) rm1 rm'" by (rule Cons.IH)
    moreover have "along R0 (\<lambda>R. R \<subseteq> rulesOf R0 rm1) rm1 rm' \<Longrightarrow> along R0 (\<lambda>R. R \<subseteq> rulesOf R0 rm) rm1 rm'"
      by (erule along_mono) (use 1 in auto)
    ultimately show ?thesis using 1 3 by (auto intro: along_trans)
  qed
qed

text \<open>
  What \<open>ensureVethIngressRule\<close> leaves: on success one kind of ingress exception, and at no time a
  new leak rule.
\<close>

lemma ensureIngress_rules:
  assumes honest: "honestRules env R0" and run: "ensureVethIngressRule env cfg rm = (res, rm')"
  shows "along R0 (\<lambda>R. leakKeys cfg R \<subseteq> leakKeys cfg (rulesOf R0 rm)) rm rm'"
    and "\<not> isl res \<Longrightarrow> guarded cfg (rulesOf R0 rm') \<and>
      {r \<in> rulesOf R0 rm'. po_Iif r = vethDefaultName} \<subseteq> {r. wantedIngress cfg r} \<and>
      {r \<in> rulesOf R0 rm'. po_Iif r \<noteq> vethDefaultName} = {r \<in> rulesOf R0 rm. po_Iif r \<noteq> vethDefaultName}"
proof -
  let ?P = "\<lambda>R. leakKeys cfg R \<subseteq> leakKeys cfg (rulesOf R0 rm)"
  obtain rs where l: "polRuleList env rm = (Inr rs, logCall CPolRuleList True rm)" and rs: "set rs = rulesOf R0 rm"
    using honest_list [OF honest] by blast
  define s where "s = logCall CPolRuleList True rm"
  have s: "rulesOf R0 s = rulesOf R0 rm" "along R0 ?P rm s" unfolding s_def by (simp_all add: list_quiet)
  obtain present rm1 where loop: "ingressLoop env cfg rs False s = (present, rm1)" by fastforce
  note 1 = ingressLoop_rules [OF honest loop]
  have r1: "rulesOf R0 rm1 = rulesOf R0 rm - {r. po_Iif r = vethDefaultName \<and> \<not> wantedIngress cfg r}"
    using 1 rs s(1) by auto
  have a1: "along R0 ?P s rm1" using 1 s(1) by (auto elim!: along_mono dest: leakKeys_mono)
  have e: "(res, rm') = (if present then ret () rm1
      else mustUnless isFileExists ''add veth ingress rule'' (doNet env (PolRuleAdd (ingressRule cfg))) rm1)"
    using run l loop by (simp add: ensureVethIngressRule_def andThen_def find_or_def s_def)
  define m where "m = mustUnless isFileExists ''add veth ingress rule'' (doNet env (PolRuleAdd (ingressRule cfg))) rm1"
  note add = honest_add [OF honest m_def]
  have leak: "leakKeys cfg (insert (ingressRule cfg) (rulesOf R0 rm1)) \<subseteq> leakKeys cfg (rulesOf R0 rm)"
    using wanted_ingressRule(2) r1 by (auto simp: leakKeys_def)
  have a2: "along R0 ?P rm1 (snd m)" unfolding m_def
    by (rule add_along) (use leak r1 leakKeys_mono in \<open>auto simp: leakKeys_def\<close>)
  show "along R0 ?P rm rm'"
    using s(2) a1 a2 e along_trans by (cases present) (auto simp: ret_def m_def [symmetric] dest: along_trans)
  assume ok: "\<not> isl res"
  have fin: "rulesOf R0 rm' = rulesOf R0 rm1 \<union> (if present then {} else {ingressRule cfg})"
    using e ok add(2) by (cases present) (auto simp: ret_def m_def [symmetric] split: if_splits)
  have pres: "present = (\<exists>r \<in> rulesOf R0 rm. wantedIngress cfg r)" using 1 rs by simp
  show "guarded cfg (rulesOf R0 rm') \<and>
      {r \<in> rulesOf R0 rm'. po_Iif r = vethDefaultName} \<subseteq> {r. wantedIngress cfg r} \<and>
      {r \<in> rulesOf R0 rm'. po_Iif r \<noteq> vethDefaultName} = {r \<in> rulesOf R0 rm. po_Iif r \<noteq> vethDefaultName}"
    using pres wanted_ingressRule(1) unfolding fin r1 guarded_iff by (auto simp: ingressRule_def)
qed

lemma quiet_step:
  "quiet (\<lambda>rm. snd (m rm)) \<Longrightarrow> rulesOf R0 (snd (m rm)) = rulesOf R0 rm"
  "quiet (\<lambda>rm. snd (m rm)) \<Longrightarrow> P (rulesOf R0 rm) \<Longrightarrow> along R0 P rm (snd (m rm))"
  by (simp_all add: quiet_def)

lemma quiet_addRoutes: "quiet (\<lambda>rm. snd (addRoutes env route cur ds rm))"
proof (induction ds)
  case Nil
  then show ?case by (simp add: ret_def quiet_id)
next
  case (Cons d ds)
  have "noRule (CNet (GwRouteReplace r))" for r by (simp add: noRule_def)
  note step = quiet_andThen [OF quiet_must [OF quiet_doNet [OF this]]]
  show ?case using Cons by (cases d) (auto intro: step)
qed

lemma quiet_delStaleRoutes: "quiet (delStaleRoutes env route want ks)"
proof (induction ks)
  case Nil
  then show ?case by (simp add: quiet_id)
next
  case (Cons k ks)
  have "noRule (CNet (GwRouteDel r))" for r by (simp add: noRule_def)
  note step = quiet_comp [OF quiet_doNet [OF this] Cons.IH]
  show ?case
  proof (cases "map_of want k = None \<and> ParseCIDR k \<noteq> None")
    case True
    then obtain a n where "map_of want k = None" "ParseCIDR k = Some (a, n)" by fastforce
    then have "delStaleRoutes env route want (k # ks) =
        (\<lambda>rm::'a route_manager_scheme. delStaleRoutes env route want ks (snd (doNet env (GwRouteDel (route n)) rm)))"
      by (intro ext) simp
    then show ?thesis using step by simp
  next
    case False
    then have "delStaleRoutes env route want (k # ks) = (delStaleRoutes env route want ks :: 'a route_manager_scheme \<Rightarrow> _)"
      by (intro ext) (auto split: option.splits)
    then show ?thesis using Cons.IH by simp
  qed
qed

lemma addRules_rules:
  assumes honest: "honestRules env R0" and "P (rulesOf R0 rm)" and up: "\<And>R n. P R \<Longrightarrow> P (insert (leakRule cfg n) R)"
  shows "addRules env cfg cur ds rm = (res, rm') \<Longrightarrow> along R0 P rm rm' \<and>
    (\<not> isl res \<longrightarrow> rulesOf R0 rm' = rulesOf R0 rm \<union> leakRule cfg ` {n. \<exists>k. (k, n) \<in> set ds \<and> k \<notin> set cur})"
  using assms(2)
proof (induction ds arbitrary: rm)
  case Nil
  then show ?case by (auto simp: ret_def along_refl)
next
  case (Cons d ds)
  obtain k n where d: "d = (k, n)" by fastforce
  show ?case
  proof (cases "k \<in> set cur")
    case True
    then show ?thesis using Cons d by auto
  next
    case False
    define m where "m = mustUnless isFileExists ''add policy rule'' (doNet env (PolRuleAdd (leakRule cfg n))) rm"
    note add = honest_add [OF honest m_def]
    have a: "along R0 P rm (snd m)" unfolding m_def by (rule add_along) (use Cons.prems(2) up in auto)
    show ?thesis
    proof (cases "fst m")
      case (Inl e)
      then show ?thesis using Cons.prems(1) d False a by (cases m) (auto simp: andThen_def m_def [symmetric])
    next
      case (Inr u)
      then have s: "rulesOf R0 (snd m) = insert (leakRule cfg n) (rulesOf R0 rm)" using add(2) by simp
      have "addRules env cfg cur ds (snd m) = (res, rm')"
        using Cons.prems(1) d False Inr by (cases m) (auto simp: andThen_def m_def [symmetric])
      then have "along R0 P (snd m) rm' \<and>
          (\<not> isl res \<longrightarrow> rulesOf R0 rm' = rulesOf R0 (snd m) \<union> leakRule cfg ` {n. \<exists>k. (k, n) \<in> set ds \<and> k \<notin> set cur})"
        by (rule Cons.IH) (use along_ends [OF a] in simp)
      then show ?thesis using a s d False by (auto intro: along_trans)
    qed
  qed
qed

lemma removeRules_rules:
  assumes honest: "honestRules env R0"
  shows "rulesOf R0 (removeRules env p rs rm) = rulesOf R0 rm - {r \<in> set rs. p r}"
    and "P (rulesOf R0 rm) \<Longrightarrow> (\<And>R r. P R \<Longrightarrow> p r \<Longrightarrow> P (R - {r})) \<Longrightarrow> along R0 P rm (removeRules env p rs rm)"
proof -
  show "rulesOf R0 (removeRules env p rs rm) = rulesOf R0 rm - {r \<in> set rs. p r}"
    by (induction rs arbitrary: rm) (auto simp: honest_del [OF honest])
  assume "P (rulesOf R0 rm)" and down: "\<And>R r. P R \<Longrightarrow> p r \<Longrightarrow> P (R - {r})"
  then show "along R0 P rm (removeRules env p rs rm)"
  proof (induction rs arbitrary: rm)
    case Nil
    then show ?case by (simp add: along_refl)
  next
    case (Cons r rs)
    show ?case
    proof (cases "p r")
      case True
      have 1: "along R0 P rm (snd (doNet env (PolRuleDel r) rm))"
        by (rule honest_del_along [OF honest]) (use Cons.prems True in auto)
      then show ?thesis using Cons.IH [OF along_ends [OF 1] down] True by (auto intro: along_trans)
    next
      case False
      then show ?thesis using Cons by simp
    qed
  qed
qed

lemma sweepRules_rules:
  assumes honest: "honestRules env R0"
  shows "rulesOf R0 (sweepRules env p rm) = {r \<in> rulesOf R0 rm. \<not> p r}"
    and "P (rulesOf R0 rm) \<Longrightarrow> (\<And>R r. P R \<Longrightarrow> p r \<Longrightarrow> P (R - {r})) \<Longrightarrow> along R0 P rm (sweepRules env p rm)"
proof -
  obtain rs where l: "polRuleList env rm = (Inr rs, logCall CPolRuleList True rm)" and rs: "set rs = rulesOf R0 rm"
    using honest_list [OF honest] by blast
  show "rulesOf R0 (sweepRules env p rm) = {r \<in> rulesOf R0 rm. \<not> p r}"
    using rs by (auto simp: sweepRules_def l removeRules_rules(1) [OF honest] list_quiet)
  assume "P (rulesOf R0 rm)" "\<And>R r. P R \<Longrightarrow> p r \<Longrightarrow> P (R - {r})"
  then have "along R0 P rm (logCall CPolRuleList True rm)"
    and "along R0 P (logCall CPolRuleList True rm) (removeRules env p rs (logCall CPolRuleList True rm))"
    by (simp add: list_quiet, intro removeRules_rules(2) [OF honest]) (simp_all add: list_quiet)
  then show "along R0 P rm (sweepRules env p rm)" by (simp add: sweepRules_def l) (rule along_trans)
qed

definition keyedByNet :: "(string \<times> ipnet) list \<Rightarrow> bool" where
  "keyedByNet m \<longleftrightarrow> (\<forall>k n. map_of m k = Some n \<longrightarrow> NetString n = k)"

lemma keyed_update: "keyedByNet m \<Longrightarrow> keyedByNet (AList.update (NetString d) d m)"
proof -
  assume m: "keyedByNet m"
  show "keyedByNet (AList.update (NetString d) d m)"
    unfolding keyedByNet_def
  proof (intro allI impI)
    fix k n assume a: "map_of (AList.update (NetString d) d m) k = Some n"
    show "NetString n = k"
    proof (cases "k = NetString d")
      case True
      with a have "n = d" unfolding map_of_update by (simp only: fun_upd_same option.inject)
      with True show ?thesis by (simp only:)
    next
      case False
      with a have "map_of m k = Some n" by simp
      then show ?thesis using m unfolding keyedByNet_def by blast
    qed
  qed
qed

lemma desiredSet_keys:
  "map_of (desiredSet desired) k = Some n \<Longrightarrow> NetString n = k" "fst ` set (desiredSet desired) = NetString ` set desired"
proof -
  have "keyedByNet m \<Longrightarrow> keyedByNet (foldl (\<lambda>m n. AList.update (NetString n) n m) m ds)" for m ds
    by (induction ds arbitrary: m) (simp_all add: keyed_update)
  from this [of "[]" desired] show "map_of (desiredSet desired) k = Some n \<Longrightarrow> NetString n = k"
    unfolding keyedByNet_def desiredSet_def by (metis map_of.simps(1) option.distinct(1))
  have "fst ` set (foldl (\<lambda>m n. AList.update (NetString n) n m) m ds) = fst ` set m \<union> NetString ` set ds" for m ds
    by (induction ds arbitrary: m) auto
  then show "fst ` set (desiredSet desired) = NetString ` set desired" by (simp add: desiredSet_def)
qed

lemma reorder_set:
  assumes "\<And>i xs. set (order i xs) = set xs"
  shows "(k, n) \<in> set (reorder order i m) \<longleftrightarrow> map_of m k = Some n"
proof -
  have "set (reorder order i m) = (\<lambda>k. (k, the (map_of m k))) ` dom (map_of m)"
    by (simp add: reorder_def assms dom_map_of_conv_image_fst)
  then show ?thesis by (auto simp: dom_def)
qed

lemma guarded_up: "guarded cfg R \<Longrightarrow> guarded cfg (insert r R)"
  by (auto simp: guarded_def)

lemma guarded_down: "guarded cfg R \<Longrightarrow> isLeakRule cfg r \<Longrightarrow> guarded cfg (R - {r})"
  using leak_not_ingress [of cfg r] by (auto simp: guarded_iff)

lemma sync_rules:
  assumes honest: "honestRules env R0" and order: "\<And>i xs. set (order i xs) = set xs"
    and g: "guarded cfg (rulesOf R0 rm)"
    and run: "syncLeakNetworks env cfg order (desiredSet desired) route curNets rm = (res, rm')"
  shows "along R0 (guarded cfg) rm rm'"
    and "\<not> isl res \<Longrightarrow> leakKeys cfg (rulesOf R0 rm') = NetString ` set desired \<and>
      {r \<in> rulesOf R0 rm'. po_Iif r = vethDefaultName} \<subseteq> {r \<in> rulesOf R0 rm. po_Iif r = vethDefaultName}"
proof -
  let ?want = "desiredSet desired"
  obtain rs where l: "polRuleList env rm = (Inr rs, logCall CPolRuleList True rm)" and rs: "set rs = rulesOf R0 rm"
    using honest_list [OF honest] by blast
  define s1 where "s1 = logCall CPolRuleList True rm"
  have s1: "rulesOf R0 s1 = rulesOf R0 rm" "along R0 (guarded cfg) rm s1" unfolding s1_def by (simp_all add: list_quiet g)
  define cur where "cur = map srcKey (filter (isLeakRule cfg) rs)"
  have cur: "set cur = leakKeys cfg (rulesOf R0 rm)" by (auto simp: cur_def leakKeys_def rs)
  have run': "andThen (addRoutes env route curNets (reorder order 0 ?want)) (\<lambda>_.
         andThen (addRules env cfg cur (reorder order 1 ?want)) (\<lambda>_ s.
           (Inr (), sweepRules env (\<lambda>r. isLeakRule cfg r \<and> map_of ?want (srcKey r) = None)
                      (delStaleRoutes env route ?want (order 2 curNets) s)))) s1 = (res, rm')"
    using run by (simp add: syncLeakNetworks_def l s1_def cur_def)
  obtain ra s2 where a: "addRoutes env route curNets (reorder order 0 ?want) s1 = (ra, s2)" by fastforce
  have s2: "rulesOf R0 s2 = rulesOf R0 rm" "along R0 (guarded cfg) s1 s2"
    using quiet_addRoutes [of env route curNets "reorder order 0 ?want", unfolded quiet_def, rule_format, of R0 s1 "guarded cfg"]
      a g s1(1) by simp_all
  obtain rb s3 where b: "addRules env cfg cur (reorder order 1 ?want) s2 = (rb, s3)" by fastforce
  have s3: "along R0 (guarded cfg) s2 s3 \<and> (\<not> isl rb \<longrightarrow> rulesOf R0 s3 =
      rulesOf R0 s2 \<union> leakRule cfg ` {n. \<exists>k. (k, n) \<in> set (reorder order 1 ?want) \<and> k \<notin> set cur})"
    by (rule addRules_rules [OF honest _ _ b]) (simp_all add: s2(1) g guarded_up)
  define s4 where "s4 = delStaleRoutes env route ?want (order 2 curNets) s3"
  define s5 where "s5 = sweepRules env (\<lambda>r. isLeakRule cfg r \<and> map_of ?want (srcKey r) = None) s4"
  have g3: "guarded cfg (rulesOf R0 s3)" using s3 along_ends by blast
  have s4: "rulesOf R0 s4 = rulesOf R0 s3" "along R0 (guarded cfg) s3 s4"
    using quiet_delStaleRoutes g3 unfolding s4_def quiet_def by blast+
  have s5: "along R0 (guarded cfg) s4 s5" unfolding s5_def
    by (rule sweepRules_rules(2) [OF honest]) (simp_all add: s4(1) g3 guarded_down)
  have res: "(res, rm') = (case ra of Inl e \<Rightarrow> (Inl e, s2) | Inr _ \<Rightarrow> (case rb of Inl e \<Rightarrow> (Inl e, s3) | Inr _ \<Rightarrow> (Inr (), s5)))"
    using run' a b by (auto simp: andThen_def s4_def s5_def split: sum.splits)
  note c2 = along_trans [OF s1(2) s2(2)]
  note c3 = along_trans [OF c2 s3 [THEN conjunct1]]
  note c5 = along_trans [OF along_trans [OF c3 s4(2)] s5]
  show "along R0 (guarded cfg) rm rm'" using c2 c3 c5 res by (auto split: sum.splits)
  assume ok: "\<not> isl res"
  then have fin: "rm' = s5" "\<not> isl rb" using res by (auto split: sum.splits)
  have added: "rulesOf R0 s3 = rulesOf R0 rm \<union> leakRule cfg ` {n. \<exists>k. map_of ?want k = Some n \<and> k \<notin> leakKeys cfg (rulesOf R0 rm)}"
  proof -
    have "leakRule cfg ` {n. \<exists>k. (k, n) \<in> set (reorder order 1 ?want) \<and> k \<notin> set cur} =
        leakRule cfg ` {n. \<exists>k. map_of ?want k = Some n \<and> k \<notin> leakKeys cfg (rulesOf R0 rm)}"
      by (simp only: reorder_set [OF order] cur)
    then show ?thesis using s3 fin(2) s2(1) by simp
  qed
  have lr: "isLeakRule cfg (leakRule cfg n)" "srcKey (leakRule cfg n) = NetString n" "po_Iif (leakRule cfg n) = ''''" for n
    by (simp_all add: isLeakRule_def leakRule_def srcKey_def)
  have final: "rulesOf R0 rm' = {r \<in> rulesOf R0 s3. \<not> (isLeakRule cfg r \<and> map_of ?want (srcKey r) = None)}"
    unfolding fin s5_def sweepRules_rules(1) [OF honest] s4(1) ..
  have wantKeys: "map_of ?want k \<noteq> None \<longleftrightarrow> k \<in> NetString ` set desired" for k
    using desiredSet_keys(2) [of desired] by (simp add: map_of_eq_None_iff)
  have f1: "leakKeys cfg (rulesOf R0 rm') = {k \<in> leakKeys cfg (rulesOf R0 s3). map_of ?want k \<noteq> None}"
    unfolding final by (auto simp: leakKeys_def)
  have "leakKeys cfg (R \<union> leakRule cfg ` N) = leakKeys cfg R \<union> NetString ` N" for R N
  proof -
    have "{r \<in> R \<union> leakRule cfg ` N. isLeakRule cfg r} = {r \<in> R. isLeakRule cfg r} \<union> leakRule cfg ` N"
      using lr(1) by auto
    then show ?thesis by (simp add: leakKeys_def image_Un image_image lr(2))
  qed
  then have f2: "leakKeys cfg (rulesOf R0 s3) = leakKeys cfg (rulesOf R0 rm) \<union>
      NetString ` {n. \<exists>k. map_of ?want k = Some n \<and> k \<notin> leakKeys cfg (rulesOf R0 rm)}"
    unfolding added by blast
  have f3: "NetString ` {n. \<exists>k. map_of ?want k = Some n \<and> k \<notin> K} = {k. map_of ?want k \<noteq> None} - K" for K
  proof (intro subset_antisym subsetI)
    fix x assume "x \<in> NetString ` {n. \<exists>k. map_of ?want k = Some n \<and> k \<notin> K}"
    then obtain n k where "x = NetString n" "map_of ?want k = Some n" "k \<notin> K" by blast
    then show "x \<in> {k. map_of ?want k \<noteq> None} - K" using desiredSet_keys(1) by fastforce
  next
    fix x assume "x \<in> {k. map_of ?want k \<noteq> None} - K"
    then obtain n where "map_of ?want x = Some n" "x \<notin> K" by blast
    then show "x \<in> NetString ` {n. \<exists>k. map_of ?want k = Some n \<and> k \<notin> K}"
      using desiredSet_keys(1) [of desired x n] by blast
  qed
  have "leakKeys cfg (rulesOf R0 rm') = {k. map_of ?want k \<noteq> None}" unfolding f1 f2 f3 by auto
  also have "\<dots> = NetString ` set desired" using wantKeys by blast
  finally have "leakKeys cfg (rulesOf R0 rm') = NetString ` set desired" .
  moreover have "vethDefaultName \<noteq> ''''" by (simp add: vethDefaultName_def)
  then have "{r \<in> rulesOf R0 rm'. po_Iif r = vethDefaultName} \<subseteq> {r \<in> rulesOf R0 rm. po_Iif r = vethDefaultName}"
    unfolding final added using lr(3) by auto
  ultimately show "leakKeys cfg (rulesOf R0 rm') = NetString ` set desired \<and>
      {r \<in> rulesOf R0 rm'. po_Iif r = vethDefaultName} \<subseteq> {r \<in> rulesOf R0 rm. po_Iif r = vethDefaultName}" ..
qed


fun ruleListEffect :: "event \<Rightarrow> pol_rule list \<Rightarrow> pol_rule list" where
  "ruleListEffect (CNet (PolRuleAdd r), True) rs = r # rs"
| "ruleListEffect (CNet (PolRuleDel r), True) rs = filter (\<lambda>x. x \<noteq> r) rs"
| "ruleListEffect _ rs = rs"

definition demo_leak_host :: host where
  "demo_leak_host = demo_host\<lparr>h_polRuleList := (\<lambda>h. Inr (fold ruleListEffect h [])),
     h_linkByName := (\<lambda>h n. Inr (demo_link\<lparr>ln_Kind := VrfLink 1000\<rparr>))\<rparr>"

definition demo_leak_cfg :: config where
  "demo_leak_cfg = demo_rcfg\<lparr>cf_VethLeakEnabled := True, cf_VethLeakTableID := 200, cf_VethLeakRulePriority := 2000\<rparr>"

lemma demo_leak_honest: "honestRules demo_leak_host {}"
proof -
  have "set (ruleListEffect e rs) = ruleEffect e (set rs)" for e rs
    by (cases "(e, rs)" rule: ruleListEffect.cases) auto
  then have "set (fold ruleListEffect h rs) = fold ruleEffect h (set rs)" for h rs
    by (induction h arbitrary: rs) simp_all
  then show ?thesis by (simp add: honestRules_def rulesAfter_def demo_leak_host_def demo_host_def)
qed

lemma demo_leak_run:
  "fst (ReconcileVethLeakNetworks demo_leak_host demo_leak_cfg (\<lambda>i xs. xs) [Net4 0x0A000000 24] demo_rm) = Inr ()"
  by (simp add: ReconcileVethLeakNetworks_def demo_leak_cfg_def demo_leak_host_def demo_host_def demo_rcfg_def demo_link_def
      op_defs net_calls ensureVethIngressRule_def getVRFTableID_def syncLeakNetworks_def demo_rm_def desiredSet_def
      currentNets_def agentRoute_def reorder_def sweepRules_def ingressRule_def vethIngressRulePriority_def
      isLeakRule_def leakRule_def NetString_def rtTableMain_def logCall_def leakRoute_def)


end
