(* ===== verification/OvsFlows.thy ===== *)
theory OvsFlows
  imports OvsSegments VethLeak
begin

section \<open>The agent's two flow planes\<close>

text \<open>
  The other half of \<open>ovs.go\<close>: what flows the bindings and the hairpin targets ask for, and the
  reconciliation of a plane against a dump. The plan a reconcile computes is an instance of
  \<open>diff_sync\<close>. The counters and the observer of the dump are left out.
\<close>

subsection \<open>What is wanted\<close>

fun tweakFlows :: "segment_map \<Rightarrow> string list \<Rightarrow> string list \<Rightarrow> desired_flow list" where
  "tweakFlows segs seenOfports [] = []"
| "tweakFlows segs seenOfports (key # keys) =
     (let b = the (map_of segs key) in
      if sb_ofport b \<in> set seenOfports then tweakFlows segs seenOfports keys
      else map (\<lambda>ipv6. let spec = MACTweakFlow ovsCookieMACTweak (sb_ofport b) (sb_kernelMAC b) ipv6
                 in \<lparr>df_key = \<lparr>fk_priority = macTweakFlowPriority, fk_ipv6 = ipv6, fk_inPort = sb_ofport b, fk_dst = ''''\<rparr>,
                     df_actions = normalizeActions (flowActions spec), df_spec = spec\<rparr>) [False, True] @
           tweakFlows segs (sb_ofport b # seenOfports) keys)"

definition desiredMACTweakFlows :: "segment_map \<Rightarrow> desired_flow list" where
  "desiredMACTweakFlows segs = tweakFlows segs [] (sortedSegmentKeys segs)"

definition hairpinFlow :: "ovs_manager \<Rightarrow> string \<times> hairpin_target \<Rightarrow> desired_flow option" where
  "hairpinFlow rm = (\<lambda>(ip, target).
     (case ParseIP ip of
        None \<Rightarrow> None
      | Some parsed \<Rightarrow>
          (case segmentBindingFor rm (ht_Segment target) of
             None \<Rightarrow> None
           | Some b \<Rightarrow>
               (let isIPv6 = (To4 parsed = None);
                    spec = HairpinFlow ovsCookieHairpin (sb_ofport b) ip (sb_kernelMAC b) (ht_RouterMAC target) isIPv6
                in Some \<lparr>df_key = \<lparr>fk_priority = hairpinFlowPriority, fk_ipv6 = isIPv6, fk_inPort = sb_ofport b,
                       fk_dst = IPString parsed\<rparr>, df_actions = normalizeActions (flowActions spec), df_spec = spec\<rparr>))))"

definition desiredHairpinFlows :: "ovs_manager \<Rightarrow> (string \<times> hairpin_target) list \<Rightarrow> desired_flow list" where
  "desiredHairpinFlows rm targets = List.map_filter (hairpinFlow rm) targets"

subsection \<open>Applying adds\<close>

definition ovsStdinProbe :: string where
  "ovsStdinProbe = ''ovn-network-agent-stdin-probe''"

definition newline :: char where
  "newline = CHR 0x0A"

definition stdinForwardingOK :: "host \<Rightarrow> config \<Rightarrow> ovs_manager \<Rightarrow> bool \<times> ovs_manager" where
  "stdinForwardingOK env cfg rm =
     (if ovsWrapper cfg = [] then (True, rm)
      else (case om_wrapperStdinOK rm of
        Some ok \<Rightarrow> (ok, rm)
      | None \<Rightarrow>
          (case runOVSStdin env cfg (ovsStdinProbe @ [newline]) [''cat''] rm of
             ((_, Some _), s) \<Rightarrow> (False, s)
           | ((out, None), s) \<Rightarrow>
               (let ok = Contains out ovsStdinProbe
                in (ok, s\<lparr>om_wrapperStdinOK := Some ok,
                         om_warnedWrapperStdin := (om_warnedWrapperStdin s \<or> \<not> ok)\<rparr>)))))"

definition bundleSupported :: "host \<Rightarrow> config \<Rightarrow> ovs_manager \<Rightarrow> bool \<times> ovs_manager" where
  "bundleSupported env cfg rm =
     (case om_ofctlBundleOK rm of
        Some ok \<Rightarrow> (ok, rm)
      | None \<Rightarrow>
          (case runOVSStdin env cfg '''' [''ovs-ofctl'', ''--bundle'', ''add-flows'', cf_BridgeDev cfg, ''-''] rm of
             ((_, Some _), s) \<Rightarrow> (False, s\<lparr>om_warnedOfctlBundle := True\<rparr>)
           | ((_, None), s) \<Rightarrow> (True, s\<lparr>om_ofctlBundleOK := Some True\<rparr>)))"

definition addOVSFlow :: "host \<Rightarrow> config \<Rightarrow> string \<Rightarrow> ovs_manager \<Rightarrow> err option \<times> ovs_manager" where
  "addOVSFlow env cfg flow rm =
     (case runOVS env cfg [''ovs-ofctl'', ''add-flow'', cf_BridgeDev cfg, flow] rm of
        ((_, Some _), s) \<Rightarrow> (Some (Err ''add-flow''), s)
      | ((_, None), s) \<Rightarrow> (None, s))"

text \<open>\<open>errors.Join\<close> is an error if any of its parts is.\<close>

definition joinErr :: "err option \<Rightarrow> err option \<Rightarrow> err option" where
  "joinErr e f = (case e of None \<Rightarrow> f | Some x \<Rightarrow> Some x)"

fun addEach :: "host \<Rightarrow> config \<Rightarrow> desired_flow list \<Rightarrow> ovs_manager \<Rightarrow> err option \<times> ovs_manager" where
  "addEach env cfg [] rm = (None, rm)"
| "addEach env cfg (a # adds) rm =
     (let (e, rm1) = addOVSFlow env cfg (df_spec a) rm; (f, rm2) = addEach env cfg adds rm1 in (joinErr e f, rm2))"

definition batchInput :: "desired_flow list \<Rightarrow> string" where
  "batchInput adds = concat (map (\<lambda>a. df_spec a @ [newline]) adds)"

definition batchCmd :: "config \<Rightarrow> bool \<Rightarrow> string list" where
  "batchCmd cfg bundle = ''ovs-ofctl'' # (if bundle then [''--bundle''] else []) @ [''add-flows'', cf_BridgeDev cfg, ''-'']"

definition addBatch :: "host \<Rightarrow> config \<Rightarrow> desired_flow list \<Rightarrow> ovs_manager \<Rightarrow> err option \<times> ovs_manager" where
  "addBatch env cfg adds rm =
     (let (bundle, rm1) = bundleSupported env cfg rm
      in (case runOVSStdin env cfg (batchInput adds) (batchCmd cfg bundle) rm1 of
            ((_, Some _), s) \<Rightarrow> (Some (Err ''add-flows''), if bundle then s\<lparr>om_ofctlBundleOK := None\<rparr> else s)
          | ((_, None), s) \<Rightarrow> (None, s)))"

definition applyFlowAdds :: "host \<Rightarrow> config \<Rightarrow> desired_flow list \<Rightarrow> ovs_manager \<Rightarrow> err option \<times> ovs_manager" where
  "applyFlowAdds env cfg adds rm =
     (if adds = [] then (None, rm)
      else (let (fwd, rm1) = stdinForwardingOK env cfg rm
            in if \<not> fwd then addEach env cfg adds rm1 else addBatch env cfg adds rm1))"

subsection \<open>Reconciling a plane\<close>

definition setOwned :: "string \<Rightarrow> desired_flow list \<Rightarrow> ovs_manager \<Rightarrow> ovs_manager" where
  "setOwned plane flows rm =
     (case om_flowWatch rm of
        None \<Rightarrow> rm
      | Some owned \<Rightarrow> rm\<lparr>om_flowWatch := Some (owned(plane := set (map df_key flows)))\<rparr>)"

text \<open>What the flow watch makes of a deletion the monitor reports (\<open>flow_watch.go\<close>).\<close>

definition owns :: "(string \<Rightarrow> flow_key set) \<Rightarrow> string \<Rightarrow> flow_key \<Rightarrow> bool" where
  "owns owned plane key \<longleftrightarrow> key \<in> owned plane"

definition classifyFlowEvent :: "(string \<Rightarrow> flow_key set) \<Rightarrow> flow_event \<Rightarrow> string \<times> bool" where
  "classifyFlowEvent owned ev = (ev_Plane ev, owns owned (ev_Plane ev) (ev_Key ev))"

definition currentFlows :: "string \<Rightarrow> (flow_key \<times> string) list" where
  "currentFlows out = foldl (\<lambda>m f. AList.update (pf_key f) (pf_actions f) m) [] (parseFlowDump out)"

text \<open>
  The difference, in the deterministic order of the batch. Entries that compare equal render the
  same command, so the instability of \<open>sort.Slice\<close> is not observable.
\<close>

definition flowAdds :: "(flow_key \<times> string) list \<Rightarrow> desired_flow list \<Rightarrow> desired_flow list" where
  "flowAdds current desired = sort_key df_spec (filter (\<lambda>d. map_of current (df_key d) \<noteq> Some (df_actions d)) desired)"

definition flowDels :: "string \<Rightarrow> (flow_key \<times> string) list \<Rightarrow> desired_flow list \<Rightarrow> flow_key list" where
  "flowDels cookie current desired =
     sort_key (deleteMatch cookie) (filter (\<lambda>k. k \<notin> set (map df_key desired)) (map fst current))"

definition strictDel :: "config \<Rightarrow> string \<Rightarrow> flow_key \<Rightarrow> string list" where
  "strictDel cfg cookie k = [''ovs-ofctl'', ''--strict'', ''del-flows'', cf_BridgeDev cfg, deleteMatch cookie k]"

fun delEach :: "host \<Rightarrow> config \<Rightarrow> string \<Rightarrow> flow_key list \<Rightarrow> ovs_manager \<Rightarrow> err option \<times> ovs_manager" where
  "delEach env cfg cookie [] rm = (None, rm)"
| "delEach env cfg cookie (k # ks) rm =
     (let ((_, e), rm1) = runOVS env cfg (strictDel cfg cookie k) rm;
          (f, rm2) = delEach env cfg cookie ks rm1
      in (joinErr (map_option (\<lambda>_. Err ''del-flows'') e) f, rm2))"

definition dumpCmd :: "config \<Rightarrow> string \<Rightarrow> string list" where
  "dumpCmd cfg cookie = [''ovs-ofctl'', ''--no-stats'', ''dump-flows'', cf_BridgeDev cfg, ''cookie='' @ cookie @ ''/-1'']"

definition applyFlowDiff ::
  "host \<Rightarrow> config \<Rightarrow> string \<Rightarrow> desired_flow list \<Rightarrow> flow_key list \<Rightarrow> ovs_manager \<Rightarrow> err option \<times> ovs_manager" where
  "applyFlowDiff env cfg cookie adds dels rm =
     (if adds = [] \<and> dels = [] then (None, rm)
      else (case applyFlowAdds env cfg adds rm of
        (Some e, rm1) \<Rightarrow> (Some e, rm1)
      | (None, rm1) \<Rightarrow> delEach env cfg cookie dels rm1))"

definition reconcileFlowPlane ::
  "host \<Rightarrow> config \<Rightarrow> string \<Rightarrow> string \<Rightarrow> desired_flow list \<Rightarrow> ovs_manager \<Rightarrow> err option \<times> ovs_manager" where
  "reconcileFlowPlane env cfg plane cookie desired rm =
     (case runOVS env cfg (dumpCmd cfg cookie) (setOwned plane desired rm) of
        ((_, Some _), s) \<Rightarrow> (Some (Err ''dump''), s)
      | ((out, None), s) \<Rightarrow>
          (let current = currentFlows out
           in applyFlowDiff env cfg cookie (flowAdds current desired) (flowDels cookie current desired) s))"

definition ReconcileOVSHairpinFlows ::
  "host \<Rightarrow> config \<Rightarrow> (string \<times> hairpin_target) list \<Rightarrow> ovs_manager \<Rightarrow> err option \<times> ovs_manager" where
  "ReconcileOVSHairpinFlows env cfg targets rm =
     (if cf_DryRun cfg then (None, rm)
      else if om_segments rm = [] then (None, setOwned flowPlaneHairpin [] rm)
      else reconcileFlowPlane env cfg flowPlaneHairpin ovsCookieHairpin (desiredHairpinFlows rm targets) rm)"

definition keepTags :: "segment_map \<Rightarrow> int set" where
  "keepTags segs = set (List.map_filter (\<lambda>(_, b). sb_vlanTag b) segs)"

definition EnsureSegments ::
  "host \<Rightarrow> config \<Rightarrow> (string list \<Rightarrow> string list) \<Rightarrow> desired_segment list \<Rightarrow> ovs_manager \<Rightarrow> err option \<times> ovs_manager" where
  "EnsureSegments env cfg order desired rm =
     (if cf_DryRun cfg then (None, rm)
      else (case refreshSegmentBindings env cfg order desired rm of
        (Some e, rm1) \<Rightarrow> (Some e, rm1)
      | (None, rm1) \<Rightarrow>
          (let rm2 = snd (PruneSegmentInterfaces env cfg (keepTags (om_segments rm1)) rm1)
           in reconcileFlowPlane env cfg flowPlaneMACTweak ovsCookieMACTweak (desiredMACTweakFlows (om_segments rm2)) rm2)))"

definition delByCookie :: "host \<Rightarrow> config \<Rightarrow> string \<Rightarrow> ovs_manager \<Rightarrow> err option \<times> ovs_manager" where
  "delByCookie env cfg cookie rm =
     (let ((_, e), s) = runOVS env cfg [''ovs-ofctl'', ''del-flows'', cf_BridgeDev cfg, ''cookie='' @ cookie @ ''/-1''] rm
      in (map_option (\<lambda>_. Err ''del-flows'') e, s))"

definition RemoveOVSFlows :: "host \<Rightarrow> config \<Rightarrow> ovs_manager \<Rightarrow> err option \<times> ovs_manager" where
  "RemoveOVSFlows env cfg rm =
     (if cf_DryRun cfg then (None, rm)
      else (case delByCookie env cfg ovsCookieMACTweak rm of
        (Some e, s) \<Rightarrow> (Some e, s)
      | (None, s) \<Rightarrow> delByCookie env cfg ovsCookieHairpin s))"

text \<open>The plan of a reconcile meets the contract of a table reconciler.\<close>

interpretation flows: diff_sync df_key df_actions flowAdds "flowDels cookie" for cookie
proof
  fix cur :: "(flow_key \<times> string) list" and des :: "desired_flow list"
  show "set (flowAdds cur des) = {d \<in> set des. map_of cur (df_key d) \<noteq> Some (df_actions d)}"
    by (auto simp: flowAdds_def)
  show "set (flowDels cookie cur des) = fst ` set cur - df_key ` set des"
    by (auto simp: flowDels_def)
  have "mset (map df_key (flowAdds cur des)) = mset (map df_key (filter (\<lambda>d. map_of cur (df_key d) \<noteq> Some (df_actions d)) des))"
    by (simp add: flowAdds_def)
  moreover assume "distinct (map df_key des)"
  then have "distinct (map df_key (filter (\<lambda>d. map_of cur (df_key d) \<noteq> Some (df_actions d)) des))"
    by (simp add: distinct_map_filter)
  ultimately show "distinct (map df_key (flowAdds cur des))" by (metis mset_eq_imp_distinct_iff)
qed

subsection \<open>A switch\<close>

text \<open>
  The documented behaviour of \<open>ovs-ofctl\<close> on one plane, as a table from flow identities to
  actions that follows the history: an accepted add writes its rules, the strict delete of an
  entry's match removes that entry, a dump and the probe change nothing. A failed add may have
  written some of its rules and removes none; a failed delete touches no other entry.
\<close>

definition addRequest :: "config \<Rightarrow> string list \<Rightarrow> string \<Rightarrow> (flow_key \<times> string) list \<Rightarrow> bool" where
  "addRequest cfg argv inp kvs \<longleftrightarrow>
     (\<exists>spec. argv = ovsArgv (ovsWrapper cfg) [''ovs-ofctl'', ''add-flow'', cf_BridgeDev cfg, spec] \<and> map readSpec [spec] = map Some kvs) \<or>
     (\<exists>bundle. argv = ovsArgv (ovsWrapper cfg) (batchCmd cfg bundle) \<and> map readSpec (butlast (Split inp newline)) = map Some kvs)"

definition putFlows :: "(flow_key \<times> string) list \<Rightarrow> (flow_key, string) plan_step list" where
  "putFlows kvs = map (\<lambda>kv. Put (fst kv) (snd kv)) kvs"

definition partialAdd :: "(flow_key \<times> string) list \<Rightarrow> (flow_key \<rightharpoonup> string) \<Rightarrow> (flow_key \<rightharpoonup> string) \<Rightarrow> bool" where
  "partialAdd kvs m m' \<longleftrightarrow> (\<forall>k. m' k = m k \<or> (k \<in> fst ` set kvs \<and> m' k \<noteq> None))"

definition flowSwitch :: "config \<Rightarrow> string \<Rightarrow> (history \<Rightarrow> flow_key \<rightharpoonup> string) \<Rightarrow> bool" where
  "flowSwitch cfg cookie T \<longleftrightarrow>
     (\<forall>h argv inp kvs. addRequest cfg argv inp kvs \<longrightarrow>
        T (h @ [(COVS argv inp, True)]) = run_plan (T h) (putFlows kvs) \<and>
        partialAdd kvs (T h) (T (h @ [(COVS argv inp, False)]))) \<and>
     (\<forall>h k. plainKey k \<longrightarrow>
        T (h @ [(COVS (ovsArgv (ovsWrapper cfg) (strictDel cfg cookie k)) '''', True)]) = (T h)(k := None) \<and>
        (\<forall>k'. k' \<noteq> k \<longrightarrow> T (h @ [(COVS (ovsArgv (ovsWrapper cfg) (strictDel cfg cookie k)) '''', False)]) k' = T h k')) \<and>
     (\<forall>h ok. T (h @ [(COVS (ovsArgv (ovsWrapper cfg) (dumpCmd cfg cookie)) '''', ok)]) = T h \<and>
        T (h @ [(COVS (ovsArgv (ovsWrapper cfg) [''cat'']) (ovsStdinProbe @ [newline]), ok)]) = T h)"

definition readable :: "desired_flow \<Rightarrow> bool" where
  "readable d \<longleftrightarrow> readSpec (df_spec d) = Some (df_key d, df_actions d) \<and> newline \<notin> set (df_spec d)"

definition flowEntry :: "desired_flow \<Rightarrow> flow_key \<times> string" where
  "flowEntry d = (df_key d, df_actions d)"

lemma putFlows_entries: "putFlows (map flowEntry ds) = map (\<lambda>d. Put (df_key d) (df_actions d)) ds"
  by (simp add: putFlows_def flowEntry_def comp_def)

lemma runOVSStdin_event:
  "runOVSStdin env cfg inp cmd rm = ((out, e), s) \<Longrightarrow>
   s = logCall (COVS (ovsArgv (ovsWrapper cfg) cmd) inp) (e = None) rm \<and> h_ovs env (rm_hist rm) (ovsArgv (ovsWrapper cfg) cmd) inp = (out, e)"
  by (auto simp: runOVSStdin_def Let_def split: prod.splits)

lemma runOVS_event:
  "runOVS env cfg cmd rm = ((out, e), s) \<Longrightarrow>
   s = logCall (COVS (ovsArgv (ovsWrapper cfg) cmd) '''') (e = None) rm \<and> h_ovs env (rm_hist rm) (ovsArgv (ovsWrapper cfg) cmd) '''' = (out, e)"
  unfolding runOVS_def by (rule runOVSStdin_event)

lemma switch_add:
  assumes "flowSwitch cfg cookie T" and "addRequest cfg argv inp kvs"
  shows "T (h @ [(COVS argv inp, True)]) = run_plan (T h) (putFlows kvs)"
    and "D \<subseteq> dom (T h) \<Longrightarrow> D \<subseteq> dom (T (h @ [(COVS argv inp, ok)]))"
    and "kvs = [] \<Longrightarrow> T (h @ [(COVS argv inp, ok)]) = T h"
proof -
  show t: "T (h @ [(COVS argv inp, True)]) = run_plan (T h) (putFlows kvs)"
    using assms unfolding flowSwitch_def by blast
  have f: "partialAdd kvs (T h) (T (h @ [(COVS argv inp, False)]))" using assms unfolding flowSwitch_def by blast
  show "D \<subseteq> dom (T h) \<Longrightarrow> D \<subseteq> dom (T (h @ [(COVS argv inp, ok)]))"
  proof (cases ok)
    case True
    assume "D \<subseteq> dom (T h)"
    moreover have "dom (T h) \<subseteq> dom (run_plan (T h) (putFlows kvs))"
      using run_plan_puts_dom [of "T h" fst snd kvs] by (simp add: putFlows_def)
    ultimately show ?thesis using True t by simp
  next
    case False
    assume D: "D \<subseteq> dom (T h)"
    show ?thesis
    proof
      fix k assume "k \<in> D"
      then have "T h k \<noteq> None" using D by auto
      then show "k \<in> dom (T (h @ [(COVS argv inp, ok)]))"
        using f False unfolding partialAdd_def by (metis (full_types) domIff)
    qed
  qed
  show "kvs = [] \<Longrightarrow> T (h @ [(COVS argv inp, ok)]) = T h"
    using t f by (cases ok) (auto simp: putFlows_def partialAdd_def)
qed

lemma readable_request:
  "readable a \<Longrightarrow> addRequest cfg (ovsArgv (ovsWrapper cfg) [''ovs-ofctl'', ''add-flow'', cf_BridgeDev cfg, df_spec a]) inp [flowEntry a]"
  by (auto simp: addRequest_def readable_def flowEntry_def)

lemma Split_batchInput:
  "\<forall>a \<in> set adds. newline \<notin> set (df_spec a) \<Longrightarrow> Split (batchInput adds) newline = map df_spec adds @ ['''']"
proof (induction adds)
  case (Cons a adds)
  then show ?case using Split_append [of newline "df_spec a" "batchInput adds"] by (simp add: batchInput_def)
qed (simp add: batchInput_def)

lemma batch_request:
  "\<forall>a \<in> set adds. readable a \<Longrightarrow>
   addRequest cfg (ovsArgv (ovsWrapper cfg) (batchCmd cfg bundle)) (batchInput adds) (map flowEntry adds)"
proof -
  assume r: "\<forall>a \<in> set adds. readable a"
  then have "Split (batchInput adds) newline = map df_spec adds @ ['''']" by (intro Split_batchInput) (simp add: readable_def)
  then have "map readSpec (butlast (Split (batchInput adds) newline)) = map Some (map flowEntry adds)"
    using r by (simp add: readable_def flowEntry_def)
  then show ?thesis unfolding addRequest_def by blast
qed

subsection \<open>What a reconcile does to the switch\<close>

definition table :: "(history \<Rightarrow> flow_key \<rightharpoonup> string) \<Rightarrow> ovs_manager \<Rightarrow> flow_key \<rightharpoonup> string" where
  "table T rm = T (rm_hist rm)"

lemma through_hist: "through G a b \<Longrightarrow> rm_hist c = rm_hist b \<Longrightarrow> through G a c"
  by (simp add: through_def)

lemma stdinForwarding_run:
  assumes "flowSwitch cfg cookie T" and "stdinForwardingOK env cfg rm = (b, s)" and "G (table T rm)"
  shows "table T s = table T rm \<and> through (\<lambda>h. G (T h)) rm s"
proof (cases "ovsWrapper cfg = [] \<or> om_wrapperStdinOK rm \<noteq> None")
  case True
  then have "s = rm" using assms(2) by (auto simp: stdinForwardingOK_def split: if_splits)
  then show ?thesis using assms(3) by (simp add: through_refl table_def)
next
  case False
  obtain out e s1 where r: "runOVSStdin env cfg (ovsStdinProbe @ [newline]) [''cat''] rm = ((out, e), s1)" by (metis prod.collapse)
  have same: "T (h @ [(COVS (ovsArgv (ovsWrapper cfg) [''cat'']) (ovsStdinProbe @ [newline]), ok)]) = T h" for h ok
    using assms(1) unfolding flowSwitch_def by blast
  note ev = conjunct1 [OF runOVSStdin_event [OF r]]
  have t1: "T (rm_hist s1) = T (rm_hist rm)" using ev same by simp
  have h: "rm_hist s = rm_hist s1"
    using assms(2) False r by (cases e) (auto simp: stdinForwardingOK_def Let_def)
  have "through (\<lambda>h. G (T h)) rm s1" unfolding ev by (rule through_log) (use same assms(3) in \<open>simp_all add: table_def\<close>)
  then have "through (\<lambda>h. G (T h)) rm s"
    using h by (rule through_hist)
  then show ?thesis using h t1 by (simp add: table_def)
qed

lemma bundleSupported_run:
  assumes "flowSwitch cfg cookie T" and "bundleSupported env cfg rm = (b, s)" and "G (table T rm)"
  shows "table T s = table T rm \<and> through (\<lambda>h. G (T h)) rm s"
proof (cases "om_ofctlBundleOK rm")
  case (Some ok)
  then have "s = rm" using assms(2) by (simp add: bundleSupported_def)
  then show ?thesis using assms(3) by (simp add: through_refl table_def)
next
  case None
  have req: "addRequest cfg (ovsArgv (ovsWrapper cfg) (batchCmd cfg True)) '''' []"
    unfolding addRequest_def by (intro disjI2 exI [of _ True]) simp
  obtain out e s1 where r: "runOVSStdin env cfg '''' (batchCmd cfg True) rm = ((out, e), s1)" by (metis prod.collapse)
  note same = switch_add(3) [OF assms(1) req refl]
  note ev = conjunct1 [OF runOVSStdin_event [OF r]]
  have t1: "T (rm_hist s1) = T (rm_hist rm)" using ev same by simp
  have h: "rm_hist s = rm_hist s1"
    using assms(2) None r by (cases e) (auto simp: bundleSupported_def batchCmd_def)
  have "through (\<lambda>h. G (T h)) rm s1" unfolding ev by (rule through_log) (use same assms(3) in \<open>simp_all add: table_def\<close>)
  then have "through (\<lambda>h. G (T h)) rm s"
    using h by (rule through_hist)
  then show ?thesis using h t1 by (simp add: table_def)
qed

lemma addEach_run:
  assumes sw: "flowSwitch cfg cookie T"
  shows "\<forall>a \<in> set adds. readable a \<Longrightarrow> addEach env cfg adds rm = (e, s) \<Longrightarrow> D \<subseteq> dom (table T rm) \<Longrightarrow>
    through (\<lambda>h. D \<subseteq> dom (T h)) rm s \<and> (e = None \<longrightarrow> table T s = run_plan (table T rm) (putFlows (map flowEntry adds)))"
proof (induction adds arbitrary: rm e s)
  case Nil
  then show ?case by (simp add: through_refl table_def putFlows_def)
next
  case (Cons a adds)
  obtain out x s1 where r: "runOVS env cfg [''ovs-ofctl'', ''add-flow'', cf_BridgeDev cfg, df_spec a] rm = ((out, x), s1)" by (metis prod.collapse)
  obtain f s2 where rest: "addEach env cfg adds s1 = (f, s2)" by fastforce
  have run: "s = s2" "e = None \<Longrightarrow> x = None \<and> f = None"
    using Cons.prems(2) r rest by (cases x; simp add: addOVSFlow_def joinErr_def Let_def split: option.splits)+
  note ev = conjunct1 [OF runOVS_event [OF r]]
  note req = readable_request [of a cfg "''''"]
  have ra: "readable a" using Cons.prems(1) by simp
  have keep: "D \<subseteq> dom (T (rm_hist rm @ [(COVS (ovsArgv (ovsWrapper cfg) [''ovs-ofctl'', ''add-flow'', cf_BridgeDev cfg, df_spec a]) '''', ok)]))" for ok
    by (rule switch_add(2) [OF sw req [OF ra]]) (use Cons.prems(3) in \<open>simp add: table_def\<close>)
  have t1: "through (\<lambda>h. D \<subseteq> dom (T h)) rm s1"
    unfolding ev by (rule through_log) (use keep Cons.prems(3) in \<open>simp_all add: table_def\<close>)
  have "D \<subseteq> dom (table T s1)" using ev keep by (simp add: table_def)
  note ih = Cons.IH [OF _ rest this]
  have "through (\<lambda>h. D \<subseteq> dom (T h)) rm s" using through_trans [OF t1] ih Cons.prems(1) run(1) by simp
  moreover have "table T s = run_plan (table T rm) (putFlows (map flowEntry (a # adds)))" if "e = None"
  proof -
    have "table T s1 = run_plan (table T rm) (putFlows [flowEntry a])"
      using switch_add(1) [OF sw req [OF ra]] ev run(2) [OF that] by (simp add: table_def)
    moreover have "table T s = run_plan (table T s1) (putFlows (map flowEntry adds))"
      using ih run that Cons.prems(1) by simp
    moreover have "putFlows (map flowEntry (a # adds)) = putFlows [flowEntry a] @ putFlows (map flowEntry adds)"
      by (simp add: putFlows_def)
    ultimately show ?thesis by (simp only: run_plan_append)
  qed
  ultimately show ?case by blast
qed

lemma applyFlowAdds_run:
  assumes sw: "flowSwitch cfg cookie T" and r: "\<forall>a \<in> set adds. readable a"
    and run: "applyFlowAdds env cfg adds rm = (e, s)" and D: "D \<subseteq> dom (table T rm)"
  shows "through (\<lambda>h. D \<subseteq> dom (T h)) rm s \<and> (e = None \<longrightarrow> table T s = run_plan (table T rm) (putFlows (map flowEntry adds)))"
proof (cases "adds = []")
  case True
  then show ?thesis using run D by (simp add: applyFlowAdds_def through_refl table_def putFlows_def)
next
  case False
  obtain fwd s1 where f: "stdinForwardingOK env cfg rm = (fwd, s1)" by fastforce
  have f1: "table T s1 = table T rm" "through (\<lambda>h. D \<subseteq> dom (T h)) rm s1"
    using stdinForwarding_run [OF sw f, where G = "\<lambda>m. D \<subseteq> dom m"] D by simp_all
  show ?thesis
  proof (cases fwd)
    case no: False
    then have "addEach env cfg adds s1 = (e, s)" using run False f by (simp add: applyFlowAdds_def)
    from addEach_run [OF sw r this, of D] have "through (\<lambda>h. D \<subseteq> dom (T h)) s1 s \<and> (e = None \<longrightarrow> table T s = run_plan (table T s1) (putFlows (map flowEntry adds)))"
      using f1(1) D by simp
    then show ?thesis using f1 through_trans [OF f1(2)] by auto
  next
    case True
    then have b: "addBatch env cfg adds s1 = (e, s)" using run False f by (simp add: applyFlowAdds_def)
    obtain bn s2 where bs: "bundleSupported env cfg s1 = (bn, s2)" by fastforce
    have b1: "table T s2 = table T s1" "through (\<lambda>h. D \<subseteq> dom (T h)) s1 s2"
      using bundleSupported_run [OF sw bs, where G = "\<lambda>m. D \<subseteq> dom m"] D f1 by simp_all
    obtain out x s3 where c: "runOVSStdin env cfg (batchInput adds) (batchCmd cfg bn) s2 = ((out, x), s3)" by (metis prod.collapse)
    have h: "rm_hist s = rm_hist s3" "e = None \<longleftrightarrow> x = None"
      using b bs c by (cases x; auto simp: addBatch_def)+
    note ev = conjunct1 [OF runOVSStdin_event [OF c]]
    note req = batch_request [OF r]
    have D2: "D \<subseteq> dom (T (rm_hist s2))" using D f1(1) b1(1) by (simp add: table_def)
    have keep: "D \<subseteq> dom (T (rm_hist s2 @ [(COVS (ovsArgv (ovsWrapper cfg) (batchCmd cfg bn)) (batchInput adds), ok)]))" for ok
      by (rule switch_add(2) [OF sw req D2])
    have "through (\<lambda>h. D \<subseteq> dom (T h)) s2 s3" unfolding ev by (rule through_log) (use keep D2 in simp_all)
    then have "through (\<lambda>h. D \<subseteq> dom (T h)) s2 s"
      using h(1) by (rule through_hist)
    then have "through (\<lambda>h. D \<subseteq> dom (T h)) rm s" using through_trans f1(2) b1(2) by blast
    moreover have "table T s = run_plan (table T rm) (putFlows (map flowEntry adds))" if "e = None"
      using switch_add(1) [OF sw req] ev h that f1(1) b1(1) by (simp add: table_def)
    ultimately show ?thesis by blast
  qed
qed

lemma switch_del:
  assumes "flowSwitch cfg cookie T" and "plainKey k"
  shows "T (h @ [(COVS (ovsArgv (ovsWrapper cfg) (strictDel cfg cookie k)) '''', True)]) = (T h)(k := None)"
    and "k \<notin> dom M \<Longrightarrow> M \<subseteq>\<^sub>m T h \<Longrightarrow> M \<subseteq>\<^sub>m T (h @ [(COVS (ovsArgv (ovsWrapper cfg) (strictDel cfg cookie k)) '''', ok)])"
proof -
  let ?h = "\<lambda>ok. h @ [(COVS (ovsArgv (ovsWrapper cfg) (strictDel cfg cookie k)) '''', ok)]"
  show t: "T (?h True) = (T h)(k := None)" using assms unfolding flowSwitch_def by blast
  have f: "T (?h False) k' = T h k'" if "k' \<noteq> k" for k' using assms that unfolding flowSwitch_def by blast
  have "T (?h ok) k' = T h k'" if "k' \<noteq> k" for k' using t f that by (cases ok) simp_all
  note same = this
  assume k: "k \<notin> dom M" and M: "M \<subseteq>\<^sub>m T h"
  show "M \<subseteq>\<^sub>m T (?h ok)"
    unfolding map_le_def
  proof
    fix k' assume k': "k' \<in> dom M"
    with k have "k' \<noteq> k" by blast
    then show "M k' = T (?h ok) k'" using same M k' by (simp add: map_le_def)
  qed
qed

lemma delEach_run:
  assumes sw: "flowSwitch cfg cookie T"
  shows "\<forall>k \<in> set ks. plainKey k \<and> k \<notin> dom M \<Longrightarrow> delEach env cfg cookie ks rm = (e, s) \<Longrightarrow> M \<subseteq>\<^sub>m table T rm \<Longrightarrow>
    through (\<lambda>h. M \<subseteq>\<^sub>m T h) rm s \<and> (e = None \<longrightarrow> table T s = run_plan (table T rm) (map Drop ks))"
proof (induction ks arbitrary: rm e s)
  case Nil
  then show ?case by (simp add: through_refl table_def)
next
  case (Cons k ks)
  obtain out x s1 where r: "runOVS env cfg (strictDel cfg cookie k) rm = ((out, x), s1)" by (metis prod.collapse)
  obtain f s2 where rest: "delEach env cfg cookie ks s1 = (f, s2)" by fastforce
  have run: "s = s2" "e = None \<Longrightarrow> x = None \<and> f = None"
    using Cons.prems(2) r rest by (cases x; simp add: joinErr_def Let_def)+
  note ev = conjunct1 [OF runOVS_event [OF r]]
  have k: "plainKey k" "k \<notin> dom M" using Cons.prems(1) by simp_all
  note keep = switch_del(2) [OF sw k, of "rm_hist rm"]
  have M: "M \<subseteq>\<^sub>m T (rm_hist rm)" using Cons.prems(3) by (simp add: table_def)
  have t1: "through (\<lambda>h. M \<subseteq>\<^sub>m T h) rm s1"
    unfolding ev by (rule through_log) (use keep M in simp_all)
  have "M \<subseteq>\<^sub>m table T s1" using ev keep M by (simp add: table_def)
  note ih = Cons.IH [OF _ rest this]
  have "through (\<lambda>h. M \<subseteq>\<^sub>m T h) rm s" using through_trans [OF t1] ih Cons.prems(1) run(1) by simp
  moreover have "table T s = run_plan (table T rm) (map Drop (k # ks))" if "e = None"
  proof -
    have "table T s1 = run_plan (table T rm) [Drop k]"
      using switch_del(1) [OF sw k(1)] ev run(2) [OF that] by (simp add: table_def fun_upd_def)
    moreover have "table T s = run_plan (table T s1) (map Drop ks)" using ih run that Cons.prems(1) by simp
    ultimately show ?thesis by simp
  qed
  ultimately show ?case by blast
qed

text \<open>The reconcile publishes before it deletes, so its own deletions are not drift.\<close>

lemma own_deletes_are_not_drift:
  assumes "om_flowWatch (setOwned plane desired rm) = Some owned" and "k \<in> set (flowDels cookie current desired)"
  shows "\<not> owns owned plane k"
proof -
  have "owned plane = df_key ` set desired" using assms(1) by (auto simp: setOwned_def split: option.splits)
  then show ?thesis using assms(2) by (simp add: owns_def flows.dels_set)
qed

subsection \<open>Keys read from a dump\<close>

lemma scanField_plain: "plainKey (fs_key st) \<Longrightarrow> plainKey (fs_key (scanField st f))"
proof -
  have d: "CHR '','' \<notin> set (canonicalIP a)" for a
    using IPString_chars addr_plain by (auto simp: canonicalIP_def split: option.splits)
  have p: "CHR '','' \<notin> set t" if "\<not> Atoi t = None" for t using that Atoi_plain(2) by blast
  show "plainKey (fs_key st) \<Longrightarrow> plainKey (fs_key (scanField st f))"
    using d p by (simp add: scanField_def plainKey_def Let_def split: option.splits)
qed

lemma parseFlowMatch_plain: "parseFlowMatch m = (k, hp, ok) \<Longrightarrow> plainKey k"
proof -
  have "plainKey (fs_key (foldl scanField st fs))" if "plainKey (fs_key st)" for st fs
    using that by (rule foldl_invariant) (rule scanField_plain)
  then have "plainKey (fs_key (foldl scanField emptyScan fs))" for fs by (simp add: emptyScan_def emptyKey_def plainKey_def)
  then show "parseFlowMatch m = (k, hp, ok) \<Longrightarrow> plainKey k" by (auto simp: parseFlowMatch_def Let_def)
qed

lemma set_map_filter_iff: "y \<in> set (List.map_filter f xs) \<longleftrightarrow> (\<exists>x \<in> set xs. f x = Some y)"
  by (induction xs) (auto split: option.splits)

lemma currentFlows_keys:
  "fst ` set (currentFlows out) \<subseteq> pf_key ` set (parseFlowDump out)" "distinct (map fst (currentFlows out))"
proof -
  have "fst ` set (foldl (\<lambda>m f. AList.update (pf_key f) (pf_actions f) m) m fs) = fst ` set m \<union> pf_key ` set fs"
    "distinct (map fst m) \<Longrightarrow> distinct (map fst (foldl (\<lambda>m f. AList.update (pf_key f) (pf_actions f) m) m fs))" for m and fs :: "parsed_flow list"
    by (induction fs arbitrary: m) auto
  then show "fst ` set (currentFlows out) \<subseteq> pf_key ` set (parseFlowDump out)" "distinct (map fst (currentFlows out))"
    by (simp_all add: currentFlows_def)
qed

lemma parseDumpLine_plain:
  assumes "parseDumpLine line = Some f" shows "plainKey (pf_key f)"
proof -
  obtain m a where c: "Cut line '' actions='' = Some (m, a)" using assms by (auto simp: parseDumpLine_def split: if_splits option.splits)
  obtain k hp ok where p: "parseFlowMatch m = (k, hp, ok)" using prod_cases3 by blast
  have "pf_key f = k" using assms c p by (auto simp: parseDumpLine_def split: if_splits)
  then show ?thesis using parseFlowMatch_plain [OF p] by simp
qed

lemma currentFlows_plain: "k \<in> fst ` set (currentFlows out) \<Longrightarrow> plainKey k"
proof -
  have "plainKey (pf_key f)" if "f \<in> set (parseFlowDump out)" for f
  proof -
    have "\<exists>line \<in> set (Split out CHR 0x0A). parseDumpLine line = Some f"
      using that unfolding parseFlowDump_def set_map_filter_iff .
    then obtain line where "parseDumpLine line = Some f" by blast
    then show ?thesis by (rule parseDumpLine_plain)
  qed
  then have "\<forall>k \<in> pf_key ` set (parseFlowDump out). plainKey k" by simp
  then show "k \<in> fst ` set (currentFlows out) \<Longrightarrow> plainKey k" using currentFlows_keys(1) [of out] by (meson subsetD)
qed

subsection \<open>The plane converges and is never blanked\<close>

lemma setOwned_hist [simp]: "rm_hist (setOwned plane flows rm) = rm_hist rm"
  by (simp add: setOwned_def split: option.splits)

text \<open>A table that has lost no entry yet, or already holds everything wanted.\<close>

definition neverBlanked :: "desired_flow list \<Rightarrow> (flow_key \<rightharpoonup> string) \<Rightarrow> (flow_key \<rightharpoonup> string) \<Rightarrow> bool" where
  "neverBlanked desired m0 m \<longleftrightarrow> dom m0 \<subseteq> dom m \<or> (\<forall>d \<in> set desired. m (df_key d) = Some (df_actions d))"

lemma applyFlowDiff_run:
  assumes sw: "flowSwitch cfg cookie T" and cur: "table T rm = map_of (currentFlows out)"
    and dist: "distinct (map df_key desired)" and r: "\<forall>d \<in> set desired. readable d"
    and run: "applyFlowDiff env cfg cookie (flowAdds (currentFlows out) desired) (flowDels cookie (currentFlows out) desired) rm = (e, s)"
  shows "through (\<lambda>h. neverBlanked desired (table T rm) (T h)) rm s \<and> (e = None \<longrightarrow> table T s = flows.table desired)"
proof -
  let ?cur = "currentFlows out" and ?want = "flows.table desired"
  let ?adds = "flowAdds ?cur desired" and ?dels = "flowDels cookie ?cur desired"
  note reaches = flows.plan_reaches [OF dist, of ?cur cookie, folded cur, unfolded flows.plan_def]
  have puts: "putFlows (map flowEntry ?adds) = map (\<lambda>d. Put (df_key d) (df_actions d)) ?adds" by (rule putFlows_entries)
  show ?thesis
  proof (cases "?adds = [] \<and> ?dels = []")
    case True
    then have "s = rm" "e = None" using run by (simp_all add: applyFlowDiff_def)
    then show ?thesis using reaches True by (simp add: through_refl neverBlanked_def table_def)
  next
    case False
    obtain f s1 where a: "applyFlowAdds env cfg ?adds rm = (f, s1)" by fastforce
    have ra: "\<forall>a \<in> set ?adds. readable a" using r by (simp add: flows.adds_set)
    note add = applyFlowAdds_run [OF sw ra a subset_refl]
    have t1: "through (\<lambda>h. neverBlanked desired (table T rm) (T h)) rm s1"
      using conjunct1 [OF add] by (rule through_mono) (simp add: neverBlanked_def)
    show ?thesis
    proof (cases f)
      case (Some x)
      then show ?thesis using run False a t1 by (auto simp: applyFlowDiff_def)
    next
      case None
      then have d: "delEach env cfg cookie ?dels s1 = (e, s)" using run False a by (auto simp: applyFlowDiff_def)
      have s1: "table T s1 = run_plan (table T rm) (map (\<lambda>d. Put (df_key d) (df_actions d)) ?adds)"
        using add None puts by simp
      have safe: "\<forall>k \<in> set ?dels. plainKey k \<and> k \<notin> dom ?want"
        using currentFlows_plain [of _ out] by (auto simp: flows.dels_set domIff flows.table_None)
      have sub: "?want \<subseteq>\<^sub>m table T s1"
      proof (unfold map_le_def, intro ballI)
        fix k assume "k \<in> dom ?want"
        then have "run_plan (table T s1) (map Drop ?dels) k = table T s1 k" using safe by (auto simp: run_plan_drops)
        moreover have "run_plan (table T s1) (map Drop ?dels) = ?want" using reaches s1 by simp
        ultimately show "?want k = table T s1 k" by simp
      qed
      note del = delEach_run [OF sw safe d sub]
      have full: "neverBlanked desired m0 m" if "?want \<subseteq>\<^sub>m m" for m0 m
        unfolding neverBlanked_def
      proof (intro disjI2 ballI)
        fix d assume "d \<in> set desired"
        then have "?want (df_key d) = Some (df_actions d)" using flows.table_Some [OF dist] by blast
        then show "m (df_key d) = Some (df_actions d)" using that by (metis domI map_le_def)
      qed
      have "through (\<lambda>h. neverBlanked desired (table T rm) (T h)) s1 s"
        using conjunct1 [OF del] by (rule through_mono) (rule full)
      then have "through (\<lambda>h. neverBlanked desired (table T rm) (T h)) rm s" by (rule through_trans [OF t1])
      then show ?thesis using del reaches s1 by simp
    qed
  qed
qed

text \<open>
  C36: a flow plane converges without ever being blanked. If the dump shows the plane as it is and
  the wanted flows have distinct identities that their rules read back as, then a reconcile that
  returns no error leaves exactly the wanted flows with the wanted actions on the switch; and at
  every call on the way, failing or not, either no flow has been lost yet or everything wanted is
  already in place. The actions are compared in their normal spelling.
\<close>

theorem flow_plane_converges:
  assumes sw: "flowSwitch cfg cookie T"
    and dump: "\<And>out. h_ovs env (rm_hist rm) (ovsArgv (ovsWrapper cfg) (dumpCmd cfg cookie)) '''' = (out, None) \<Longrightarrow>
        T (rm_hist rm) = map_of (currentFlows out)"
    and dist: "distinct (map df_key desired)" and r: "\<forall>d \<in> set desired. readable d"
    and run: "reconcileFlowPlane env cfg plane cookie desired rm = (e, rm')"
  shows "through (\<lambda>h. neverBlanked desired (T (rm_hist rm)) (T h)) rm rm' \<and>
    (e = None \<longrightarrow> T (rm_hist rm') = map_of (map (\<lambda>d. (df_key d, df_actions d)) desired))"
proof -
  let ?rm0 = "setOwned plane desired rm"
  obtain out x s where d: "runOVS env cfg (dumpCmd cfg cookie) ?rm0 = ((out, x), s)" by (metis prod.collapse)
  note ev = runOVS_event [OF d]
  have same: "T (h @ [(COVS (ovsArgv (ovsWrapper cfg) (dumpCmd cfg cookie)) '''', ok)]) = T h" for h ok
    using sw unfolding flowSwitch_def by blast
  have s: "table T s = T (rm_hist rm)" using ev same by (simp add: table_def)
  let ?G = "\<lambda>h. neverBlanked desired (T (rm_hist rm)) (T h)"
  have "through ?G ?rm0 s" unfolding conjunct1 [OF ev] by (rule through_log) (simp_all add: same neverBlanked_def)
  then have t: "through ?G rm s" by (simp add: through_def)
  show ?thesis
  proof (cases x)
    case (Some y)
    then have "e \<noteq> None" "rm' = s" using run d by (auto simp: reconcileFlowPlane_def)
    then show ?thesis using t by auto
  next
    case None
    then have a: "applyFlowDiff env cfg cookie (flowAdds (currentFlows out) desired) (flowDels cookie (currentFlows out) desired) s = (e, rm')"
      using run d by (simp add: reconcileFlowPlane_def Let_def)
    have "table T s = map_of (currentFlows out)" using s dump ev None by simp
    note fin = applyFlowDiff_run [OF sw this dist r a, unfolded s]
    show ?thesis using through_trans [OF t conjunct1 [OF fin]] fin by (simp add: table_def flows.table_def)
  qed
qed

subsection \<open>The agent's own rules\<close>

definition numericPorts :: "segment_map \<Rightarrow> bool" where
  "numericPorts segs \<longleftrightarrow> (\<forall>b \<in> snd ` set segs. Atoi (sb_ofport b) \<noteq> None \<and> newline \<notin> set (sb_kernelMAC b))"

lemma cookie_plain [simp]: "plainField ovsCookieMACTweak" "plainField ovsCookieHairpin"
  by (simp_all add: ovsCookieMACTweak_def ovsCookieHairpin_def matchSep_def IsSpace_def)

lemma tweak_readable:
  assumes "Atoi port = Some n" and "newline \<notin> set mac"
  shows "readable \<lparr>df_key = \<lparr>fk_priority = macTweakFlowPriority, fk_ipv6 = v6, fk_inPort = port, fk_dst = ''''\<rparr>,
      df_actions = normalizeActions (flowActions (MACTweakFlow ovsCookieMACTweak port mac v6)),
      df_spec = MACTweakFlow ovsCookieMACTweak port mac v6\<rparr>"
proof -
  have "newline \<notin> set (MACTweakFlow ovsCookieMACTweak port mac v6)"
    using assms Atoi_plain(3) [OF assms(1)]
    by (simp add: MACTweakFlow_def priority_text ovsCookieMACTweak_def newline_def)
  then show ?thesis using MACTweakFlow_reads [OF assms(1) cookie_plain(1)] by (simp add: readable_def)
qed

lemma hairpin_readable:
  assumes "Atoi port = Some n" and "ParseIP ip = Some p" and "newline \<notin> set mac" and "newline \<notin> set rmac"
  shows "readable \<lparr>df_key = \<lparr>fk_priority = hairpinFlowPriority, fk_ipv6 = v6, fk_inPort = port, fk_dst = IPString p\<rparr>,
      df_actions = normalizeActions (flowActions (HairpinFlow ovsCookieHairpin port ip mac rmac v6)),
      df_spec = HairpinFlow ovsCookieHairpin port ip mac rmac v6\<rparr>"
proof -
  have "newline \<notin> set ip" using ParseIP_chars [OF assms(2)] addr_plain by (auto simp: newline_def)
  then have "newline \<notin> set (HairpinFlow ovsCookieHairpin port ip mac rmac v6)"
    using assms(3,4) Atoi_plain(3) [OF assms(1)]
    by (simp add: HairpinFlow_def priority_text ovsCookieHairpin_def newline_def)
  then show ?thesis using HairpinFlow_reads [OF assms(1) cookie_plain(2) assms(2)] by (simp add: readable_def)
qed

lemma tweakFlows_ok:
  assumes "numericPorts segs"
  shows "set keys \<subseteq> fst ` set segs \<Longrightarrow>
    (\<forall>d \<in> set (tweakFlows segs seen keys). readable d \<and> fk_inPort (df_key d) \<notin> set seen) \<and>
    distinct (map df_key (tweakFlows segs seen keys))"
proof (induction keys arbitrary: seen)
  case (Cons k keys)
  then obtain b where b: "map_of segs k = Some b"
    by (metis insert_subset list.simps(15) map_of_eq_None_iff option.exhaust)
  then have mem: "b \<in> snd ` set segs" by (metis imageI map_of_SomeD snd_conv)
  obtain n where p: "Atoi (sb_ofport b) = Some n" using assms mem unfolding numericPorts_def by blast
  have m: "newline \<notin> set (sb_kernelMAC b)" using assms mem unfolding numericPorts_def by blast
  show ?case
  proof (cases "sb_ofport b \<in> set seen")
    case True
    then show ?thesis using Cons b by simp
  next
    case False
    note ih = Cons.IH [of "sb_ofport b # seen"]
    have "df_key d \<noteq> \<lparr>fk_priority = macTweakFlowPriority, fk_ipv6 = v6, fk_inPort = sb_ofport b, fk_dst = ''''\<rparr>"
      if "d \<in> set (tweakFlows segs (sb_ofport b # seen) keys)" for d v6
      using ih Cons.prems that by auto
    then have fresh: "\<lparr>fk_priority = macTweakFlowPriority, fk_ipv6 = v6, fk_inPort = sb_ofport b, fk_dst = ''''\<rparr>
        \<notin> df_key ` set (tweakFlows segs (sb_ofport b # seen) keys)" for v6 by (metis imageE)
    show ?thesis using ih Cons.prems b False tweak_readable [OF p m] fresh by (simp add: Let_def)
  qed
qed simp

lemma hairpin_flow_readable:
  assumes "numericPorts (om_segments rm)" and "newline \<notin> set (ht_RouterMAC target)" and "hairpinFlow rm (ip, target) = Some d"
  shows "readable d"
proof -
  obtain p b where p: "ParseIP ip = Some p" and b: "segmentBindingFor rm (ht_Segment target) = Some b"
    using assms(3) by (auto simp: hairpinFlow_def split: option.splits)
  have "b \<in> snd ` set (om_segments rm)"
    using b by (auto simp: segmentBindingFor_def image_iff split: option.splits dest!: map_of_SomeD) (force+)?
  then have nb: "Atoi (sb_ofport b) \<noteq> None" "newline \<notin> set (sb_kernelMAC b)" using assms(1) by (auto simp: numericPorts_def)
  then obtain n where "Atoi (sb_ofport b) = Some n" by blast
  from hairpin_readable [OF this p nb(2) assms(2)] show ?thesis using assms(3) p b by (auto simp: hairpinFlow_def Let_def)
qed


definition demo_flow :: desired_flow where
  "demo_flow = (let spec = MACTweakFlow ovsCookieMACTweak ''5'' ''02:00:00:00:00:01'' False in
     \<lparr>df_key = \<lparr>fk_priority = macTweakFlowPriority, fk_ipv6 = False, fk_inPort = ''5'', fk_dst = ''''\<rparr>,
      df_actions = normalizeActions (flowActions spec), df_spec = spec\<rparr>)"

definition demo_binding :: segment_binding where
  "demo_binding = \<lparr>sb_patchPort = ''patch-br-ex'', sb_ofport = ''5'', sb_kernelDev = ''br-ex'', sb_kernelMAC = ''02:00:00:00:00:01'', sb_vlanTag = None\<rparr>"

lemma demo_port: "Atoi ''5'' = Some 5"
  by (simp add: Atoi_def HasPrefix_def parse_nat_def is_digit_def digit_val_def)


text \<open>A switch that accepts everything.\<close>

definition demoEffect :: "(flow_key \<rightharpoonup> string) \<Rightarrow> event \<Rightarrow> (flow_key \<rightharpoonup> string)" where
  "demoEffect m ev =
     (case ev of
        (COVS argv inp, True) \<Rightarrow>
          (if length argv = 4 \<and> argv ! 1 = ''add-flow'' then run_plan m (putFlows (List.map_filter readSpec [argv ! 3]))
           else if last argv = ''-'' then run_plan m (putFlows (List.map_filter readSpec (butlast (Split inp newline))))
           else if length argv = 5 \<and> argv ! 1 = ''--strict'' then
             (\<lambda>k. if plainKey k \<and> deleteMatch ovsCookieMACTweak k = argv ! 4 then None else m k)
           else m)
      | _ \<Rightarrow> m)"

definition demoTable :: "history \<Rightarrow> flow_key \<rightharpoonup> string" where
  "demoTable h = foldl demoEffect Map.empty h"

lemma map_filter_Some: "map f xs = map Some ys \<Longrightarrow> List.map_filter f xs = ys"
proof (induction xs arbitrary: ys)
  case (Cons x xs)
  then show ?case by (cases ys) auto
qed simp

lemma demo_switch: "flowSwitch demo_rcfg ovsCookieMACTweak demoTable"
  unfolding flowSwitch_def
proof (intro conjI allI impI)
  fix h argv inp kvs
  assume req: "addRequest demo_rcfg argv inp kvs"
  then consider (one) spec where "argv = [''ovs-ofctl'', ''add-flow'', ''br-ex'', spec]" "List.map_filter readSpec [spec] = kvs"
    | (batch) b where "argv = batchCmd demo_rcfg b" "List.map_filter readSpec (butlast (Split inp newline)) = kvs"
    by (auto simp: addRequest_def ovsArgv_def dest: map_filter_Some)
  then show "demoTable (h @ [(COVS argv inp, True)]) = run_plan (demoTable h) (putFlows kvs)"
    by cases (auto simp: demoTable_def demoEffect_def batchCmd_def)
  show "partialAdd kvs (demoTable h) (demoTable (h @ [(COVS argv inp, False)]))"
    by (simp add: partialAdd_def demoTable_def demoEffect_def)
next
  fix h k assume k: "plainKey k"
  have c: "CHR '','' \<notin> set ovsCookieMACTweak" by (simp add: ovsCookieMACTweak_def)
  have inj: "plainKey k' \<and> deleteMatch ovsCookieMACTweak k' = deleteMatch ovsCookieMACTweak k \<longleftrightarrow> k' = k" for k'
    using deleteMatch_inj [OF c, of k' k] k by blast
  have nd: "deleteMatch ovsCookieMACTweak k \<noteq> ''-''" by (simp add: deleteMatch_def Let_def)
  show "demoTable (h @ [(COVS (ovsArgv (ovsWrapper demo_rcfg) (strictDel demo_rcfg ovsCookieMACTweak k)) '''', True)]) = (demoTable h)(k := None)"
    using inj nd by (simp add: demoTable_def demoEffect_def ovsArgv_def strictDel_def fun_eq_iff)
next
  fix h k k'
  show "demoTable (h @ [(COVS (ovsArgv (ovsWrapper demo_rcfg) (strictDel demo_rcfg ovsCookieMACTweak k)) '''', False)]) k' = demoTable h k'"
    by (simp add: demoTable_def demoEffect_def)
next
  fix h ok
  show "demoTable (h @ [(COVS (ovsArgv (ovsWrapper demo_rcfg) (dumpCmd demo_rcfg ovsCookieMACTweak)) '''', ok)]) = demoTable h"
    by (cases ok) (simp_all add: demoTable_def demoEffect_def ovsArgv_def dumpCmd_def)
  show "demoTable (h @ [(COVS (ovsArgv (ovsWrapper demo_rcfg) [''cat'']) (ovsStdinProbe @ [newline]), ok)]) = demoTable h"
    by (cases ok) (simp_all add: demoTable_def demoEffect_def ovsArgv_def)
qed

lemma demo_dump: "currentFlows ''patch-br-ex'' = []"
  by (simp add: currentFlows_def parseFlowDump_def parseDumpLine_def Contains_def HasPrefix_def)

lemma demo_reconcile:
  "fst (reconcileFlowPlane demo_ovs_host demo_rcfg flowPlaneMACTweak ovsCookieMACTweak [demo_flow] demo_om) = None"
  using demo_dump
  by (simp add: reconcileFlowPlane_def runOVS_def runOVSStdin_def ovsArgv_def dumpCmd_def setOwned_def demo_om_def demo_ovs_host_def
      demo_ovs_def HasPrefix_def ovsCookieMACTweak_def Let_def flowAdds_def flowDels_def applyFlowDiff_def applyFlowAdds_def
      stdinForwardingOK_def addBatch_def bundleSupported_def batchCmd_def)

lemma flow_plane_converges_witness:
  "\<exists>rm'. reconcileFlowPlane demo_ovs_host demo_rcfg flowPlaneMACTweak ovsCookieMACTweak [demo_flow] demo_om = (None, rm') \<and>
     demoTable (rm_hist rm') = [df_key demo_flow \<mapsto> df_actions demo_flow]"
proof -
  obtain rm' where run: "reconcileFlowPlane demo_ovs_host demo_rcfg flowPlaneMACTweak ovsCookieMACTweak [demo_flow] demo_om = (None, rm')"
    using demo_reconcile by (metis prod.collapse)
  have h: "rm_hist demo_om = []" by (simp add: demo_om_def)
  have r: "\<forall>d \<in> set [demo_flow]. readable d"
    using tweak_readable [OF demo_port] by (simp add: demo_flow_def Let_def newline_def)
  have d: "demoTable (rm_hist demo_om) = map_of (currentFlows out)"
    if "h_ovs demo_ovs_host (rm_hist demo_om) (ovsArgv (ovsWrapper demo_rcfg) (dumpCmd demo_rcfg ovsCookieMACTweak)) '''' = (out, None)" for out
    using that demo_dump
    by (auto simp: h demoTable_def demo_ovs_host_def demo_ovs_def ovsArgv_def dumpCmd_def HasPrefix_def ovsCookieMACTweak_def)
  show ?thesis using flow_plane_converges [OF demo_switch d _ r run] run by simp
qed

end
