(* ===== verification/PrefixList.thy ===== *)
theory PrefixList
  imports VethLeak
begin

section \<open>The managed FRR prefix-list\<close>

text \<open>
  The last part of \<open>routing.go\<close>: reading the prefix-list from every daemon or from \<open>bgpd\<close> alone,
  and the reconciliation that adds, repairs and removes entries. The loops that Go runs over a
  map take the order of its keys as a parameter.
\<close>

record prefix_entry =
  pe_Seq :: int
  pe_Network :: string
  pe_Exact :: bool

text \<open>One entry as FRR reports it.\<close>

record frr_prefix_entry =
  fp_SequenceNumber :: int
  fp_Type :: string
  fp_Prefix :: string
  fp_MinPrefixLen :: int
  fp_MaxPrefixLen :: int

subsection \<open>Decoding\<close>

definition jint :: "json option \<Rightarrow> int option" where
  "jint v = (case v of None \<Rightarrow> Some 0 | Some JNull \<Rightarrow> Some 0
     | Some (JNum i) \<Rightarrow> (if - (2 ^ 63) \<le> i \<and> i < 2 ^ 63 then Some i else None) | _ \<Rightarrow> None)"

definition decodePrefixEntry :: "json \<Rightarrow> frr_prefix_entry option" where
  "decodePrefixEntry v =
     (case jobj v of
        None \<Rightarrow> None
      | Some kvs \<Rightarrow>
          (case (jint (jfield kvs ''sequenceNumber''), jstr (jfield kvs ''type''), jstr (jfield kvs ''prefix''),
                 jint (jfield kvs ''minimumPrefixLength''), jint (jfield kvs ''maximumPrefixLength'')) of
             (Some s, Some t, Some p, Some mn, Some mx) \<Rightarrow>
               Some \<lparr>fp_SequenceNumber = s, fp_Type = t, fp_Prefix = p, fp_MinPrefixLen = mn, fp_MaxPrefixLen = mx\<rparr>
           | _ \<Rightarrow> None))"

definition decodePrefixList :: "json \<Rightarrow> frr_prefix_entry list option" where
  "decodePrefixList v =
     Option.bind (jobj v) (\<lambda>kvs. Option.bind (jarr (jfield kvs ''entries'')) (mapM_option decodePrefixEntry))"

text \<open>A JSON object decoded into a Go map: the last value of a repeated key, \<open>null\<close> the nil map.\<close>

definition decodeMap :: "(json \<Rightarrow> 'v option) \<Rightarrow> json \<Rightarrow> (string \<times> 'v) list option" where
  "decodeMap f v =
     Option.bind (jobj v) (\<lambda>kvs.
       map_option (foldl (\<lambda>m (k, x). AList.update k x m) [])
         (mapM_option (\<lambda>(k, x). map_option (Pair k) (f x)) kvs))"

type_synonym prefix_doc = "(string \<times> (string \<times> frr_prefix_entry list) list) list"

definition decodePrefixDoc :: "json \<Rightarrow> prefix_doc option" where
  "decodePrefixDoc = decodeMap (decodeMap decodePrefixList)"

text \<open>The two shapes the agent manages.\<close>

definition managedShape :: "frr_prefix_entry \<Rightarrow> (string \<times> bool) option" where
  "managedShape e =
     (let exact = (fp_MinPrefixLen e = 0 \<and> fp_MaxPrefixLen e = 0) in
      if fp_Type e \<noteq> ''permit'' then None
      else if \<not> exact \<and> (fp_MinPrefixLen e \<noteq> 32 \<or> fp_MaxPrefixLen e \<noteq> 32) then None
      else if exact \<and> \<not> HasSuffix (fp_Prefix e) ''/32'' then None
      else Some (fp_Prefix e, exact))"

text \<open>\<open>seen\<close> holds the sequence numbers taken so far.\<close>

fun collectEntries :: "int list \<Rightarrow> frr_prefix_entry list \<Rightarrow> prefix_entry list" where
  "collectEntries seen [] = []"
| "collectEntries seen (e # es) =
     (case managedShape e of
        None \<Rightarrow> collectEntries seen es
      | Some (network, exact) \<Rightarrow>
          if fp_SequenceNumber e \<in> set seen then collectEntries seen es
          else \<lparr>pe_Seq = fp_SequenceNumber e, pe_Network = network, pe_Exact = exact\<rparr> #
               collectEntries (fp_SequenceNumber e # seen) es)"

definition listOf :: "config \<Rightarrow> (string \<Rightarrow> string list \<Rightarrow> string list) \<Rightarrow> prefix_doc \<Rightarrow> frr_prefix_entry list" where
  "listOf cfg order doc =
     concat (map (\<lambda>daemon. case map_of (the (map_of doc daemon)) (cf_FRRPrefixList cfg) of None \<Rightarrow> [] | Some es \<Rightarrow> es)
       (order (cf_FRRPrefixList cfg) (map fst doc)))"

text \<open>\<open>order\<close> gives the order in which Go walks a document's daemons.\<close>

definition parsePrefixListDocs ::
  "host \<Rightarrow> config \<Rightarrow> (string \<Rightarrow> string list \<Rightarrow> string list) \<Rightarrow> string \<Rightarrow> prefix_entry list result" where
  "parsePrefixListDocs env cfg order output =
     (let trimmed = TrimSpace output in
      if trimmed = '''' then Inr []
      else (case Option.bind (h_jsonStream env trimmed) (mapM_option decodePrefixDoc) of
              None \<Rightarrow> Inl (Err ''parse vtysh prefix-list json'')
            | Some docs \<Rightarrow> Inr (collectEntries [] (concat (map (listOf cfg order) docs)))))"

subsection \<open>Reading and writing the list\<close>

definition showPrefixList :: "config \<Rightarrow> string" where
  "showPrefixList cfg = ''show ip prefix-list '' @ cf_FRRPrefixList cfg @ '' json''"

definition listArgs :: "config \<Rightarrow> string list" where
  "listArgs cfg = [''-c'', showPrefixList cfg]"

definition bgpdArgs :: "config \<Rightarrow> string list" where
  "bgpdArgs cfg = [''-d'', ''bgpd'', ''-c'', showPrefixList cfg]"

definition ListFRRPrefixListEntries ::
  "host \<Rightarrow> config \<Rightarrow> (string \<Rightarrow> string list \<Rightarrow> string list) \<Rightarrow> ('z route_manager_scheme, prefix_entry list) op" where
  "ListFRRPrefixListEntries env cfg order rm =
     (if cf_FRRPrefixList cfg = '''' then (Inr [], rm)
      else (case runVtysh env (listArgs cfg) rm of
        ((_, Some _), s) \<Rightarrow> (Inl (Err ''vtysh show prefix-list''), s)
      | ((out, None), s) \<Rightarrow> (parsePrefixListDocs env cfg order out, s)))"

definition listBGPDPrefixListEntries ::
  "host \<Rightarrow> config \<Rightarrow> (string \<Rightarrow> string list \<Rightarrow> string list) \<Rightarrow> 'z route_manager_scheme \<Rightarrow>
   prefix_entry list option \<times> 'z route_manager_scheme" where
  "listBGPDPrefixListEntries env cfg order rm =
     (case runVtysh env (bgpdArgs cfg) rm of
        ((_, Some _), s) \<Rightarrow> (None, s)
      | ((out, None), s) \<Rightarrow>
          (case parsePrefixListDocs env cfg order out of Inl _ \<Rightarrow> (None, s) | Inr es \<Rightarrow> (Some es, s)))"

definition prefixListLine :: "config \<Rightarrow> int \<Rightarrow> string \<Rightarrow> bool \<Rightarrow> string" where
  "prefixListLine cfg seq network exact =
     ''ip prefix-list '' @ cf_FRRPrefixList cfg @ '' seq '' @ Itoa seq @ '' permit '' @ network @
     (if exact then '''' else '' ge 32 le 32'')"

definition confLine :: "string \<Rightarrow> string list" where
  "confLine line = [''-c'', ''conf t'', ''-c'', line, ''-c'', ''end'']"

fun applyLines :: "host \<Rightarrow> string \<Rightarrow> string list \<Rightarrow> ('z route_manager_scheme, unit) op" where
  "applyLines env msg [] rm = (Inr (), rm)"
| "applyLines env msg (l # ls) rm =
     (case runVtysh env (confLine l) rm of
        ((_, Some _), s) \<Rightarrow> (Inl (Err msg), s)
      | ((_, None), s) \<Rightarrow> applyLines env msg ls s)"

record entry_key =
  ek_Network :: string
  ek_Exact :: bool

definition entryKey :: "prefix_entry \<Rightarrow> entry_key" where
  "entryKey e = \<lparr>ek_Network = pe_Network e, ek_Exact = pe_Exact e\<rparr>"

definition entriesByKey :: "prefix_entry list \<Rightarrow> (entry_key \<times> int) list" where
  "entriesByKey es = foldl (\<lambda>m e. AList.update (entryKey e) (pe_Seq e) m) [] es"

definition highestSeq :: "prefix_entry list \<Rightarrow> int" where
  "highestSeq es = foldl (\<lambda>m e. if pe_Seq e > m then pe_Seq e else m) 0 es"

definition desiredKeys :: "ipnet list \<Rightarrow> string list \<Rightarrow> entry_key list" where
  "desiredKeys networks vips =
     remdups (map (\<lambda>n. \<lparr>ek_Network = NetString n, ek_Exact = False\<rparr>) networks @
       map (\<lambda>vip. \<lparr>ek_Network = vip @ ''/32'', ek_Exact = True\<rparr>) vips)"

definition missingKeys :: "(entry_key \<times> int) list \<Rightarrow> entry_key list \<Rightarrow> entry_key list" where
  "missingKeys current desired = filter (\<lambda>k. map_of current k = None) desired"

definition staleKeys :: "(entry_key \<times> int) list \<Rightarrow> entry_key list \<Rightarrow> entry_key list" where
  "staleKeys current desired = filter (\<lambda>k. k \<notin> set desired) (map fst current)"

text \<open>New entries are numbered in steps of five from the highest managed number on.\<close>

fun number :: "int \<Rightarrow> entry_key list \<Rightarrow> (int \<times> entry_key) list" where
  "number maxSeq [] = []"
| "number maxSeq (k # ks) = (maxSeq + 5, k) # number (maxSeq + 5) ks"

definition lineOf :: "config \<Rightarrow> int \<times> entry_key \<Rightarrow> string" where
  "lineOf cfg = (\<lambda>(seq, k). prefixListLine cfg seq (ek_Network k) (ek_Exact k))"

definition withSeq :: "(entry_key \<times> int) list \<Rightarrow> entry_key list \<Rightarrow> (int \<times> entry_key) list" where
  "withSeq current ks = map (\<lambda>k. (the (map_of current k), k)) ks"

definition repairBGPD ::
  "host \<Rightarrow> config \<Rightarrow> (string \<Rightarrow> string list \<Rightarrow> string list) \<Rightarrow> (entry_key \<times> int) list \<Rightarrow> entry_key list \<Rightarrow>
   ('z route_manager_scheme, unit) op" where
  "repairBGPD env cfg order current verifyKeys rm =
     (if verifyKeys = [] then (Inr (), rm)
      else (case listBGPDPrefixListEntries env cfg order rm of
        (None, s) \<Rightarrow> (Inr (), s)
      | (Some bgpd, s) \<Rightarrow>
          applyLines env ''repair prefix-list entry''
            (map (lineOf cfg) (withSeq current
              (filter (\<lambda>k. k \<notin> entryKey ` set bgpd) verifyKeys))) s))"

text \<open>\<open>keyOrder\<close> gives, for each of the three loops over a map, the order of the keys.\<close>

definition ReconcileFRRPrefixList ::
  "host \<Rightarrow> config \<Rightarrow> (string \<Rightarrow> string list \<Rightarrow> string list) \<Rightarrow> (nat \<Rightarrow> entry_key list \<Rightarrow> entry_key list) \<Rightarrow>
   ipnet list \<Rightarrow> string list \<Rightarrow> ('z route_manager_scheme, unit) op" where
  "ReconcileFRRPrefixList env cfg order keyOrder networks vips =
     (if cf_FRRPrefixList cfg = '''' then ret ()
      else if cf_DryRun cfg then ret ()
      else andThen (ListFRRPrefixListEntries env cfg order) (\<lambda>es.
        let current = entriesByKey es; desired = desiredKeys networks vips in
        andThen (applyLines env ''add prefix-list entry''
            (map (lineOf cfg) (number (highestSeq es) (keyOrder 0 (missingKeys current desired))))) (\<lambda>_.
        andThen (repairBGPD env cfg order current
            (keyOrder 1 (filter (\<lambda>k. map_of current k \<noteq> None) desired))) (\<lambda>_.
          applyLines env ''remove prefix-list entry''
            (map (\<lambda>sk. ''no '' @ lineOf cfg sk) (withSeq current (keyOrder 2 (staleKeys current desired))))))))"

subsection \<open>FRR's list\<close>

text \<open>
  FRR keeps a list as a table from sequence numbers to rules: a rule of one of the two managed
  shapes or any other. A configured line writes its number, the same line after \<open>no\<close> removes the
  rule when the number holds it, and showing the list changes nothing. A rejected line may still
  have been applied; it touches no other number.
\<close>

datatype pl_rule = Managed entry_key | Unmanaged string

type_synonym pl_table = "int \<rightharpoonup> pl_rule"

definition plainNet :: "entry_key \<Rightarrow> bool" where
  "plainNet k \<longleftrightarrow> CHR '' '' \<notin> set (ek_Network k)"

definition frrList :: "config \<Rightarrow> (history \<Rightarrow> pl_table) \<Rightarrow> bool" where
  "frrList cfg F \<longleftrightarrow>
     (\<forall>h s k. plainNet k \<longrightarrow>
        F (h @ [(CVtysh (confLine (lineOf cfg (s, k))), True)]) = (F h)(s \<mapsto> Managed k) \<and>
        F (h @ [(CVtysh (confLine (''no '' @ lineOf cfg (s, k))), True)]) = (if F h s = Some (Managed k) then (F h)(s := None) else F h) \<and>
        (\<forall>s'. let m = F (h @ [(CVtysh (confLine (lineOf cfg (s, k))), False)]) in m s' = F h s' \<or> (s' = s \<and> m s' = Some (Managed k))) \<and>
        (\<forall>s'. s' \<noteq> s \<longrightarrow> F (h @ [(CVtysh (confLine (''no '' @ lineOf cfg (s, k))), False)]) s' = F h s')) \<and>
     (\<forall>h ok. F (h @ [(CVtysh (listArgs cfg), ok)]) = F h \<and> F (h @ [(CVtysh (bgpdArgs cfg), ok)]) = F h)"

text \<open>What the listing says of the table: all managed rules, one per key.\<close>

definition showsList :: "pl_table \<Rightarrow> prefix_entry list \<Rightarrow> bool" where
  "showsList m es \<longleftrightarrow> distinct (map entryKey es) \<and> (\<forall>e \<in> set es. plainNet (entryKey e)) \<and>
     (\<forall>s k. m s = Some (Managed k) \<longleftrightarrow> (\<exists>e \<in> set es. pe_Seq e = s \<and> entryKey e = k))"

definition putRule :: "pl_table \<Rightarrow> int \<times> entry_key \<Rightarrow> pl_table" where
  "putRule m sk = m(fst sk \<mapsto> Managed (snd sk))"

definition dropRule :: "pl_table \<Rightarrow> int \<times> entry_key \<Rightarrow> pl_table" where
  "dropRule m sk = (if m (fst sk) = Some (Managed (snd sk)) then m(fst sk := None) else m)"

text \<open>The rules of \<open>S\<close> are in the table.\<close>

definition holds :: "(int \<times> entry_key) set \<Rightarrow> pl_table \<Rightarrow> bool" where
  "holds S m \<longleftrightarrow> (\<forall>(s, k) \<in> S. m s = Some (Managed k))"

lemma runVtysh_event:
  "runVtysh env args rm = ((out, e), s) \<Longrightarrow> s = logCall (CVtysh args) (e = None) rm \<and> h_vtysh env (rm_hist rm) args = (out, e)"
  by (auto simp: runVtysh_def Let_def split: prod.splits)

lemma applyLines_run:
  assumes step: "\<And>h sk ok. sk \<in> A \<Longrightarrow> P (F h) \<Longrightarrow> P (F (h @ [(CVtysh (confLine (line sk)), ok)]))"
    and eff: "\<And>h sk. sk \<in> A \<Longrightarrow> F (h @ [(CVtysh (confLine (line sk)), True)]) = f (F h) sk"
  shows "set sks \<subseteq> A \<Longrightarrow> applyLines env msg (map line sks) rm = (r, s) \<Longrightarrow> P (F (rm_hist rm)) \<Longrightarrow>
    through (\<lambda>h. P (F h)) rm s \<and> (r = Inr () \<longrightarrow> F (rm_hist s) = foldl f (F (rm_hist rm)) sks)"
proof (induction sks arbitrary: rm)
  case Nil
  then show ?case by (simp add: through_refl)
next
  case (Cons sk sks)
  obtain out e s1 where v: "runVtysh env (confLine (line sk)) rm = ((out, e), s1)" by (metis prod.collapse)
  note ev = conjunct1 [OF runVtysh_event [OF v]]
  have A: "sk \<in> A" using Cons.prems(1) by simp
  note keep = step [OF A Cons.prems(3)]
  have t: "through (\<lambda>h. P (F h)) rm s1" unfolding ev by (rule through_log) (use keep Cons.prems(3) in simp_all)
  show ?case
  proof (cases e)
    case (Some x)
    then show ?thesis using Cons.prems(2) v t by auto
  next
    case None
    then have rest: "applyLines env msg (map line sks) s1 = (r, s)" using Cons.prems(2) v by simp
    have "P (F (rm_hist s1))" using ev keep by simp
    note ih = Cons.IH [OF _ rest this]
    have "F (rm_hist s1) = f (F (rm_hist rm)) sk" using ev None eff [OF A] by simp
    then show ?thesis using ih Cons.prems(1) through_trans [OF t] by auto
  qed
qed

lemma frrList_steps:
  assumes "frrList cfg F" and "plainNet k"
  shows "F (h @ [(CVtysh (confLine (lineOf cfg (s, k))), True)]) = putRule (F h) (s, k)"
    and "F (h @ [(CVtysh (confLine (''no '' @ lineOf cfg (s, k))), True)]) = dropRule (F h) (s, k)"
    and "F (h @ [(CVtysh (confLine (lineOf cfg (s, k))), False)]) x = F h x \<or>
      (x = s \<and> F (h @ [(CVtysh (confLine (lineOf cfg (s, k))), False)]) x = Some (Managed k))"
    and "x \<noteq> s \<Longrightarrow> F (h @ [(CVtysh (confLine (''no '' @ lineOf cfg (s, k))), False)]) x = F h x"
  using assms unfolding frrList_def putRule_def dropRule_def Let_def fst_conv snd_conv by blast+

definition consistent :: "(int \<times> entry_key) set \<Rightarrow> (int \<times> entry_key) set \<Rightarrow> bool" where
  "consistent S A \<longleftrightarrow> (\<forall>(s, k) \<in> S. \<forall>(s', k') \<in> A. s = s' \<longrightarrow> k = k')"

lemma addLines_run:
  assumes frr: "frrList cfg F" and plain: "\<forall>sk \<in> set sks. plainNet (snd sk)" and cons: "consistent S (set sks)"
    and run: "applyLines env msg (map (lineOf cfg) sks) rm = (r, s)" and h: "holds S (F (rm_hist rm))"
  shows "through (\<lambda>h. holds S (F h)) rm s \<and> (r = Inr () \<longrightarrow> F (rm_hist s) = foldl putRule (F (rm_hist rm)) sks)"
proof (rule applyLines_run [where P = "holds S" and F = F and A = "set sks", OF _ _ subset_refl run h])
  fix h sk
  assume A: "sk \<in> set sks"
  obtain s' k' where sk: "sk = (s', k')" by (rule prod.exhaust)
  have p: "plainNet k'" using plain A sk by force
  show t: "F (h @ [(CVtysh (confLine (lineOf cfg sk)), True)]) = putRule (F h) sk"
    unfolding sk by (rule frrList_steps(1) [OF frr p])
  fix ok assume hS: "holds S (F h)"
  have f: "F (h @ [(CVtysh (confLine (lineOf cfg sk)), False)]) x = F h x \<or>
      (x = s' \<and> F (h @ [(CVtysh (confLine (lineOf cfg sk)), False)]) x = Some (Managed k'))" for x
    unfolding sk by (rule frrList_steps(3) [OF frr p])
  have "F (h @ [(CVtysh (confLine (lineOf cfg sk)), ok)]) a = Some (Managed b)" if "(a, b) \<in> S" for a b
  proof -
    have same: "a = s' \<Longrightarrow> b = k'" using cons that A sk unfolding consistent_def by fastforce
    have "F h a = Some (Managed b)" using hS that unfolding holds_def by fastforce
    then show ?thesis using t f [of a] same by (cases ok) (auto simp: sk putRule_def)
  qed
  then show "holds S (F (h @ [(CVtysh (confLine (lineOf cfg sk)), ok)]))" by (auto simp: holds_def)
qed

lemma dropLines_run:
  assumes frr: "frrList cfg F" and plain: "\<forall>sk \<in> set sks. plainNet (snd sk)" and disj: "fst ` S \<inter> fst ` set sks = {}"
    and run: "applyLines env msg (map (\<lambda>sk. ''no '' @ lineOf cfg sk) sks) rm = (r, s)" and h: "holds S (F (rm_hist rm))"
  shows "through (\<lambda>h. holds S (F h)) rm s \<and> (r = Inr () \<longrightarrow> F (rm_hist s) = foldl dropRule (F (rm_hist rm)) sks)"
proof (rule applyLines_run [where P = "holds S" and F = F and A = "set sks", OF _ _ subset_refl run h])
  fix h sk
  assume A: "sk \<in> set sks"
  obtain s' k' where sk: "sk = (s', k')" by (rule prod.exhaust)
  have p: "plainNet k'" using plain A sk by force
  show t: "F (h @ [(CVtysh (confLine (''no '' @ lineOf cfg sk)), True)]) = dropRule (F h) sk"
    unfolding sk by (rule frrList_steps(2) [OF frr p])
  fix ok assume hS: "holds S (F h)"
  have f: "F (h @ [(CVtysh (confLine (''no '' @ lineOf cfg sk)), False)]) x = F h x" if "x \<noteq> s'" for x
    unfolding sk by (rule frrList_steps(4) [OF frr p that])
  have "F (h @ [(CVtysh (confLine (''no '' @ lineOf cfg sk)), ok)]) a = Some (Managed b)" if "(a, b) \<in> S" for a b
  proof -
    have "a \<noteq> s'" using disj that A sk by force
    moreover have "F h a = Some (Managed b)" using hS that unfolding holds_def by fastforce
    ultimately show ?thesis using t f [of a] by (cases ok) (auto simp: sk dropRule_def)
  qed
  then show "holds S (F (h @ [(CVtysh (confLine (''no '' @ lineOf cfg sk)), ok)]))" by (auto simp: holds_def)
qed

subsection \<open>The final table\<close>

lemma number_props:
  "map snd (number m ks) = ks" "s \<in> fst ` set (number m ks) \<Longrightarrow> m < s" "distinct (map fst (number m ks))"
proof -
  show "map snd (number m ks) = ks" by (induction ks arbitrary: m) simp_all
  have gt: "s \<in> fst ` set (number m ks) \<Longrightarrow> m < s" for s m ks by (induction ks arbitrary: m) fastforce+
  then show "s \<in> fst ` set (number m ks) \<Longrightarrow> m < s" .
  show "distinct (map fst (number m ks))"
  proof (induction ks arbitrary: m)
    case (Cons k ks)
    have "m + 5 \<notin> fst ` set (number (m + 5) ks)"
    proof
      assume "m + 5 \<in> fst ` set (number (m + 5) ks)"
      from gt [OF this] show False by simp
    qed
    then show ?case using Cons by simp
  qed simp
qed

lemma foldl_putRule:
  "distinct (map fst sks) \<Longrightarrow>
   foldl putRule m sks s = (case map_of sks s of None \<Rightarrow> m s | Some k \<Rightarrow> Some (Managed k))"
proof (induction sks arbitrary: m)
  case (Cons sk sks)
  obtain a k where sk: "sk = (a, k)" by (rule prod.exhaust)
  have "map_of sks a = None" using Cons.prems sk by (auto simp: map_of_eq_None_iff)
  then show ?case using Cons sk by (auto simp: putRule_def split: option.splits)
qed simp

lemma foldl_putRule_same: "holds (set sks) m \<Longrightarrow> foldl putRule m sks = m"
proof (induction sks)
  case (Cons sk sks)
  have "putRule m sk = m" using Cons.prems by (auto simp: holds_def putRule_def fun_upd_idem)
  then show ?case using Cons by (simp add: holds_def)
qed simp

lemma foldl_dropRule:
  "foldl dropRule m sks s = (if \<exists>k. (s, k) \<in> set sks \<and> m s = Some (Managed k) then None else m s)"
proof (induction sks arbitrary: m)
  case (Cons sk sks)
  obtain a b where sk: "sk = (a, b)" by (rule prod.exhaust)
  show ?case unfolding foldl_Cons Cons.IH sk by (auto simp: dropRule_def)
qed simp

lemma entriesByKey_of:
  assumes "distinct (map entryKey es)"
  shows "map_of (entriesByKey es) k = Some s \<longleftrightarrow> (\<exists>e \<in> set es. entryKey e = k \<and> pe_Seq e = s)"
    and "fst ` set (entriesByKey es) = entryKey ` set es" and "distinct (map fst (entriesByKey es))"
proof -
  have upd: "entriesByKey es = foldl (\<lambda>m e. AList.update (entryKey e) (pe_Seq e) m) [] es"
    by (simp add: entriesByKey_def)
  have "map_of (foldl (\<lambda>m e. AList.update (entryKey e) (pe_Seq e) m) m es) k =
      (case map_of (map (\<lambda>e. (entryKey e, pe_Seq e)) es) k of None \<Rightarrow> map_of m k | Some s \<Rightarrow> Some s)" for m
    using assms
  proof (induction es arbitrary: m)
    case (Cons e es)
    have "map_of (map (\<lambda>e. (entryKey e, pe_Seq e)) es) (entryKey e) = None"
      using Cons.prems by (auto simp: map_of_eq_None_iff image_image)
    then show ?case using Cons by (auto split: option.splits)
  qed simp
  from this [of "[]"] have m: "map_of (entriesByKey es) k = map_of (map (\<lambda>e. (entryKey e, pe_Seq e)) es) k"
    unfolding upd by (simp split: option.splits)
  show "map_of (entriesByKey es) k = Some s \<longleftrightarrow> (\<exists>e \<in> set es. entryKey e = k \<and> pe_Seq e = s)"
    unfolding m using assms by (subst map_of_eq_Some_iff) (auto simp: comp_def)
  have "fst ` set (foldl (\<lambda>m e. AList.update (entryKey e) (pe_Seq e) m) m es) = fst ` set m \<union> entryKey ` set es"
    "distinct (map fst m) \<Longrightarrow> distinct (map fst (foldl (\<lambda>m e. AList.update (entryKey e) (pe_Seq e) m) m es))" for m and es :: "prefix_entry list"
    by (induction es arbitrary: m) auto
  then show "fst ` set (entriesByKey es) = entryKey ` set es" "distinct (map fst (entriesByKey es))"
    unfolding upd by simp_all
qed

lemma highestSeq_ge: "e \<in> set es \<Longrightarrow> pe_Seq e \<le> highestSeq es"
proof -
  have "m \<le> foldl (\<lambda>m e. if pe_Seq e > m then pe_Seq e else m) m es \<and>
      (e \<in> set es \<longrightarrow> pe_Seq e \<le> foldl (\<lambda>m e. if pe_Seq e > m then pe_Seq e else m) m es)" for m
  proof (induction es arbitrary: m)
    case (Cons a es)
    from this [of "if pe_Seq a > m then pe_Seq a else m"] show ?case by auto
  qed simp
  then show "e \<in> set es \<Longrightarrow> pe_Seq e \<le> highestSeq es" by (simp add: highestSeq_def)
qed

definition newRules :: "prefix_entry list \<Rightarrow> (nat \<Rightarrow> entry_key list \<Rightarrow> entry_key list) \<Rightarrow> entry_key list \<Rightarrow> (int \<times> entry_key) list" where
  "newRules es keyOrder desired = number (highestSeq es) (keyOrder 0 (missingKeys (entriesByKey es) desired))"

definition staleRules :: "prefix_entry list \<Rightarrow> (nat \<Rightarrow> entry_key list \<Rightarrow> entry_key list) \<Rightarrow> entry_key list \<Rightarrow> (int \<times> entry_key) list" where
  "staleRules es keyOrder desired = withSeq (entriesByKey es) (keyOrder 2 (staleKeys (entriesByKey es) desired))"

definition finalTable :: "pl_table \<Rightarrow> prefix_entry list \<Rightarrow> (nat \<Rightarrow> entry_key list \<Rightarrow> entry_key list) \<Rightarrow> entry_key list \<Rightarrow> pl_table" where
  "finalTable m es keyOrder desired = foldl dropRule (foldl putRule m (newRules es keyOrder desired)) (staleRules es keyOrder desired)"

lemma staleRules_iff:
  assumes sh: "showsList m es" and order: "\<And>i xs. set (keyOrder i xs) = set xs"
  shows "(s, k) \<in> set (staleRules es keyOrder desired) \<longleftrightarrow> m s = Some (Managed k) \<and> k \<notin> set desired"
proof -
  have d: "distinct (map entryKey es)" using sh by (simp add: showsList_def)
  note by_key = entriesByKey_of [OF d]
  have "(s, k) \<in> set (staleRules es keyOrder desired) \<longleftrightarrow> k \<in> entryKey ` set es \<and> k \<notin> set desired \<and> s = the (map_of (entriesByKey es) k)"
    by (auto simp: staleRules_def withSeq_def order staleKeys_def by_key(2) image_iff)
  also have "\<dots> \<longleftrightarrow> map_of (entriesByKey es) k = Some s \<and> k \<notin> set desired"
    using by_key(1,2) by (metis (no_types, lifting) imageE imageI map_of_eq_None_iff option.collapse option.sel)
  also have "\<dots> \<longleftrightarrow> m s = Some (Managed k) \<and> k \<notin> set desired" using by_key(1) sh by (auto simp: showsList_def)
  finally show ?thesis .
qed

lemma newRules_props:
  assumes sh: "showsList m es" and order: "\<And>i xs. mset (keyOrder i xs) = mset xs" and dd: "distinct desired"
  shows "snd ` set (newRules es keyOrder desired) = {k \<in> set desired. \<forall>s. m s \<noteq> Some (Managed k)}"
    and "distinct (map fst (newRules es keyOrder desired))" and "distinct (map snd (newRules es keyOrder desired))"
    and "s \<in> fst ` set (newRules es keyOrder desired) \<Longrightarrow> m s' = Some (Managed k) \<Longrightarrow> s' < s"
proof -
  have d: "distinct (map entryKey es)" using sh by (simp add: showsList_def)
  have so: "set (keyOrder i xs) = set xs" for i xs using order mset_eq_setD by blast
  have dod: "distinct xs \<Longrightarrow> distinct (keyOrder i xs)" for i xs using order mset_eq_imp_distinct_iff by blast
  have "map_of (entriesByKey es) k = None \<longleftrightarrow> (\<forall>s. m s \<noteq> Some (Managed k))" for k
    using sh entriesByKey_of(2) [OF d] by (auto simp: map_of_eq_None_iff showsList_def)
  then show "snd ` set (newRules es keyOrder desired) = {k \<in> set desired. \<forall>s. m s \<noteq> Some (Managed k)}"
    by (simp add: newRules_def number_props(1) flip: set_map) (simp add: so missingKeys_def)
  show "distinct (map fst (newRules es keyOrder desired))" by (simp add: newRules_def number_props(3))
  show "distinct (map snd (newRules es keyOrder desired))"
    using dd by (simp add: newRules_def number_props(1) dod missingKeys_def)
  assume "s \<in> fst ` set (newRules es keyOrder desired)" and k: "m s' = Some (Managed k)"
  from this(1) have "highestSeq es < s" unfolding newRules_def by (rule number_props(2))
  moreover have "s' \<le> highestSeq es" using k sh highestSeq_ge by (auto simp: showsList_def)
  ultimately show "s' < s" by simp
qed

lemma finalTable_ok:
  assumes sh: "showsList m es" and order: "\<And>i xs. mset (keyOrder i xs) = mset xs" and dd: "distinct desired"
  defines "m' \<equiv> finalTable m es keyOrder desired"
  shows "k \<in> set desired \<Longrightarrow> \<exists>!s. m' s = Some (Managed k)"
    and "k \<notin> set desired \<Longrightarrow> m' s \<noteq> Some (Managed k)"
    and "m s = Some (Unmanaged t) \<Longrightarrow> m s' = Some (Managed k) \<Longrightarrow> s \<le> s' \<Longrightarrow> m' s = Some (Unmanaged t)"
proof -
  let ?new = "newRules es keyOrder desired"
  note new = newRules_props [where keyOrder = keyOrder, OF sh order dd]
  have so: "\<And>i xs. set (keyOrder i xs) = set xs" using order mset_eq_setD by blast
  note stale = staleRules_iff [where keyOrder = keyOrder, OF sh so]
  define m1 where "m1 = foldl putRule m ?new"
  have m1: "m1 s = (case map_of ?new s of None \<Rightarrow> m s | Some k \<Rightarrow> Some (Managed k))" for s
    unfolding m1_def by (rule foldl_putRule [OF new(2)])
  have old: "map_of ?new s = None" if "m s = Some (Managed k)" for s k
  proof (rule ccontr)
    assume "map_of ?new s \<noteq> None"
    then have "s \<in> fst ` set ?new" by (simp add: map_of_eq_None_iff)
    from new(4) [OF this that] show False by simp
  qed
  have m': "m' s = (if \<exists>k. m s = Some (Managed k) \<and> k \<notin> set desired then None else m1 s)" for s
    unfolding m'_def finalTable_def foldl_dropRule m1_def [symmetric] stale using m1 old by (auto split: option.splits)
  have uniq: "s = s'" if "m s = Some (Managed k)" "m s' = Some (Managed k)" for s s' k
  proof -
    have "m s = Some (Managed k) \<longleftrightarrow> (\<exists>e \<in> set es. pe_Seq e = s \<and> entryKey e = k)" for s k
      using sh by (simp add: showsList_def)
    note ls = that [unfolded this]
    obtain e where "e \<in> set es" "pe_Seq e = s" "entryKey e = k" using ls(1) by blast
    moreover obtain e' where "e' \<in> set es" "pe_Seq e' = s'" "entryKey e' = k" using ls(2) by blast
    ultimately have e: "e \<in> set es" "pe_Seq e = s" "entryKey e = k" "e' \<in> set es" "pe_Seq e' = s'" "entryKey e' = k" by simp_all
    have "inj_on entryKey (set es)" using sh by (simp add: showsList_def distinct_map)
    then have "e = e'" by (rule inj_onD) (simp_all only: e)
    then show ?thesis using e by simp
  qed
  have wanted: "m' s = Some (Managed k) \<longleftrightarrow> k \<in> set desired \<and> (m s = Some (Managed k) \<or> (s, k) \<in> set ?new)" for s k
  proof (cases "map_of ?new s")
    case None
    then have "(s, k) \<notin> set ?new" by (metis fst_conv image_eqI map_of_eq_None_iff)
    then show ?thesis using m' [of s] m1 [of s] None by auto
  next
    case (Some k')
    then have k': "(s, k') \<in> set ?new" by (rule map_of_SomeD)
    then have d: "k' \<in> set desired" using new(1) by force
    have none: "m s \<noteq> Some (Managed j)" for j
    proof
      assume "m s = Some (Managed j)"
      then have "map_of ?new s = None" by (rule old)
      with Some show False by simp
    qed
    have "(s, k) \<in> set ?new \<longleftrightarrow> map_of ?new s = Some k" using new(2) by simp
    then have iff: "(s, k) \<in> set ?new \<longleftrightarrow> k = k'" unfolding Some by auto
    have "m' s = m1 s" unfolding m' using none by simp
    also have "m1 s = Some (Managed k')" unfolding m1 using Some by simp
    finally show ?thesis using d none iff by auto
  qed
  show "k \<notin> set desired \<Longrightarrow> m' s \<noteq> Some (Managed k)" using wanted by blast
  show "\<exists>!s. m' s = Some (Managed k)" if kd: "k \<in> set desired"
  proof (cases "\<exists>s. m s = Some (Managed k)")
    case True
    then obtain s0 where s0: "m s0 = Some (Managed k)" ..
    have "k \<notin> snd ` set ?new" unfolding new(1) using s0 by (simp; intro impI exI [of _ s0]; assumption)
    then have no: "(s, k) \<notin> set ?new" for s by (metis imageI snd_conv)
    show ?thesis
    proof (rule ex1I [of _ s0])
      show "m' s0 = Some (Managed k)" using s0 kd by (simp only: wanted simp_thms)
      fix s assume "m' s = Some (Managed k)"
      then have "m s = Some (Managed k)" using no by (simp only: wanted simp_thms)
      then show "s = s0" using s0 by (rule uniq)
    qed
  next
    case False
    then have kn: "k \<in> snd ` set ?new" unfolding new(1) using kd by simp
    obtain sk where sk: "sk \<in> set ?new" "snd sk = k" using kn by (rule imageE) simp
    have inj: "inj_on snd (set ?new)" using new(3) by (simp add: distinct_map)
    show ?thesis
    proof (rule ex1I [of _ "fst sk"])
      have "(fst sk, k) \<in> set ?new" using sk by (metis prod.collapse)
      then show "m' (fst sk) = Some (Managed k)" using kd by (simp only: wanted simp_thms)
      fix s assume "m' s = Some (Managed k)"
      then have "(s, k) \<in> set ?new" using False unfolding wanted by (elim conjE disjE exE; simp)
      then have "(s, k) = sk" by (intro inj_onD [OF inj]) (simp_all add: sk)
      then show "s = fst sk" by (metis fst_conv)
    qed
  qed
  assume u: "m s = Some (Unmanaged t)" "m s' = Some (Managed k)" "s \<le> s'"
  have "map_of ?new s = None"
  proof (rule ccontr)
    assume "map_of ?new s \<noteq> None"
    then have "s \<in> fst ` set ?new" by (simp add: map_of_eq_None_iff)
    from new(4) [OF this u(2)] u(3) show False by simp
  qed
  then show "m' s = Some (Unmanaged t)" using m' [of s] m1 [of s] u(1) by simp
qed

subsection \<open>Convergence\<close>

lemma repairBGPD_run:
  assumes frr: "frrList cfg F" and plain: "\<forall>k \<in> set keys. plainNet k"
    and h: "holds S (F (rm_hist rm))" and sub: "set (withSeq current keys) \<subseteq> S"
    and run: "repairBGPD env cfg order current keys rm = (r, s)" and fn: "\<And>a b b'. (a, b) \<in> S \<Longrightarrow> (a, b') \<in> S \<Longrightarrow> b = b'"
  shows "through (\<lambda>h. holds S (F h)) rm s \<and> (r = Inr () \<longrightarrow> F (rm_hist s) = F (rm_hist rm))"
proof (cases "keys = []")
  case True
  then show ?thesis using run h by (simp add: repairBGPD_def through_refl)
next
  case False
  obtain out e s1 where v: "runVtysh env (bgpdArgs cfg) rm = ((out, e), s1)" by (metis prod.collapse)
  note ev = conjunct1 [OF runVtysh_event [OF v]]
  have same: "F (h @ [(CVtysh (bgpdArgs cfg), ok)]) = F h" for h ok using frr unfolding frrList_def by blast
  have f1: "F (rm_hist s1) = F (rm_hist rm)" using ev same by simp
  have t: "through (\<lambda>h. holds S (F h)) rm s1" unfolding ev by (rule through_log) (use same h in simp_all)
  show ?thesis
  proof (cases "fst (listBGPDPrefixListEntries env cfg order rm)")
    case None
    then have "(r, s) = (Inr (), s1)"
      using run False v by (auto simp: repairBGPD_def listBGPDPrefixListEntries_def split: option.splits sum.splits)
    then show ?thesis using t f1 by simp
  next
    case (Some bgpd)
    let ?ks = "filter (\<lambda>k. k \<notin> entryKey ` set bgpd) keys"
    have a: "applyLines env ''repair prefix-list entry'' (map (lineOf cfg) (withSeq current ?ks)) s1 = (r, s)"
      using run False v Some by (auto simp: repairBGPD_def listBGPDPrefixListEntries_def split: option.splits sum.splits)
    have ks: "set (withSeq current ?ks) \<subseteq> S" using sub by (auto simp: withSeq_def)
    have p: "\<forall>sk \<in> set (withSeq current ?ks). plainNet (snd sk)" using plain by (auto simp: withSeq_def)
    have c: "consistent S (set (withSeq current ?ks))" using fn ks unfolding consistent_def by blast
    have h1: "holds S (F (rm_hist s1))" using h f1 by simp
    note ad = addLines_run [OF frr p c a h1]
    have "holds (set (withSeq current ?ks)) (F (rm_hist s1))" using h1 ks unfolding holds_def by blast
    then have "foldl putRule (F (rm_hist s1)) (withSeq current ?ks) = F (rm_hist s1)" by (rule foldl_putRule_same)
    then show ?thesis using ad f1 through_trans [OF t] by simp
  qed
qed

lemma desiredKeys_distinct: "distinct (desiredKeys networks vips)"
  by (simp add: desiredKeys_def)

text \<open>
  C38: the managed prefix-list converges and keeps what both lists have. If the listing shows the
  managed rules of FRR's table, each key once, then at every call of a reconcile, failing or not,
  every rule that is still wanted is in place under its number; and a reconcile without an error
  leaves exactly one rule for each desired key and none for any other, and touches no other rule
  whose number is not above all managed ones. Map iteration order does not matter.
\<close>

theorem prefix_list_converges:
  assumes frr: "frrList cfg F" and order: "\<And>i xs. mset (keyOrder i xs) = mset xs"
    and on: "cf_FRRPrefixList cfg \<noteq> ''''" "\<not> cf_DryRun cfg"
    and listing: "\<And>out. h_vtysh env (rm_hist rm) (listArgs cfg) = (out, None) \<Longrightarrow>
        \<exists>es. parsePrefixListDocs env cfg order out = Inr es \<and> showsList (F (rm_hist rm)) es"
    and plain: "\<forall>k \<in> set (desiredKeys networks vips). plainNet k"
    and run: "ReconcileFRRPrefixList env cfg order keyOrder networks vips rm = (r, rm')"
  shows "through (\<lambda>h. holds {(s, k). F (rm_hist rm) s = Some (Managed k) \<and> k \<in> set (desiredKeys networks vips)} (F h)) rm rm' \<and>
    (r = Inr () \<longrightarrow>
      (\<forall>k \<in> set (desiredKeys networks vips). \<exists>!s. F (rm_hist rm') s = Some (Managed k)) \<and>
      (\<forall>s k. F (rm_hist rm') s = Some (Managed k) \<longrightarrow> k \<in> set (desiredKeys networks vips)) \<and>
      (\<forall>s t s' k. F (rm_hist rm) s = Some (Unmanaged t) \<and> F (rm_hist rm) s' = Some (Managed k) \<and> s \<le> s' \<longrightarrow>
         F (rm_hist rm') s = Some (Unmanaged t)))"
proof -
  let ?m = "F (rm_hist rm)" and ?des = "desiredKeys networks vips"
  define S where "S = {(s, k). ?m s = Some (Managed k) \<and> k \<in> set ?des}"
  let ?G = "\<lambda>h. holds S (F h)"
  have hS: "holds S ?m" by (simp add: holds_def S_def)
  have so: "\<And>i xs. set (keyOrder i xs) = set xs" using order mset_eq_setD by blast
  obtain out e s0 where v: "runVtysh env (listArgs cfg) rm = ((out, e), s0)" by (metis prod.collapse)
  note ev = runVtysh_event [OF v]
  have same: "F (h @ [(CVtysh (listArgs cfg), ok)]) = F h" for h ok using frr unfolding frrList_def by blast
  have f0: "F (rm_hist s0) = ?m" using ev same by simp
  have t0: "through ?G rm s0" unfolding conjunct1 [OF ev] by (rule through_log) (use same hS in simp_all)
  show ?thesis
  proof (cases e)
    case (Some x)
    then have "(r, rm') = (Inl (Err ''vtysh show prefix-list''), s0)"
      using run on v by (simp add: ReconcileFRRPrefixList_def ListFRRPrefixListEntries_def andThen_def)
    then show ?thesis using t0 by (simp add: S_def)
  next
    case None
    then obtain es where es: "parsePrefixListDocs env cfg order out = Inr es" and sh: "showsList ?m es"
      using listing ev by blast
    let ?cur = "entriesByKey es"
    let ?new = "newRules es keyOrder ?des" and ?stale = "staleRules es keyOrder ?des"
    let ?keep = "keyOrder 1 (filter (\<lambda>k. map_of ?cur k \<noteq> None) ?des)"
    let ?rest = "andThen (applyLines env ''add prefix-list entry'' (map (lineOf cfg) ?new)) (\<lambda>_.
        andThen (repairBGPD env cfg order ?cur ?keep) (\<lambda>_.
          applyLines env ''remove prefix-list entry'' (map (\<lambda>sk. ''no '' @ lineOf cfg sk) ?stale)))"
    have rest: "?rest s0 = (r, rm')"
      using run on v None es
      by (simp add: ReconcileFRRPrefixList_def ListFRRPrefixListEntries_def andThen_def [of "ListFRRPrefixListEntries env cfg order"]
          Let_def newRules_def staleRules_def)
    have d: "distinct (map entryKey es)" using sh by (simp add: showsList_def)
    have cur: "map_of ?cur k = Some s \<longleftrightarrow> ?m s = Some (Managed k)" for s k
      using entriesByKey_of(1) [OF d] sh by (auto simp: showsList_def)
    have fn: "(a, b) \<in> S \<Longrightarrow> (a, b') \<in> S \<Longrightarrow> b = b'" for a b b' by (simp add: S_def)
    note new = newRules_props [where keyOrder = keyOrder, OF sh order desiredKeys_distinct [of networks vips]]
    obtain r1 s1 where a1: "applyLines env ''add prefix-list entry'' (map (lineOf cfg) ?new) s0 = (r1, s1)" by fastforce
    have newkeys: "k \<in> set ?des" if "(s, k) \<in> set ?new" for s k
    proof -
      have "k \<in> snd ` set ?new" using that by (rule image_eqI [rotated]) simp
      then show ?thesis unfolding new(1) by simp
    qed
    have p1: "\<forall>sk \<in> set ?new. plainNet (snd sk)" using newkeys plain by (metis prod.collapse)
    have c1: "consistent S (set ?new)"
    proof -
      have "a \<noteq> a'" if "(a, b) \<in> S" "(a', b') \<in> set ?new" for a b a' b'
      proof -
        have "a' \<in> fst ` set ?new" using that(2) by (rule image_eqI [rotated]) simp
        moreover have "?m a = Some (Managed b)" using that(1) by (simp add: S_def)
        ultimately have "a < a'" by (rule new(4))
        then show ?thesis by simp
      qed
      then show ?thesis unfolding consistent_def by blast
    qed
    note st1 = addLines_run [OF frr p1 c1 a1 hS [folded f0]]
    have t1: "through ?G rm s1" using through_trans [OF t0 conjunct1 [OF st1]] .
    show ?thesis
    proof (cases r1)
      case (Inl x)
      then have "r = Inl x" "rm' = s1" using rest a1 by (simp_all add: andThen_def)
      then show ?thesis using t1 by (simp add: S_def)
    next
      case (Inr u)
      have m1: "F (rm_hist s1) = foldl putRule ?m ?new" using st1 Inr f0 by simp
      have h1: "holds S (F (rm_hist s1))" using through_ends [OF t1] by simp
      obtain r2 s2 where a2: "repairBGPD env cfg order ?cur ?keep s1 = (r2, s2)" by fastforce
      have "(the (map_of ?cur k), k) \<in> S" if kk: "k \<in> set ?keep" for k
      proof -
        have "k \<in> set ?des" "map_of ?cur k \<noteq> None" using kk by (simp_all add: so)
        moreover then obtain s where s: "map_of ?cur k = Some s" by blast
        moreover have "?m s = Some (Managed k)" using s by (simp only: cur)
        ultimately show ?thesis by (simp add: S_def)
      qed
      then have "set (withSeq ?cur ?keep) \<subseteq> S" by (auto simp: withSeq_def)
      moreover have "\<forall>k \<in> set ?keep. plainNet k" using plain by (simp add: so)
      ultimately have st2: "through ?G s1 s2 \<and> (r2 = Inr () \<longrightarrow> F (rm_hist s2) = F (rm_hist s1))"
        by (intro repairBGPD_run [OF frr _ h1 _ a2 fn])
      have t2: "through ?G rm s2" using through_trans [OF t1 conjunct1 [OF st2]] .
      show ?thesis
      proof (cases r2)
        case (Inl x)
        then have "r = Inl x" "rm' = s2" using rest a1 \<open>r1 = Inr u\<close> a2 by (simp_all add: andThen_def)
        then show ?thesis using t2 by (simp add: S_def)
      next
        case r2: (Inr u')
        have a3: "applyLines env ''remove prefix-list entry'' (map (\<lambda>sk. ''no '' @ lineOf cfg sk) ?stale) s2 = (r, rm')"
          using rest a1 Inr a2 r2 by (simp add: andThen_def)
        have stale: "(s, k) \<in> set ?stale \<longleftrightarrow> ?m s = Some (Managed k) \<and> k \<notin> set ?des" for s k by (rule staleRules_iff [OF sh so])
        have "plainNet k" if "?m s = Some (Managed k)" for s k using sh that by (auto simp: showsList_def)
        then have p3: "\<forall>sk \<in> set ?stale. plainNet (snd sk)" using stale by (metis prod.collapse)
        have "fst ` S \<inter> fst ` set ?stale = {}" using stale by (auto simp: S_def)
        note st3 = dropLines_run [OF frr p3 this a3 conjunct2 [OF through_ends [OF t2]]]
        have t3: "through ?G rm rm'" using through_trans [OF t2 conjunct1 [OF st3]] .
        have fin: "F (rm_hist rm') = finalTable ?m es keyOrder ?des" if "r = Inr ()"
          using st3 st2 r2 m1 that by (simp add: finalTable_def)
        note ok = finalTable_ok [where keyOrder = keyOrder, OF sh order desiredKeys_distinct [of networks vips]]
        show ?thesis
          unfolding S_def [symmetric]
        proof (intro conjI impI ballI allI)
          show "through ?G rm rm'" by (rule t3)
          assume r: "r = Inr ()"
          show "\<exists>!s. F (rm_hist rm') s = Some (Managed k)" if "k \<in> set ?des" for k
            unfolding fin [OF r] using that by (rule ok(1))
          show "k \<in> set ?des" if "F (rm_hist rm') s = Some (Managed k)" for s k
          proof (rule ccontr)
            assume "k \<notin> set ?des"
            from ok(2) [OF this] show False using that unfolding fin [OF r] by blast
          qed
          show "F (rm_hist rm') s = Some (Unmanaged t)"
            if "?m s = Some (Unmanaged t) \<and> ?m s' = Some (Managed k) \<and> s \<le> s'" for s t s' k
            unfolding fin [OF r] by (rule ok(3) [OF conjunct1 [OF that] conjunct1 [OF conjunct2 [OF that]] conjunct2 [OF conjunct2 [OF that]]])
        qed
      qed
    qed
  qed
qed

text \<open>
  The next number only looks at the managed entries: above all of them, an entry of another shape
  is overwritten by the first network added.
\<close>

lemma new_number_can_be_taken:
  "showsList [5 \<mapsto> Unmanaged ''permit 10.0.0.0/8''] [] \<and>
   finalTable [5 \<mapsto> Unmanaged ''permit 10.0.0.0/8''] [] (\<lambda>_ xs. xs) [k] = [5 \<mapsto> Managed k]"
  by (simp add: showsList_def finalTable_def newRules_def staleRules_def entriesByKey_def missingKeys_def highestSeq_def
      putRule_def withSeq_def staleKeys_def)

subsection \<open>A concrete run\<close>

definition readInt :: "string \<Rightarrow> int option" where
  "readInt s = (if HasPrefix s ''-'' then map_option (\<lambda>n. - int n) (parse_nat (tl s)) else map_option int (parse_nat s))"

definition readRule :: "string list \<Rightarrow> (int \<times> entry_key) option" where
  "readRule ws =
     (case ws of
        [_, _, _, _, n, _, p] \<Rightarrow> map_option (\<lambda>s. (s, \<lparr>ek_Network = p, ek_Exact = True\<rparr>)) (readInt n)
      | [_, _, _, _, n, _, p, _, _, _, _] \<Rightarrow> map_option (\<lambda>s. (s, \<lparr>ek_Network = p, ek_Exact = False\<rparr>)) (readInt n)
      | _ \<Rightarrow> None)"

definition demoListEffect :: "pl_table \<Rightarrow> event \<Rightarrow> pl_table" where
  "demoListEffect m ev =
     (case ev of
        (CVtysh [_, _, _, l, _, _], True) \<Rightarrow>
          (case Split l CHR '' '' of
             w # ws \<Rightarrow>
               if w = ''no'' then (case readRule ws of None \<Rightarrow> m | Some sk \<Rightarrow> dropRule m sk)
               else (case readRule (w # ws) of None \<Rightarrow> m | Some sk \<Rightarrow> putRule m sk)
           | [] \<Rightarrow> m)
      | _ \<Rightarrow> m)"

definition demoList :: "history \<Rightarrow> pl_table" where
  "demoList h = foldl demoListEffect Map.empty h"

definition demo_pl_cfg :: config where
  "demo_pl_cfg = demo_rcfg\<lparr>cf_FRRPrefixList := ''NETS''\<rparr>"

lemma readInt_Itoa [simp]: "readInt (Itoa s) = Some s"
proof -
  have "\<not> is_digit CHR ''-''" by (simp add: is_digit_def)
  then have "CHR ''-'' \<notin> set (show_nat n)" for n by (rule show_nat_no_char)
  then have "\<not> HasPrefix (show_nat n) ''-''" for n by (auto simp: HasPrefix_iff) (metis list.set_intros(1))
  then show ?thesis by (simp add: readInt_def Itoa_def HasPrefix_def)
qed

lemma Itoa_no_space: "CHR '' '' \<notin> set (Itoa i)"
proof -
  have "\<not> is_digit CHR '' ''" by (simp add: is_digit_def)
  then show ?thesis by (simp add: Itoa_def show_nat_no_char)
qed

lemma Split_line:
  assumes "plainNet k"
  shows "readRule (Split (lineOf demo_pl_cfg (s, k)) CHR '' '') = Some (s, k)"
    and "\<exists>ws. Split (lineOf demo_pl_cfg (s, k)) CHR '' '' = ''ip'' # ws"
proof -
  have n: "CHR '' '' \<notin> set (ek_Network k)" using assms by (simp add: plainNet_def)
  have l: "lineOf demo_pl_cfg (s, k) = ''ip prefix-list NETS seq '' @ Itoa s @ CHR '' '' # ''permit '' @ ek_Network k @
      (if ek_Exact k then '''' else CHR '' '' # ''ge 32 le 32'')"
    by (simp add: lineOf_def prefixListLine_def demo_pl_cfg_def)
  have "Split (lineOf demo_pl_cfg (s, k)) CHR '' '' =
      [''ip'', ''prefix-list'', ''NETS'', ''seq'', Itoa s, ''permit'', ek_Network k] @ (if ek_Exact k then [] else [''ge'', ''32'', ''le'', ''32''])"
    unfolding l using Split_append [OF Itoa_no_space, of s] Split_append [OF n, of "''ge 32 le 32''"] Split_no_sep [OF n] by simp
  then show "readRule (Split (lineOf demo_pl_cfg (s, k)) CHR '' '') = Some (s, k)"
    "\<exists>ws. Split (lineOf demo_pl_cfg (s, k)) CHR '' '' = ''ip'' # ws"
    by (simp_all add: readRule_def)
qed

lemma demo_list: "frrList demo_pl_cfg demoList"
  unfolding frrList_def
proof (intro conjI allI impI)
  fix h s k assume k: "plainNet k"
  obtain ws where ws: "Split (lineOf demo_pl_cfg (s, k)) CHR '' '' = ''ip'' # ws" using Split_line(2) [OF k] by blast
  have rr: "readRule (''ip'' # ws) = Some (s, k)" using Split_line(1) [OF k, of s] ws by simp
  have no: "Split (''no '' @ lineOf demo_pl_cfg (s, k)) CHR '' '' = ''no'' # ''ip'' # ws" using ws by simp
  show "demoList (h @ [(CVtysh (confLine (lineOf demo_pl_cfg (s, k))), True)]) = (demoList h)(s \<mapsto> Managed k)"
    using ws rr by (simp add: demoList_def demoListEffect_def confLine_def putRule_def)
  show "demoList (h @ [(CVtysh (confLine (''no '' @ lineOf demo_pl_cfg (s, k))), True)]) =
      (if demoList h s = Some (Managed k) then (demoList h)(s := None) else demoList h)"
    using no rr by (simp add: demoList_def demoListEffect_def confLine_def dropRule_def)
qed (simp_all add: demoList_def demoListEffect_def listArgs_def bgpdArgs_def confLine_def Let_def split: bool.splits)

lemma demo_pl_parse: "parsePrefixListDocs demo_host demo_pl_cfg order ''doc'' = Inr []"
  by (simp add: parsePrefixListDocs_def TrimSpace_def IsSpace_def demo_host_def)

lemma demo_net_text: "NetString (Net4 0x0A000000 24) = ''10.0.0.0/24''"
  by (simp add: NetString_def ip4String_def byte_of_def show_nat.simps digit_char_def)

lemma demo_pl_run:
  "fst (ReconcileFRRPrefixList demo_host demo_pl_cfg (\<lambda>_ xs. xs) (\<lambda>_ xs. xs) [Net4 0x0A000000 24] [] demo_rm) = Inr ()"
proof -
  have "h_vtysh demo_host h a = (''doc'', None)" for h a by (simp add: demo_host_def)
  then show ?thesis
    by (simp add: ReconcileFRRPrefixList_def demo_pl_cfg_def op_defs ListFRRPrefixListEntries_def runVtysh_def
        demo_pl_parse [unfolded demo_pl_cfg_def] entriesByKey_def missingKeys_def desiredKeys_def repairBGPD_def
        staleKeys_def withSeq_def)
qed

lemma prefix_list_converges_witness:
  "\<exists>rm'. ReconcileFRRPrefixList demo_host demo_pl_cfg (\<lambda>_ xs. xs) (\<lambda>_ xs. xs) [Net4 0x0A000000 24] [] demo_rm = (Inr (), rm') \<and>
     (\<exists>!s. demoList (rm_hist rm') s = Some (Managed \<lparr>ek_Network = ''10.0.0.0/24'', ek_Exact = False\<rparr>))"
proof -
  obtain rm' where run: "ReconcileFRRPrefixList demo_host demo_pl_cfg (\<lambda>_ xs. xs) (\<lambda>_ xs. xs) [Net4 0x0A000000 24] [] demo_rm = (Inr (), rm')"
    using demo_pl_run by (metis prod.collapse)
  have keys: "desiredKeys [Net4 0x0A000000 24] [] = [\<lparr>ek_Network = ''10.0.0.0/24'', ek_Exact = False\<rparr>]"
    unfolding desiredKeys_def list.map demo_net_text by simp
  have on: "cf_FRRPrefixList demo_pl_cfg \<noteq> ''''" "\<not> cf_DryRun demo_pl_cfg" by (simp_all add: demo_pl_cfg_def)
  have l: "\<exists>es. parsePrefixListDocs demo_host demo_pl_cfg (\<lambda>_ xs. xs) out = Inr es \<and> showsList (demoList (rm_hist demo_rm)) es"
    if "h_vtysh demo_host (rm_hist demo_rm) (listArgs demo_pl_cfg) = (out, None)" for out
  proof -
    have "out = ''doc''" using that by (simp add: demo_host_def)
    moreover have "demoList (rm_hist demo_rm) = Map.empty" by (simp add: demoList_def demo_rm_def)
    ultimately show ?thesis using demo_pl_parse by (simp add: showsList_def)
  qed
  have p: "\<forall>k \<in> set (desiredKeys [Net4 0x0A000000 24] []). plainNet k" unfolding keys by (simp add: plainNet_def)
  note prefix_list_converges [where keyOrder = "\<lambda>_ xs. xs", OF demo_list refl on l p run]
  then show ?thesis using run unfolding keys by simp
qed

end
