(* ===== verification/PortForward.thy ===== *)
theory PortForward
  imports VethLeak
begin

section \<open>Port forwarding\<close>

text \<open>
  \<open>nftables.go\<close> renders the rule set of the virtual IPs and \<open>nftables_linux.go\<close> keeps it, the VIP
  addresses and the policy routing of translated packets in place. The rule set is built line by
  line, as the emitters write it; \<open>nft\<close>, netlink and the file system are the host. The fields of a
  policy rule are those of \<open>VethLeak\<close>; the rules here set a mask equal to their mark. A VIP that
  does not parse, which validation excludes, is rendered as the zero address.
\<close>

definition nftTableName :: string where "nftTableName = ''ovn-network-agent''"
definition dnatFwmark :: int where "dnatFwmark = 256"
definition dnatReplyFwmark :: int where "dnatReplyFwmark = 512"
definition dnatFwmarkPriority :: int where "dnatFwmarkPriority = 150"
definition dnatReplyPriority :: int where "dnatReplyPriority = 151"

text \<open>The two marks as \<open>0x%x\<close> prints them.\<close>

definition fwmarkText :: string where "fwmarkText = ''0x100''"
definition replyFwmarkText :: string where "replyFwmarkText = ''0x200''"

subsection \<open>Does the table exist\<close>

definition tableNamed :: "string \<Rightarrow> string \<Rightarrow> json \<Rightarrow> bool option" where
  "tableNamed family name e =
     Option.bind (jobj e) (\<lambda>kvs. case jfield kvs ''table'' of
        None \<Rightarrow> Some False
      | Some JNull \<Rightarrow> Some False
      | Some t \<Rightarrow> Option.bind (jobj t) (\<lambda>ts.
          Option.bind (jstr (jfield ts ''family'')) (\<lambda>f.
          map_option (\<lambda>n. f = family \<and> n = name) (jstr (jfield ts ''name'')))))"

definition nftHasTable :: "host \<Rightarrow> string \<Rightarrow> string \<Rightarrow> string \<Rightarrow> bool result" where
  "nftHasTable env data family name =
     (case Option.bind (h_json env data) (\<lambda>doc. Option.bind (jobj doc) (\<lambda>kvs.
             Option.bind (jarr (jfield kvs ''nftables'')) (mapM_option (tableNamed family name)))) of
        None \<Rightarrow> Inl (Err ''parse nft json'')
      | Some found \<Rightarrow> Inr (list_ex id found))"

subsection \<open>What the rule set is made of\<close>

record snat_entry =
  se_addr :: string
  se_proto :: string
  se_port :: int

definition destPort :: "port_forward_rule \<Rightarrow> int" where
  "destPort r = (if pr_DestPort r = 0 then pr_Port r else pr_DestPort r)"

definition collectVIPs :: "port_forward_vip list \<Rightarrow> string list" where
  "collectVIPs forwards = map pf_VIP forwards"

definition collectSNATEntries :: "port_forward_vip list \<Rightarrow> snat_entry list" where
  "collectSNATEntries forwards =
     concat (map (\<lambda>pf. concat (map (\<lambda>r.
       if \<not> effectiveMasquerade r (pf_Masquerade pf) then []
       else map (\<lambda>a. \<lparr>se_addr = a, se_proto = pr_Proto r, se_port = destPort r\<rparr>) (destAddrs r)) (pf_Rules pf))) forwards)"

definition collectHairpinVIPs :: "port_forward_vip list \<Rightarrow> string list" where
  "collectHairpinVIPs forwards = map pf_VIP (filter pf_HairpinMasquerade forwards)"

definition collectRouterMasqVIPs :: "port_forward_vip list \<Rightarrow> string list" where
  "collectRouterMasqVIPs forwards = map pf_VIP (filter pf_RouterMasquerade forwards)"

definition setMatch :: "string list \<Rightarrow> string" where
  "setMatch values = (case values of [v] \<Rightarrow> v | _ \<Rightarrow> ''{ '' @ Join values '', '' @ '' }'')"

definition ctOriginalDaddrMatch :: "string list \<Rightarrow> string" where
  "ctOriginalDaddrMatch vips =
     (case vips of [v] \<Rightarrow> ''ct original daddr '' @ v
      | _ \<Rightarrow> ''ct original ip daddr { '' @ Join vips '', '' @ '' }'')"

subsection \<open>The chains\<close>

definition inner :: "string \<Rightarrow> string" where "inner s = ''        '' @ s"

definition chain :: "string \<Rightarrow> string \<Rightarrow> string list \<Rightarrow> string list" where
  "chain name hookDecl rules = [''    chain '' @ name @ '' {''] @ [inner hookDecl] @ map inner rules @ [''    }'']"

text \<open>The match on a forwarded packet and on the reply of one backend.\<close>

definition forwardMatch :: "port_forward_vip \<Rightarrow> port_forward_rule \<Rightarrow> string" where
  "forwardMatch pf r = ''ip daddr '' @ pf_VIP pf @ '' '' @ pr_Proto r @ '' dport '' @ Itoa (pr_Port r)"

definition replyMatch :: "string \<Rightarrow> port_forward_rule \<Rightarrow> string" where
  "replyMatch addr r = ''ip saddr '' @ addr @ '' '' @ pr_Proto r @ '' sport '' @ Itoa (destPort r)"

definition ctZoneRules :: "port_forward_vip list \<Rightarrow> int \<Rightarrow> string list" where
  "ctZoneRules forwards ctZone =
     concat (map (\<lambda>pf. concat (map (\<lambda>r.
       if destAddrs r = [] then []
       else (forwardMatch pf r @ '' ct zone set '' @ Itoa ctZone) #
            map (\<lambda>a. replyMatch a r @ '' ct zone set '' @ Itoa ctZone) (destAddrs r)) (pf_Rules pf))) forwards)"

definition dnatTarget :: "port_forward_rule \<Rightarrow> string" where
  "dnatTarget r =
     (case destAddrs r of
        [a] \<Rightarrow> a @ '':'' @ Itoa (destPort r)
      | addrs \<Rightarrow> ''jhash ip saddr mod '' @ show_nat (length addrs) @ '' map { '' @
          Join (map (\<lambda>(i, a). show_nat i @ '' : '' @ a @ '' . '' @ Itoa (destPort r)) (enumerate 0 addrs)) '', '' @ '' }'')"

definition dnatRules :: "port_forward_vip list \<Rightarrow> string list" where
  "dnatRules forwards =
     concat (map (\<lambda>pf. concat (map (\<lambda>r.
       if destAddrs r = [] then [] else [forwardMatch pf r @ '' dnat to '' @ dnatTarget r]) (pf_Rules pf))) forwards)"

definition fwmarkChains :: "string list \<Rightarrow> string list" where
  "fwmarkChains allVIPs =
     (let daddr = ctOriginalDaddrMatch allVIPs;
          reply = ''ct direction reply ct status dnat '' @ daddr @ '' meta mark set '' @ replyFwmarkText
      in chain ''prerouting_fwmark'' ''type filter hook prerouting priority filter; policy accept;''
           [''ct direction original ct status dnat '' @ daddr @ '' meta mark set '' @ fwmarkText, reply] @
         chain ''output_fwmark'' ''type route hook output priority filter; policy accept;'' [reply])"

definition oifMatch :: string where "oifMatch = ''oifname \"'' @ vethDefaultName @ ''\"''"

definition vethGuardChain :: "ipnet list \<Rightarrow> string list" where
  "vethGuardChain providerNetworks =
     chain ''forward_veth_guard'' ''type filter hook forward priority filter; policy accept;''
       ((if providerNetworks = [] then []
         else [oifMatch @ '' ip saddr { '' @ Join (map NetString providerNetworks) '', '' @ '' } accept'']) @
        [oifMatch @ '' meta mark '' @ replyFwmarkText @ '' accept'', oifMatch @ '' drop''])"

definition fwmarkClearChain :: "string list" where
  "fwmarkClearChain =
     chain ''postrouting_fwmark_clear'' ''type filter hook postrouting priority filter; policy accept;''
       [oifMatch @ '' meta mark '' @ replyFwmarkText @ '' meta mark set 0'']"

definition snatChain ::
  "snat_entry list \<Rightarrow> string list \<Rightarrow> string list \<Rightarrow> ipnet list \<Rightarrow> string list \<Rightarrow> string list" where
  "snatChain snatEntries hairpinVIPs routerMasqVIPs providerNetworks snatIPs =
     (let hairpinNeeded = (hairpinVIPs \<noteq> [] \<and> providerNetworks \<noteq> []);
          routerMasqNeeded = (routerMasqVIPs \<noteq> [] \<and> snatIPs \<noteq> []);
          selective = (\<lambda>src vip. ''ip saddr '' @ src @ '' ct original daddr '' @ vip @ '' ct status dnat masquerade'')
      in if snatEntries = [] \<and> \<not> hairpinNeeded \<and> \<not> routerMasqNeeded then []
         else chain ''postrouting_snat'' ''type nat hook postrouting priority srcnat; policy accept;''
           (map (\<lambda>e. ''ip daddr '' @ se_addr e @ '' '' @ se_proto e @ '' dport '' @ Itoa (se_port e) @
                     '' ct status dnat masquerade'') snatEntries @
            (if hairpinNeeded then map (selective (setMatch (map NetString providerNetworks))) hairpinVIPs else []) @
            (if routerMasqNeeded then map (selective (setMatch (remdups_adj (sort snatIPs)))) routerMasqVIPs else [])))"

definition rulesetLines ::
  "port_forward_vip list \<Rightarrow> ipnet list \<Rightarrow> string list \<Rightarrow> int \<Rightarrow> string list" where
  "rulesetLines forwards providerNetworks snatIPs ctZone =
     [''table ip '' @ nftTableName @ '' {''] @
     chain ''prerouting_ctzone'' ''type filter hook prerouting priority raw; policy accept;'' (ctZoneRules forwards ctZone) @
     chain ''output_ctzone'' ''type filter hook output priority raw; policy accept;'' (ctZoneRules forwards ctZone) @
     chain ''prerouting_dnat'' ''type nat hook prerouting priority dstnat; policy accept;'' (dnatRules forwards) @
     fwmarkChains (collectVIPs forwards) @
     vethGuardChain providerNetworks @
     fwmarkClearChain @
     snatChain (collectSNATEntries forwards) (collectHairpinVIPs forwards) (collectRouterMasqVIPs forwards)
       providerNetworks snatIPs @
     [''}'']"

definition buildNftRuleset ::
  "port_forward_vip list \<Rightarrow> ipnet list \<Rightarrow> string list \<Rightarrow> int \<Rightarrow> string" where
  "buildNftRuleset forwards providerNetworks snatIPs ctZone =
     concat (map (\<lambda>l. l @ [CHR 0x0A]) (rulesetLines forwards providerNetworks snatIPs ctZone))"

subsection \<open>Running nft\<close>

definition nftCmd ::
  "host \<Rightarrow> string list \<Rightarrow> string \<Rightarrow> 'z route_manager_scheme \<Rightarrow> (string \<times> err option) \<times> 'z route_manager_scheme" where
  "nftCmd env args stdin rm =
     (let (out, e) = h_nft env (rm_hist rm) args stdin in ((out, e), logCall (CNft args stdin) (e = None) rm))"

definition nftTableExists :: "host \<Rightarrow> ('z route_manager_scheme, bool) op" where
  "nftTableExists env rm =
     (case nftCmd env [''-j'', ''list'', ''tables''] '''' rm of
        ((_, Some _), rm1) \<Rightarrow> (Inl (Err ''nft list tables''), rm1)
      | ((out, None), rm1) \<Rightarrow> (nftHasTable env out ''ip'' nftTableName, rm1))"

definition applyNftRuleset ::
  "host \<Rightarrow> config \<Rightarrow> ipnet list \<Rightarrow> string list \<Rightarrow> ('z route_manager_scheme, unit) op" where
  "applyNftRuleset env cfg providerNetworks snatIPs rm =
     (let ruleset = buildNftRuleset (cf_PortForwards cfg) providerNetworks snatIPs (cf_PortForwardCTZone cfg);
          ((_, missing), rm1) = nftCmd env [''list'', ''table'', ''ip'', nftTableName] '''' rm;
          script = (if missing = None then ''delete table ip '' @ nftTableName @ [CHR 0x0A] else []) @ ruleset;
          ((_, e), rm2) = nftCmd env [''-f'', ''-''] script rm1
      in (case e of Some _ \<Rightarrow> Inl (Err ''nft apply ruleset'') | None \<Rightarrow> Inr (), rm2))"

subsection \<open>VIP addresses\<close>

definition vipNet :: "string \<Rightarrow> ipnet" where
  "vipNet vip = (case ParseIP vip of Some ip \<Rightarrow> hostNet ip | None \<Rightarrow> Net4 0 32)"

definition vipText :: "string \<Rightarrow> string" where
  "vipText vip = (case ParseIP vip of Some ip \<Rightarrow> IPString ip | None \<Rightarrow> ''<nil>'')"

definition managedForwardVIPs :: "config \<Rightarrow> string list" where
  "managedForwardVIPs cfg = map pf_VIP (filter pf_ManageVIP (cf_PortForwards cfg))"

fun withholdVIPs :: "host \<Rightarrow> int \<Rightarrow> string list \<Rightarrow> ('z route_manager_scheme, unit) op" where
  "withholdVIPs env idx [] = ret ()"
| "withholdVIPs env idx (v # vs) =
     andThen (mustUnless isNoSuchAddr ''remove VIP'' (doNet env (AddrDel idx (vipNet v)))) (\<lambda>_. withholdVIPs env idx vs)"

fun addVIPs :: "host \<Rightarrow> int \<Rightarrow> string set \<Rightarrow> string list \<Rightarrow> ('z route_manager_scheme, unit) op" where
  "addVIPs env idx present [] = ret ()"
| "addVIPs env idx present (v # vs) =
     (if vipText v \<in> present then addVIPs env idx present vs
      else andThen (mustUnless isFileExists ''add VIP'' (doNet env (AddrAdd idx (vipNet v)))) (\<lambda>_. addVIPs env idx present vs))"

definition reconcilePortForwardVIPs :: "host \<Rightarrow> config \<Rightarrow> bool \<Rightarrow> ('z route_manager_scheme, unit) op" where
  "reconcilePortForwardVIPs env cfg announceVIPs =
     andThen (find_or ''find device'' (linkByName env (cf_PortForwardDev cfg))) (\<lambda>link.
       if \<not> announceVIPs then withholdVIPs env (ln_Index link) (managedForwardVIPs cfg)
       else andThen (find_or ''list addrs'' (addrList env (ln_Index link))) (\<lambda>addrs.
         addVIPs env (ln_Index link) (set (map IPString addrs)) (managedForwardVIPs cfg)))"

fun withdrawEach :: "host \<Rightarrow> int \<Rightarrow> string list \<Rightarrow> err option \<Rightarrow> 'z route_manager_scheme \<Rightarrow> err option \<times> 'z route_manager_scheme" where
  "withdrawEach env idx [] firstErr rm = (firstErr, rm)"
| "withdrawEach env idx (v # vs) firstErr rm =
     (case doNet env (AddrDel idx (vipNet v)) rm of
        (Some e, rm1) \<Rightarrow>
          if isNoSuchAddr e then withdrawEach env idx vs firstErr rm1
          else withdrawEach env idx vs (if firstErr = None then Some (Err ''remove VIP'') else firstErr) rm1
      | (None, rm1) \<Rightarrow> withdrawEach env idx vs firstErr rm1)"

definition WithdrawVIPAddresses :: "host \<Rightarrow> config \<Rightarrow> string list \<Rightarrow> 'z route_manager_scheme \<Rightarrow> err option \<times> 'z route_manager_scheme" where
  "WithdrawVIPAddresses env cfg vips rm =
     (if vips = [] then (None, rm)
      else if cf_DryRun cfg then (None, rm)
      else (case linkByName env (cf_PortForwardDev cfg) rm of
              (Inl _, rm1) \<Rightarrow> (Some (Err ''find device''), rm1)
            | (Inr link, rm1) \<Rightarrow> withdrawEach env (ln_Index link) vips None rm1))"

subsection \<open>Policy routing of translated packets\<close>

definition fwdRule :: pol_rule where
  "fwdRule = \<lparr>po_Src = None, po_Dst = None, po_Iif = '''', po_Mark = dnatFwmark, po_Table = rtTableMain,
     po_Priority = dnatFwmarkPriority\<rparr>"

definition replyRule :: "config \<Rightarrow> pol_rule" where
  "replyRule cfg = \<lparr>po_Src = None, po_Dst = None, po_Iif = '''', po_Mark = dnatReplyFwmark,
     po_Table = cf_PortForwardTableID cfg, po_Priority = dnatReplyPriority\<rparr>"

definition ensureDNATRouting :: "host \<Rightarrow> config \<Rightarrow> ('z route_manager_scheme, unit) op" where
  "ensureDNATRouting env cfg =
     andThen (mustUnless isFileExists ''add ip rule'' (doNet env (PolRuleAdd fwdRule))) (\<lambda>_.
     andThen (mustUnless isFileExists ''add ip rule'' (doNet env (PolRuleAdd (replyRule cfg)))) (\<lambda>_.
     andThen (find_or ''find veth-default'' (linkByName env vethDefaultName)) (\<lambda>vethLink.
       must ''add default route'' (doNet env (GwRouteReplace
         \<lparr>gr_LinkIndex = ln_Index vethLink, gr_Dst = Some (Net4 0 0), gr_Gw = ParseIP (cf_VethProviderIP cfg),
          gr_Table = cf_PortForwardTableID cfg, gr_Protocol = 0\<rparr>)))))"

definition cleanupDNATRouting :: "host \<Rightarrow> config \<Rightarrow> 'z route_manager_scheme \<Rightarrow> 'z route_manager_scheme" where
  "cleanupDNATRouting env cfg rm =
     (let rm1 = snd (doNet env (PolRuleDel fwdRule) rm);
          rm2 = snd (doNet env (PolRuleDel (replyRule cfg)) rm1)
      in case gwRouteList env None (cf_PortForwardTableID cfg) None rm2 of
           (Inl _, rm3) \<Rightarrow> rm3
         | (Inr routes, rm3) \<Rightarrow> delRoutes env routes rm3)"

fun writeAll :: "host \<Rightarrow> string \<Rightarrow> string list \<Rightarrow> ('z route_manager_scheme, unit) op" where
  "writeAll env msg [] = ret ()"
| "writeAll env msg (path # paths) =
     andThen (must msg (doNet env (WriteFile path (''1'' @ [CHR 0x0A])))) (\<lambda>_. writeAll env msg paths)"

definition ensureVethForwarding :: "host \<Rightarrow> config \<Rightarrow> ('z route_manager_scheme, unit) op" where
  "ensureVethForwarding env cfg =
     andThen (writeAll env ''enable forwarding''
        (map (\<lambda>dev. ''/proc/sys/net/ipv4/conf/'' @ dev @ ''/forwarding'') [vethDefaultName, vethProviderName])) (\<lambda>_.
       if \<not> cf_PortForwardEnabled cfg then ret ()
       else andThen (writeAll env ''enable accept_local''
               [''/proc/sys/net/ipv4/conf/'' @ vethProviderName @ ''/accept_local'']) (\<lambda>_.
              if cf_PortForwardL3mdevAccept cfg
              then writeAll env ''enable l3mdev_accept''
                [''/proc/sys/net/ipv4/udp_l3mdev_accept'', ''/proc/sys/net/ipv4/tcp_l3mdev_accept'']
              else ret ()))"

subsection \<open>Set-up, reconciliation, tear-down\<close>

definition SetupPortForward :: "host \<Rightarrow> config \<Rightarrow> bool \<Rightarrow> ('z route_manager_scheme, unit) op" where
  "SetupPortForward env cfg nftInPath =
     (if \<not> cf_PortForwardEnabled cfg then ret ()
      else if cf_DryRun cfg then ret ()
      else if \<not> nftInPath then fail ''nft binary not found in PATH''
      else andThen (if cf_PortForwardOnly cfg then reconcilePortForwardVIPs env cfg True
                    else andThen (find_or ''find device'' (linkByName env (cf_PortForwardDev cfg))) (\<lambda>_. ret ())) (\<lambda>_.
        andThen (applyNftRuleset env cfg [] []) (\<lambda>_.
        andThen (ensureVethForwarding env cfg) (\<lambda>_.
          ensureDNATRouting env cfg))))"

definition ReconcilePortForward ::
  "host \<Rightarrow> config \<Rightarrow> ipnet list \<Rightarrow> string list \<Rightarrow> bool \<Rightarrow> ('z route_manager_scheme, unit) op" where
  "ReconcilePortForward env cfg providerNetworks snatIPs announceVIPs =
     (if \<not> cf_PortForwardEnabled cfg then ret ()
      else if cf_DryRun cfg then ret ()
      else andThen (reconcilePortForwardVIPs env cfg announceVIPs) (\<lambda>_.
        andThen (applyNftRuleset env cfg providerNetworks snatIPs) (\<lambda>_.
          ensureDNATRouting env cfg)))"

definition recordErr :: "err \<Rightarrow> err option \<Rightarrow> err option" where
  "recordErr e firstErr = (case firstErr of None \<Rightarrow> Some e | Some f \<Rightarrow> Some f)"

definition deleteNftTable :: "host \<Rightarrow> 'z route_manager_scheme \<Rightarrow> err option \<times> 'z route_manager_scheme" where
  "deleteNftTable env rm =
     (case nftTableExists env rm of
        (Inl e, rm1) \<Rightarrow> (Some e, rm1)
      | (Inr False, rm1) \<Rightarrow> (None, rm1)
      | (Inr True, rm1) \<Rightarrow>
          (case nftCmd env [''delete'', ''table'', ''ip'', nftTableName] '''' rm1 of
             ((_, Some _), rm2) \<Rightarrow> (Some (Err ''delete nftables table''), rm2)
           | ((_, None), rm2) \<Rightarrow> (None, rm2)))"

fun dropVIPs :: "host \<Rightarrow> int \<Rightarrow> string list \<Rightarrow> err option \<Rightarrow> 'z route_manager_scheme \<Rightarrow> err option \<times> 'z route_manager_scheme" where
  "dropVIPs env idx [] firstErr rm = (firstErr, rm)"
| "dropVIPs env idx (v # vs) firstErr rm =
     (case doNet env (AddrDel idx (vipNet v)) rm of
        (Some _, rm1) \<Rightarrow> dropVIPs env idx vs (recordErr (Err ''remove VIP'') firstErr) rm1
      | (None, rm1) \<Rightarrow> dropVIPs env idx vs firstErr rm1)"

definition TeardownPortForward :: "host \<Rightarrow> config \<Rightarrow> 'z route_manager_scheme \<Rightarrow> err option \<times> 'z route_manager_scheme" where
  "TeardownPortForward env cfg rm =
     (if \<not> cf_PortForwardEnabled cfg then (None, rm)
      else if cf_DryRun cfg then (None, rm)
      else (let (firstErr, rm1) = deleteNftTable env rm;
                rm2 = cleanupDNATRouting env cfg rm1
            in case linkByName env (cf_PortForwardDev cfg) rm2 of
                 (Inl _, rm3) \<Rightarrow> (firstErr, rm3)
               | (Inr link, rm3) \<Rightarrow> dropVIPs env (ln_Index link) (managedForwardVIPs cfg) firstErr rm3))"

subsection \<open>The addresses of the port-forward device\<close>

text \<open>
  The documented effect of adding and deleting an address on the addresses of the device with index
  \<open>idx\<close>, and a host that answers accordingly: it lists the addresses it has, refuses to add one
  only as existing when it is there, and to delete one only as missing when it is not.
\<close>

fun addrEffect :: "int \<Rightarrow> host_call \<times> bool \<Rightarrow> ipnet set \<Rightarrow> ipnet set" where
  "addrEffect idx (CNet (AddrAdd i n), True) A = (if i = idx then insert n A else A)"
| "addrEffect idx (CNet (AddrDel i n), True) A = (if i = idx then A - {n} else A)"
| "addrEffect idx _ A = A"

definition addrsAfter :: "int \<Rightarrow> history \<Rightarrow> ipnet set \<Rightarrow> ipnet set" where
  "addrsAfter idx h A = fold (addrEffect idx) h A"

lemma addrsAfter_snoc [simp]: "addrsAfter idx (h @ [e]) A = addrEffect idx e (addrsAfter idx h A)"
  by (simp add: addrsAfter_def)

definition netAddr :: "ipnet \<Rightarrow> netip" where
  "netAddr n = (case n of Net4 w _ \<Rightarrow> mapped4 w | Net6 p _ \<Rightarrow> p)"

definition honestAddrs :: "host \<Rightarrow> config \<Rightarrow> int \<Rightarrow> ipnet set \<Rightarrow> bool" where
  "honestAddrs env cfg idx A0 \<longleftrightarrow>
     (\<forall>h l. h_linkByName env h (cf_PortForwardDev cfg) = Inr l \<longrightarrow> ln_Index l = idx) \<and>
     (\<forall>h as. h_addrList env h idx = Inr as \<longrightarrow> set as = netAddr ` {n \<in> addrsAfter idx h A0. \<exists>w k. n = Net4 w k}) \<and>
     (\<forall>h n e. h_net env h (AddrAdd idx n) = Some e \<longrightarrow> isFileExists e \<longrightarrow> n \<in> addrsAfter idx h A0) \<and>
     (\<forall>h n e. h_net env h (AddrDel idx n) = Some e \<longrightarrow> isNoSuchAddr e \<longrightarrow> n \<notin> addrsAfter idx h A0)"

definition vipNets :: "config \<Rightarrow> ipnet set" where
  "vipNets cfg = vipNet ` set (managedForwardVIPs cfg)"

text \<open>A run in which the addresses of the device stay within two bounds.\<close>

definition addrsWithin ::
  "int \<Rightarrow> ipnet set \<Rightarrow> ipnet set \<Rightarrow> ipnet set \<Rightarrow> 'z route_manager_scheme \<Rightarrow> 'z route_manager_scheme \<Rightarrow> bool" where
  "addrsWithin idx A0 lo hi = through (\<lambda>h. lo \<subseteq> addrsAfter idx h A0 \<and> addrsAfter idx h A0 \<subseteq> hi)"

definition addrsNow :: "int \<Rightarrow> ipnet set \<Rightarrow> 'z route_manager_scheme \<Rightarrow> ipnet set" where
  "addrsNow idx A0 rm = addrsAfter idx (rm_hist rm) A0"

lemma addrsNow_log: "addrsNow idx A0 (logCall c ok rm) = addrEffect idx (c, ok) (addrsNow idx A0 rm)"
  by (simp add: addrsNow_def)

lemma within_log:
  "lo \<subseteq> addrsNow idx A0 rm \<Longrightarrow> addrsNow idx A0 rm \<subseteq> hi \<Longrightarrow>
   lo \<subseteq> addrsNow idx A0 (logCall c ok rm) \<Longrightarrow> addrsNow idx A0 (logCall c ok rm) \<subseteq> hi \<Longrightarrow>
   addrsWithin idx A0 lo hi rm (logCall c ok rm)"
  unfolding addrsWithin_def by (rule through_log) (simp_all add: addrsNow_def)

lemma within_trans: "addrsWithin idx A0 lo hi a b \<Longrightarrow> addrsWithin idx A0 lo hi b c \<Longrightarrow> addrsWithin idx A0 lo hi a c"
  unfolding addrsWithin_def by (rule through_trans)

lemma within_refl: "addrsWithin idx A0 lo hi rm rm \<longleftrightarrow> lo \<subseteq> addrsNow idx A0 rm \<and> addrsNow idx A0 rm \<subseteq> hi"
  by (simp add: addrsWithin_def through_refl addrsNow_def)

lemma within_end: "addrsWithin idx A0 lo hi a b \<Longrightarrow> lo \<subseteq> addrsNow idx A0 b \<and> addrsNow idx A0 b \<subseteq> hi"
  unfolding addrsWithin_def addrsNow_def using through_ends by blast

text \<open>One delete, one add: the call, its effect and what the operation makes of its error.\<close>

lemma withhold_one:
  assumes "honestAddrs env cfg idx A0" and "lo \<subseteq> addrsNow idx A0 rm - {n}" and "addrsNow idx A0 rm \<subseteq> hi"
    and "mustUnless isNoSuchAddr msg (doNet env (AddrDel idx n)) rm = (r, rm')"
  shows "addrsWithin idx A0 lo hi rm rm' \<and> (r = Inr () \<longrightarrow> addrsNow idx A0 rm' = addrsNow idx A0 rm - {n}) \<and>
    addrsNow idx A0 rm' \<subseteq> addrsNow idx A0 rm"
proof -
  let ?e = "h_net env (rm_hist rm) (AddrDel idx n)"
  have rm': "rm' = logCall (CNet (AddrDel idx n)) (?e = None) rm"
    using assms(4) by (auto simp: mustUnless_def doNet_def Let_def split: option.splits if_splits)
  have now: "addrsNow idx A0 rm' = (if ?e = None then addrsNow idx A0 rm - {n} else addrsNow idx A0 rm)"
    by (cases ?e) (simp_all add: rm' addrsNow_log)
  have "addrsWithin idx A0 lo hi rm rm'"
    unfolding rm' by (rule within_log) (use assms(2,3) now in \<open>auto simp: rm' split: if_splits\<close>)
  moreover have "addrsNow idx A0 rm' = addrsNow idx A0 rm - {n}" if "r = Inr ()"
  proof (cases ?e)
    case (Some e)
    then have "isNoSuchAddr e" using assms(4) that by (auto simp: mustUnless_def doNet_def Let_def split: if_splits)
    then have "n \<notin> addrsNow idx A0 rm" using assms(1) Some unfolding honestAddrs_def addrsNow_def by blast
    then show ?thesis using now Some by simp
  qed (use now in simp)
  ultimately show ?thesis using now by auto
qed

lemma add_one:
  assumes "honestAddrs env cfg idx A0" and "lo \<subseteq> addrsNow idx A0 rm" and "insert n (addrsNow idx A0 rm) \<subseteq> hi"
    and "mustUnless isFileExists msg (doNet env (AddrAdd idx n)) rm = (r, rm')"
  shows "addrsWithin idx A0 lo hi rm rm' \<and> (r = Inr () \<longrightarrow> n \<in> addrsNow idx A0 rm') \<and>
    addrsNow idx A0 rm \<subseteq> addrsNow idx A0 rm'"
proof -
  let ?e = "h_net env (rm_hist rm) (AddrAdd idx n)"
  have rm': "rm' = logCall (CNet (AddrAdd idx n)) (?e = None) rm"
    using assms(4) by (auto simp: mustUnless_def doNet_def Let_def split: option.splits if_splits)
  have now: "addrsNow idx A0 rm' = (if ?e = None then insert n (addrsNow idx A0 rm) else addrsNow idx A0 rm)"
    by (cases ?e) (simp_all add: rm' addrsNow_log)
  have "addrsWithin idx A0 lo hi rm rm'"
    unfolding rm' by (rule within_log) (use assms(2,3) now in \<open>auto simp: rm' split: if_splits\<close>)
  moreover have "n \<in> addrsNow idx A0 rm'" if "r = Inr ()"
  proof (cases ?e)
    case (Some e)
    then have "isFileExists e" using assms(4) that by (auto simp: mustUnless_def doNet_def Let_def split: if_splits)
    then have "n \<in> addrsNow idx A0 rm" using assms(1) Some unfolding honestAddrs_def addrsNow_def by blast
    then show ?thesis using now Some by simp
  qed (use now in simp)
  ultimately show ?thesis using now by auto
qed

lemma withholdVIPs_run:
  assumes "honestAddrs env cfg idx A0" and "lo \<subseteq> addrsNow idx A0 rm - vipNet ` set vs" and "addrsNow idx A0 rm \<subseteq> hi"
    and "withholdVIPs env idx vs rm = (r, rm')"
  shows "addrsWithin idx A0 lo hi rm rm' \<and> (r = Inr () \<longrightarrow> addrsNow idx A0 rm' = addrsNow idx A0 rm - vipNet ` set vs)"
  using assms(2-4)
proof (induction vs arbitrary: rm)
  case Nil
  then show ?case by (auto simp: ret_def within_refl)
next
  case (Cons v vs)
  obtain r1 rm1 where one: "mustUnless isNoSuchAddr ''remove VIP'' (doNet env (AddrDel idx (vipNet v))) rm = (r1, rm1)"
    by fastforce
  have lo: "lo \<subseteq> addrsNow idx A0 rm - {vipNet v}" using Cons.prems(1) by auto
  note first = withhold_one [OF assms(1) lo Cons.prems(2) one]
  show ?case
  proof (cases r1)
    case (Inl e)
    then show ?thesis using Cons.prems(3) first one by (auto simp: andThen_def)
  next
    case (Inr u)
    have now: "addrsNow idx A0 rm1 = addrsNow idx A0 rm - {vipNet v}" using first Inr by simp
    have rest: "withholdVIPs env idx vs rm1 = (r, rm')" using Cons.prems(3) one Inr by (simp add: andThen_def)
    have bounds: "lo \<subseteq> addrsNow idx A0 rm1 - vipNet ` set vs" "addrsNow idx A0 rm1 \<subseteq> hi"
      using Cons.prems(1,2) now by auto
    note later = Cons.IH [OF bounds rest]
    have "addrsWithin idx A0 lo hi rm rm'"
      using within_trans [of idx A0 lo hi rm rm1 rm'] first later by blast
    moreover have "addrsNow idx A0 rm1 - vipNet ` set vs = addrsNow idx A0 rm - vipNet ` set (v # vs)"
      unfolding now by auto
    ultimately show ?thesis using later by simp
  qed
qed

lemma addVIPs_run:
  assumes "honestAddrs env cfg idx A0" and "lo \<subseteq> addrsNow idx A0 rm"
    and "addrsNow idx A0 rm \<union> vipNet ` set vs \<subseteq> hi" and "addVIPs env idx present vs rm = (r, rm')"
  shows "addrsWithin idx A0 lo hi rm rm' \<and> addrsNow idx A0 rm \<subseteq> addrsNow idx A0 rm' \<and>
    (r = Inr () \<longrightarrow> (\<forall>v\<in>set vs. vipText v \<in> present \<or> vipNet v \<in> addrsNow idx A0 rm'))"
  using assms(2-4)
proof (induction vs arbitrary: rm)
  case Nil
  then show ?case by (auto simp: ret_def within_refl)
next
  case (Cons v vs)
  show ?case
  proof (cases "vipText v \<in> present")
    case True
    then show ?thesis using Cons by auto
  next
    case False
    obtain r1 rm1 where one: "mustUnless isFileExists ''add VIP'' (doNet env (AddrAdd idx (vipNet v))) rm = (r1, rm1)"
      by fastforce
    have hi: "insert (vipNet v) (addrsNow idx A0 rm) \<subseteq> hi" using Cons.prems(2) by auto
    note first = add_one [OF assms(1) Cons.prems(1) hi one]
    show ?thesis
    proof (cases r1)
      case (Inl e)
      then show ?thesis using Cons.prems(3) first one False by (auto simp: andThen_def)
    next
      case (Inr u)
      have "addVIPs env idx present vs rm1 = (r, rm')" using Cons.prems(3) one Inr False by (simp add: andThen_def)
      moreover have "lo \<subseteq> addrsNow idx A0 rm1 \<and> addrsNow idx A0 rm1 \<union> vipNet ` set vs \<subseteq> hi"
        using first within_end [of idx A0 lo hi rm rm1] Cons.prems(2) by auto
      ultimately have "addrsWithin idx A0 lo hi rm1 rm' \<and> addrsNow idx A0 rm1 \<subseteq> addrsNow idx A0 rm' \<and>
          (r = Inr () \<longrightarrow> (\<forall>v\<in>set vs. vipText v \<in> present \<or> vipNet v \<in> addrsNow idx A0 rm'))"
        by (intro Cons.IH) simp_all
      then show ?thesis using first Inr within_trans [of idx A0 lo hi rm rm1 rm'] by auto
    qed
  qed
qed

definition vipsParse :: "config \<Rightarrow> bool" where
  "vipsParse cfg \<longleftrightarrow> (\<forall>v\<in>set (managedForwardVIPs cfg). isIPv4 v)"

lemma vipNet_v4: "isIPv4 v \<Longrightarrow> \<exists>w. vipNet v = Net4 w 32 \<and> vipText v = ip4String w"
  by (auto simp: isIPv4_def vipNet_def vipText_def hostNet_def IPString_def split: option.splits)

lemma listed_address:
  assumes "honestAddrs env cfg idx A0" and "addrList env idx rm = (Inr addrs, rm1)" and "isIPv4 v"
    and "vipText v \<in> set (map IPString addrs)"
  shows "\<exists>w k. vipNet v = Net4 w 32 \<and> Net4 w k \<in> addrsNow idx A0 rm"
proof -
  obtain w where w: "vipNet v = Net4 w 32" "vipText v = ip4String w" using vipNet_v4 [OF assms(3)] by blast
  have "set addrs = netAddr ` {n \<in> addrsNow idx A0 rm. \<exists>w k. n = Net4 w k}"
    using assms(1,2) unfolding honestAddrs_def addrList_def addrsNow_def Let_def by blast
  with assms(4) w obtain u k where "Net4 u k \<in> addrsNow idx A0 rm" "ip4String w = IPString (netAddr (Net4 u k))"
    by auto
  then show ?thesis using w by (auto simp: netAddr_def ip4String_inj)
qed

lemma addrsNow_reads [simp]:
  "addrsNow idx A0 (logCall (CLinkByName n) ok rm) = addrsNow idx A0 rm"
  "addrsNow idx A0 (logCall (CAddrList i) ok rm) = addrsNow idx A0 rm"
  by (simp_all add: addrsNow_log)

lemma within_reads:
  "addrsWithin idx A0 lo hi rm rm' \<Longrightarrow> addrsWithin idx A0 lo hi rm (logCall (CLinkByName n) ok rm')"
  "addrsWithin idx A0 lo hi rm rm' \<Longrightarrow> addrsWithin idx A0 lo hi rm (logCall (CAddrList i) ok rm')"
  by (rule within_trans, assumption, rule within_log; use within_end in fastforce)+

text \<open>
  C39: the VIP addresses follow the announcement. On a device whose answers are honest, while the VIPs
  are announced no address is ever removed and only managed VIPs are added, and a run without an error
  ends with every managed VIP present; while they are withheld only managed VIPs are removed, and a
  run without an error ends with exactly the other addresses.
\<close>

theorem vip_addresses_follow_the_announcement:
  assumes "honestAddrs env cfg idx A0" and "vipsParse cfg"
    and "reconcilePortForwardVIPs env cfg announce rm = (r, rm')"
  shows "(if announce
      then addrsWithin idx A0 (addrsNow idx A0 rm) (addrsNow idx A0 rm \<union> vipNets cfg) rm rm'
      else addrsWithin idx A0 (addrsNow idx A0 rm - vipNets cfg) (addrsNow idx A0 rm) rm rm') \<and>
    (r = Inr () \<longrightarrow>
      (if announce then \<forall>v\<in>set (managedForwardVIPs cfg). \<exists>w k. vipNet v = Net4 w 32 \<and> Net4 w k \<in> addrsNow idx A0 rm'
       else addrsNow idx A0 rm' = addrsNow idx A0 rm - vipNets cfg))"
proof -
  let ?dev = "cf_PortForwardDev cfg"
  define rm1 where "rm1 = snd (linkByName env ?dev rm)"
  have rm1: "rm1 = logCall (CLinkByName ?dev) (\<not> isl (fst (linkByName env ?dev rm))) rm"
    by (simp add: rm1_def linkByName_def Let_def)
  then have now1: "addrsNow idx A0 rm1 = addrsNow idx A0 rm" by simp
  have step1: "addrsWithin idx A0 lo hi rm rm1" if "lo \<subseteq> addrsNow idx A0 rm" "addrsNow idx A0 rm \<subseteq> hi" for lo hi
    unfolding rm1 by (rule within_reads) (use that in \<open>simp add: within_refl\<close>)
  show ?thesis
  proof (cases "h_linkByName env (rm_hist rm) ?dev")
    case (Inl e)
    then have "rm' = rm1" "r \<noteq> Inr ()"
      using assms(3) by (auto simp: reconcilePortForwardVIPs_def andThen_def find_or_def linkByName_def rm1_def Let_def)
    then show ?thesis using step1 [of "addrsNow idx A0 rm" "addrsNow idx A0 rm \<union> vipNets cfg"]
        step1 [of "addrsNow idx A0 rm - vipNets cfg" "addrsNow idx A0 rm"] by auto
  next
    case (Inr l)
    have idx: "ln_Index l = idx" using assms(1) Inr unfolding honestAddrs_def by blast
    show ?thesis
    proof (cases announce)
      case False
      then have "withholdVIPs env idx (managedForwardVIPs cfg) rm1 = (r, rm')"
        using assms(3) Inr idx
        by (simp add: reconcilePortForwardVIPs_def andThen_def find_or_def linkByName_def rm1_def Let_def)
      from withholdVIPs_run [OF assms(1) _ _ this, of "addrsNow idx A0 rm - vipNets cfg" "addrsNow idx A0 rm"]
      have "addrsWithin idx A0 (addrsNow idx A0 rm - vipNets cfg) (addrsNow idx A0 rm) rm1 rm'"
        "r = Inr () \<longrightarrow> addrsNow idx A0 rm' = addrsNow idx A0 rm - vipNets cfg"
        by (simp_all add: now1 vipNets_def)
      then show ?thesis using False within_trans [OF step1] by (simp add: Diff_subset)
    next
      case True
      obtain s rm2 where al: "addrList env idx rm1 = (s, rm2)" by fastforce
      then have rm2: "rm2 = logCall (CAddrList idx) (\<not> isl s) rm1" by (auto simp: addrList_def Let_def)
      then have now2: "addrsNow idx A0 rm2 = addrsNow idx A0 rm" by (simp add: now1)
      have step2: "addrsWithin idx A0 (addrsNow idx A0 rm) (addrsNow idx A0 rm \<union> vipNets cfg) rm rm2"
        unfolding rm2 by (intro within_reads step1) auto
      show ?thesis
      proof (cases s)
        case (Inl e)
        then have "rm' = rm2" "r \<noteq> Inr ()"
          using assms(3) Inr idx True al
          by (auto simp: reconcilePortForwardVIPs_def andThen_def find_or_def linkByName_def rm1_def Let_def)
        then show ?thesis using True step2 by simp
      next
        case addrs: (Inr addrs)
        then have "addVIPs env idx (set (map IPString addrs)) (managedForwardVIPs cfg) rm2 = (r, rm')"
          using assms(3) Inr idx True al
          by (simp add: reconcilePortForwardVIPs_def andThen_def find_or_def linkByName_def rm1_def Let_def)
        from addVIPs_run [OF assms(1) _ _ this, of "addrsNow idx A0 rm" "addrsNow idx A0 rm \<union> vipNets cfg"]
        have run: "addrsWithin idx A0 (addrsNow idx A0 rm) (addrsNow idx A0 rm \<union> vipNets cfg) rm2 rm'"
          "addrsNow idx A0 rm \<subseteq> addrsNow idx A0 rm'"
          "r = Inr () \<longrightarrow> (\<forall>v\<in>set (managedForwardVIPs cfg). vipText v \<in> set (map IPString addrs) \<or> vipNet v \<in> addrsNow idx A0 rm')"
          by (simp_all add: now2 vipNets_def)
        have "\<exists>w k. vipNet v = Net4 w 32 \<and> Net4 w k \<in> addrsNow idx A0 rm'"
          if v: "v \<in> set (managedForwardVIPs cfg)" and ok: "r = Inr ()" for v
        proof -
          have v4: "isIPv4 v" using assms(2) v by (auto simp: vipsParse_def)
          show ?thesis
          proof (cases "vipText v \<in> set (map IPString addrs)")
            case True
            from listed_address [OF assms(1) _ v4 True] al addrs now1 run(2) show ?thesis by fastforce
          next
            case False
            with run(3) ok v have "vipNet v \<in> addrsNow idx A0 rm'" by blast
            then show ?thesis using vipNet_v4 [OF v4] by auto
          qed
        qed
        with run(1) True step2 within_trans show ?thesis by (simp only: if_True) blast
      qed
    qed
  qed
qed

definition demo_pf_cfg :: config where
  "demo_pf_cfg = zeroConfig\<lparr>cf_PortForwardDev := ''loopback1'', cf_PortForwards :=
     [\<lparr>pf_VIP = ip4String 3221225993, pf_ManageVIP = True, pf_Masquerade = False, pf_HairpinMasquerade = False,
       pf_RouterMasquerade = False, pf_Rules = []\<rparr>]\<rparr>"

definition demo_pf_host :: host where
  "demo_pf_host = demo_host\<lparr>h_linkByName := \<lambda>_ _. Inr demo_link, h_net := \<lambda>_ _. None, h_addrList := \<lambda>_ _. Inl (EOther ''busy'')\<rparr>"

definition demo_pf_addrs :: "ipnet set" where
  "demo_pf_addrs = {Net4 3221225993 32, Net4 167772161 24}"

lemma vip_addresses_follow_the_announcement_witness:
  "addrsNow 5 demo_pf_addrs (snd (reconcilePortForwardVIPs demo_pf_host demo_pf_cfg False demo_rm)) = {Net4 167772161 24}"
proof -
  have managed: "managedForwardVIPs demo_pf_cfg = [ip4String 3221225993]"
    by (simp add: managedForwardVIPs_def demo_pf_cfg_def)
  have honest: "honestAddrs demo_pf_host demo_pf_cfg 5 demo_pf_addrs"
    by (simp add: honestAddrs_def demo_pf_host_def demo_link_def)
  have parse: "vipsParse demo_pf_cfg"
    by (simp add: vipsParse_def managed isIPv4_def)
  have net: "vipNet (ip4String 3221225993) = Net4 3221225993 32"
    by (simp add: vipNet_def hostNet_def)
  obtain r rm' where run: "reconcilePortForwardVIPs demo_pf_host demo_pf_cfg False demo_rm = (r, rm')" by fastforce
  have "r = Inr ()"
    using run by (simp add: reconcilePortForwardVIPs_def managed andThen_def find_or_def linkByName_def demo_pf_host_def
        mustUnless_def doNet_def ret_def)
  then have "addrsNow 5 demo_pf_addrs rm' = addrsNow 5 demo_pf_addrs demo_rm - vipNets demo_pf_cfg"
    using vip_addresses_follow_the_announcement [OF honest parse run] by simp
  also have "\<dots> = {Net4 167772161 24}"
    by (auto simp: addrsNow_def addrsAfter_def demo_rm_def demo_pf_addrs_def vipNets_def managed net)
  finally show ?thesis using run by simp
qed

subsection \<open>Every forwarded flow has a conntrack zone\<close>


definition demo_backend :: port_forward_rule where
  "demo_backend = \<lparr>pr_Proto = ''tcp'', pr_Port = 443, pr_DestAddr = ''10.0.0.7'', pr_DestAddrs = [],
     pr_DestPort = 8443, pr_Masquerade = None\<rparr>"

definition demo_vip :: port_forward_vip where
  "demo_vip = \<lparr>pf_VIP = ''192.0.2.9'', pf_ManageVIP = True, pf_Masquerade = False, pf_HairpinMasquerade = False,
     pf_RouterMasquerade = False, pf_Rules = [demo_backend]\<rparr>"


end
