(* ===== verification/OvnWrites.thy ===== *)
theory OvnWrites
  imports OvnRefresh
begin

section \<open>Writes to the northbound database: gateway routing and its cleanup\<close>

text \<open>
  The first half of \<open>ovn_gateway.go\<close>: the managed default route and static MAC binding of each
  local router, the takeover marker, and the removal of managed rows at shutdown and after a
  chassis has vanished. The two databases are parameters: what the caches list and the servers
  answer (\<open>en_view\<close>), what a transaction is answered (\<open>en_transact\<close> for the call itself and
  \<open>en_results\<close> for \<open>CheckOperationResults\<close>) and whether \<open>libovsdb\<close> can build an operation
  (\<open>en_build\<close>). Every answer depends on the history of reads and transactions so far, so other
  clients may change the rows between any two of them.
\<close>

datatype nb_op =
    UpdateRoute nb_static_route "string list"
  | InsertRoute nb_static_route
  | DeleteRoute nb_static_route
  | InsertStaticRoute string string
  | RemoveStaticRoute string string
  | UpdateMAC nb_mac_binding
  | InsertMAC nb_mac_binding
  | DeleteMAC nb_mac_binding
  | UpdatePriority nb_gateway_chassis

datatype nb_event = EvRead string | EvSent "nb_op list" bool | EvWait

type_synonym nb_history = "nb_event list"

datatype wake = CtxDone | PortChanged | Recheck | Tick

record nb_view = ovn_view +
  v_StaticRoutes :: "nb_static_route list result"
  v_MACBindings :: "nb_mac_binding list result"
  v_GatewayChassis :: "nb_gateway_chassis list result"
  v_chassisRows :: "string \<Rightarrow> select_reply"
  v_redirectRows :: select_reply

record nb_env =
  en_view :: "nb_history \<Rightarrow> nb_view"
  en_build :: "nb_op \<Rightarrow> err option"
  en_transact :: "nb_history \<Rightarrow> nb_op list \<Rightarrow> err option"
  en_results :: "nb_history \<Rightarrow> nb_op list \<Rightarrow> err option"
  en_wake :: "nat \<Rightarrow> wake"

subsection \<open>Reads and transactions\<close>

definition listCache :: "nb_env \<Rightarrow> (nb_view \<Rightarrow> 'a) \<Rightarrow> string \<Rightarrow> nb_history \<Rightarrow> 'a \<times> nb_history" where
  "listCache env sel table h = (sel (en_view env h), h @ [EvRead table])"

definition guardedRoutes :: "nb_view \<Rightarrow> nb_static_route list result" where
  "guardedRoutes v = cachedList (v_StaticRoutes v) (v_nbSelect v) ''Logical_Router_Static_Route''
     lrsrCheckColumns keyOfNBLogicalRouterStaticRoute decodeNBLogicalRouterStaticRoute"

definition guardedRouters :: "nb_view \<Rightarrow> nb_router list result" where
  "guardedRouters v = cachedList (v_Routers v) (v_nbSelect v) ''Logical_Router''
     lrCheckColumns keyOfNBLogicalRouter decodeNBLogicalRouter"

definition guardedBindings :: "nb_view \<Rightarrow> nb_mac_binding list result" where
  "guardedBindings v = cachedList (v_MACBindings v) (v_nbSelect v) ''Static_MAC_Binding''
     smbCheckColumns keyOfNBStaticMACBinding decodeNBStaticMACBinding"

definition transactOps :: "nb_env \<Rightarrow> nb_op list \<Rightarrow> nb_history \<Rightarrow> err option \<times> nb_history" where
  "transactOps env ops h =
     (let verdict = (case en_transact env h ops of Some e \<Rightarrow> Some e | None \<Rightarrow> en_results env h ops)
      in (verdict, h @ [EvSent ops (verdict = None)]))"

text \<open>The operations \<open>libovsdb\<close> could build, in order; a failed build is logged and skipped.\<close>

definition buildable :: "nb_env \<Rightarrow> nb_op list \<Rightarrow> nb_op list" where
  "buildable env = filter (\<lambda>x. en_build env x = None)"

subsection \<open>The virtual gateway address\<close>

definition ipNetIP4 :: "ipnet \<Rightarrow> 32 word" where
  "ipNetIP4 net = (case net of Net4 w _ \<Rightarrow> w | Net6 w _ \<Rightarrow> ucast w)"

fun virtualGatewayIP :: "string list \<Rightarrow> 32 word result" where
  "virtualGatewayIP [] = Inl (Err ''no valid IPv4 CIDR in LRP networks'')"
| "virtualGatewayIP (cidr # rest) =
     (case ParseCIDR cidr of
        None \<Rightarrow> virtualGatewayIP rest
      | Some (ip, ipNet) \<Rightarrow>
          (let (ones, bits) = MaskSize ipNet
           in if To4 ip = None then virtualGatewayIP rest
              else if ones = 32 \<or> bits \<noteq> 32 then virtualGatewayIP rest
              else (let hostBits = push_bit (32 - ones) 1 - 1;
                        netInt = ipNetIP4 ipNet
                    in Inr ((netInt OR hostBits) - 1))))"

subsection \<open>Managed rows\<close>

definition extID :: "nb_static_route \<Rightarrow> string \<Rightarrow> string" where
  "extID r k = mget (nilMap (sr_ExternalIDs r)) k"

definition isManaged :: "nb_static_route \<Rightarrow> bool" where
  "isManaged r \<longleftrightarrow> sr_ExternalIDs r \<noteq> None \<and> extID r ''ovn-network-agent'' = ''managed''"

definition setExtID :: "string \<Rightarrow> string \<Rightarrow> nb_static_route \<Rightarrow> nb_static_route" where
  "setExtID k v r = r\<lparr>sr_ExternalIDs := Some (AList.update k v (nilMap (sr_ExternalIDs r)))\<rparr>"

definition chassisKey :: string where "chassisKey = ''ovn-network-agent-chassis''"

definition takeoverReadyMarkerKey :: string where
  "takeoverReadyMarkerKey = ''ovn-network-agent-advertised''"

definition defaultPrefix :: string where "defaultPrefix = ''0.0.0.0/0''"

subsection \<open>The default route and the MAC binding of a router\<close>

definition newDefaultRoute :: "string \<Rightarrow> string \<Rightarrow> string \<Rightarrow> nb_static_route" where
  "newDefaultRoute vgwIP lrp chassis =
     \<lparr>sr_UUID = ''new_route'', sr_IPPrefix = defaultPrefix, sr_Nexthop = vgwIP, sr_OutputPort = Some lrp,
      sr_ExternalIDs = Some [(''ovn-network-agent'', ''managed''), (chassisKey, chassis)]\<rparr>"

definition sendOne :: "nb_env \<Rightarrow> nb_op \<Rightarrow> nb_op list \<Rightarrow> nb_history \<Rightarrow> err option \<times> nb_history" where
  "sendOne env x rest h =
     (case en_build env x of Some e \<Rightarrow> (Some e, h) | None \<Rightarrow> transactOps env (x # rest) h)"

definition fixDefaultRoute ::
  "nb_env \<Rightarrow> string \<Rightarrow> local_router \<Rightarrow> string \<Rightarrow> nb_static_route \<Rightarrow> nb_history \<Rightarrow> err option \<times> nb_history" where
  "fixDefaultRoute env localChassis lr vgwIP route h =
     (if \<not> isManaged route then (None, h)
      else if sr_Nexthop route = vgwIP
      then (if extID route chassisKey \<noteq> localChassis
            then sendOne env (UpdateRoute (setExtID chassisKey localChassis route) [''external_ids'']) [] h
            else (None, h))
      else sendOne env (UpdateRoute (setExtID chassisKey localChassis
                           (route\<lparr>sr_Nexthop := vgwIP, sr_OutputPort := Some (lri_LRPName lr)\<rparr>))
                         [''nexthop'', ''output_port'', ''external_ids'']) [] h)"

text \<open>The first route of the listing that the router owns and that is a default route.\<close>

definition firstDefault :: "nb_router \<Rightarrow> nb_static_route list \<Rightarrow> nb_static_route option" where
  "firstDefault router routes =
     find (\<lambda>r. sr_UUID r \<in> set (lr_StaticRoutes router) \<and> sr_IPPrefix r = defaultPrefix) routes"

definition ensureDefaultRoute ::
  "nb_env \<Rightarrow> string \<Rightarrow> local_router \<Rightarrow> string \<Rightarrow> nb_history \<Rightarrow> err option \<times> nb_history" where
  "ensureDefaultRoute env localChassis lr vgwIP h =
     (case listCache env v_StaticRoutes ''Logical_Router_Static_Route'' h of
        (Inl e, h1) \<Rightarrow> (Some e, h1)
      | (Inr routes, h1) \<Rightarrow>
     (case listCache env v_Routers ''Logical_Router'' h1 of
        (Inl e, h2) \<Rightarrow> (Some e, h2)
      | (Inr routers, h2) \<Rightarrow>
     (case find (\<lambda>r. lr_UUID r = lri_RouterUUID lr) routers of
        None \<Rightarrow> (Some (Err ''router not found''), h2)
      | Some router \<Rightarrow>
     (case firstDefault router routes of
        Some route \<Rightarrow> fixDefaultRoute env localChassis lr vgwIP route h2
      | None \<Rightarrow> sendOne env (InsertRoute (newDefaultRoute vgwIP (lri_LRPName lr) localChassis))
                   [InsertStaticRoute (lri_RouterUUID lr) ''new_route''] h2))))"

definition ensureStaticMACBinding ::
  "nb_env \<Rightarrow> string \<Rightarrow> string \<Rightarrow> string \<Rightarrow> nb_history \<Rightarrow> err option \<times> nb_history" where
  "ensureStaticMACBinding env lrpName ip mac h =
     (case listCache env v_MACBindings ''Static_MAC_Binding'' h of
        (Inl e, h1) \<Rightarrow> (Some e, h1)
      | (Inr bindings, h1) \<Rightarrow>
     (case find (\<lambda>b. mb_LogicalPort b = lrpName \<and> mb_IP b = ip) bindings of
        Some b \<Rightarrow> if mb_MAC b = mac then (None, h1)
                  else sendOne env (UpdateMAC (b\<lparr>mb_MAC := mac\<rparr>)) [] h1
      | None \<Rightarrow> sendOne env (InsertMAC \<lparr>mb_UUID = ''new_mac_binding'', mb_LogicalPort = lrpName,
                   mb_IP = ip, mb_MAC = mac\<rparr>) [] h1))"

definition ensureRouter ::
  "nb_env \<Rightarrow> string \<Rightarrow> smap \<Rightarrow> local_router \<Rightarrow> nb_history \<Rightarrow> err list \<times> nb_history" where
  "ensureRouter env localChassis macForLRP lr h =
     (let mac = mget macForLRP (lri_LRPName lr) in
      if mac = '''' then ([], h)
      else (case virtualGatewayIP (lri_LRPNetworks lr) of
              Inl _ \<Rightarrow> ([], h)
            | Inr w \<Rightarrow>
                (case ensureDefaultRoute env localChassis lr (ip4String w) h of
                   (Some e, h1) \<Rightarrow> ([e], h1)
                 | (None, h1) \<Rightarrow>
                     (case ensureStaticMACBinding env (lri_LRPName lr) (ip4String w) mac h1 of
                        (Some e, h2) \<Rightarrow> ([e], h2)
                      | (None, h2) \<Rightarrow> ([], h2)))))"

text \<open>The joined error: no error at all when the list is empty.\<close>

definition EnsureGatewayRouting ::
  "nb_env \<Rightarrow> string \<Rightarrow> local_router list \<Rightarrow> smap \<Rightarrow> nb_history \<Rightarrow> err list \<times> nb_history" where
  "EnsureGatewayRouting env localChassis localRouters macForLRP h =
     foldl (\<lambda>(errs, h) lr. let (es, h1) = ensureRouter env localChassis macForLRP lr h in (errs @ es, h1))
       ([], h) localRouters"

subsection \<open>The takeover marker\<close>

definition localManagedDefaultRoutes ::
  "nb_env \<Rightarrow> local_router list \<Rightarrow> nb_history \<Rightarrow> nb_static_route list result \<times> nb_history" where
  "localManagedDefaultRoutes env localRouters h =
     (if localRouters = [] then (Inr [], h)
      else (let localRouterUUIDs = lri_RouterUUID ` set localRouters in
     (case listCache env guardedRouters ''Logical_Router'' h of
        (Inl e, h1) \<Rightarrow> (Inl e, h1)
      | (Inr routers, h1) \<Rightarrow>
          (let owned = (\<Union>r \<in> set (filter (\<lambda>r. lr_UUID r \<in> localRouterUUIDs) routers). set (lr_StaticRoutes r)) in
     (case listCache env guardedRoutes ''Logical_Router_Static_Route'' h1 of
        (Inl e, h2) \<Rightarrow> (Inl e, h2)
      | (Inr routes, h2) \<Rightarrow>
          (Inr (filter (\<lambda>r. sr_UUID r \<in> owned \<and> sr_IPPrefix r = defaultPrefix \<and> isManaged r) routes), h2))))))"

definition markOps :: "string \<Rightarrow> nb_static_route list \<Rightarrow> nb_op list" where
  "markOps localChassis routes =
     map (\<lambda>r. UpdateRoute (setExtID takeoverReadyMarkerKey localChassis r) [''external_ids''])
       (filter (\<lambda>r. extID r takeoverReadyMarkerKey \<noteq> localChassis) routes)"

definition sendBatch :: "nb_env \<Rightarrow> nb_op list \<Rightarrow> nb_history \<Rightarrow> err option \<times> nb_history" where
  "sendBatch env ops h = (if ops = [] then (None, h) else transactOps env ops h)"

definition MarkTakeoverReady ::
  "nb_env \<Rightarrow> string \<Rightarrow> local_router list \<Rightarrow> nb_history \<Rightarrow> err option \<times> nb_history" where
  "MarkTakeoverReady env localChassis localRouters h =
     (if localRouters = [] then (None, h)
      else (case localManagedDefaultRoutes env localRouters h of
              (Inl e, h1) \<Rightarrow> (Some e, h1)
            | (Inr routes, h1) \<Rightarrow> sendBatch env (buildable env (markOps localChassis routes)) h1))"

subsection \<open>Removing managed rows at shutdown\<close>

text \<open>
  A failed removal is logged and the loop goes on; only a failed listing ends the run. Each
  transaction unlinks the route from its router and deletes the row.
\<close>

definition removeRoute :: "nb_env \<Rightarrow> nb_router \<Rightarrow> nb_static_route \<Rightarrow> nb_history \<Rightarrow> nb_history" where
  "removeRoute env router route h =
     (if en_build env (DeleteRoute route) \<noteq> None then h
      else snd (transactOps env [RemoveStaticRoute (lr_UUID router) (sr_UUID route), DeleteRoute route] h))"

definition removeBinding :: "nb_env \<Rightarrow> nb_mac_binding \<Rightarrow> nb_history \<Rightarrow> nb_history" where
  "removeBinding env b h =
     (if en_build env (DeleteMAC b) \<noteq> None then h else snd (transactOps env [DeleteMAC b] h))"

definition removeLocalRoute ::
  "nb_env \<Rightarrow> string set \<Rightarrow> nb_router list \<Rightarrow> nb_history \<Rightarrow> nb_static_route \<Rightarrow> nb_history" where
  "removeLocalRoute env localRouterUUIDs routers h route =
     (if \<not> isManaged route then h
      else (case find (\<lambda>r. lr_UUID r \<in> localRouterUUIDs \<and> sr_UUID route \<in> set (lr_StaticRoutes r)) routers of
              None \<Rightarrow> h
            | Some router \<Rightarrow> removeRoute env router route h))"

definition RemoveManagedNBEntries ::
  "nb_env \<Rightarrow> ovn_state \<Rightarrow> nb_history \<Rightarrow> err option \<times> nb_history" where
  "RemoveManagedNBEntries env st h =
     (let localRouterUUIDs = lri_RouterUUID ` set (st_LocalRouters st);
          localPorts = lri_LRPName ` set (st_LocalRouters st)
      in if st_LocalRouters st = [] then (None, h)
         else
     (case listCache env guardedRoutes ''Logical_Router_Static_Route'' h of
        (Inl e, h1) \<Rightarrow> (Some e, h1)
      | (Inr routes, h1) \<Rightarrow>
     (case listCache env guardedRouters ''Logical_Router'' h1 of
        (Inl e, h2) \<Rightarrow> (Some e, h2)
      | (Inr routers, h2) \<Rightarrow>
          (let h3 = foldl (removeLocalRoute env localRouterUUIDs routers) h2 routes in
     (case listCache env guardedBindings ''Static_MAC_Binding'' h3 of
        (Inl e, h4) \<Rightarrow> (Some e, h4)
      | (Inr bindings, h4) \<Rightarrow>
          (None, foldl (\<lambda>h b. if mb_LogicalPort b \<in> localPorts then removeBinding env b h else h) h4 bindings))))))"

subsection \<open>Rows of a chassis that no longer exists\<close>

text \<open>The chassis the managed routes name, or \<open>None\<close> (a nil map) when the routes cannot be listed.\<close>

definition ListManagedRouteChassis :: "nb_env \<Rightarrow> nb_history \<Rightarrow> string set option \<times> nb_history" where
  "ListManagedRouteChassis env h =
     (case listCache env guardedRoutes ''Logical_Router_Static_Route'' h of
        (Inl _, h1) \<Rightarrow> (None, h1)
      | (Inr routes, h1) \<Rightarrow> (Some (set (filter (\<lambda>c. c \<noteq> '''') (map (\<lambda>r. extID r chassisKey) (filter isManaged routes)))), h1))"

definition routeToRouter :: "nb_router list \<Rightarrow> (string \<rightharpoonup> nb_router)" where
  "routeToRouter routers = map_of (rev (concat (map (\<lambda>r. map (\<lambda>u. (u, r)) (lr_StaticRoutes r)) routers)))"

definition liveOutputPorts :: "string set \<Rightarrow> nb_static_route list \<Rightarrow> string set" where
  "liveOutputPorts stale routes =
     set (List.map_filter (\<lambda>r. if isManaged r \<and> extID r chassisKey \<noteq> '''' \<and> extID r chassisKey \<notin> stale
                               then sr_OutputPort r else None) routes)"

record mac_key =
  mk_LogicalPort :: string
  mk_IP :: string

definition staleRoute :: "string set \<Rightarrow> nb_router list \<Rightarrow> nb_static_route \<Rightarrow> bool" where
  "staleRoute stale routers r \<longleftrightarrow>
     isManaged r \<and> extID r chassisKey \<noteq> '''' \<and> extID r chassisKey \<in> stale \<and>
     routeToRouter routers (sr_UUID r) \<noteq> None"

definition removeStaleRoute ::
  "nb_env \<Rightarrow> string set \<Rightarrow> nb_router list \<Rightarrow> string set \<Rightarrow> mac_key set \<times> nb_history \<Rightarrow> nb_static_route \<Rightarrow>
   mac_key set \<times> nb_history" where
  "removeStaleRoute env stale routers live acc route =
     (let (keys, h) = acc in
      if \<not> isManaged route then acc
      else if extID route chassisKey = '''' then acc
      else if extID route chassisKey \<notin> stale then acc
      else (case routeToRouter routers (sr_UUID route) of
              None \<Rightarrow> acc
            | Some router \<Rightarrow>
                ((case sr_OutputPort route of
                    Some port \<Rightarrow> if port \<notin> live
                      then insert \<lparr>mk_LogicalPort = port, mk_IP = sr_Nexthop route\<rparr> keys else keys
                  | None \<Rightarrow> keys),
                 removeRoute env router route h)))"

definition CleanupStaleChassisManagedEntries ::
  "nb_env \<Rightarrow> string set \<Rightarrow> nb_history \<Rightarrow> err option \<times> nb_history" where
  "CleanupStaleChassisManagedEntries env stale h =
     (case listCache env guardedRoutes ''Logical_Router_Static_Route'' h of
        (Inl e, h1) \<Rightarrow> (Some e, h1)
      | (Inr routes, h1) \<Rightarrow>
     (case listCache env guardedRouters ''Logical_Router'' h1 of
        (Inl e, h2) \<Rightarrow> (Some e, h2)
      | (Inr routers, h2) \<Rightarrow>
          (let (keys, h3) = foldl (removeStaleRoute env stale routers (liveOutputPorts stale routes)) ({}, h2) routes
           in if keys = {} then (None, h3)
              else
     (case listCache env guardedBindings ''Static_MAC_Binding'' h3 of
        (Inl e, h4) \<Rightarrow> (Some e, h4)
      | (Inr bindings, h4) \<Rightarrow>
          (None, foldl (\<lambda>h b. if \<lparr>mk_LogicalPort = mb_LogicalPort b, mk_IP = mb_IP b\<rparr> \<in> keys
                              then removeBinding env b h else h) h4 bindings)))))"

subsection \<open>What a run sends\<close>

definition transactions :: "nb_history \<Rightarrow> nb_op list list" where
  "transactions h = concat (map (\<lambda>e. case e of EvSent ops _ \<Rightarrow> [ops] | _ \<Rightarrow> []) h)"

lemma transactions_simps [simp]:
  "transactions [] = []" "transactions (h @ h') = transactions h @ transactions h'"
  "transactions (EvSent ops ok # h) = ops # transactions h"
  "transactions (EvRead t # h) = transactions h" "transactions (EvWait # h) = transactions h"
  by (simp_all add: transactions_def)

text \<open>Every transaction between two histories satisfies \<open>P\<close>.\<close>

definition sends :: "(nb_op list \<Rightarrow> bool) \<Rightarrow> nb_history \<Rightarrow> nb_history \<Rightarrow> bool" where
  "sends P h h' \<longleftrightarrow> (\<exists>t. h' = h @ t \<and> list_all P (transactions t))"

lemma sends_refl [simp]: "sends P h h"
  by (simp add: sends_def)

lemma sends_trans: "sends P a b \<Longrightarrow> sends P b c \<Longrightarrow> sends P a c"
  by (auto simp: sends_def)

lemma sends_mono: "sends P a b \<Longrightarrow> (\<And>ops. P ops \<Longrightarrow> Q ops) \<Longrightarrow> sends Q a b"
  by (auto simp: sends_def list_all_iff)

lemma sends_append [simp]: "sends P h (h @ t) \<longleftrightarrow> list_all P (transactions t)"
  by (simp add: sends_def)

lemma sends_read: "sends P h' h \<Longrightarrow> sends P h' (h @ [EvRead t])"
  by (auto simp: sends_def)

lemma sends_list: "sends P h (snd (listCache env sel t h))"
  by (auto simp: listCache_def sends_def)

lemma sends_transact: "P ops \<Longrightarrow> sends P h (snd (transactOps env ops h))"
  by (auto simp: sends_def transactOps_def Let_def)

lemma sends_one: "P (x # rest) \<Longrightarrow> sends P h (snd (sendOne env x rest h))"
  by (auto simp: sendOne_def sends_transact split: option.splits)

lemma sends_batch: "(ops \<noteq> [] \<Longrightarrow> P ops) \<Longrightarrow> sends P h (snd (sendBatch env ops h))"
  by (auto simp: sendBatch_def sends_transact)

lemma sends_foldl:
  "(\<And>h x. x \<in> set xs \<Longrightarrow> sends P (g h) (g (f h x))) \<Longrightarrow> sends P (g h) (g (foldl f h xs))"
proof (induction xs arbitrary: h)
  case (Cons x xs)
  have "sends P (g h) (g (f h x))" using Cons.prems by simp
  moreover have "sends P (g (f h x)) (g (foldl f (f h x) xs))" using Cons by simp
  ultimately show ?case by (simp add: sends_trans [of P "g h" "g (f h x)"])
qed simp

lemma sends_removeRoute:
  "P [RemoveStaticRoute (lr_UUID router) (sr_UUID route), DeleteRoute route] \<Longrightarrow>
   sends P h (removeRoute env router route h)"
  by (simp add: removeRoute_def sends_transact)

lemma sends_removeBinding: "P [DeleteMAC b] \<Longrightarrow> sends P h (removeBinding env b h)"
  by (simp add: removeBinding_def sends_transact)

lemma find_SomeD: "find P xs = Some x \<Longrightarrow> x \<in> set xs \<and> P x"
  by (auto simp: find_Some_iff)

subsection \<open>Properties of the writes\<close>

definition localRemoval ::
  "ovn_state \<Rightarrow> nb_static_route list \<Rightarrow> nb_router list \<Rightarrow> nb_op list \<Rightarrow> bool" where
  "localRemoval st routes routers ops \<longleftrightarrow>
     (\<exists>route router. ops = [RemoveStaticRoute (lr_UUID router) (sr_UUID route), DeleteRoute route] \<and>
        route \<in> set routes \<and> isManaged route \<and> router \<in> set routers \<and> sr_UUID route \<in> set (lr_StaticRoutes router) \<and>
        lr_UUID router \<in> lri_RouterUUID ` set (st_LocalRouters st)) \<or>
     (\<exists>b. ops = [DeleteMAC b] \<and> mb_LogicalPort b \<in> lri_LRPName ` set (st_LocalRouters st))"

lemma sends_removeLocalRoute:
  assumes "route \<in> set routes"
  shows "sends (localRemoval st routes routers) h
    (removeLocalRoute env (lri_RouterUUID ` set (st_LocalRouters st)) routers h route)"
proof (cases "find (\<lambda>r. lr_UUID r \<in> lri_RouterUUID ` set (st_LocalRouters st) \<and>
    sr_UUID route \<in> set (lr_StaticRoutes r)) routers")
  case (Some router)
  from find_SomeD [OF this] assms
  have "isManaged route \<Longrightarrow>
      localRemoval st routes routers [RemoveStaticRoute (lr_UUID router) (sr_UUID route), DeleteRoute route]"
    unfolding localRemoval_def by blast
  then show ?thesis using Some by (simp add: removeLocalRoute_def sends_removeRoute)
qed (simp add: removeLocalRoute_def)

text \<open>
  At shutdown an agent removes only rows of its own routers: every transaction of
  \<open>RemoveManagedNBEntries\<close> unlinks and deletes one managed route that a locally active router owns,
  or deletes a MAC binding on the port of a locally active router. A route some other party created,
  or one of another node's routers, is in none of them.
\<close>

lemma shutdown_removal_is_local:
  "sends (\<lambda>ops. \<exists>routes routers. guardedRoutes (en_view env h) = Inr routes \<and>
      guardedRouters (en_view env (h @ [EvRead ''Logical_Router_Static_Route''])) = Inr routers \<and>
      localRemoval st routes routers ops) h (snd (RemoveManagedNBEntries env st h))"
  (is "sends ?P h _")
proof (cases "guardedRoutes (en_view env h)")
  case (Inr routes)
  let ?h1 = "h @ [EvRead ''Logical_Router_Static_Route'']"
  let ?h2 = "?h1 @ [EvRead ''Logical_Router'']"
  show ?thesis
  proof (cases "guardedRouters (en_view env ?h1)")
    case Inr': (Inr routers)
    have P: "localRemoval st routes routers ops \<Longrightarrow> ?P ops" for ops using Inr Inr' by blast
    let ?h3 = "foldl (removeLocalRoute env (lri_RouterUUID ` set (st_LocalRouters st)) routers) ?h2 routes"
    let ?loop = "\<lambda>h b. if mb_LogicalPort b \<in> lri_LRPName ` set (st_LocalRouters st) then removeBinding env b h else h"
    have "sends ?P ?h2 ?h3"
      by (rule sends_foldl [where g = "\<lambda>h. h"]) (rule sends_mono [OF sends_removeLocalRoute P], simp_all)
    then have h3: "sends ?P h ?h3" by (rule sends_trans [rotated]) (simp add: sends_read)
    have "sends ?P h' (foldl ?loop h' bs)" for h' bs
      by (rule sends_foldl [where g = "\<lambda>h. h"])
        (auto intro!: sends_removeBinding simp: localRemoval_def Inr Inr')
    then have "sends ?P h (foldl ?loop (?h3 @ [EvRead ''Static_MAC_Binding'']) bs)" for bs
      by (rule sends_trans [rotated]) (rule sends_read [OF h3])
    then show ?thesis using Inr Inr' h3
      by (auto simp: RemoveManagedNBEntries_def listCache_def Let_def sends_read split: sum.splits)
  next
    case (Inl e)
    then show ?thesis using Inr by (auto simp: RemoveManagedNBEntries_def listCache_def Let_def sends_read)
  qed
next
  case (Inl e)
  then show ?thesis by (auto simp: RemoveManagedNBEntries_def listCache_def Let_def sends_read)
qed

definition staleTag :: "string set \<Rightarrow> nb_static_route \<Rightarrow> bool" where
  "staleTag stale r \<longleftrightarrow> isManaged r \<and> extID r chassisKey \<noteq> '''' \<and> extID r chassisKey \<in> stale"

definition liveTag :: "string set \<Rightarrow> nb_static_route \<Rightarrow> bool" where
  "liveTag stale r \<longleftrightarrow> isManaged r \<and> extID r chassisKey \<noteq> '''' \<and> extID r chassisKey \<notin> stale"

definition staleRemoval ::
  "string set \<Rightarrow> nb_static_route list \<Rightarrow> nb_router list \<Rightarrow> nb_op list \<Rightarrow> bool" where
  "staleRemoval stale routes routers ops \<longleftrightarrow>
     (\<exists>route\<in>set routes. \<exists>router\<in>set routers. staleTag stale route \<and> sr_UUID route \<in> set (lr_StaticRoutes router) \<and>
        ops = [RemoveStaticRoute (lr_UUID router) (sr_UUID route), DeleteRoute route]) \<or>
     (\<exists>b. ops = [DeleteMAC b] \<and>
        (\<exists>route\<in>set routes. staleTag stale route \<and>
           sr_OutputPort route = Some (mb_LogicalPort b) \<and> sr_Nexthop route = mb_IP b) \<and>
        (\<forall>route\<in>set routes. liveTag stale route \<longrightarrow> sr_OutputPort route \<noteq> Some (mb_LogicalPort b)))"

lemma liveOutputPorts_iff:
  "p \<in> liveOutputPorts stale routes \<longleftrightarrow> (\<exists>r\<in>set routes. liveTag stale r \<and> sr_OutputPort r = Some p)"
  by (force simp: liveOutputPorts_def liveTag_def List.map_filter_def split: if_splits)

lemma routeToRouter_SomeD:
  "routeToRouter routers u = Some r \<Longrightarrow> r \<in> set routers \<and> u \<in> set (lr_StaticRoutes r)"
  by (auto simp: routeToRouter_def dest!: map_of_rev_SomeD)

text \<open>The keys collected for the MAC bindings come from stale routes on ports no live chassis uses.\<close>

definition staleBindingKeys :: "string set \<Rightarrow> nb_static_route list \<Rightarrow> mac_key set \<Rightarrow> bool" where
  "staleBindingKeys stale routes keys \<longleftrightarrow>
     (\<forall>k\<in>keys. (\<exists>r\<in>set routes. staleTag stale r \<and> sr_OutputPort r = Some (mk_LogicalPort k) \<and> sr_Nexthop r = mk_IP k) \<and>
        mk_LogicalPort k \<notin> liveOutputPorts stale routes)"

lemma removeStaleRoute_step:
  assumes "route \<in> set routes" and "staleBindingKeys stale routes (fst acc)"
  shows "staleBindingKeys stale routes (fst (removeStaleRoute env stale routers (liveOutputPorts stale routes) acc route)) \<and>
    sends (staleRemoval stale routes routers) (snd acc)
      (snd (removeStaleRoute env stale routers (liveOutputPorts stale routes) acc route))"
proof (cases "staleTag stale route \<and> routeToRouter routers (sr_UUID route) \<noteq> None")
  case False
  then show ?thesis using assms(2)
    by (auto simp: removeStaleRoute_def staleTag_def Let_def split: option.splits prod.splits)
next
  case True
  then obtain router where r: "routeToRouter routers (sr_UUID route) = Some router" by blast
  have "staleRemoval stale routes routers [RemoveStaticRoute (lr_UUID router) (sr_UUID route), DeleteRoute route]"
    unfolding staleRemoval_def using True assms(1) routeToRouter_SomeD [OF r] by blast
  then have "sends (staleRemoval stale routes routers) (snd acc) (removeRoute env router route (snd acc))"
    by (rule sends_removeRoute)
  then show ?thesis using True r assms
    by (auto simp: removeStaleRoute_def staleTag_def staleBindingKeys_def split: prod.splits option.splits)
qed

lemma removeStaleRoute_loop:
  assumes "set rs \<subseteq> set routes" and "staleBindingKeys stale routes (fst acc)"
  shows "staleBindingKeys stale routes (fst (foldl (removeStaleRoute env stale routers (liveOutputPorts stale routes)) acc rs)) \<and>
    sends (staleRemoval stale routes routers) (snd acc)
      (snd (foldl (removeStaleRoute env stale routers (liveOutputPorts stale routes)) acc rs))"
  using assms
proof (induction rs arbitrary: acc)
  case (Cons r rs)
  let ?f = "removeStaleRoute env stale routers (liveOutputPorts stale routes)"
  have r: "r \<in> set routes" and rs: "set rs \<subseteq> set routes" using Cons.prems(1) by auto
  have 1: "staleBindingKeys stale routes (fst (?f acc r))" "sends (staleRemoval stale routes routers) (snd acc) (snd (?f acc r))"
    using removeStaleRoute_step [OF r Cons.prems(2)] by blast+
  from Cons.IH [OF rs 1(1)] show ?case
    using sends_trans [OF 1(2)] by (simp only: foldl.simps)
qed simp

text \<open>
  The cleanup of vanished chassis never touches what a living chassis or anybody else created:
  every transaction of \<open>CleanupStaleChassisManagedEntries\<close> deletes a managed route whose chassis tag
  is in the stale set, together with its link, or a MAC binding with the port and address of such a
  route on a port that carries no managed route of a chassis outside the set.
\<close>

lemma stale_cleanup_spares_the_living:
  "sends (\<lambda>ops. \<exists>routes routers. guardedRoutes (en_view env h) = Inr routes \<and>
      guardedRouters (en_view env (h @ [EvRead ''Logical_Router_Static_Route''])) = Inr routers \<and>
      staleRemoval stale routes routers ops) h (snd (CleanupStaleChassisManagedEntries env stale h))"
  (is "sends ?P h _")
proof (cases "guardedRoutes (en_view env h)")
  case (Inr routes)
  let ?h1 = "h @ [EvRead ''Logical_Router_Static_Route'']"
  let ?h2 = "?h1 @ [EvRead ''Logical_Router'']"
  show ?thesis
  proof (cases "guardedRouters (en_view env ?h1)")
    case Inr': (Inr routers)
    have P: "staleRemoval stale routes routers ops \<Longrightarrow> ?P ops" for ops using Inr Inr' by blast
    obtain keys h3 where loop:
      "foldl (removeStaleRoute env stale routers (liveOutputPorts stale routes)) ({}, ?h2) routes = (keys, h3)"
      by fastforce
    have "staleBindingKeys stale routes keys \<and> sends (staleRemoval stale routes routers) ?h2 h3"
      using removeStaleRoute_loop [of routes routes stale "({}, ?h2)" env routers] loop by (simp add: staleBindingKeys_def)
    then have keys: "staleBindingKeys stale routes keys" and sent: "sends (staleRemoval stale routes routers) ?h2 h3"
      by blast+
    from sent have "sends ?P ?h2 h3" by (rule sends_mono) (rule P)
    then have h3: "sends ?P h h3" by (rule sends_trans [rotated]) (simp add: sends_read)
    let ?del = "\<lambda>h b. if \<lparr>mk_LogicalPort = mb_LogicalPort b, mk_IP = mb_IP b\<rparr> \<in> keys then removeBinding env b h else h"
    have del: "\<lparr>mk_LogicalPort = mb_LogicalPort b, mk_IP = mb_IP b\<rparr> \<in> keys \<Longrightarrow> ?P [DeleteMAC b]" for b
    proof (rule P)
      assume "\<lparr>mk_LogicalPort = mb_LogicalPort b, mk_IP = mb_IP b\<rparr> \<in> keys"
      then show "staleRemoval stale routes routers [DeleteMAC b]"
        using keys by (fastforce simp: staleBindingKeys_def staleRemoval_def liveOutputPorts_iff)
    qed
    have "sends ?P h' (foldl ?del h' bs)" for h' bs
    proof (rule sends_foldl [where g = "\<lambda>h. h"])
      fix h' b
      show "sends ?P h' (?del h' b)"
      proof (cases "\<lparr>mk_LogicalPort = mb_LogicalPort b, mk_IP = mb_IP b\<rparr> \<in> keys")
        case True
        from sends_removeBinding [of ?P, OF del [OF True]] True show ?thesis by (simp only: if_True)
      qed simp
    qed
    then have "sends ?P h (foldl ?del (h3 @ [EvRead ''Static_MAC_Binding'']) bs)" for bs
      by (rule sends_trans [rotated]) (rule sends_read [OF h3])
    then show ?thesis using Inr Inr' h3 loop
      by (auto simp: CleanupStaleChassisManagedEntries_def listCache_def Let_def sends_read split: sum.splits)
  next
    case (Inl e)
    then show ?thesis using Inr by (simp add: CleanupStaleChassisManagedEntries_def listCache_def)
  qed
next
  case (Inl e)
  then show ?thesis by (simp add: CleanupStaleChassisManagedEntries_def listCache_def)
qed

subsubsection \<open>Gateway routing\<close>

definition routeRight :: "string \<Rightarrow> string \<Rightarrow> nb_static_route \<Rightarrow> bool" where
  "routeRight chassis vgw r \<longleftrightarrow> isManaged r \<and> sr_IPPrefix r = defaultPrefix \<and> sr_Nexthop r = vgw \<and> extID r chassisKey = chassis"

definition bindingRight :: "string \<Rightarrow> string \<Rightarrow> string \<Rightarrow> nb_mac_binding \<Rightarrow> bool" where
  "bindingRight lrp vgw mac b \<longleftrightarrow> mb_LogicalPort b = lrp \<and> mb_IP b = vgw \<and> mb_MAC b = mac"

definition routeWrite :: "string \<Rightarrow> string \<Rightarrow> nb_router \<Rightarrow> nb_static_route list \<Rightarrow> nb_op list \<Rightarrow> bool" where
  "routeWrite chassis vgw router routes ops \<longleftrightarrow>
     (case firstDefault router routes of
        Some r \<Rightarrow> isManaged r \<and> \<not> routeRight chassis vgw r \<and>
          (\<exists>r' cols. ops = [UpdateRoute r' cols] \<and> sr_UUID r' = sr_UUID r \<and> routeRight chassis vgw r')
      | None \<Rightarrow> \<exists>r'. ops = [InsertRoute r', InsertStaticRoute (lr_UUID router) (sr_UUID r')] \<and> routeRight chassis vgw r')"

definition gatewayWrite :: "nb_env \<Rightarrow> string \<Rightarrow> local_router \<Rightarrow> string \<Rightarrow> string \<Rightarrow> nb_op list \<Rightarrow> bool" where
  "gatewayWrite env chassis lr vgw mac ops \<longleftrightarrow>
     (\<exists>h1 routes routers router. v_StaticRoutes (en_view env h1) = Inr routes \<and>
        v_Routers (en_view env (h1 @ [EvRead ''Logical_Router_Static_Route''])) = Inr routers \<and>
        router \<in> set routers \<and> lr_UUID router = lri_RouterUUID lr \<and>
        routeWrite chassis vgw router routes ops) \<or>
     (\<exists>b. (ops = [InsertMAC b] \<or> ops = [UpdateMAC b]) \<and> bindingRight (lri_LRPName lr) vgw mac b)"

lemma gatewayWriteI:
  "v_StaticRoutes (en_view env h) = Inr routes \<Longrightarrow>
   v_Routers (en_view env (h @ [EvRead ''Logical_Router_Static_Route''])) = Inr routers \<Longrightarrow>
   router \<in> set routers \<and> lr_UUID router = lri_RouterUUID lr \<Longrightarrow>
   routeWrite chassis vgw router routes ops \<Longrightarrow> gatewayWrite env chassis lr vgw mac ops"
  unfolding gatewayWrite_def by blast

lemma mget_update [simp]: "mget (AList.update k v m) k' = (if k = k' then v else mget m k')"
  by (simp add: mget_def)

lemma setExtID_fields [simp]:
  "sr_UUID (setExtID k v r) = sr_UUID r" "sr_IPPrefix (setExtID k v r) = sr_IPPrefix r"
  "sr_Nexthop (setExtID k v r) = sr_Nexthop r" "sr_ExternalIDs (setExtID k v r) \<noteq> None"
  "extID (setExtID k v r) k' = (if k = k' then v else extID r k')"
  by (simp_all add: setExtID_def extID_def nilMap_def)

lemma isManaged_setExtID [simp]:
  "k \<noteq> ''ovn-network-agent'' \<Longrightarrow> isManaged r \<Longrightarrow> isManaged (setExtID k v r)"
  by (simp add: isManaged_def)

lemma extID_upd [simp]:
  "extID (r\<lparr>sr_Nexthop := n, sr_OutputPort := p\<rparr>) k = extID r k"
  "isManaged (r\<lparr>sr_Nexthop := n, sr_OutputPort := p\<rparr>) = isManaged r"
  by (simp_all add: extID_def isManaged_def)

lemma chassisKey_not_tag [simp]: "chassisKey \<noteq> ''ovn-network-agent''"
  by (simp add: chassisKey_def)

lemma fixDefaultRoute_sends:
  assumes "sr_IPPrefix r = defaultPrefix"
  shows "sends (\<lambda>ops. isManaged r \<and> \<not> routeRight chassis vgw r \<and>
    (\<exists>r' cols. ops = [UpdateRoute r' cols] \<and> sr_UUID r' = sr_UUID r \<and> routeRight chassis vgw r')) h
    (snd (fixDefaultRoute env chassis lr vgw r h))"
  unfolding fixDefaultRoute_def using assms
  by (auto simp: routeRight_def intro!: sends_one exI isManaged_setExtID)

lemma newDefaultRoute_right: "routeRight chassis vgw (newDefaultRoute vgw lrp chassis)"
  by (simp add: routeRight_def newDefaultRoute_def isManaged_def extID_def nilMap_def mget_def chassisKey_def)

lemma ensureDefaultRoute_sends:
  "sends (gatewayWrite env chassis lr vgw mac) h (snd (ensureDefaultRoute env chassis lr vgw h))"
proof -
  let ?h1 = "h @ [EvRead ''Logical_Router_Static_Route'']"
  let ?h2 = "?h1 @ [EvRead ''Logical_Router'']"
  have goal: "sends (gatewayWrite env chassis lr vgw mac) h
      (snd (case firstDefault router routes of
        Some route \<Rightarrow> fixDefaultRoute env chassis lr vgw route ?h2
      | None \<Rightarrow> sendOne env (InsertRoute (newDefaultRoute vgw (lri_LRPName lr) chassis))
                   [InsertStaticRoute (lri_RouterUUID lr) ''new_route''] ?h2))"
    if reads: "v_StaticRoutes (en_view env h) = Inr routes" "v_Routers (en_view env ?h1) = Inr routers"
      "find (\<lambda>r. lr_UUID r = lri_RouterUUID lr) routers = Some router" for routes routers router
  proof (rule sends_trans [of _ _ ?h2])
    show "sends (gatewayWrite env chassis lr vgw mac) h ?h2" by (simp add: sends_read)
    have owner: "router \<in> set routers \<and> lr_UUID router = lri_RouterUUID lr"
      using find_SomeD [OF reads(3)] by blast
    show "sends (gatewayWrite env chassis lr vgw mac) ?h2 (snd (case firstDefault router routes of
        Some route \<Rightarrow> fixDefaultRoute env chassis lr vgw route ?h2
      | None \<Rightarrow> sendOne env (InsertRoute (newDefaultRoute vgw (lri_LRPName lr) chassis))
                   [InsertStaticRoute (lri_RouterUUID lr) ''new_route''] ?h2))"
    proof (cases "firstDefault router routes")
      case None
      let ?r = "newDefaultRoute vgw (lri_LRPName lr) chassis"
      have "routeWrite chassis vgw router routes [InsertRoute ?r, InsertStaticRoute (lri_RouterUUID lr) ''new_route'']"
        using owner None newDefaultRoute_right [of chassis vgw "lri_LRPName lr"]
        by (auto simp: routeWrite_def newDefaultRoute_def)
      from gatewayWriteI [OF reads(1,2) owner this] None show ?thesis by (simp add: sends_one)
    next
      case (Some r)
      have "sr_IPPrefix r = defaultPrefix" using Some find_SomeD by (fastforce simp: firstDefault_def)
      from fixDefaultRoute_sends [OF this] have "sends (gatewayWrite env chassis lr vgw mac) ?h2
          (snd (fixDefaultRoute env chassis lr vgw r ?h2))"
      proof (rule sends_mono)
        fix ops assume "isManaged r \<and> \<not> routeRight chassis vgw r \<and>
          (\<exists>r' cols. ops = [UpdateRoute r' cols] \<and> sr_UUID r' = sr_UUID r \<and> routeRight chassis vgw r')"
        then have "routeWrite chassis vgw router routes ops" using Some by (simp add: routeWrite_def)
        then show "gatewayWrite env chassis lr vgw mac ops" by (rule gatewayWriteI [OF reads(1,2) owner])
      qed
      with Some show ?thesis by simp
    qed
  qed
  show ?thesis
  proof (cases "v_StaticRoutes (en_view env h)")
    case (Inr routes)
    show ?thesis
    proof (cases "v_Routers (en_view env ?h1)")
      case Inr': (Inr routers)
      show ?thesis
        using goal [OF Inr Inr'] Inr Inr'
        by (cases "find (\<lambda>r. lr_UUID r = lri_RouterUUID lr) routers")
          (simp_all add: ensureDefaultRoute_def listCache_def sends_read del: append.simps append_assoc)
    qed (simp add: ensureDefaultRoute_def listCache_def Inr)
  qed (simp add: ensureDefaultRoute_def listCache_def)
qed

lemma ensureStaticMACBinding_sends:
  "sends (gatewayWrite env chassis lr vgw mac) h (snd (ensureStaticMACBinding env (lri_LRPName lr) vgw mac h))"
proof -
  let ?h1 = "h @ [EvRead ''Static_MAC_Binding'']"
  have sent: "sends (gatewayWrite env chassis lr vgw mac) h (snd (sendOne env (f b) [] ?h1))"
    if "bindingRight (lri_LRPName lr) vgw mac b" "f = InsertMAC \<or> f = UpdateMAC" for f b
  proof (rule sends_trans [of _ h ?h1])
    show "sends (gatewayWrite env chassis lr vgw mac) ?h1 (snd (sendOne env (f b) [] ?h1))"
      using that by (intro sends_one) (auto simp: gatewayWrite_def)
  qed simp
  show ?thesis
  proof (cases "v_MACBindings (en_view env h)")
    case (Inr bs)
    show ?thesis
    proof (cases "find (\<lambda>b. mb_LogicalPort b = lri_LRPName lr \<and> mb_IP b = vgw) bs")
      case None
      with Inr show ?thesis
        by (simp add: ensureStaticMACBinding_def listCache_def sent [where f = InsertMAC] bindingRight_def)
    next
      case (Some b)
      from find_SomeD [OF this] have "bindingRight (lri_LRPName lr) vgw mac (b\<lparr>mb_MAC := mac\<rparr>)"
        by (simp add: bindingRight_def)
      with sent [where f = UpdateMAC] Inr Some show ?thesis
        by (simp add: ensureStaticMACBinding_def listCache_def)
    qed
  qed (simp add: ensureStaticMACBinding_def listCache_def)
qed

lemma ensureRouter_sends:
  "sends (\<lambda>ops. \<exists>w. mget macForLRP (lri_LRPName lr) \<noteq> '''' \<and> virtualGatewayIP (lri_LRPNetworks lr) = Inr w \<and>
     gatewayWrite env chassis lr (ip4String w) (mget macForLRP (lri_LRPName lr)) ops) h
     (snd (ensureRouter env chassis macForLRP lr h))" (is "sends ?P h _")
proof (cases "mget macForLRP (lri_LRPName lr) = '''' \<or> (\<exists>e. virtualGatewayIP (lri_LRPNetworks lr) = Inl e)")
  case True
  then show ?thesis by (auto simp: ensureRouter_def Let_def)
next
  case False
  let ?mac = "mget macForLRP (lri_LRPName lr)"
  from False obtain w where w: "virtualGatewayIP (lri_LRPNetworks lr) = Inr w"
    by (cases "virtualGatewayIP (lri_LRPNetworks lr)") auto
  have P: "gatewayWrite env chassis lr (ip4String w) ?mac ops \<Longrightarrow> ?P ops" for ops using False w by blast
  obtain e h1 where r: "ensureDefaultRoute env chassis lr (ip4String w) h = (e, h1)" by fastforce
  have 1: "sends ?P h h1"
    using sends_mono [OF ensureDefaultRoute_sends [of env chassis lr "ip4String w" ?mac h] P] r by simp
  have "sends ?P h1 (snd (ensureStaticMACBinding env (lri_LRPName lr) (ip4String w) ?mac h1))"
    by (rule sends_mono [OF ensureStaticMACBinding_sends P])
  with 1 have "sends ?P h (snd (ensureStaticMACBinding env (lri_LRPName lr) (ip4String w) ?mac h1))"
    by (rule sends_trans)
  with 1 show ?thesis using False w r
    by (auto simp: ensureRouter_def Let_def split: option.splits prod.splits)
qed

text \<open>
  C17: gateway routing respects a default route somebody else configured. Every transaction of
  \<open>EnsureGatewayRouting\<close> serves one local router whose segment MAC and virtual gateway are known: it
  repairs the router's first default route when that route is managed and wrong, creates one when the
  router has none, or writes the MAC binding of the virtual gateway on the router's port. What it
  writes names the virtual gateway, this chassis and the segment's MAC.
\<close>

theorem foreign_default_route_is_kept:
  "sends (\<lambda>ops. \<exists>lr\<in>set localRouters. \<exists>w. mget macForLRP (lri_LRPName lr) \<noteq> '''' \<and>
      virtualGatewayIP (lri_LRPNetworks lr) = Inr w \<and>
      gatewayWrite env chassis lr (ip4String w) (mget macForLRP (lri_LRPName lr)) ops) h
      (snd (EnsureGatewayRouting env chassis localRouters macForLRP h))"
  (is "sends ?P h _")
proof -
  let ?f = "\<lambda>(errs, h) lr. let (es, h1) = ensureRouter env chassis macForLRP lr h in (errs @ es, h1)"
  have "sends ?P (snd ([] :: err list, h)) (snd (foldl ?f ([], h) localRouters))"
  proof (rule sends_foldl)
    fix a :: "err list \<times> nb_history" and lr assume "lr \<in> set localRouters"
    then have "sends ?P (snd a) (snd (ensureRouter env chassis macForLRP lr (snd a)))"
      by (intro sends_mono [OF ensureRouter_sends]) blast
    then show "sends ?P (snd a) (snd (?f a lr))"
      by (simp add: case_prod_beta Let_def)
  qed
  then show ?thesis by (simp add: EnsureGatewayRouting_def)
qed

subsubsection \<open>The virtual gateway address\<close>

lemma ParseCIDR_Net4:
  assumes "ParseCIDR s = Some (ip, Net4 w n)"
  shows "n \<le> 32 \<and> w = mask4 n w"
  using assms by (auto simp: ParseCIDR_def split: option.splits netaddr.splits if_splits prod.splits)

lemma mask4_low: "mask4 n w AND mask (32 - n) = 0"
  by (rule bit_word_eqI) (auto simp: mask4_def bit_simps)

lemma broadcast_unat:
  assumes "w = mask4 n w"
  shows "unat (w OR (push_bit (32 - n) 1 - 1)) = unat w + (2 ^ (32 - n) - 1)"
proof -
  have ones: "push_bit (32 - n) 1 - 1 = (mask (32 - n) :: 32 word)"
    by (simp add: mask_eq_exp_minus_1 push_bit_of_1)
  have low: "unat (mask (32 - n) :: 32 word) = 2 ^ (32 - n) - 1"
  proof -
    have "unat (mask (32 - n) :: 32 word) = mask (32 - n)"
      by (rule bit_eqI) (auto simp: bit_simps)
    then show ?thesis by (simp add: mask_eq_exp_minus_1)
  qed
  have "w AND mask (32 - n) = 0" using mask4_low [of n w] assms by simp
  then have "unat w AND unat (mask (32 - n) :: 32 word) = 0"
    using unsigned_and_eq [of w "mask (32 - n)", where ?'a = nat] by simp
  from disjunctive_add_eq_or [OF this] show ?thesis
    by (simp only: ones low unsigned_or_eq)
qed

lemma lastUsable_unat:
  assumes "n \<le> 31" and "w = mask4 n w"
  shows "unat ((w OR (push_bit (32 - n) 1 - 1)) - 1) = unat w + (2 ^ (32 - n) - 2)"
proof -
  let ?b = "w OR (push_bit (32 - n) 1 - 1)"
  have two: "(2::nat) \<le> 2 ^ (32 - n)" using assms(1) by (simp add: self_le_power)
  have b: "unat ?b = unat w + (2 ^ (32 - n) - 1)" by (rule broadcast_unat [OF assms(2)])
  with two have "?b \<noteq> 0" by (metis One_nat_def add_is_0 diff_is_0_eq not_less_eq_eq numeral_2_eq_2 unat_0)
  then have "unat (?b - 1) = unat ?b - 1" by (rule unat_minus_one)
  with b two show ?thesis by (simp only: add_diff_assoc diff_diff_left one_add_one)
qed

lemma virtualGatewayIP_SomeD:
  "virtualGatewayIP nets = Inr v \<Longrightarrow>
   \<exists>cidr\<in>set nets. \<exists>ip w n. ParseCIDR cidr = Some (ip, Net4 w n) \<and> n \<noteq> 32 \<and> v = (w OR (push_bit (32 - n) 1 - 1)) - 1"
proof (induction nets)
  case (Cons cidr rest)
  then show ?case
    by (auto simp: Let_def ipNetIP4_def split: option.splits prod.splits if_splits ipnet.splits elim!: MaskSize.elims)
qed simp

text \<open>
  C18: the virtual gateway lies in the router's own subnet: the address \<open>virtualGatewayIP\<close> returns
  is the one below the broadcast address of the first usable IPv4 network of the port, inside that
  network, and with a prefix of at most 30 bits it is also not the network address.
\<close>

theorem virtual_gateway_is_in_the_subnet:
  assumes "virtualGatewayIP nets = Inr v"
  shows "\<exists>cidr\<in>set nets. \<exists>ip w n. ParseCIDR cidr = Some (ip, Net4 w n) \<and> n \<le> 31 \<and>
    NetContains (Net4 w n) (mapped4 v) \<and> unat v = unat w + (2 ^ (32 - n) - 2) \<and> (n \<le> 30 \<longrightarrow> unat w < unat v)"
proof -
  obtain cidr ip w n where c: "cidr \<in> set nets" "ParseCIDR cidr = Some (ip, Net4 w n)" "n \<noteq> 32"
    and v: "v = (w OR (push_bit (32 - n) 1 - 1)) - 1"
    using virtualGatewayIP_SomeD [OF assms] by blast
  have w: "n \<le> 31" "w = mask4 n w" using ParseCIDR_Net4 [OF c(2)] c(3) by auto
  let ?k = "32 - n"
  have u: "unat v = unat w + (2 ^ ?k - 2)" unfolding v by (rule lastUsable_unat [OF w])
  have "unat w mod 2 ^ ?k = 0"
  proof -
    have "unat w AND mask ?k = unat (w AND mask ?k)"
      by (rule bit_eqI) (auto simp: bit_simps)
    also have "\<dots> = 0" using mask4_low [of n w] w(2) by simp
    finally show ?thesis by (simp add: take_bit_eq_mask [symmetric] take_bit_eq_mod)
  qed
  then obtain q where q: "unat w = q * 2 ^ ?k" by (auto elim: dvdE simp: mult.commute simp flip: dvd_eq_mod_eq_0)
  have "unat v div 2 ^ ?k = unat w div 2 ^ ?k"
    unfolding u q by (subst div_mult_self3) simp_all
  then have "drop_bit ?k v = drop_bit ?k w"
    by (simp only: word_unat_eq_iff unat_drop_bit_eq drop_bit_eq_div [of _ "unat v"] drop_bit_eq_div [of _ "unat w"])
  then have "NetContains (Net4 w n) (mapped4 v)" by (simp add: NetContains_def)
  moreover have "unat w < unat v" if "n \<le> 30"
  proof -
    have "(2::nat) ^ 2 \<le> 2 ^ ?k" using that by (intro power_increasing) auto
    then show ?thesis unfolding u by simp
  qed
  ultimately show ?thesis using c w(1) u by blast
qed

lemma virtual_gateway_is_in_the_subnet_witness:
  "virtualGatewayIP [NetString (Net4 3325256704 24)] = Inr 3325256958 \<and>
   (\<exists>ip w n. ParseCIDR (NetString (Net4 3325256704 24)) = Some (ip, Net4 w n) \<and> n \<le> 31 \<and>
      NetContains (Net4 w n) (mapped4 3325256958) \<and> unat (3325256958 :: 32 word) = unat w + (2 ^ (32 - n) - 2) \<and>
      (n \<le> 30 \<longrightarrow> unat w < unat (3325256958 :: 32 word)))"
proof -
  have "mask4 24 3325256704 = 3325256704" by (simp add: mask4_def)
  then have cidr: "ParseCIDR (NetString (Net4 3325256704 24)) = Some (mapped4 3325256704, Net4 3325256704 24)"
    using ParseCIDR_ip4String [of 24 3325256704] by (simp add: NetString_def)
  have "virtualGatewayIP [NetString (Net4 3325256704 24)] = Inr 3325256958"
    by (simp add: cidr ipNetIP4_def)
  with virtual_gateway_is_in_the_subnet [OF this] show ?thesis by auto
qed

end
