(* ===== verification/OvnLead.thy ===== *)
theory OvnLead
  imports OvnWrites
begin

section \<open>Gateway_Chassis priorities\<close>

text \<open>
  The second part of \<open>ovn_gateway.go\<close>: the direct reads of the agent's own Gateway_Chassis rows and
  of the chassisredirect bindings, the priority lead of the active chassis
  (\<open>EnsureActivePriorityLead\<close>) and the return of a drained chassis as a standby
  (\<open>RestoreDrainedGateways\<close>). The order in which Go walks the map of HA groups is the parameter
  \<open>walk\<close>. The effect of a transaction on the server's rows is \<open>applyPriorities\<close>: an update selects
  its row by UUID.
\<close>

subsection \<open>Direct reads\<close>

definition rowInt :: "ovsdb_row \<Rightarrow> string \<Rightarrow> int" where
  "rowInt row col = (case map_of row col of Some (OFloat q) \<Rightarrow> go_int q | Some (OInt n) \<Rightarrow> n | _ \<Rightarrow> 0)"

definition rowToGatewayChassis :: "ovsdb_row \<Rightarrow> nb_gateway_chassis" where
  "rowToGatewayChassis row =
     \<lparr>gc_UUID = rowUUID row, gc_Name = rowString row ''name'',
      gc_ChassisName = rowString row ''chassis_name'', gc_Priority = rowInt row ''priority''\<rparr>"

definition selectLocalGatewayChassis ::
  "nb_env \<Rightarrow> string \<Rightarrow> nb_history \<Rightarrow> nb_gateway_chassis list result \<times> nb_history" where
  "selectLocalGatewayChassis env localChassisName h =
     ((case v_chassisRows (en_view env h) localChassisName of
         TransactErr e \<Rightarrow> Inl e
       | OperationErr e \<Rightarrow> Inl e
       | Replies [] \<Rightarrow> Inr []
       | Replies (rows # _) \<Rightarrow> Inr (map rowToGatewayChassis rows)),
      h @ [EvRead ''Gateway_Chassis''])"

definition hostByRef :: "chassis list \<Rightarrow> (string \<rightharpoonup> string)" where
  "hostByRef chs = foldl (\<lambda>m ch. m(ch_UUID ch \<mapsto> ch_Hostname ch, ch_Name ch \<mapsto> ch_Hostname ch)) Map.empty chs"

definition boundRows :: "(string \<rightharpoonup> string) \<Rightarrow> port_binding list \<Rightarrow> (string \<rightharpoonup> string)" where
  "boundRows hosts pbs =
     foldl (\<lambda>m pb. if pb_Type pb \<noteq> ''chassisredirect'' \<or> pb_Chassis pb = None \<or> pb_Chassis pb = Some '''' then m
                   else m(pb_LogicalPort pb \<mapsto> lookup hosts (the (pb_Chassis pb)))) Map.empty pbs"

definition selectCRPortChassis ::
  "nb_env \<Rightarrow> nb_history \<Rightarrow> (string \<rightharpoonup> string) result \<times> nb_history" where
  "selectCRPortChassis env h =
     (case directSelect (v_sbSelect (en_view env h)) ''Chassis'' [''_uuid'', ''name'', ''hostname''] of
        Inl e \<Rightarrow> (Inl e, h @ [EvRead ''Chassis''])
      | Inr chassisRows \<Rightarrow>
          (let h1 = h @ [EvRead ''Chassis'']; hosts = hostByRef (map decodeSBChassis chassisRows)
           in ((case v_redirectRows (en_view env h1) of
                  TransactErr e \<Rightarrow> Inl e
                | OperationErr e \<Rightarrow> Inl e
                | Replies [] \<Rightarrow> Inr Map.empty
                | Replies (rows # _) \<Rightarrow> Inr (boundRows hosts (map decodeSBPortBinding rows))),
               h1 @ [EvRead ''Port_Binding''])))"

subsection \<open>HA groups\<close>

definition minActivePriority :: int where "minActivePriority = 2"

record ha_group =
  hg_local :: "nb_gateway_chassis option"
  hg_maxPeer :: int

definition gwChassisLRPName ::
  "nb_gateway_chassis \<Rightarrow> (string \<rightharpoonup> string) \<Rightarrow> string set \<Rightarrow> string" where
  "gwChassisLRPName gwc lrpByUUID activeLRPs =
     (case lrpByUUID (gc_UUID gwc) of
        Some lrpName \<Rightarrow> lrpName
      | None \<Rightarrow> (let parsed = TrimSuffix (gc_Name gwc) (''_'' @ gc_ChassisName gwc)
                 in if parsed \<notin> activeLRPs then '''' else parsed))"

definition lrpByGatewayChassisUUID :: "local_router list \<Rightarrow> (string \<rightharpoonup> string)" where
  "lrpByGatewayChassisUUID lrs =
     map_of (rev (concat (map (\<lambda>lr. map (\<lambda>u. (u, lri_LRPName lr)) (lri_GatewayChassisUUIDs lr)) lrs)))"

definition groupOf :: "local_router list \<Rightarrow> nb_gateway_chassis \<Rightarrow> string" where
  "groupOf lrs gwc = gwChassisLRPName gwc (lrpByGatewayChassisUUID lrs) (lri_LRPName ` set lrs)"

definition addToGroup :: "string \<Rightarrow> nb_gateway_chassis \<Rightarrow> ha_group \<Rightarrow> ha_group" where
  "addToGroup localChassisName gwc g =
     (if gc_ChassisName gwc = localChassisName then g\<lparr>hg_local := Some gwc\<rparr>
      else if hg_maxPeer g < gc_Priority gwc then g\<lparr>hg_maxPeer := gc_Priority gwc\<rparr> else g)"

definition newGroup :: ha_group where "newGroup = \<lparr>hg_local = None, hg_maxPeer = -1\<rparr>"

definition haGroups ::
  "local_router list \<Rightarrow> string \<Rightarrow> nb_gateway_chassis list \<Rightarrow> (string \<times> ha_group) list" where
  "haGroups lrs localChassisName rows =
     foldl (\<lambda>groups gwc.
        let lrpName = groupOf lrs gwc in
        if lrpName = '''' then groups
        else AList.update lrpName (addToGroup localChassisName gwc
               (case map_of groups lrpName of Some g \<Rightarrow> g | None \<Rightarrow> newGroup)) groups) [] rows"

definition crPortByLRP :: "local_router list \<Rightarrow> (string \<rightharpoonup> string)" where
  "crPortByLRP lrs = map_of (rev (map (\<lambda>lr. (lri_LRPName lr, lri_CRPort lr)) lrs))"

text \<open>
  The boost of one group: \<open>None\<close> when the group has no local row or no peer, when the lead is
  already safe, or when the southbound server shows the port on another chassis.
\<close>

definition boundElsewhere :: "(string \<rightharpoonup> string) result \<Rightarrow> string \<Rightarrow> string \<Rightarrow> bool" where
  "boundElsewhere crChassis port localChassisName \<longleftrightarrow>
     (case crChassis of Inl _ \<Rightarrow> False
      | Inr bound \<Rightarrow> (case bound port of None \<Rightarrow> False | Some boundTo \<Rightarrow> boundTo \<noteq> localChassisName))"

definition boost ::
  "local_router list \<Rightarrow> (string \<rightharpoonup> string) result \<Rightarrow> string \<Rightarrow> string \<times> ha_group \<Rightarrow> nb_op option" where
  "boost lrs crChassis localChassisName entry =
     (let (lrpName, g) = entry in
      case hg_local g of
        None \<Rightarrow> None
      | Some gwc \<Rightarrow>
          if hg_maxPeer g < 0 then None
          else if hg_maxPeer g < gc_Priority gwc \<and> minActivePriority \<le> gc_Priority gwc then None
          else if boundElsewhere crChassis (lookup (crPortByLRP lrs) lrpName) localChassisName then None
          else (let newPriority = (if hg_maxPeer g + 1 < minActivePriority then minActivePriority else hg_maxPeer g + 1)
                in Some (UpdatePriority (gwc\<lparr>gc_Priority := newPriority\<rparr>))))"

definition leadRows ::
  "nb_env \<Rightarrow> string \<Rightarrow> nb_history \<Rightarrow> nb_gateway_chassis list result \<times> nb_history" where
  "leadRows env localChassisName h =
     (case listCache env v_GatewayChassis ''Gateway_Chassis'' h of
        (Inl e, h1) \<Rightarrow> (Inl e, h1)
      | (Inr rows, h1) \<Rightarrow>
          if \<exists>r\<in>set rows. gc_ChassisName r = localChassisName then (Inr rows, h1)
          else (case selectLocalGatewayChassis env localChassisName h1 of
                  (Inl e, h2) \<Rightarrow> (Inl e, h2)
                | (Inr serverList, h2) \<Rightarrow> (Inr (rows @ serverList), h2)))"

definition EnsureActivePriorityLead ::
  "nb_env \<Rightarrow> ((string \<times> ha_group) list \<Rightarrow> (string \<times> ha_group) list) \<Rightarrow> local_router list \<Rightarrow> string \<Rightarrow>
   nb_history \<Rightarrow> err option \<times> nb_history" where
  "EnsureActivePriorityLead env walk localRouters localChassisName h =
     (if localRouters = [] then (None, h)
      else (case leadRows env localChassisName h of
              (Inl e, h1) \<Rightarrow> (Some e, h1)
            | (Inr rows, h1) \<Rightarrow>
                (case selectCRPortChassis env h1 of (crChassis, h2) \<Rightarrow>
                   sendBatch env (buildable env (List.map_filter (boost localRouters crChassis localChassisName)
                     (walk (haGroups localRouters localChassisName rows)))) h2)))"

subsection \<open>Restoring a drained chassis\<close>

definition filterRestoreCandidates ::
  "nb_gateway_chassis list \<Rightarrow> string \<Rightarrow> nb_gateway_chassis list \<times> bool" where
  "filterRestoreCandidates rows localChassisName =
     (let own = filter (\<lambda>g. gc_ChassisName g = localChassisName) rows
      in (filter (\<lambda>g. gc_Priority g = 0) own, own \<noteq> []))"

definition filterDrainCandidates ::
  "nb_gateway_chassis list \<Rightarrow> string \<Rightarrow> nb_gateway_chassis list \<times> bool" where
  "filterDrainCandidates rows localChassisName =
     (let own = filter (\<lambda>g. gc_ChassisName g = localChassisName) rows
      in (filter (\<lambda>g. 0 < gc_Priority g) own, own \<noteq> []))"

text \<open>
  The rows of this chassis a candidate filter selects: from the cache, or from the server when the
  cache shows no row of this chassis at all.
\<close>

definition ownCandidates ::
  "nb_env \<Rightarrow> (nb_gateway_chassis list \<Rightarrow> string \<Rightarrow> nb_gateway_chassis list \<times> bool) \<Rightarrow> string \<Rightarrow> nb_history \<Rightarrow>
   nb_gateway_chassis list result \<times> nb_history" where
  "ownCandidates env candidates localChassisName h =
     (case listCache env v_GatewayChassis ''Gateway_Chassis'' h of
        (Inl e, h1) \<Rightarrow> (Inl e, h1)
      | (Inr rows, h1) \<Rightarrow>
          (case candidates rows localChassisName of (chosen, hasLocalRow) \<Rightarrow>
             if hasLocalRow then (Inr chosen, h1)
             else (case selectLocalGatewayChassis env localChassisName h1 of
                     (Inl e, h2) \<Rightarrow> (Inl e, h2)
                   | (Inr serverList, h2) \<Rightarrow> (Inr (fst (candidates serverList localChassisName)), h2))))"

definition priorityOps :: "int \<Rightarrow> nb_gateway_chassis list \<Rightarrow> nb_op list" where
  "priorityOps p rows = map (\<lambda>g. UpdatePriority (g\<lparr>gc_Priority := p\<rparr>)) rows"

definition RestoreDrainedGateways :: "nb_env \<Rightarrow> string \<Rightarrow> nb_history \<Rightarrow> nb_history" where
  "RestoreDrainedGateways env localChassisName h =
     (case ownCandidates env filterRestoreCandidates localChassisName h of
        (Inl _, h1) \<Rightarrow> h1
      | (Inr toRestore, h1) \<Rightarrow> snd (sendBatch env (buildable env (priorityOps 1 toRestore)) h1))"

definition maxLoggedCacheEntries :: nat where "maxLoggedCacheEntries = 20"

definition summarizeGatewayChassis :: "nb_gateway_chassis list \<Rightarrow> string list" where
  "summarizeGatewayChassis rows =
     (let shown = min (length rows) maxLoggedCacheEntries;
          seen = map (\<lambda>g. gc_Name g @ ''/'' @ gc_ChassisName g @ ''/'' @ Itoa (gc_Priority g)) (take shown rows)
      in if 0 < length rows - shown
         then seen @ [''... ('' @ show_nat (length rows - shown) @ '' more)''] else seen)"

subsection \<open>What a group holds\<close>

lemma addToGroup_local:
  "hg_local (addToGroup me r g) = (if gc_ChassisName r = me then Some r else hg_local g)"
  by (simp add: addToGroup_def)

lemma group_fold:
  assumes "g = foldl (\<lambda>g r. addToGroup me r g) newGroup rs"
  shows "(\<forall>p\<in>set rs. gc_ChassisName p \<noteq> me \<longrightarrow> gc_Priority p \<le> hg_maxPeer g) \<and>
    (hg_local g = None \<longleftrightarrow> (\<forall>r\<in>set rs. gc_ChassisName r \<noteq> me)) \<and>
    (\<forall>l. hg_local g = Some l \<longrightarrow> l \<in> set rs \<and> gc_ChassisName l = me)"
  using assms
proof (induction rs arbitrary: g rule: rev_induct)
  case Nil
  then show ?case by (simp add: newGroup_def)
next
  case (snoc r rs)
  let ?g = "foldl (\<lambda>g r. addToGroup me r g) newGroup rs"
  from snoc.IH [OF refl] show ?case
    by (auto simp: snoc.prems addToGroup_def)
qed

lemma haGroups_no_empty: "map_of (haGroups lrs me rows) [] = None"
  unfolding haGroups_def by (rule foldl_invariant) (auto simp: Let_def)

lemma haGroups_map:
  "map_of (haGroups lrs me rows) L =
     (let rs = filter (\<lambda>r. groupOf lrs r = L) rows
      in if L = '''' \<or> rs = [] then None else Some (foldl (\<lambda>g r. addToGroup me r g) newGroup rs))"
proof (induction rows rule: rev_induct)
  case Nil
  then show ?case by (simp add: haGroups_def)
next
  case (snoc r rows)
  have step: "haGroups lrs me (rows @ [r]) =
      (if groupOf lrs r = '''' then haGroups lrs me rows
       else AList.update (groupOf lrs r) (addToGroup me r
         (case map_of (haGroups lrs me rows) (groupOf lrs r) of Some g \<Rightarrow> g | None \<Rightarrow> newGroup)) (haGroups lrs me rows))"
    by (simp add: haGroups_def Let_def)
  show ?case
  proof (cases "groupOf lrs r = L")
    case True
    then show ?thesis
      by (cases "L = ''''") (simp_all add: step snoc Let_def haGroups_no_empty)
  next
    case False
    then show ?thesis
      by (cases "L = ''''") (simp_all add: step snoc Let_def haGroups_no_empty)
  qed
qed

lemma haGroups_keys: "distinct (map fst (haGroups lrs me rows))"
  unfolding haGroups_def by (rule foldl_invariant) (auto simp: Let_def)

lemma haGroups_member:
  assumes "(L, g) \<in> set (haGroups lrs me rows)"
  shows "L \<noteq> '''' \<and> g = foldl (\<lambda>g r. addToGroup me r g) newGroup (filter (\<lambda>r. groupOf lrs r = L) rows)"
proof -
  have "map_of (haGroups lrs me rows) L = Some g"
    using assms haGroups_keys by (rule map_of_is_SomeI [rotated])
  then show ?thesis by (auto simp: haGroups_map Let_def split: if_splits)
qed

subsection \<open>The effect of priority updates\<close>

definition applyPriority :: "nb_gateway_chassis \<Rightarrow> nb_op \<Rightarrow> nb_gateway_chassis" where
  "applyPriority r x =
     (case x of UpdatePriority g \<Rightarrow> if gc_UUID g = gc_UUID r then r\<lparr>gc_Priority := gc_Priority g\<rparr> else r | _ \<Rightarrow> r)"

lemma applyPriority_update [simp]:
  "applyPriority r (UpdatePriority g) = (if gc_UUID g = gc_UUID r then r\<lparr>gc_Priority := gc_Priority g\<rparr> else r)"
  by (simp add: applyPriority_def)

definition applyPriorities :: "nb_op list \<Rightarrow> nb_gateway_chassis list \<Rightarrow> nb_gateway_chassis list" where
  "applyPriorities ops rows = map (\<lambda>r. foldl applyPriority r ops) rows"

lemma applyPriority_fields [simp]:
  "gc_UUID (applyPriority r x) = gc_UUID r" "gc_Name (applyPriority r x) = gc_Name r"
  "gc_ChassisName (applyPriority r x) = gc_ChassisName r"
  by (simp_all add: applyPriority_def split: nb_op.splits)

lemma foldl_priority_fields [simp]:
  "gc_UUID (foldl applyPriority r ops) = gc_UUID r" "gc_Name (foldl applyPriority r ops) = gc_Name r"
  "gc_ChassisName (foldl applyPriority r ops) = gc_ChassisName r"
  by (induction ops arbitrary: r) simp_all

lemma groupOf_cong:
  "gc_UUID r = gc_UUID r' \<Longrightarrow> gc_Name r = gc_Name r' \<Longrightarrow> gc_ChassisName r = gc_ChassisName r' \<Longrightarrow>
   groupOf lrs r = groupOf lrs r'"
  by (simp only: groupOf_def gwChassisLRPName_def)

lemma groupOf_applied [simp]: "groupOf lrs (foldl applyPriority r ops) = groupOf lrs r"
  by (rule groupOf_cong) simp_all

text \<open>An update list that leaves a row alone, and one that gives it one priority.\<close>

lemma foldl_priority_same:
  "(\<And>g. UpdatePriority g \<in> set ops \<Longrightarrow> gc_UUID g \<noteq> gc_UUID r) \<Longrightarrow> foldl applyPriority r ops = r"
proof (induction ops)
  case (Cons x ops)
  have "applyPriority r x = r" using Cons.prems by (auto simp: applyPriority_def split: nb_op.splits)
  then show ?case using Cons by simp
qed simp

lemma foldl_priority_set:
  assumes "UpdatePriority g \<in> set ops" and "gc_UUID g = gc_UUID r"
    and "\<And>g'. UpdatePriority g' \<in> set ops \<Longrightarrow> gc_UUID g' = gc_UUID r \<Longrightarrow> gc_Priority g' = gc_Priority g"
  shows "gc_Priority (foldl applyPriority r ops) = gc_Priority g"
  using assms
proof (induction ops rule: rev_induct)
  case (snoc x ops)
  show ?case
  proof (cases "UpdatePriority g \<in> set ops")
    case True
    then have earlier: "gc_Priority (foldl applyPriority r ops) = gc_Priority g"
      by (rule snoc.IH [OF _ snoc.prems(2)]) (rule snoc.prems(3), simp_all)
    show ?thesis
    proof (cases "\<exists>g'. x = UpdatePriority g' \<and> gc_UUID g' = gc_UUID r")
      case True
      then obtain g' where g': "x = UpdatePriority g'" "gc_UUID g' = gc_UUID r" by blast
      then have "gc_Priority g' = gc_Priority g" using snoc.prems(3) [of g'] by simp
      with g' show ?thesis by simp
    next
      case False
      then have "applyPriority (foldl applyPriority r ops) x = foldl applyPriority r ops"
        by (auto simp: applyPriority_def split: nb_op.splits)
      with earlier show ?thesis by simp
    qed
  next
    case False
    then have "x = UpdatePriority g" using snoc.prems(1) by simp
    then show ?thesis using snoc.prems(2) by simp
  qed
qed simp

subsection \<open>The lead of the active chassis\<close>

text \<open>
  The chassis \<open>me\<close> leads its HA group \<open>L\<close> in some rows: its row has at least the minimum active
  priority and more than every other chassis in the group.
\<close>

definition leads :: "local_router list \<Rightarrow> string \<Rightarrow> string \<Rightarrow> nb_gateway_chassis list \<Rightarrow> bool" where
  "leads lrs me L rows \<longleftrightarrow>
     (\<exists>l\<in>set rows. gc_ChassisName l = me \<and> groupOf lrs l = L \<and> minActivePriority \<le> gc_Priority l \<and>
        (\<forall>p\<in>set rows. groupOf lrs p = L \<and> gc_ChassisName p \<noteq> me \<longrightarrow> gc_Priority p < gc_Priority l))"

text \<open>What the database guarantees of the rows: distinct UUIDs, one row per chassis and group.\<close>

definition goodRows :: "local_router list \<Rightarrow> string \<Rightarrow> nb_gateway_chassis list \<Rightarrow> bool" where
  "goodRows lrs me rows \<longleftrightarrow> distinct (map gc_UUID rows) \<and>
     (\<forall>r\<in>set rows. \<forall>r'\<in>set rows. gc_ChassisName r = me \<and> gc_ChassisName r' = me \<and> groupOf lrs r = groupOf lrs r' \<and>
        groupOf lrs r \<noteq> '''' \<longrightarrow> r = r')"

lemma same_uuid: "distinct (map gc_UUID rows) \<Longrightarrow> r \<in> set rows \<Longrightarrow> r' \<in> set rows \<Longrightarrow> gc_UUID r = gc_UUID r' \<Longrightarrow> r = r'"
  by (auto simp: distinct_map dest: inj_onD)

definition elsewhere :: "local_router list \<Rightarrow> (string \<rightharpoonup> string) result \<Rightarrow> string \<Rightarrow> string \<Rightarrow> bool" where
  "elsewhere lrs cr me L \<longleftrightarrow> boundElsewhere cr (lookup (crPortByLRP lrs) L) me"

definition boostOps ::
  "((string \<times> ha_group) list \<Rightarrow> (string \<times> ha_group) list) \<Rightarrow> local_router list \<Rightarrow> (string \<rightharpoonup> string) result \<Rightarrow> string \<Rightarrow>
   nb_gateway_chassis list \<Rightarrow> nb_op list" where
  "boostOps walk lrs cr me rows = List.map_filter (boost lrs cr me) (walk (haGroups lrs me rows))"

lemma boost_Some:
  assumes "boost lrs cr me (L, g) = Some x"
  shows "\<exists>l. hg_local g = Some l \<and> 0 \<le> hg_maxPeer g \<and> \<not> elsewhere lrs cr me L \<and>
    x = UpdatePriority (l\<lparr>gc_Priority := max 2 (hg_maxPeer g + 1)\<rparr>)"
  using assms by (auto simp: boost_def elsewhere_def minActivePriority_def Let_def max_def split: option.splits if_splits)

lemma boost_None:
  assumes "boost lrs cr me (L, g) = None" "hg_local g = Some l" "0 \<le> hg_maxPeer g" "\<not> elsewhere lrs cr me L"
  shows "hg_maxPeer g < gc_Priority l \<and> 2 \<le> gc_Priority l"
  using assms by (auto simp: boost_def elsewhere_def minActivePriority_def Let_def split: if_splits)

lemma boostOps_member:
  assumes good: "goodRows lrs me rows" and walk: "\<And>gs. set (walk gs) = set gs"
    and x: "x \<in> set (boostOps walk lrs cr me rows)"
  shows "\<exists>L l. L \<noteq> '''' \<and> l \<in> set rows \<and> gc_ChassisName l = me \<and> groupOf lrs l = L \<and> \<not> elsewhere lrs cr me L \<and>
    boost lrs cr me (L, foldl (\<lambda>g r. addToGroup me r g) newGroup (filter (\<lambda>r. groupOf lrs r = L) rows)) = Some x \<and>
    x = UpdatePriority (l\<lparr>gc_Priority := max 2 (hg_maxPeer (foldl (\<lambda>g r. addToGroup me r g) newGroup
          (filter (\<lambda>r. groupOf lrs r = L) rows)) + 1)\<rparr>)"
proof -
  obtain L g where m: "(L, g) \<in> set (haGroups lrs me rows)" and b: "boost lrs cr me (L, g) = Some x"
    using x by (auto simp: boostOps_def List.map_filter_def walk)
  note g = haGroups_member [OF m]
  obtain l where l: "hg_local g = Some l" "\<not> elsewhere lrs cr me L"
      "x = UpdatePriority (l\<lparr>gc_Priority := max 2 (hg_maxPeer g + 1)\<rparr>)"
    using boost_Some [OF b] by blast
  have "l \<in> set (filter (\<lambda>r. groupOf lrs r = L) rows) \<and> gc_ChassisName l = me"
    using group_fold [OF g [THEN conjunct2]] l(1) by blast
  then show ?thesis using g b l by auto
qed

lemma boost_leaves:
  assumes good: "goodRows lrs me rows" and walk: "\<And>gs. set (walk gs) = set gs"
    and r: "r \<in> set rows" "gc_ChassisName r \<noteq> me \<or> elsewhere lrs cr me (groupOf lrs r)"
  shows "foldl applyPriority r (boostOps walk lrs cr me rows) = r"
proof (rule foldl_priority_same)
  fix g assume "UpdatePriority g \<in> set (boostOps walk lrs cr me rows)"
  from boostOps_member [OF good walk this] obtain l where
    "l \<in> set rows" "gc_ChassisName l = me" "\<not> elsewhere lrs cr me (groupOf lrs l)" "gc_UUID g = gc_UUID l"
    by auto
  then show "gc_UUID g \<noteq> gc_UUID r" using r same_uuid [of rows l r] good by (auto simp: goodRows_def)
qed

lemma boost_raises:
  assumes good: "goodRows lrs me rows" and walk: "\<And>gs. set (walk gs) = set gs"
    and l: "l \<in> set rows" "gc_ChassisName l = me" "groupOf lrs l = L" "L \<noteq> ''''" "\<not> elsewhere lrs cr me L"
    and peer: "p0 \<in> set rows" "groupOf lrs p0 = L" "gc_ChassisName p0 \<noteq> me" "0 \<le> gc_Priority p0"
  defines "l' \<equiv> foldl applyPriority l (boostOps walk lrs cr me rows)"
  shows "2 \<le> gc_Priority l' \<and>
    (\<forall>p\<in>set rows. groupOf lrs p = L \<and> gc_ChassisName p \<noteq> me \<longrightarrow> gc_Priority p < gc_Priority l')"
proof -
  let ?rs = "filter (\<lambda>r. groupOf lrs r = L) rows"
  define g where "g = foldl (\<lambda>g r. addToGroup me r g) newGroup ?rs"
  have peers: "\<forall>p\<in>set ?rs. gc_ChassisName p \<noteq> me \<longrightarrow> gc_Priority p \<le> hg_maxPeer g"
    using group_fold [OF g_def] by blast
  have "hg_local g \<noteq> None" using group_fold [OF g_def] l by auto
  then obtain l0 where l0: "hg_local g = Some l0" by blast
  then have "l0 \<in> set ?rs \<and> gc_ChassisName l0 = me" using group_fold [OF g_def] by blast
  then have "l0 = l" using good l by (auto simp: goodRows_def)
  then have loc: "hg_local g = Some l" using l0 by simp
  have pos: "0 \<le> hg_maxPeer g" using peers peer by fastforce
  have "map_of (haGroups lrs me rows) L = Some g"
    using l by (auto simp: haGroups_map g_def filter_empty_conv)
  then have m: "(L, g) \<in> set (haGroups lrs me rows)" by (rule map_of_SomeD)
  have hit: "boost lrs cr me (L, g) = Some (UpdatePriority u)"
    if "UpdatePriority u \<in> set (boostOps walk lrs cr me rows)" "gc_UUID u = gc_UUID l" for u
  proof -
    from boostOps_member [OF good walk that(1)] obtain k where k: "k \<in> set rows" "gc_UUID u = gc_UUID k"
      "boost lrs cr me (groupOf lrs k, foldl (\<lambda>g r. addToGroup me r g) newGroup
          (filter (\<lambda>r. groupOf lrs r = groupOf lrs k) rows)) = Some (UpdatePriority u)"
      by auto
    have "distinct (map gc_UUID rows)" using good by (simp only: goodRows_def)
    from same_uuid [OF this k(1) l(1)] k(2) that(2) have "k = l" by simp
    then show ?thesis using k(3) l(3) by (simp add: g_def)
  qed
  show ?thesis
  proof (cases "boost lrs cr me (L, g)")
    case None
    have "l' = l" unfolding l'_def
    proof (rule foldl_priority_same, rule notI)
      fix u assume "UpdatePriority u \<in> set (boostOps walk lrs cr me rows)" "gc_UUID u = gc_UUID l"
      from hit [OF this] None show False by simp
    qed
    then show ?thesis using boost_None [OF None loc pos l(5)] peers by fastforce
  next
    case (Some x)
    then have x: "x = UpdatePriority (l\<lparr>gc_Priority := max 2 (hg_maxPeer g + 1)\<rparr>)"
      using boost_Some [OF Some] loc by auto
    have "x \<in> set (boostOps walk lrs cr me rows)"
      using m Some by (force simp: boostOps_def List.map_filter_def walk)
    then have "gc_Priority l' = gc_Priority (l\<lparr>gc_Priority := max 2 (hg_maxPeer g + 1)\<rparr>)"
      unfolding l'_def x
    proof (rule foldl_priority_set)
      fix u assume "UpdatePriority u \<in> set (boostOps walk lrs cr me rows)" "gc_UUID u = gc_UUID l"
      from hit [OF this] Some x show "gc_Priority u = gc_Priority (l\<lparr>gc_Priority := max 2 (hg_maxPeer g + 1)\<rparr>)"
        by simp
    qed simp
    then have "gc_Priority l' = max 2 (hg_maxPeer g + 1)" by simp
    then show ?thesis using peers by fastforce
  qed
qed

definition restored :: "string \<Rightarrow> nb_gateway_chassis list \<Rightarrow> nb_gateway_chassis list" where
  "restored c rows = applyPriorities (priorityOps 1 (fst (filterRestoreCandidates rows c))) rows"

lemma restored_row:
  assumes "distinct (map gc_UUID rows)" and "r \<in> set rows"
  shows "foldl applyPriority r (priorityOps 1 (fst (filterRestoreCandidates rows c))) =
    (if gc_ChassisName r = c \<and> gc_Priority r = 0 then r\<lparr>gc_Priority := 1\<rparr> else r)" (is "?r' = _")
proof (cases "gc_ChassisName r = c \<and> gc_Priority r = 0")
  case True
  then have "UpdatePriority (r\<lparr>gc_Priority := 1\<rparr>) \<in> set (priorityOps 1 (fst (filterRestoreCandidates rows c)))"
    using assms(2) by (auto simp: priorityOps_def filterRestoreCandidates_def Let_def)
  then have "gc_Priority ?r' = gc_Priority (r\<lparr>gc_Priority := 1\<rparr>)"
    by (rule foldl_priority_set) (auto simp: priorityOps_def)
  then have "?r' = r\<lparr>gc_Priority := 1\<rparr>" by (intro nb_gateway_chassis.equality) simp_all
  with True show ?thesis by (simp only: simp_thms if_True)
next
  case False
  have "?r' = r"
  proof (rule foldl_priority_same, rule notI)
    fix g assume g: "UpdatePriority g \<in> set (priorityOps 1 (fst (filterRestoreCandidates rows c)))" "gc_UUID g = gc_UUID r"
    then obtain k where k: "k \<in> set rows" "gc_ChassisName k = c" "gc_Priority k = 0" "gc_UUID k = gc_UUID g"
      by (auto simp: priorityOps_def filterRestoreCandidates_def Let_def)
    from same_uuid [OF assms(1) k(1) assms(2)] g(2) k(4) have "k = r" by simp
    with False k show False by simp
  qed
  with False show ?thesis by (simp only: if_False)
qed

lemma leads_restored:
  assumes "distinct (map gc_UUID rows)" and "leads lrs me L rows" and "c \<noteq> me"
  shows "leads lrs me L (restored c rows)"
proof -
  let ?f = "\<lambda>r. foldl applyPriority r (priorityOps 1 (fst (filterRestoreCandidates rows c)))"
  obtain l where l: "l \<in> set rows" "gc_ChassisName l = me" "groupOf lrs l = L" "2 \<le> gc_Priority l"
    "\<forall>p\<in>set rows. groupOf lrs p = L \<and> gc_ChassisName p \<noteq> me \<longrightarrow> gc_Priority p < gc_Priority l"
    using assms(2) by (auto simp: leads_def minActivePriority_def)
  have "?f l = l" using restored_row [OF assms(1) l(1), of c] l(2) assms(3) by simp
  then have in': "l \<in> set (restored c rows)" unfolding restored_def applyPriorities_def using l(1) by (metis image_eqI list.set_map)
  have "gc_Priority (?f p) < gc_Priority l" if "p \<in> set rows" "groupOf lrs p = L" "gc_ChassisName p \<noteq> me" for p
    using restored_row [OF assms(1) that(1), of c] l(4,5) that by auto
  then show ?thesis
    unfolding leads_def minActivePriority_def using in' l(2,3,4)
    by (intro bexI [of _ l]) (auto simp: restored_def applyPriorities_def)
qed

lemma applied_uuids [simp]: "map gc_UUID (applyPriorities ops rows) = map gc_UUID rows"
  by (simp add: applyPriorities_def)

lemma boost_leads:
  assumes good: "goodRows lrs me rows" and walk: "\<And>gs. set (walk gs) = set gs"
    and l: "l \<in> set rows" "gc_ChassisName l = me" "groupOf lrs l = L" "L \<noteq> ''''" "\<not> elsewhere lrs cr me L"
    and peer: "p0 \<in> set rows" "groupOf lrs p0 = L" "gc_ChassisName p0 \<noteq> me" "0 \<le> gc_Priority p0"
  shows "leads lrs me L (applyPriorities (boostOps walk lrs cr me rows) rows)"
proof -
  let ?f = "\<lambda>r. foldl applyPriority r (boostOps walk lrs cr me rows)"
  note raised = boost_raises [of lrs me rows walk l L cr p0, OF good walk l peer]
  have same: "?f p = p" if "p \<in> set rows" "gc_ChassisName p \<noteq> me" for p
    using boost_leaves [of lrs me rows walk p cr, OF good walk that(1)] that(2) by simp
  show ?thesis unfolding leads_def minActivePriority_def
  proof (intro bexI [of _ "?f l"] conjI ballI impI)
    fix p assume "p \<in> set (applyPriorities (boostOps walk lrs cr me rows) rows)"
      and "groupOf lrs p = L \<and> gc_ChassisName p \<noteq> me"
    then show "gc_Priority p < gc_Priority (?f l)" using raised same by (auto simp: applyPriorities_def)
  qed (use raised l in \<open>auto simp: applyPriorities_def\<close>)
qed

lemma priority_pass:
  assumes "leadRows env me h = (Inr rows, h1)" and "selectCRPortChassis env h1 = (cr, h2)" and "lrs \<noteq> []"
    and "\<And>x. en_build env x = None"
  shows "EnsureActivePriorityLead env walk lrs me h = sendBatch env (boostOps walk lrs cr me rows) h2"
  using assms by (simp add: EnsureActivePriorityLead_def buildable_def boostOps_def)


subsection \<open>A region with two gateway chassis\<close>

definition demo_gc1 :: nb_gateway_chassis where
  "demo_gc1 = \<lparr>gc_UUID = ''u1'', gc_Name = ''lrp-a_n1'', gc_ChassisName = ''n1'', gc_Priority = 1\<rparr>"

definition demo_gc2 :: nb_gateway_chassis where
  "demo_gc2 = \<lparr>gc_UUID = ''u2'', gc_Name = ''lrp-a_n2'', gc_ChassisName = ''n2'', gc_Priority = 1\<rparr>"

definition demo_lr :: local_router where
  "demo_lr = \<lparr>lri_RouterName = ''a'', lri_RouterUUID = ''r'', lri_LRPName = ''lrp-a'', lri_LRPUUID = ''p'',
     lri_LRPMAC = ''fa:16:3e:00:00:01'', lri_LRPNetworks = [''198.51.100.1/24''], lri_CRPort = ''cr-lrp-a'',
     lri_Segment = None, lri_GatewayChassisUUIDs = [''u1'', ''u2'']\<rparr>"

definition demo_view :: nb_view where
  "demo_view = \<lparr>v_PortBindings = Inr [], v_Chassis = Inr [], v_LRPs = Inr [], v_Routers = Inr [], v_NATs = Inr [],
     v_sbSelect = (\<lambda>_ _. TransactErr (Err ''away'')), v_nbSelect = (\<lambda>_ _. TransactErr (Err ''away'')),
     v_StaticRoutes = Inr [], v_MACBindings = Inr [], v_GatewayChassis = Inr [demo_gc1, demo_gc2],
     v_chassisRows = (\<lambda>_. TransactErr (Err ''away'')), v_redirectRows = TransactErr (Err ''away'')\<rparr>"

definition demo_nb :: nb_env where
  "demo_nb = \<lparr>en_view = (\<lambda>_. demo_view), en_build = (\<lambda>_. None), en_transact = (\<lambda>_ _. None),
     en_results = (\<lambda>_ _. None), en_wake = (\<lambda>n. if n < 3 then Tick else CtxDone)\<rparr>"

lemma demo_lead_reads:
  "leadRows demo_nb ''n1'' [] = (Inr [demo_gc1, demo_gc2], [EvRead ''Gateway_Chassis''])"
  "selectCRPortChassis demo_nb [EvRead ''Gateway_Chassis''] =
     (Inl (Err ''away''), [EvRead ''Gateway_Chassis'', EvRead ''Chassis''])"
  by (simp_all add: leadRows_def listCache_def demo_nb_def demo_view_def demo_gc1_def selectCRPortChassis_def directSelect_def)

lemma demo_groups [simp]: "groupOf [demo_lr] demo_gc1 = ''lrp-a''" "groupOf [demo_lr] demo_gc2 = ''lrp-a''"
  by (simp_all add: groupOf_def gwChassisLRPName_def lrpByGatewayChassisUUID_def demo_lr_def demo_gc1_def demo_gc2_def)


text \<open>
  The binding check compares host names as texts. When the southbound row carries the qualified
  name of this very host, the boost is skipped although the priorities tie.
\<close>

lemma qualified_name_blocks_the_boost:
  "hostnamesEqual ''n1.example.org'' ''n1'' \<and>
   boost [demo_lr] (Inr [''cr-lrp-a'' \<mapsto> ''n1.example.org'']) ''n1''
     (''lrp-a'', \<lparr>hg_local = Some demo_gc1, hg_maxPeer = 1\<rparr>) = None \<and>
   boost [demo_lr] (Inr [''cr-lrp-a'' \<mapsto> ''n1'']) ''n1''
     (''lrp-a'', \<lparr>hg_local = Some demo_gc1, hg_maxPeer = 1\<rparr>) = Some (UpdatePriority (demo_gc1\<lparr>gc_Priority := 2\<rparr>))"
  by (simp add: boost_def boundElsewhere_def crPortByLRP_def demo_lr_def lookup_def demo_gc1_def minActivePriority_def
      hostnamesEqual_def shortHostname_def EqualFold_refl)

end
