(* ===== verification/OvnDrain.thy ===== *)
theory OvnDrain
  imports OvnLead
begin

section \<open>Draining a gateway chassis\<close>

text \<open>
  The third part of \<open>ovn_gateway.go\<close>: \<open>DrainGateways\<close> and the takeover handshake. Both waits
  are \<open>select\<close> loops over the drain context, the drain-watch channel and tickers; the wake-ups they
  get are the sequence \<open>en_wake\<close>, consumed one per wait. A loop that never meets \<open>CtxDone\<close> and
  never finds its condition does not return, so the loops are \<open>partial_function\<close>s and their
  termination is a theorem.
\<close>

subsection \<open>Ports without a standby\<close>

definition soleRouters :: "local_router list \<Rightarrow> local_router list" where
  "soleRouters lrs = filter (\<lambda>lr. length (lri_GatewayChassisUUIDs lr) = 1) lrs"

definition soleCandidatePorts :: "local_router list \<Rightarrow> string set \<times> string set \<times> string set" where
  "soleCandidatePorts lrs =
     (set (map (\<lambda>lr. hd (lri_GatewayChassisUUIDs lr)) (soleRouters lrs)),
      set (filter (\<lambda>p. p \<noteq> '''') (map lri_CRPort (soleRouters lrs))),
      set (filter (\<lambda>n. n \<noteq> '''') (map lri_LRPName (soleRouters lrs))))"

definition withoutSoleCandidates :: "nb_gateway_chassis list \<Rightarrow> string set \<Rightarrow> nb_gateway_chassis list \<times> nat" where
  "withoutSoleCandidates toDrain soleGC =
     (let kept = filter (\<lambda>g. gc_UUID g \<notin> soleGC) toDrain in (kept, length toDrain - length kept))"

subsection \<open>The ports bound here\<close>

definition guardedPorts :: "nb_view \<Rightarrow> port_binding list result" where
  "guardedPorts v = cachedList (v_PortBindings v) (v_sbSelect v) ''Port_Binding''
     pbCheckColumns keyOfSBPortBinding decodeSBPortBinding"

definition guardedChassis :: "nb_view \<Rightarrow> chassis list result" where
  "guardedChassis v = cachedList (v_Chassis v) (v_sbSelect v) ''Chassis''
     chCheckColumns keyOfSBChassis decodeSBChassis"

definition portsHere :: "string \<Rightarrow> string \<Rightarrow> port_binding list \<Rightarrow> chassis list \<Rightarrow> string set" where
  "portsHere gatewayPort localChassisName pbs chs =
     set (map pb_LogicalPort (filter (\<lambda>pb.
       (case pb_Chassis pb of None \<Rightarrow> False
        | Some ref \<Rightarrow> pb_Type pb = ''chassisredirect'' \<and> ref \<noteq> '''' \<and>
            (gatewayPort = '''' \<or> pb_LogicalPort pb = gatewayPort) \<and>
            hostnamesEqual (lookup (hostByRef chs) ref) localChassisName)) pbs))"

definition localCRPortNames ::
  "nb_env \<Rightarrow> string \<Rightarrow> string \<Rightarrow> nb_history \<Rightarrow> string set result \<times> nb_history" where
  "localCRPortNames env gatewayPort localChassisName h =
     (case listCache env guardedPorts ''Port_Binding'' h of
        (Inl e, h1) \<Rightarrow> (Inl e, h1)
      | (Inr pbs, h1) \<Rightarrow>
     (case listCache env guardedChassis ''Chassis'' h1 of
        (Inl e, h2) \<Rightarrow> (Inl e, h2)
      | (Inr chs, h2) \<Rightarrow> (Inr (portsHere gatewayPort localChassisName pbs chs), h2)))"

definition countLocalCRPorts ::
  "nb_env \<Rightarrow> string \<Rightarrow> string \<Rightarrow> string set \<Rightarrow> nb_history \<Rightarrow> nat result \<times> nb_history" where
  "countLocalCRPorts env gatewayPort localChassisName skipCRPorts h =
     (case localCRPortNames env gatewayPort localChassisName h of
        (Inl e, h1) \<Rightarrow> (Inl e, h1)
      | (Inr ports, h1) \<Rightarrow> (Inr (card (ports - skipCRPorts)), h1))"

subsection \<open>The takeover handshake\<close>

definition markerByUUID :: "nb_static_route list \<Rightarrow> (string \<rightharpoonup> string)" where
  "markerByUUID routes = map_of (rev (map (\<lambda>r. (sr_UUID r, extID r takeoverReadyMarkerKey)) routes))"

definition markersNameOthers :: "nb_static_route list \<Rightarrow> string set \<Rightarrow> string \<Rightarrow> bool" where
  "markersNameOthers routes waitUUIDs localChassisName \<longleftrightarrow>
     (\<forall>u\<in>waitUUIDs. case markerByUUID routes u of None \<Rightarrow> True
        | Some marker \<Rightarrow> marker \<noteq> '''' \<and> marker \<noteq> localChassisName)"

definition takeoverMarkersReady ::
  "nb_env \<Rightarrow> string set \<Rightarrow> string \<Rightarrow> nb_history \<Rightarrow> bool result \<times> nb_history" where
  "takeoverMarkersReady env waitUUIDs localChassisName h =
     (case listCache env guardedRoutes ''Logical_Router_Static_Route'' h of
        (Inl e, h1) \<Rightarrow> (Inl e, h1)
      | (Inr routes, h1) \<Rightarrow> (Inr (markersNameOthers routes waitUUIDs localChassisName), h1))"

definition waits :: "nb_history \<Rightarrow> nat" where
  "waits h = length (filter (\<lambda>e. e = EvWait) h)"

definition awaitWake :: "nb_env \<Rightarrow> nb_history \<Rightarrow> wake \<times> nb_history" where
  "awaitWake env h = (en_wake env (waits h), h @ [EvWait])"

definition holdSettleMargin :: "nb_history \<Rightarrow> nb_history" where
  "holdSettleMargin h = h @ [EvWait]"

record drain_config =
  dc_GatewayPort :: string
  dc_DrainSettleDelay :: int

text \<open>
  The ports that returned are only logged; \<open>expired\<close> says whether the drain context is over, in
  which case the bindings are not read.
\<close>

definition noteReturnedCRPorts ::
  "nb_env \<Rightarrow> (nb_history \<Rightarrow> bool) \<Rightarrow> drain_config \<Rightarrow> string \<Rightarrow> string set \<Rightarrow> string set \<times> nb_history \<Rightarrow>
   string set \<times> nb_history" where
  "noteReturnedCRPorts env expired cfg localChassisName waitCRPorts acc =
     (let (returned, h) = acc in
      if waitCRPorts = {} \<or> expired h then acc
      else (case localCRPortNames env (dc_GatewayPort cfg) localChassisName h of
              (Inl _, h1) \<Rightarrow> (returned, h1)
            | (Inr ports, h1) \<Rightarrow> ((returned - waitCRPorts) \<union> (waitCRPorts \<inter> ports), h1)))"

partial_function (option) takeoverWait ::
  "nb_env \<Rightarrow> (nb_history \<Rightarrow> bool) \<Rightarrow> drain_config \<Rightarrow> string \<Rightarrow> string set \<Rightarrow> string set \<Rightarrow> string set \<times> nb_history \<Rightarrow>
   nb_history option" where
  "takeoverWait env expired cfg localChassisName waitUUIDs waitCRPorts acc =
     (case takeoverMarkersReady env waitUUIDs localChassisName (snd acc) of (ready, h1) \<Rightarrow>
       (if ready = Inr True then Some (holdSettleMargin h1)
        else (case awaitWake env h1 of (w, h2) \<Rightarrow>
          (if w = CtxDone then Some h2
           else takeoverWait env expired cfg localChassisName waitUUIDs waitCRPorts
             (if w = Tick then (fst acc, h2)
              else noteReturnedCRPorts env expired cfg localChassisName waitCRPorts (fst acc, h2))))))"

definition awaitTakeoverReady ::
  "nb_env \<Rightarrow> (nb_history \<Rightarrow> bool) \<Rightarrow> drain_config \<Rightarrow> local_router list \<Rightarrow> string \<Rightarrow> string set \<Rightarrow> nb_history \<Rightarrow>
   nb_history option" where
  "awaitTakeoverReady env expired cfg allRouters localChassisName skipLRPs h =
     (if dc_DrainSettleDelay cfg \<le> 0 then Some h
      else (let localRouters = filter (\<lambda>lr. lri_LRPName lr \<notin> skipLRPs) allRouters in
        (case localManagedDefaultRoutes env localRouters h of
           (Inl _, h1) \<Rightarrow> Some (holdSettleMargin h1)
         | (Inr waitRoutes, h1) \<Rightarrow>
             if waitRoutes = [] then Some (holdSettleMargin h1)
             else takeoverWait env expired cfg localChassisName (sr_UUID ` set waitRoutes)
                    (set (filter (\<lambda>p. p \<noteq> '''') (map lri_CRPort localRouters))) ({}, h1))))"

subsection \<open>The drain\<close>

type_synonym drain_result = "(bool \<times> err option) \<times> nb_history"

partial_function (option) migrationWait ::
  "nb_env \<Rightarrow> (nb_history \<Rightarrow> bool) \<Rightarrow> drain_config \<Rightarrow> local_router list \<Rightarrow> string \<Rightarrow> string set \<Rightarrow> string set \<Rightarrow> nb_history \<Rightarrow>
   drain_result option" where
  "migrationWait env expired cfg lrs localChassisName soleCRPorts soleLRPs h =
     (case countLocalCRPorts env (dc_GatewayPort cfg) localChassisName soleCRPorts h of (counted, h1) \<Rightarrow>
       (case counted of
          Inl e \<Rightarrow> Some ((True, Some e), h1)
        | Inr remaining \<Rightarrow>
            (if remaining = 0
             then map_option (\<lambda>h2. ((True, None), h2)) (awaitTakeoverReady env expired cfg lrs localChassisName soleLRPs h1)
             else (case awaitWake env h1 of (w, h2) \<Rightarrow>
               (if w = CtxDone then Some ((True, None), h2)
                else migrationWait env expired cfg lrs localChassisName soleCRPorts soleLRPs h2)))))"

definition DrainGateways ::
  "nb_env \<Rightarrow> (nb_history \<Rightarrow> bool) \<Rightarrow> drain_config \<Rightarrow> local_router list \<Rightarrow> string \<Rightarrow> nb_history \<Rightarrow> drain_result option" where
  "DrainGateways env expired cfg lrs localChassisName h =
     (case ownCandidates env filterDrainCandidates localChassisName h of
        (Inl e, h1) \<Rightarrow> Some ((False, Some e), h1)
      | (Inr candidates, h1) \<Rightarrow>
          (case soleCandidatePorts lrs of (soleGC, soleCRPorts, soleLRPs) \<Rightarrow>
             (let toDrain = fst (withoutSoleCandidates candidates soleGC) in
              if toDrain = [] then Some ((False, None), h1)
              else (case sendBatch env (buildable env (priorityOps 0 toDrain)) h1 of
                      (Some e, h2) \<Rightarrow> Some ((False, Some e), h2)
                    | (None, h2) \<Rightarrow> migrationWait env expired cfg lrs localChassisName soleCRPorts soleLRPs h2))))"

subsection \<open>The waits only read\<close>

lemma waits_simps [simp]:
  "waits [] = 0" "waits (h @ h') = waits h + waits h'" "waits (EvRead t # h) = waits h"
  "waits (EvWait # h) = Suc (waits h)" "waits (EvSent ops ok # h) = waits h"
  by (simp_all add: waits_def)

text \<open>A run that sends nothing and waits for nothing.\<close>

definition onlyReads :: "nb_history \<Rightarrow> nb_history \<Rightarrow> bool" where
  "onlyReads h h' \<longleftrightarrow> (\<exists>ts. h' = h @ map EvRead ts)"

lemma onlyReads_refl [simp]: "onlyReads h h"
  unfolding onlyReads_def by (rule exI [of _ "[]"]) simp

lemma onlyReads_read: "onlyReads h h' \<Longrightarrow> onlyReads h (h' @ [EvRead t])"
  by (auto simp: onlyReads_def intro: exI [of _ "_ @ [t]"])

lemma onlyReads_list: "onlyReads h (snd (listCache env sel t h))"
  by (simp add: listCache_def onlyReads_read)

lemma onlyReads_trans: "onlyReads a b \<Longrightarrow> onlyReads b c \<Longrightarrow> onlyReads a c"
  by (auto simp: onlyReads_def simp flip: map_append)

lemma onlyReads_waits: "onlyReads h h' \<Longrightarrow> waits h' = waits h"
  by (auto simp: onlyReads_def waits_def comp_def)

lemma transactions_reads [simp]: "transactions (map EvRead ts) = []"
  by (induction ts) simp_all

lemma onlyReads_sends: "onlyReads h h' \<Longrightarrow> sends P h h'"
  by (auto simp: onlyReads_def)

lemma onlyReads_markers: "onlyReads h (snd (takeoverMarkersReady env u me h))"
  by (auto simp: takeoverMarkersReady_def listCache_def onlyReads_read split: sum.splits)

lemma onlyReads_portNames: "onlyReads h (snd (localCRPortNames env gp me h))"
  using onlyReads_read [OF onlyReads_read [OF onlyReads_refl], of h "''Port_Binding''" "''Chassis''"]
  by (auto simp: localCRPortNames_def listCache_def onlyReads_read split: sum.splits)

lemma onlyReads_count: "onlyReads h (snd (countLocalCRPorts env gp me skip h))"
  using onlyReads_portNames [of h env gp me]
  by (auto simp: countLocalCRPorts_def split: prod.splits sum.splits)

lemma onlyReads_note: "onlyReads (snd acc) (snd (noteReturnedCRPorts env expired cfg me ports acc))"
  using onlyReads_portNames [of "snd acc" env "dc_GatewayPort cfg" me]
  by (auto simp: noteReturnedCRPorts_def Let_def split: prod.splits sum.splits)

lemma onlyReads_managed: "onlyReads h (snd (localManagedDefaultRoutes env lrs h))"
  using onlyReads_read [OF onlyReads_read [OF onlyReads_refl], of h "''Logical_Router''" "''Logical_Router_Static_Route''"]
  by (auto simp: localManagedDefaultRoutes_def listCache_def Let_def onlyReads_read split: sum.splits)

lemma onlyReads_select: "onlyReads h (snd (selectLocalGatewayChassis env me h))"
  by (simp add: selectLocalGatewayChassis_def onlyReads_read)

lemma onlyReads_own: "onlyReads h (snd (ownCandidates env f me h))"
proof -
  have "onlyReads h (snd (selectLocalGatewayChassis env me (h @ [EvRead ''Gateway_Chassis''])))"
    by (rule onlyReads_trans [OF _ onlyReads_select]) (simp add: onlyReads_read)
  then show ?thesis
    by (auto simp: ownCandidates_def listCache_def onlyReads_read split: sum.splits prod.splits)
qed

subsection \<open>The deadline ends every wait\<close>

text \<open>One round of the takeover wait, with the reads of the round folded in.\<close>

lemma takeoverWait_round:
  obtains (ready) h1 where "onlyReads (snd acc) h1" "takeoverMarkersReady env u me (snd acc) = (Inr True, h1)"
      "takeoverWait env expired cfg me u ports acc = Some (holdSettleMargin h1)"
  | (over) h1 where "onlyReads (snd acc) h1" "en_wake env (waits h1) = CtxDone"
      "takeoverWait env expired cfg me u ports acc = Some (h1 @ [EvWait])"
  | (again) h1 acc' where "onlyReads (snd acc) h1" "en_wake env (waits h1) \<noteq> CtxDone"
      "onlyReads (h1 @ [EvWait]) (snd acc')"
      "takeoverWait env expired cfg me u ports acc = takeoverWait env expired cfg me u ports acc'"
proof -
  obtain r h1 where m: "takeoverMarkersReady env u me (snd acc) = (r, h1)" by fastforce
  have reads: "onlyReads (snd acc) h1" using onlyReads_markers [of "snd acc" env u me] m by simp
  let ?acc' = "if en_wake env (waits h1) = Tick then (fst acc, h1 @ [EvWait])
      else noteReturnedCRPorts env expired cfg me ports (fst acc, h1 @ [EvWait])"
  have acc': "onlyReads (h1 @ [EvWait]) (snd ?acc')"
    using onlyReads_note [of "(fst acc, h1 @ [EvWait])" env expired cfg me ports] by simp
  have body: "takeoverWait env expired cfg me u ports acc =
      (if r = Inr True then Some (holdSettleMargin h1)
       else if en_wake env (waits h1) = CtxDone then Some (h1 @ [EvWait])
       else takeoverWait env expired cfg me u ports ?acc')"
    by (subst takeoverWait.simps) (simp add: m awaitWake_def)
  show thesis
  proof (cases "r = Inr True")
    case True
    with body m reads show ?thesis by (intro ready [of h1]) simp_all
  next
    case False
    then show ?thesis
    proof (cases "en_wake env (waits h1) = CtxDone")
      case True
      with body False reads show ?thesis by (intro over [of h1]) simp_all
    next
      case go: False
      show ?thesis
        by (rule again [OF reads go acc']) (simp only: body False go if_False)
    qed
  qed
qed

lemma takeoverWait_ends:
  assumes "en_wake env k = CtxDone" and "waits (snd acc) \<le> k"
  shows "\<exists>h'. takeoverWait env expired cfg me u ports acc = Some h'"
  using assms(2)
proof (induction "k - waits (snd acc)" arbitrary: acc rule: less_induct)
  case less
  show ?case
  proof (cases rule: takeoverWait_round [of acc env u me expired cfg ports])
    case (again h1 acc')
    have w: "waits h1 = waits (snd acc)" using onlyReads_waits [OF again(1)] .
    then have "waits (snd acc) \<noteq> k" using again(2) assms(1) by auto
    moreover have "waits (snd acc') = Suc (waits (snd acc))" using onlyReads_waits [OF again(3)] w by simp
    ultimately have "\<exists>h'. takeoverWait env expired cfg me u ports acc' = Some h'"
      using less.prems by (intro less.hyps) auto
    then show ?thesis using again(4) by simp
  qed auto
qed

lemma awaitTakeoverReady_ends:
  assumes "en_wake env k = CtxDone" and "waits h \<le> k"
  shows "\<exists>h'. awaitTakeoverReady env expired cfg lrs me skip h = Some h'"
proof -
  let ?lrs = "filter (\<lambda>lr. lri_LRPName lr \<notin> skip) lrs"
  obtain r h1 where m: "localManagedDefaultRoutes env ?lrs h = (r, h1)" by fastforce
  then have "waits h1 = waits h" using onlyReads_waits [OF onlyReads_managed, of env ?lrs h] by simp
  then have "\<exists>h'. takeoverWait env expired cfg me u ports (x, h1) = Some h'" for u ports x
    using assms by (intro takeoverWait_ends) simp_all
  then show ?thesis by (auto simp: awaitTakeoverReady_def Let_def m split: sum.splits)
qed

lemma migrationWait_round:
  obtains (failed) h1 e where "onlyReads h h1"
      "migrationWait env expired cfg lrs me sole soleLRPs h = Some ((True, Some e), h1)"
  | (moved) h1 where "onlyReads h h1" "countLocalCRPorts env (dc_GatewayPort cfg) me sole h = (Inr 0, h1)"
      "migrationWait env expired cfg lrs me sole soleLRPs h =
         map_option (\<lambda>h2. ((True, None), h2)) (awaitTakeoverReady env expired cfg lrs me soleLRPs h1)"
  | (over) h1 where "onlyReads h h1" "en_wake env (waits h1) = CtxDone"
      "migrationWait env expired cfg lrs me sole soleLRPs h = Some ((True, None), h1 @ [EvWait])"
  | (again) h1 where "onlyReads h h1" "en_wake env (waits h1) \<noteq> CtxDone"
      "migrationWait env expired cfg lrs me sole soleLRPs h = migrationWait env expired cfg lrs me sole soleLRPs (h1 @ [EvWait])"
proof -
  obtain r h1 where m: "countLocalCRPorts env (dc_GatewayPort cfg) me sole h = (r, h1)" by fastforce
  have reads: "onlyReads h h1" using onlyReads_count [of h env "dc_GatewayPort cfg" me sole] m by simp
  have body: "migrationWait env expired cfg lrs me sole soleLRPs h =
      (case r of Inl e \<Rightarrow> Some ((True, Some e), h1)
       | Inr n \<Rightarrow> if n = 0 then map_option (\<lambda>h2. ((True, None), h2)) (awaitTakeoverReady env expired cfg lrs me soleLRPs h1)
           else if en_wake env (waits h1) = CtxDone then Some ((True, None), h1 @ [EvWait])
           else migrationWait env expired cfg lrs me sole soleLRPs (h1 @ [EvWait]))"
    by (subst migrationWait.simps) (simp add: m awaitWake_def split: sum.split)
  show thesis
  proof (cases r)
    case (Inl e)
    with body reads show ?thesis by (intro failed [of h1 e]) simp_all
  next
    case (Inr n)
    show ?thesis
    proof (cases "n = 0")
      case True
      with body reads m Inr show ?thesis by (intro moved [of h1]) simp_all
    next
      case n: False
      show ?thesis
      proof (cases "en_wake env (waits h1) = CtxDone")
        case True
        with body reads n Inr show ?thesis by (intro over [of h1]) simp_all
      next
        case False
        show ?thesis by (rule again [OF reads False]) (simp only: body Inr n False sum.case if_False)
      qed
    qed
  qed
qed

lemma migrationWait_ends:
  assumes "en_wake env k = CtxDone" and "waits h \<le> k"
  shows "\<exists>r. migrationWait env expired cfg lrs me sole soleLRPs h = Some r"
  using assms(2)
proof (induction "k - waits h" arbitrary: h rule: less_induct)
  case less
  show ?case
  proof (cases rule: migrationWait_round [of h env expired cfg lrs me sole soleLRPs])
    case (moved h1)
    have "waits h1 \<le> k" using onlyReads_waits [OF moved(1)] less.prems by simp
    then show ?thesis using awaitTakeoverReady_ends [OF assms(1), of h1 expired cfg lrs me soleLRPs] moved(3) by auto
  next
    case (again h1)
    have w: "waits h1 = waits h" using onlyReads_waits [OF again(1)] .
    then have "waits h \<noteq> k" using again(2) assms(1) by auto
    then have "\<exists>r. migrationWait env expired cfg lrs me sole soleLRPs (h1 @ [EvWait]) = Some r"
      using less.prems w by (intro less.hyps) auto
    then show ?thesis using again(3) by simp
  qed auto
qed

text \<open>
  C15: a drain always comes to an end: when the drain context is over at some wait from now on,
  \<open>DrainGateways\<close> returns, whatever the caches, the servers and the other chassis do meanwhile.
\<close>

theorem drain_ends_by_the_deadline:
  assumes "en_wake env k = CtxDone" and "waits h \<le> k"
  shows "\<exists>r. DrainGateways env expired cfg lrs me h = Some r"
proof -
  obtain c h1 where c: "ownCandidates env filterDrainCandidates me h = (c, h1)" by fastforce
  have w: "waits h1 = waits h" using onlyReads_waits [OF onlyReads_own [of h env filterDrainCandidates me]] c by simp
  have "waits (snd (sendBatch env ops h1)) = waits h" for ops
    by (simp add: sendBatch_def transactOps_def Let_def w)
  then have "\<exists>r. migrationWait env expired cfg lrs me sole skip (snd (sendBatch env ops h1)) = Some r" for sole skip ops
    using migrationWait_ends [OF assms(1)] assms(2) by simp
  then show ?thesis
    by (auto simp: DrainGateways_def c Let_def split: sum.splits prod.splits option.splits)
      (metis snd_conv)
qed

subsection \<open>When a drain lets go\<close>

definition deadlineMet :: "nb_env \<Rightarrow> nb_history \<Rightarrow> nb_history \<Rightarrow> bool" where
  "deadlineMet env h h' \<longleftrightarrow> (\<exists>k. waits h \<le> k \<and> k < waits h' \<and> en_wake env k = CtxDone)"

text \<open>The takeover was seen: one guarded read of the routes had every marker name another chassis.\<close>

definition takeoverSeen :: "nb_env \<Rightarrow> string set \<Rightarrow> string \<Rightarrow> nb_history \<Rightarrow> bool" where
  "takeoverSeen env waitUUIDs me h' \<longleftrightarrow>
     (\<exists>h1 routes. guardedRoutes (en_view env h1) = Inr routes \<and> markersNameOthers routes waitUUIDs me \<and>
        h' = h1 @ [EvRead ''Logical_Router_Static_Route'', EvWait])"

lemma deadlineMet_later:
  "waits h \<le> waits h1 \<Longrightarrow> waits h2 \<le> waits h' \<Longrightarrow> deadlineMet env h1 h2 \<Longrightarrow> deadlineMet env h h'"
  unfolding deadlineMet_def by (meson le_trans less_le_trans)

lemma sends_waits: "sends P h h' \<Longrightarrow> waits h \<le> waits h'"
  by (auto simp: sends_def)

lemma takeoverWait_result:
  assumes "takeoverWait env expired cfg me u ports acc = Some h'"
  shows "sends (\<lambda>_. False) (snd acc) h' \<and> (deadlineMet env (snd acc) h' \<or> takeoverSeen env u me h')"
proof (rule takeoverWait.raw_induct [where P = "\<lambda>env expired cfg me u ports acc h'.
    sends (\<lambda>_. False) (snd acc) h' \<and> (deadlineMet env (snd acc) h' \<or> takeoverSeen env u me h')", OF _ assms],
    goal_cases)
  case (1 rec env expired cfg me u ports acc h')
  obtain r h1 where m: "takeoverMarkersReady env u me (snd acc) = (r, h1)" by fastforce
  have reads: "onlyReads (snd acc) h1" using onlyReads_markers [of "snd acc" env u me] m by simp
  then have quiet: "sends (\<lambda>_. False) (snd acc) (h1 @ [EvWait])"
    by (rule sends_trans [OF onlyReads_sends]) simp
  note w = onlyReads_waits [OF reads]
  let ?acc' = "if en_wake env (waits h1) = Tick then (fst acc, h1 @ [EvWait])
      else noteReturnedCRPorts env expired cfg me ports (fst acc, h1 @ [EvWait])"
  have acc': "onlyReads (h1 @ [EvWait]) (snd ?acc')"
    using onlyReads_note [of "(fst acc, h1 @ [EvWait])" env expired cfg me ports] by simp
  have body: "(if r = Inr True then Some (h1 @ [EvWait])
       else if en_wake env (waits h1) = CtxDone then Some (h1 @ [EvWait])
       else rec env expired cfg me u ports ?acc') = Some h'"
    using 1(2) by (simp add: m awaitWake_def holdSettleMargin_def split: if_splits)
  show ?case
  proof (cases "r = Inr True")
    case True
    with m obtain routes where "guardedRoutes (en_view env (snd acc)) = Inr routes"
      "markersNameOthers routes u me" "h1 = snd acc @ [EvRead ''Logical_Router_Static_Route'']"
      by (auto simp: takeoverMarkersReady_def listCache_def split: sum.splits)
    then have "takeoverSeen env u me (h1 @ [EvWait])"
      unfolding takeoverSeen_def by (intro exI [of _ "snd acc"] exI [of _ routes]) simp
    with body True quiet show ?thesis by simp
  next
    case r: False
    show ?thesis
    proof (cases "en_wake env (waits h1) = CtxDone")
      case True
      with body r have "h' = h1 @ [EvWait]" by simp
      then have "deadlineMet env (snd acc) h'"
        unfolding deadlineMet_def using True w by (intro exI [of _ "waits h1"]) simp
      with quiet \<open>h' = h1 @ [EvWait]\<close> show ?thesis by simp
    next
      case False
      with body r have "rec env expired cfg me u ports ?acc' = Some h'" by simp
      from 1(1) [OF this] have IH: "sends (\<lambda>_. False) (snd ?acc') h'"
        "deadlineMet env (snd ?acc') h' \<or> takeoverSeen env u me h'" by blast+
      have "sends (\<lambda>_. False) (snd acc) (snd ?acc')"
        using sends_trans [OF quiet onlyReads_sends [OF acc']] .
      from sends_trans [OF this IH(1)] IH(2) deadlineMet_later [OF sends_waits [OF this] order_refl]
      show ?thesis by blast
    qed
  qed
qed

text \<open>
  The handshake after the ports left: switched off, without a managed default route to watch, over
  by the deadline, or completed by the markers.
\<close>

definition handedOver ::
  "nb_env \<Rightarrow> drain_config \<Rightarrow> local_router list \<Rightarrow> string \<Rightarrow> string set \<Rightarrow> nb_history \<Rightarrow> nb_history \<Rightarrow> bool" where
  "handedOver env cfg lrs me skipLRPs h h' \<longleftrightarrow>
     dc_DrainSettleDelay cfg \<le> 0 \<or>
     (case fst (localManagedDefaultRoutes env (filter (\<lambda>lr. lri_LRPName lr \<notin> skipLRPs) lrs) h) of
        Inl _ \<Rightarrow> True
      | Inr waitRoutes \<Rightarrow> waitRoutes = [] \<or> takeoverSeen env (sr_UUID ` set waitRoutes) me h')"

lemma awaitTakeoverReady_result:
  assumes "awaitTakeoverReady env expired cfg lrs me skip h = Some h'"
  shows "sends (\<lambda>_. False) h h' \<and> (deadlineMet env h h' \<or> handedOver env cfg lrs me skip h h')"
proof (cases "dc_DrainSettleDelay cfg \<le> 0")
  case True
  then show ?thesis using assms by (simp add: awaitTakeoverReady_def handedOver_def)
next
  case False
  let ?lrs = "filter (\<lambda>lr. lri_LRPName lr \<notin> skip) lrs"
  obtain r h1 where m: "localManagedDefaultRoutes env ?lrs h = (r, h1)" by fastforce
  have reads: "onlyReads h h1" using onlyReads_managed [of h env ?lrs] m by simp
  show ?thesis
  proof (cases "\<exists>rs. r = Inr rs \<and> rs \<noteq> []")
    case True
    then obtain rs where r: "r = Inr rs" "rs \<noteq> []" by blast
    with assms False m have "takeoverWait env expired cfg me (sr_UUID ` set rs)
        (set (filter (\<lambda>p. p \<noteq> '''') (map lri_CRPort ?lrs))) ({}, h1) = Some h'"
      by (simp add: awaitTakeoverReady_def Let_def)
    from takeoverWait_result [OF this] have "sends (\<lambda>_. False) h1 h'"
      "deadlineMet env h1 h' \<or> takeoverSeen env (sr_UUID ` set rs) me h'" by simp_all
    moreover have "sends (\<lambda>_. False) h h1" using reads by (rule onlyReads_sends)
    ultimately show ?thesis
      using sends_trans deadlineMet_later [OF sends_waits order_refl] r m by (simp add: handedOver_def) blast
  next
    case no: False
    then have "h' = h1 @ [EvWait]"
      using assms False m by (auto simp: awaitTakeoverReady_def Let_def holdSettleMargin_def split: sum.splits)
    moreover have "sends (\<lambda>_. False) h1 (h1 @ [EvWait])" by simp
    ultimately have "sends (\<lambda>_. False) h h'" using sends_trans [OF onlyReads_sends [OF reads]] by simp
    then show ?thesis using no m by (auto simp: handedOver_def split: sum.split)
  qed
qed

definition migrated ::
  "nb_env \<Rightarrow> drain_config \<Rightarrow> string \<Rightarrow> string set \<Rightarrow> nb_history \<Rightarrow> nb_history \<Rightarrow> bool" where
  "migrated env cfg me soleCRPorts h h1 \<longleftrightarrow>
     countLocalCRPorts env (dc_GatewayPort cfg) me soleCRPorts h = (Inr 0, h1)"

lemma migrationWait_result:
  assumes "migrationWait env expired cfg lrs me sole skip h = Some (r, h')"
  shows "sends (\<lambda>_. False) h h' \<and> fst r \<and>
    (r = (True, None) \<longrightarrow> deadlineMet env h h' \<or>
       (\<exists>h0 h1. sends (\<lambda>_. False) h h0 \<and> migrated env cfg me sole h0 h1 \<and> handedOver env cfg lrs me skip h1 h'))"
    (is "?P env expired cfg lrs me sole skip h (r, h')")
proof -
  let ?Q = "\<lambda>env expired cfg lrs me sole skip h z. sends (\<lambda>_. False) h (snd z) \<and> fst (fst z) \<and>
    (fst z = (True, None) \<longrightarrow> deadlineMet env h (snd z) \<or>
       (\<exists>h0 h1. sends (\<lambda>_. False) h h0 \<and> migrated env cfg me sole h0 h1 \<and> handedOver env cfg lrs me skip h1 (snd z)))"
  have "?Q env expired cfg lrs me sole skip h (r, h')"
  proof (rule migrationWait.raw_induct [where P = ?Q, OF _ assms], goal_cases)
    case (1 rec env expired cfg lrs me sole skip h z)
    obtain c h1 where m: "countLocalCRPorts env (dc_GatewayPort cfg) me sole h = (c, h1)" by fastforce
    have reads: "onlyReads h h1" using onlyReads_count [of h env "dc_GatewayPort cfg" me sole] m by simp
    note quiet = onlyReads_sends [OF reads] and w = onlyReads_waits [OF reads]
    have wait: "sends (\<lambda>_. False) h (h1 @ [EvWait])" by (rule sends_trans [OF quiet]) simp
    have body: "(case c of Inl e \<Rightarrow> Some ((True, Some e), h1)
       | Inr n \<Rightarrow> if n = 0 then map_option (\<lambda>h2. ((True, None), h2)) (awaitTakeoverReady env expired cfg lrs me skip h1)
           else if en_wake env (waits h1) = CtxDone then Some ((True, None), h1 @ [EvWait])
           else rec env expired cfg lrs me sole skip (h1 @ [EvWait])) = Some z"
      using 1(2) by (cases c) (simp_all add: m awaitWake_def split: if_splits)
    show ?case
    proof (cases c)
      case (Inl e)
      then show ?thesis using body quiet by auto
    next
      case (Inr n)
      show ?thesis
      proof (cases "n = 0")
        case True
        with body Inr obtain h2 where h2: "awaitTakeoverReady env expired cfg lrs me skip h1 = Some h2" "z = ((True, None), h2)"
          by auto
        have "migrated env cfg me sole h h1" using m Inr True by (simp add: migrated_def)
        then show ?thesis
          using awaitTakeoverReady_result [OF h2(1)] h2(2) quiet sends_trans [OF quiet]
            deadlineMet_later [OF sends_waits [OF quiet] order_refl] sends_refl
          by (simp only: fst_conv snd_conv) blast
      next
        case n: False
        show ?thesis
        proof (cases "en_wake env (waits h1) = CtxDone")
          case True
          with body Inr n have z: "z = ((True, None), h1 @ [EvWait])" by simp
          have "deadlineMet env h (h1 @ [EvWait])"
            unfolding deadlineMet_def using True w by (intro exI [of _ "waits h1"]) simp
          with wait show ?thesis unfolding z by simp
        next
          case False
          with body Inr n have "rec env expired cfg lrs me sole skip (h1 @ [EvWait]) = Some z" by simp
          from 1(1) [OF this] show ?thesis
            using sends_trans [OF wait] deadlineMet_later [OF sends_waits [OF wait] order_refl] by blast
        qed
      qed
    qed
  qed
  then show ?thesis by simp
qed

definition ownRowLowered :: "string \<Rightarrow> string set \<Rightarrow> nb_op \<Rightarrow> bool" where
  "ownRowLowered me soleGC x \<longleftrightarrow>
     (\<exists>g. x = UpdatePriority (g\<lparr>gc_Priority := 0\<rparr>) \<and> gc_ChassisName g = me \<and> 0 < gc_Priority g \<and> gc_UUID g \<notin> soleGC)"

lemma ownCandidates_own:
  assumes "ownCandidates env filterDrainCandidates me h = (Inr gs, h1)" and "g \<in> set gs"
  shows "gc_ChassisName g = me \<and> 0 < gc_Priority g"
  using assms by (auto simp: ownCandidates_def listCache_def filterDrainCandidates_def Let_def
      split: sum.splits prod.splits if_splits)

lemma drainOps_own:
  assumes "ownCandidates env filterDrainCandidates me h = (Inr gs, h1)"
  shows "list_all (ownRowLowered me soleGC) (buildable env (priorityOps 0 (fst (withoutSoleCandidates gs soleGC))))"
  using ownCandidates_own [OF assms]
  by (auto simp: list_all_iff buildable_def priorityOps_def withoutSoleCandidates_def Let_def ownRowLowered_def)

text \<open>The ways a drain can end, as one case rule.\<close>

lemma DrainGateways_cases:
  assumes "DrainGateways env expired cfg lrs me h = Some (r, h')"
  obtains (early) "fst r = False" "onlyReads h h'"
  | (refused) h1 ops e where "fst r = False" "onlyReads h h1" "sendBatch env ops h1 = (Some e, h')"
      "list_all (ownRowLowered me (fst (soleCandidatePorts lrs))) ops"
  | (waited) h1 ops h2 where "onlyReads h h1" "sendBatch env ops h1 = (None, h2)"
      "list_all (ownRowLowered me (fst (soleCandidatePorts lrs))) ops"
      "migrationWait env expired cfg lrs me (fst (snd (soleCandidatePorts lrs))) (snd (snd (soleCandidatePorts lrs))) h2 = Some (r, h')"
proof -
  obtain c h1 where c: "ownCandidates env filterDrainCandidates me h = (c, h1)" by fastforce
  have reads: "onlyReads h h1" using onlyReads_own [of h env filterDrainCandidates me] c by simp
  obtain soleGC soleCR soleLRP where s: "soleCandidatePorts lrs = (soleGC, soleCR, soleLRP)" by (metis prod_cases3)
  show thesis
  proof (cases c)
    case (Inl e)
    with assms c reads show ?thesis by (intro early) (auto simp: DrainGateways_def)
  next
    case (Inr gs)
    let ?ops = "buildable env (priorityOps 0 (fst (withoutSoleCandidates gs soleGC)))"
    have own: "list_all (ownRowLowered me (fst (soleCandidatePorts lrs))) ?ops"
      using drainOps_own c Inr s by simp
    show ?thesis
    proof (cases "fst (withoutSoleCandidates gs soleGC) = []")
      case True
      with assms c Inr s reads show ?thesis by (intro early) (auto simp: DrainGateways_def Let_def)
    next
      case False
      obtain e h2 where b: "sendBatch env ?ops h1 = (e, h2)" by fastforce
      show ?thesis
      proof (cases e)
        case None
        have "migrationWait env expired cfg lrs me soleCR soleLRP h2 = Some (r, h')"
          using assms c Inr s False b None by (simp add: DrainGateways_def Let_def)
        with reads b own None s show ?thesis by (intro waited [of h1 ?ops h2]) simp_all
      next
        case (Some x)
        then have "r = (False, Some x)" "h' = h2"
          using assms c Inr s False b by (simp_all add: DrainGateways_def Let_def)
        with reads b own Some show ?thesis by (intro refused [of h1 ?ops x]) simp_all
      qed
    qed
  qed
qed

lemma sendBatch_transactions:
  "sendBatch env ops h = (e, h') \<Longrightarrow> transactions h' = transactions h @ (if ops = [] then [] else [ops])"
  by (auto simp: sendBatch_def transactOps_def Let_def split: if_splits)

lemma sendBatch_waits: "sendBatch env ops h = (e, h') \<Longrightarrow> waits h' = waits h"
  by (auto simp: sendBatch_def transactOps_def Let_def split: if_splits)

lemma onlyReads_transactions: "onlyReads h h' \<Longrightarrow> transactions h' = transactions h"
  by (auto simp: onlyReads_def)

lemma silent_transactions: "sends (\<lambda>_. False) h h' \<Longrightarrow> transactions h' = transactions h"
  by (auto simp: sends_def list_all_iff)



subsection \<open>A drain that is taken over\<close>

definition demo_drain_view :: nb_view where
  "demo_drain_view = demo_view\<lparr>
     v_Routers := Inr [\<lparr>lr_UUID = ''r'', lr_Name = ''a'', lr_Ports = [], lr_Nat = [], lr_StaticRoutes = [''s1'']\<rparr>],
     v_StaticRoutes := Inr [\<lparr>sr_UUID = ''s1'', sr_IPPrefix = ''0.0.0.0/0'', sr_Nexthop = ''198.51.100.254'', sr_OutputPort = Some ''lrp-a'',
       sr_ExternalIDs = Some [(''ovn-network-agent'', ''managed''), (''ovn-network-agent-advertised'', ''n2'')]\<rparr>]\<rparr>"

definition demo_drain :: nb_env where
  "demo_drain = demo_nb\<lparr>en_view := \<lambda>_. demo_drain_view\<rparr>"

definition demo_drain_cfg :: drain_config where
  "demo_drain_cfg = \<lparr>dc_GatewayPort = '''', dc_DrainSettleDelay = 1\<rparr>"

definition demo_drain_log :: nb_history where
  "demo_drain_log = [EvRead ''Gateway_Chassis'', EvSent [UpdatePriority (demo_gc1\<lparr>gc_Priority := 0\<rparr>)] True,
     EvRead ''Port_Binding'', EvRead ''Chassis'', EvRead ''Logical_Router'', EvRead ''Logical_Router_Static_Route'',
     EvRead ''Logical_Router_Static_Route'', EvWait]"

lemma demo_drain_reads:
  "guardedRoutes demo_drain_view = Inr [\<lparr>sr_UUID = ''s1'', sr_IPPrefix = ''0.0.0.0/0'', sr_Nexthop = ''198.51.100.254'',
     sr_OutputPort = Some ''lrp-a'',
     sr_ExternalIDs = Some [(''ovn-network-agent'', ''managed''), (''ovn-network-agent-advertised'', ''n2'')]\<rparr>]"
  "guardedRouters demo_drain_view = Inr [\<lparr>lr_UUID = ''r'', lr_Name = ''a'', lr_Ports = [], lr_Nat = [], lr_StaticRoutes = [''s1'']\<rparr>]"
  "guardedPorts demo_drain_view = Inr []" "guardedChassis demo_drain_view = Inr []"
  by (simp_all add: guardedRoutes_def guardedRouters_def guardedPorts_def guardedChassis_def cachedList_def
      authoritativeList_def serverKeySet_def directSelect_def demo_drain_view_def demo_view_def)

lemma demo_env_fields [simp]:
  "en_view demo_drain h = demo_drain_view" "en_build demo_drain x = None" "en_transact demo_drain h ops = None"
  "en_results demo_drain h ops = None" "en_wake demo_drain n = (if n < 3 then Tick else CtxDone)"
  by (simp_all add: demo_drain_def demo_nb_def)

lemma demo_drain_run:
  "DrainGateways demo_drain (\<lambda>_. False) demo_drain_cfg [demo_lr] ''n1'' [] = Some ((True, None), demo_drain_log)"
proof -
  have own: "ownCandidates demo_drain filterDrainCandidates ''n1'' [] = (Inr [demo_gc1], [EvRead ''Gateway_Chassis''])"
    by (simp add: ownCandidates_def listCache_def filterDrainCandidates_def demo_drain_view_def demo_view_def
        demo_gc1_def demo_gc2_def)
  have sole: "soleCandidatePorts [demo_lr] = ({}, {}, {})"
    by (simp add: soleCandidatePorts_def soleRouters_def demo_lr_def)
  have managed: "localManagedDefaultRoutes demo_drain [demo_lr] h =
      (guardedRoutes demo_drain_view, h @ [EvRead ''Logical_Router'', EvRead ''Logical_Router_Static_Route''])" for h
    by (simp add: localManagedDefaultRoutes_def listCache_def demo_drain_reads Let_def demo_lr_def defaultPrefix_def
        isManaged_def extID_def nilMap_def mget_def)
  have ready: "takeoverMarkersReady demo_drain {''s1''} ''n1'' h = (Inr True, h @ [EvRead ''Logical_Router_Static_Route''])" for h
    by (simp add: takeoverMarkersReady_def listCache_def demo_drain_reads markersNameOthers_def markerByUUID_def
        extID_def nilMap_def mget_def takeoverReadyMarkerKey_def)
  have await: "awaitTakeoverReady demo_drain (\<lambda>_. False) demo_drain_cfg [demo_lr] ''n1'' {} h =
      Some (h @ [EvRead ''Logical_Router'', EvRead ''Logical_Router_Static_Route'',
        EvRead ''Logical_Router_Static_Route'', EvWait])" for h
    by (simp add: awaitTakeoverReady_def managed demo_drain_reads demo_drain_cfg_def takeoverWait.simps ready holdSettleMargin_def)
  have migrate: "migrationWait demo_drain (\<lambda>_. False) demo_drain_cfg [demo_lr] ''n1'' {} {} h =
      Some ((True, None), h @ [EvRead ''Port_Binding'', EvRead ''Chassis'', EvRead ''Logical_Router'',
        EvRead ''Logical_Router_Static_Route'', EvRead ''Logical_Router_Static_Route'', EvWait])" for h
    by (subst migrationWait.simps)
      (simp add: countLocalCRPorts_def localCRPortNames_def listCache_def demo_drain_reads portsHere_def await)
  show ?thesis
    by (simp add: DrainGateways_def own sole withoutSoleCandidates_def buildable_def priorityOps_def sendBatch_def
        transactOps_def migrate demo_drain_log_def)
qed

lemma drain_ends_by_the_deadline_witness:
  "\<exists>r. DrainGateways demo_drain (\<lambda>_. False) demo_drain_cfg [demo_lr] ''n1'' [] = Some r"
  by (rule drain_ends_by_the_deadline [of demo_drain 3]) simp_all



end
