(* ===== verification/RouteVerify.thy ===== *)
theory RouteVerify
  imports RouteSync OvsFlows PortForward PrefixList OvnDrain
begin

section \<open>Verification after a change, and the next-hop repair\<close>

text \<open>
  The agent's own state, and \<open>verifyRoutes\<close> with the re-add streak and \<open>repairUnresolvableNexthop\<close>
  of \<open>agent.go\<close>. The environment of the agent is the host, the databases, the clock and the
  iteration orders of Go maps; a clock reading and an iteration order may be different each time.
  Times are nanoseconds. The gauges and counters of the metrics are left out.
\<close>

record agent_env =
  ae_host :: host
  ae_nb :: nb_env
  ae_clock :: "nat \<Rightarrow> int"
  ae_netOrder :: "history \<Rightarrow> nat \<Rightarrow> string list \<Rightarrow> string list"
  ae_docOrder :: "history \<Rightarrow> string \<Rightarrow> string list \<Rightarrow> string list"
  ae_keyOrder :: "history \<Rightarrow> nat \<Rightarrow> entry_key list \<Rightarrow> entry_key list"
  ae_segOrder :: "history \<Rightarrow> string list \<Rightarrow> string list"
  ae_groupOrder :: "nb_history \<Rightarrow> (string \<times> ha_group) list \<Rightarrow> (string \<times> ha_group) list"

text \<open>
  The fields of \<open>Agent\<close> a cycle works on: the routing manager, what was sent to the databases,
  the effective networks, the streak, the last repair, the chassis tracker, what was last reported,
  and what the route watch was told is owned (\<open>None\<close> without a watch). The last field numbers the
  clock readings made so far.
\<close>

record agent =
  ag_routing :: ovs_manager
  ag_ovn :: nb_history
  ag_effectiveFilters :: "ipnet list"
  ag_consecutiveReAdds :: nat
  ag_lastNexthopRepair :: "int option"
  ag_missingChassis :: "(string \<times> int) list"
  ag_staleCleanupJitter :: int
  ag_dormantVIPs :: string
  ag_vrfDefaultRoute :: string
  ag_routeWatch :: "route_ownership option"
  ag_readings :: nat

definition clockNow :: "agent_env \<Rightarrow> agent \<Rightarrow> int \<times> agent" where
  "clockNow env a = (ae_clock env (ag_readings a), a\<lparr>ag_readings := ag_readings a + 1\<rparr>)"

text \<open>An operation of the routing manager, run on the agent.\<close>

definition routing :: "(ovs_manager \<Rightarrow> 'r \<times> ovs_manager) \<Rightarrow> agent \<Rightarrow> 'r \<times> agent" where
  "routing f a = (let (r, om) = f (ag_routing a) in (r, a\<lparr>ag_routing := om\<rparr>))"

definition consecutiveReAddThreshold :: nat where
  "consecutiveReAddThreshold = 3"

definition nexthopRepairCooldown :: int where
  "nexthopRepairCooldown = 60 * 1000000000"

definition setReAddStreak :: "nat \<Rightarrow> agent \<Rightarrow> agent" where
  "setReAddStreak n a = a\<lparr>ag_consecutiveReAdds := n\<rparr>"

text \<open>The last phase of the repair: the cooldown is over, so the address is flapped.\<close>

definition flapNexthop :: "agent_env \<Rightarrow> config \<Rightarrow> agent \<Rightarrow> agent" where
  "flapNexthop env cfg a =
     (let (now, a1) = clockNow env a;
          a2 = a1\<lparr>ag_lastNexthopRepair := Some now\<rparr>
      in snd (routing (\<lambda>om. RefreshVethNexthop (ae_host env) cfg (ae_netOrder env (rm_hist om)) (ag_effectiveFilters a2) om) a2))"

definition repairUnresolvableNexthop :: "agent_env \<Rightarrow> config \<Rightarrow> agent \<Rightarrow> agent" where
  "repairUnresolvableNexthop env cfg a =
     (if \<not> cf_VethLeakEnabled cfg \<or> cf_DryRun cfg then a
      else (case routing (VethNexthopResolvable (ae_host env) cfg) a of
              (Inl _, a1) \<Rightarrow> a1
            | (Inr True, a1) \<Rightarrow> a1
            | (Inr False, a1) \<Rightarrow>
                (case ag_lastNexthopRepair a1 of
                   None \<Rightarrow> flapNexthop env cfg a1
                 | Some prev \<Rightarrow>
                     (let (now, a2) = clockNow env a1
                      in if now - prev < nexthopRepairCooldown then a2 else flapNexthop env cfg a2))))"

subsection \<open>verifyRoutes\<close>

text \<open>
  The two listings; \<open>None\<close> when one of them fails. The loop over the desired addresses is that of
  \<open>ensureRoutes\<close>: kernel routes at once, FRR routes collected; here a kernel add counts whether or
  not it succeeded.
\<close>

definition verifyListing ::
  "host \<Rightarrow> config \<Rightarrow> ovs_manager \<Rightarrow> (string list \<times> kernel_route_entry list) option \<times> ovs_manager" where
  "verifyListing env cfg om =
     (case ListFRRRoutes env cfg om of
        (Inl _, om1) \<Rightarrow> (None, om1)
      | (Inr frr, om1) \<Rightarrow>
          if cf_PortForwardOnly cfg then (Some (frr, []), om1)
          else (case ListKernelRoutes env cfg om1 of
                  (Inl _, om2) \<Rightarrow> (None, om2)
                | (Inr krs, om2) \<Rightarrow> (Some (frr, krs), om2)))"

definition reAddMissing ::
  "host \<Rightarrow> config \<Rightarrow> string list \<Rightarrow> string list \<Rightarrow> smap \<Rightarrow> string set \<Rightarrow> string list \<Rightarrow> kernel_route_entry list \<Rightarrow>
   ovs_manager \<Rightarrow> nat \<times> ovs_manager" where
  "reAddMissing env cfg desiredIPs frrStaticIPs ipDev skip frr krs om =
     (let nK = needsKernel cfg ipDev skip krs;
          (_, reAddFRR, om1) = addMissing env cfg ipDev nK (needsFRR frrStaticIPs frr) desiredIPs om;
          om2 = (if reAddFRR \<noteq> [] then snd (AddFRRRoutes env cfg reAddFRR om1) else om1)
      in (length reAddFRR + length (filter nK desiredIPs), om2))"

definition noteReAdds :: "agent_env \<Rightarrow> config \<Rightarrow> nat \<Rightarrow> agent \<Rightarrow> agent" where
  "noteReAdds env cfg reAdds a =
     (if reAdds > 0
      then (let a1 = setReAddStreak (ag_consecutiveReAdds a + 1) a
            in if consecutiveReAddThreshold \<le> ag_consecutiveReAdds a1 then repairUnresolvableNexthop env cfg a1 else a1)
      else setReAddStreak 0 a)"

definition verifyRoutes ::
  "agent_env \<Rightarrow> config \<Rightarrow> string list \<Rightarrow> string list \<Rightarrow> smap \<Rightarrow> string set \<Rightarrow> agent \<Rightarrow> nat \<times> agent" where
  "verifyRoutes env cfg desiredIPs frrStaticIPs ipDev skip a =
     (case routing (verifyListing (ae_host env) cfg) a of
        (None, a1) \<Rightarrow> (0, a1)
      | (Some (frr, krs), a1) \<Rightarrow>
          (let (reAdds, a2) = routing (reAddMissing (ae_host env) cfg desiredIPs frrStaticIPs ipDev skip frr krs) a1
           in (reAdds, noteReAdds env cfg reAdds a2)))"

subsection \<open>What verification does to the agent\<close>

lemma routing_fields [simp]:
  "ag_consecutiveReAdds (snd (routing f a)) = ag_consecutiveReAdds a"
  "ag_lastNexthopRepair (snd (routing f a)) = ag_lastNexthopRepair a"
  "ag_readings (snd (routing f a)) = ag_readings a"
  "ag_routing (snd (routing f a)) = snd (f (ag_routing a))"
  "fst (routing f a) = fst (f (ag_routing a))"
  by (simp_all add: routing_def split_beta)

lemma clockNow_simps [simp]:
  "fst (clockNow env a) = ae_clock env (ag_readings a)" "snd (clockNow env a) = a\<lparr>ag_readings := ag_readings a + 1\<rparr>"
  by (simp_all add: clockNow_def)

lemma flapNexthop_fields [simp]:
  "ag_consecutiveReAdds (flapNexthop env cfg a) = ag_consecutiveReAdds a"
  "ag_lastNexthopRepair (flapNexthop env cfg a) = Some (ae_clock env (ag_readings a))"
  "ag_readings (flapNexthop env cfg a) = ag_readings a + 1"
  by (simp_all add: flapNexthop_def split_beta Let_def)

text \<open>A repair takes place at a clock reading of the run, after the cooldown, for an unresolvable next-hop.\<close>

definition repaired :: "agent_env \<Rightarrow> config \<Rightarrow> agent \<Rightarrow> agent \<Rightarrow> bool" where
  "repaired env cfg a a' \<longleftrightarrow>
     (\<exists>i. ag_readings a \<le> i \<and> i < ag_readings a' \<and> ag_lastNexthopRepair a' = Some (ae_clock env i) \<and>
        (\<forall>t. ag_lastNexthopRepair a = Some t \<longrightarrow> (\<exists>j \<le> i. nexthopRepairCooldown \<le> ae_clock env j - t)))"

lemma repair_run:
  fixes env cfg a
  defines "a' \<equiv> repairUnresolvableNexthop env cfg a"
  shows "ag_consecutiveReAdds a' = ag_consecutiveReAdds a \<and> ag_readings a \<le> ag_readings a' \<and>
    (ag_lastNexthopRepair a' = ag_lastNexthopRepair a \<or>
     repaired env cfg a a' \<and> fst (VethNexthopResolvable (ae_host env) cfg (ag_routing a)) = Inr False)"
proof (cases "cf_VethLeakEnabled cfg \<and> \<not> cf_DryRun cfg")
  case False
  then show ?thesis by (auto simp: a'_def repairUnresolvableNexthop_def)
next
  case True
  obtain v a1 where v: "routing (VethNexthopResolvable (ae_host env) cfg) a = (v, a1)" by fastforce
  then have a1: "a1 = snd (routing (VethNexthopResolvable (ae_host env) cfg) a)"
    and r: "v = fst (VethNexthopResolvable (ae_host env) cfg (ag_routing a))"
    using routing_fields(5) [of "VethNexthopResolvable (ae_host env) cfg" a] by simp_all
  have f: "ag_lastNexthopRepair a1 = ag_lastNexthopRepair a" "ag_readings a1 = ag_readings a"
    "ag_consecutiveReAdds a1 = ag_consecutiveReAdds a" unfolding a1 by simp_all
  show ?thesis
  proof (cases "v = Inr False")
    case False
    then have "a' = a1" using True v by (auto simp: a'_def repairUnresolvableNexthop_def split: sum.splits bool.splits)
    then show ?thesis by (simp add: f)
  next
    case bad: True
    show ?thesis
    proof (cases "ag_lastNexthopRepair a")
      case None
      then have "a' = flapNexthop env cfg a1" using True bad by (simp add: a'_def repairUnresolvableNexthop_def v f)
      then show ?thesis using None r bad by (auto simp: f repaired_def)
    next
      case (Some t)
      let ?a2 = "a1\<lparr>ag_readings := ag_readings a1 + 1\<rparr>" and ?now = "ae_clock env (ag_readings a)"
      have a': "a' = (if ?now - t < nexthopRepairCooldown then ?a2 else flapNexthop env cfg ?a2)"
        using True bad Some by (simp add: a'_def repairUnresolvableNexthop_def v f split_beta Let_def)
      show ?thesis
      proof (cases "?now - t < nexthopRepairCooldown")
        case True
        then show ?thesis using a' by (simp add: f)
      next
        case False
        then have "repaired env cfg a a'"
          unfolding repaired_def a' using Some
          by (intro exI [of _ "ag_readings a + 1"]) (auto simp: f intro!: exI [of _ "ag_readings a"])
        then show ?thesis using a' False r bad by (simp add: f)
      qed
    qed
  qed
qed

subsection \<open>Runs of reconcile cycles\<close>

text \<open>
  A cycle as far as the streak is concerned: it changed FRR routes and verified, or it changed none.
  What else it did before gives the routing manager and the effective networks it starts with and
  the clock readings made meanwhile. Its outcome is the number of routes it had to add again, none
  for an unchanged cycle, and unknown when a listing failed.
\<close>

datatype cycle_kind = Unchanged | Verified "string list" "string list" smap "string set"

record verify_cycle =
  vc_kind :: cycle_kind
  vc_routing :: ovs_manager
  vc_filters :: "ipnet list"
  vc_waited :: nat

definition startCycle :: "agent \<Rightarrow> verify_cycle \<Rightarrow> agent" where
  "startCycle a c = a\<lparr>ag_routing := vc_routing c, ag_effectiveFilters := vc_filters c,
     ag_readings := ag_readings a + vc_waited c\<rparr>"

definition endCycle :: "agent_env \<Rightarrow> config \<Rightarrow> agent \<Rightarrow> verify_cycle \<Rightarrow> agent" where
  "endCycle env cfg a c =
     (case vc_kind c of
        Unchanged \<Rightarrow> setReAddStreak 0 (startCycle a c)
      | Verified ips statics ipDev skip \<Rightarrow> snd (verifyRoutes env cfg ips statics ipDev skip (startCycle a c)))"

definition outcome :: "agent_env \<Rightarrow> config \<Rightarrow> agent \<Rightarrow> verify_cycle \<Rightarrow> nat option" where
  "outcome env cfg a c =
     (case vc_kind c of
        Unchanged \<Rightarrow> Some 0
      | Verified ips statics ipDev skip \<Rightarrow>
          if fst (verifyListing (ae_host env) cfg (vc_routing c)) = None then None
          else Some (fst (verifyRoutes env cfg ips statics ipDev skip (startCycle a c))))"

fun outcomes :: "agent_env \<Rightarrow> config \<Rightarrow> agent \<Rightarrow> verify_cycle list \<Rightarrow> nat option list" where
  "outcomes env cfg a [] = []"
| "outcomes env cfg a (c # cs) = outcome env cfg a c # outcomes env cfg (endCycle env cfg a c) cs"

text \<open>The number of last cycles in a row with re-adds; unknown outcomes do not count.\<close>

definition streak :: "nat option list \<Rightarrow> nat" where
  "streak os = length (takeWhile (\<lambda>n. 0 < n) (rev (List.map_filter (\<lambda>x. x) os)))"

lemma streak_simps [simp]:
  "streak [] = 0" "streak (os @ [None]) = streak os" "streak (os @ [Some 0]) = 0"
  "0 < n \<Longrightarrow> streak (os @ [Some n]) = streak os + 1"
  by (simp_all add: streak_def List.map_filter_def)

lemma noteReAdds_run:
  fixes env cfg n a
  defines "a' \<equiv> noteReAdds env cfg n a"
  shows "ag_consecutiveReAdds a' = (if 0 < n then ag_consecutiveReAdds a + 1 else 0) \<and> ag_readings a \<le> ag_readings a' \<and>
    (ag_lastNexthopRepair a' = ag_lastNexthopRepair a \<or>
     repaired env cfg a a' \<and> 0 < n \<and> consecutiveReAddThreshold \<le> ag_consecutiveReAdds a' \<and>
     fst (VethNexthopResolvable (ae_host env) cfg (ag_routing a)) = Inr False)"
proof -
  let ?a1 = "setReAddStreak (ag_consecutiveReAdds a + 1) a"
  have f: "ag_consecutiveReAdds (setReAddStreak k a) = k" "ag_lastNexthopRepair (setReAddStreak k a) = ag_lastNexthopRepair a"
    "ag_readings (setReAddStreak k a) = ag_readings a" "ag_routing (setReAddStreak k a) = ag_routing a" for k
    by (simp_all add: setReAddStreak_def)
  have same: "repaired env cfg (setReAddStreak k a) = repaired env cfg a" for k by (simp add: repaired_def f fun_eq_iff)
  show ?thesis
  proof (cases "0 < n \<and> consecutiveReAddThreshold \<le> ag_consecutiveReAdds a + 1")
    case True
    then have "a' = repairUnresolvableNexthop env cfg ?a1" by (simp add: a'_def noteReAdds_def f)
    with repair_run [of env cfg ?a1] True show ?thesis by (simp add: f same)
  next
    case False
    then have "a' = setReAddStreak (if 0 < n then ag_consecutiveReAdds a + 1 else 0) a"
      by (auto simp: a'_def noteReAdds_def f Let_def)
    then show ?thesis by (simp add: f)
  qed
qed

text \<open>During the cycle, after its reads and re-adds, \<open>vtysh\<close> answered that nothing covers the next-hop.\<close>

definition foundUnresolvable :: "agent_env \<Rightarrow> config \<Rightarrow> verify_cycle \<Rightarrow> bool" where
  "foundUnresolvable env cfg c \<longleftrightarrow>
     (\<exists>om :: ovs_manager. extends (vc_routing c) om \<and> fst (VethNexthopResolvable (ae_host env) cfg om) = Inr False)"

lemma extends_trans: "extends a b \<Longrightarrow> extends b c \<Longrightarrow> extends a c"
  by (auto simp: extends_def)

lemma verifyListing_extends: "extends om (snd (verifyListing env cfg om))"
proof -
  obtain r om1 where f: "ListFRRRoutes env cfg om = (r, om1)" by fastforce
  obtain k om2 where k: "ListKernelRoutes env cfg om1 = (k, om2)" by fastforce
  have "extends om om1" using ListFRRRoutes_calls [of env cfg om] f by (auto simp: extends_def)
  moreover have "extends om1 om2" using ListKernelRoutes_calls [of env cfg om1] k by (auto simp: extends_def)
  ultimately show ?thesis using f k by (auto simp: verifyListing_def intro: extends_trans split: sum.splits)
qed

lemma reAddMissing_extends: "extends om (snd (reAddMissing env cfg ips statics ipDev skip frr krs om))"
proof -
  let ?run = "addMissing env cfg ipDev (needsKernel cfg ipDev skip krs) (needsFRR statics frr) ips om"
  obtain ok re om1 where run: "?run = (ok, re, om1)" by (cases ?run) auto
  have "extends om om1"
    using addMissing_trace [of env cfg ipDev "needsKernel cfg ipDev skip krs" "needsFRR statics frr" ips om] run
    by (auto simp: extends_def)
  moreover have "extends om1 (snd (AddFRRRoutes env cfg re om1))"
    using AddFRRRoutes_trace [of env cfg re om1] by (auto simp: extends_def)
  ultimately show ?thesis using run by (auto simp: reAddMissing_def intro: extends_trans)
qed

text \<open>
  One cycle: the streak follows the outcome, and a repair has a streak of at least three, a cooldown
  behind it and an unresolvable next-hop.
\<close>

lemma endCycle_run:
  fixes env cfg a c
  defines "a' \<equiv> endCycle env cfg a c"
  shows "ag_consecutiveReAdds a' =
       (case outcome env cfg a c of None \<Rightarrow> ag_consecutiveReAdds a | Some 0 \<Rightarrow> 0 | Some n \<Rightarrow> ag_consecutiveReAdds a + 1) \<and>
    ag_readings a \<le> ag_readings a' \<and>
    (ag_lastNexthopRepair a' = ag_lastNexthopRepair a \<or>
     repaired env cfg a a' \<and> consecutiveReAddThreshold \<le> ag_consecutiveReAdds a' \<and>
     foundUnresolvable env cfg c)"
proof -
  let ?s = "startCycle a c"
  have f: "ag_consecutiveReAdds ?s = ag_consecutiveReAdds a" "ag_lastNexthopRepair ?s = ag_lastNexthopRepair a"
    "ag_readings ?s = ag_readings a + vc_waited c" "ag_routing ?s = vc_routing c" by (simp_all add: startCycle_def)
  show ?thesis
  proof (cases "vc_kind c")
    case Unchanged
    then show ?thesis by (simp add: a'_def endCycle_def outcome_def setReAddStreak_def f)
  next
    case (Verified ips statics ipDev skip)
    obtain v a1 where v: "routing (verifyListing (ae_host env) cfg) ?s = (v, a1)" by fastforce
    then have a1: "a1 = snd (routing (verifyListing (ae_host env) cfg) ?s)"
      and r: "v = fst (verifyListing (ae_host env) cfg (vc_routing c))"
      using routing_fields(5) [of "verifyListing (ae_host env) cfg" ?s] by (simp_all add: f)
    have a1f: "ag_consecutiveReAdds a1 = ag_consecutiveReAdds a" "ag_lastNexthopRepair a1 = ag_lastNexthopRepair a"
      "ag_readings a1 = ag_readings a + vc_waited c" unfolding a1 by (simp_all add: f)
    show ?thesis
    proof (cases v)
      case None
      then have "a' = a1" using Verified v by (simp add: a'_def endCycle_def verifyRoutes_def)
      then show ?thesis using Verified None r by (simp add: outcome_def a1f)
    next
      case (Some listed)
      obtain frr krs where listed: "listed = (frr, krs)" by fastforce
      obtain n a2 where add: "routing (reAddMissing (ae_host env) cfg ips statics ipDev skip frr krs) a1 = (n, a2)" by fastforce
      then have a2: "a2 = snd (routing (reAddMissing (ae_host env) cfg ips statics ipDev skip frr krs) a1)" by simp
      have a2f: "ag_consecutiveReAdds a2 = ag_consecutiveReAdds a" "ag_lastNexthopRepair a2 = ag_lastNexthopRepair a"
        "ag_readings a2 = ag_readings a + vc_waited c" unfolding a2 by (simp_all add: a1f)
      have run: "verifyRoutes env cfg ips statics ipDev skip ?s = (n, noteReAdds env cfg n a2)"
        using v Some listed add by (simp add: verifyRoutes_def)
      then have a': "a' = noteReAdds env cfg n a2" and out: "outcome env cfg a c = Some n"
        using Verified Some r by (auto simp: a'_def endCycle_def outcome_def)
      have "repaired env cfg a2 a' \<Longrightarrow> repaired env cfg a a'"
        unfolding repaired_def a2f by (metis add_leD1)
      moreover have "extends (vc_routing c) (ag_routing a2)"
        unfolding a2 a1 by (auto simp: f intro: extends_trans verifyListing_extends reAddMissing_extends)
      ultimately show ?thesis using noteReAdds_run [of env cfg n a2] unfolding a' [symmetric] out a2f
        by (cases n) (auto simp: foundUnresolvable_def)
    qed
  qed
qed

lemma streak_counts:
  assumes "ag_consecutiveReAdds a = streak os"
  shows "ag_consecutiveReAdds (endCycle env cfg a c) = streak (os @ [outcome env cfg a c])"
  using endCycle_run [of env cfg a c] assms by (auto split: option.splits nat.splits)

text \<open>The times of the repairs of a run.\<close>

fun repairTimes :: "agent_env \<Rightarrow> config \<Rightarrow> agent \<Rightarrow> verify_cycle list \<Rightarrow> int list" where
  "repairTimes env cfg a [] = []"
| "repairTimes env cfg a (c # cs) =
     (let a' = endCycle env cfg a c
      in (if ag_lastNexthopRepair a' = ag_lastNexthopRepair a then [] else [the (ag_lastNexthopRepair a')]) @
         repairTimes env cfg a' cs)"

definition repairedIn :: "agent_env \<Rightarrow> config \<Rightarrow> agent \<Rightarrow> verify_cycle list \<Rightarrow> verify_cycle \<Rightarrow> bool" where
  "repairedIn env cfg a pre c \<longleftrightarrow>
     (let b = foldl (endCycle env cfg) a pre in ag_lastNexthopRepair (endCycle env cfg b c) \<noteq> ag_lastNexthopRepair b)"

lemma streak_after:
  "ag_consecutiveReAdds a = streak os \<Longrightarrow>
   ag_consecutiveReAdds (foldl (endCycle env cfg) a cs) = streak (os @ outcomes env cfg a cs)"
proof (induction cs arbitrary: a os)
  case (Cons c cs)
  from Cons.IH [OF streak_counts [OF Cons.prems, of env cfg c]] show ?case by simp
qed simp

lemma repairTimes_spaced:
  assumes "mono (ae_clock env)"
  shows "(\<forall>t. ag_lastNexthopRepair a = Some t \<longrightarrow> t \<le> ae_clock env (ag_readings a)) \<Longrightarrow>
    sorted_wrt (\<lambda>s t. s + nexthopRepairCooldown \<le> t) (repairTimes env cfg a cs) \<and>
    (\<forall>t\<in>set (repairTimes env cfg a cs). \<forall>s. ag_lastNexthopRepair a = Some s \<longrightarrow> s + nexthopRepairCooldown \<le> t)"
proof (induction cs arbitrary: a)
  case Nil
  then show ?case by simp
next
  case (Cons c cs)
  let ?a' = "endCycle env cfg a c"
  have run: "ag_readings a \<le> ag_readings ?a'" "ag_lastNexthopRepair ?a' = ag_lastNexthopRepair a \<or> repaired env cfg a ?a'"
    using endCycle_run [of env cfg a c] by blast+
  have le: "i \<le> j \<Longrightarrow> ae_clock env i \<le> ae_clock env j" for i j using assms by (simp add: monoD)
  show ?case
  proof (cases "ag_lastNexthopRepair ?a' = ag_lastNexthopRepair a")
    case True
    have "\<forall>t. ag_lastNexthopRepair ?a' = Some t \<longrightarrow> t \<le> ae_clock env (ag_readings ?a')"
      using True Cons.prems le [OF run(1)] order_trans by metis
    from Cons.IH [OF this] True show ?thesis by (simp add: Let_def)
  next
    case False
    then obtain i where i: "i < ag_readings ?a'" "ag_lastNexthopRepair ?a' = Some (ae_clock env i)"
      "\<forall>t. ag_lastNexthopRepair a = Some t \<longrightarrow> (\<exists>j \<le> i. nexthopRepairCooldown \<le> ae_clock env j - t)"
      using run(2) unfolding repaired_def by blast
    have gap: "s + nexthopRepairCooldown \<le> ae_clock env i" if "ag_lastNexthopRepair a = Some s" for s
      using i(3) that le by (metis add.commute le_diff_eq order_trans)
    have "\<forall>t. ag_lastNexthopRepair ?a' = Some t \<longrightarrow> t \<le> ae_clock env (ag_readings ?a')"
      using i le [of i "ag_readings ?a'"] by simp
    from Cons.IH [OF this] have later: "sorted_wrt (\<lambda>s t. s + nexthopRepairCooldown \<le> t) (repairTimes env cfg ?a' cs)"
      "\<forall>t\<in>set (repairTimes env cfg ?a' cs). ae_clock env i + nexthopRepairCooldown \<le> t"
      using i(2) by simp_all
    have pos: "0 \<le> nexthopRepairCooldown" by (simp add: nexthopRepairCooldown_def)
    have times: "repairTimes env cfg a (c # cs) = ae_clock env i # repairTimes env cfg ?a' cs"
      using False i(2) by (simp add: Let_def)
    show ?thesis unfolding times using later gap pos by fastforce
  qed
qed


subsection \<open>A next-hop that stays away\<close>

definition demo_verify_host :: host where
  "demo_verify_host = demo_host\<lparr>h_vtysh := \<lambda>_ _. ('''', None)\<rparr>"

definition demo_verify_cfg :: config where
  "demo_verify_cfg = demo_rcfg\<lparr>cf_RouteTableID := 200, cf_VethLeakEnabled := True\<rparr>"

definition demo_agent_env :: agent_env where
  "demo_agent_env = \<lparr>ae_host = demo_verify_host, ae_nb = demo_nb, ae_clock = (\<lambda>n. int n), ae_netOrder = (\<lambda>_ _ ks. ks),
     ae_docOrder = (\<lambda>_ _ ks. ks), ae_keyOrder = (\<lambda>_ _ ks. ks), ae_segOrder = (\<lambda>_ ks. ks), ae_groupOrder = (\<lambda>_ gs. gs)\<rparr>"

definition demo_agent :: agent where
  "demo_agent = \<lparr>ag_routing = demo_om, ag_ovn = [], ag_effectiveFilters = [], ag_consecutiveReAdds = 0,
     ag_lastNexthopRepair = None, ag_missingChassis = [], ag_staleCleanupJitter = 0, ag_dormantVIPs = '''',
     ag_vrfDefaultRoute = '''', ag_routeWatch = None, ag_readings = 0\<rparr>"

definition demo_cycle :: verify_cycle where
  "demo_cycle = \<lparr>vc_kind = Verified [''10.0.0.7''] [''10.0.0.7''] [] {}, vc_routing = demo_om, vc_filters = [], vc_waited = 0\<rparr>"

lemma demo_verify_listing:
  "\<exists>om. verifyListing demo_verify_host demo_verify_cfg demo_om = (Some ([], []), om)"
  by (simp add: verifyListing_def ListFRRRoutes_def staticFRRRoutes_def runVtysh_simp ListKernelRoutes_def nl_calls
      demo_verify_host_def demo_verify_cfg_def demo_om_def demo_host_def demo_rcfg_def zeroConfig_def TrimSpace_def)

lemma demo_verify_resolvable:
  "\<exists>om'. VethNexthopResolvable demo_verify_host demo_verify_cfg om = (Inr False, om')"
  by (simp add: VethNexthopResolvable_def runVtysh_simp demo_verify_host_def demo_verify_cfg_def demo_rcfg_def
      zeroConfig_def TrimSpace_def go_net_eval)

lemma demo_verify_adds:
  "\<exists>n om'. reAddMissing demo_verify_host demo_verify_cfg [''10.0.0.7''] [''10.0.0.7''] [] {} [] [] om = (n, om') \<and> 0 < n"
  by (auto simp: reAddMissing_def Let_def split_beta addMissing_addFRR needsFRR_def)

lemma demo_cycle_run:
  "\<exists>n a2. 0 < n \<and> endCycle demo_agent_env demo_verify_cfg a demo_cycle = noteReAdds demo_agent_env demo_verify_cfg n a2 \<and>
     ag_consecutiveReAdds a2 = ag_consecutiveReAdds a \<and> ag_lastNexthopRepair a2 = ag_lastNexthopRepair a"
proof -
  obtain om where list: "verifyListing demo_verify_host demo_verify_cfg demo_om = (Some ([], []), om)"
    using demo_verify_listing by blast
  obtain n om' where add: "reAddMissing demo_verify_host demo_verify_cfg [''10.0.0.7''] [''10.0.0.7''] [] {} [] [] om = (n, om')" "0 < n"
    using demo_verify_adds by blast
  have "ae_host demo_agent_env = demo_verify_host" by (simp add: demo_agent_env_def)
  then have "endCycle demo_agent_env demo_verify_cfg a demo_cycle =
      noteReAdds demo_agent_env demo_verify_cfg n (startCycle a demo_cycle\<lparr>ag_routing := om'\<rparr>)"
    using list add by (simp add: endCycle_def verifyRoutes_def routing_def startCycle_def demo_cycle_def)
  then show ?thesis using add(2)
    by (intro exI [of _ n] exI [of _ "startCycle a demo_cycle\<lparr>ag_routing := om'\<rparr>"]) (simp add: startCycle_def)
qed

lemma demo_repair:
  "ag_lastNexthopRepair a = None \<Longrightarrow> ag_lastNexthopRepair (repairUnresolvableNexthop demo_agent_env demo_verify_cfg a) \<noteq> None"
proof -
  assume "ag_lastNexthopRepair a = None"
  moreover obtain om' where "VethNexthopResolvable (ae_host demo_agent_env) demo_verify_cfg (ag_routing a) = (Inr False, om')"
    using demo_verify_resolvable [of "ag_routing a"] by (auto simp: demo_agent_env_def)
  moreover have "cf_VethLeakEnabled demo_verify_cfg" "\<not> cf_DryRun demo_verify_cfg" by (simp_all add: demo_verify_cfg_def)
  ultimately show ?thesis by (simp add: repairUnresolvableNexthop_def routing_def)
qed

lemma demo_cycle_counts:
  fixes a
  defines "a' \<equiv> endCycle demo_agent_env demo_verify_cfg a demo_cycle"
  shows "ag_consecutiveReAdds a' = ag_consecutiveReAdds a + 1"
    and "ag_consecutiveReAdds a < 2 \<Longrightarrow> ag_lastNexthopRepair a' = ag_lastNexthopRepair a"
    and "2 \<le> ag_consecutiveReAdds a \<Longrightarrow> ag_lastNexthopRepair a = None \<Longrightarrow> ag_lastNexthopRepair a' \<noteq> None"
proof -
  obtain n a2 where n: "0 < n" and a': "a' = noteReAdds demo_agent_env demo_verify_cfg n a2"
    and f: "ag_consecutiveReAdds a2 = ag_consecutiveReAdds a" "ag_lastNexthopRepair a2 = ag_lastNexthopRepair a"
    using demo_cycle_run [of a] unfolding a'_def by blast
  show "ag_consecutiveReAdds a' = ag_consecutiveReAdds a + 1"
    using noteReAdds_run [of demo_agent_env demo_verify_cfg n a2] n unfolding a' f by simp
  show "ag_consecutiveReAdds a < 2 \<Longrightarrow> ag_lastNexthopRepair a' = ag_lastNexthopRepair a"
    using noteReAdds_run [of demo_agent_env demo_verify_cfg n a2] n unfolding a' f
    by (auto simp: consecutiveReAddThreshold_def)
  show "2 \<le> ag_consecutiveReAdds a \<Longrightarrow> ag_lastNexthopRepair a = None \<Longrightarrow> ag_lastNexthopRepair a' \<noteq> None"
    unfolding a' using n f by (simp add: noteReAdds_def setReAddStreak_def consecutiveReAddThreshold_def demo_repair)
qed


end
