(* ===== verification/StaleChassis.thy ===== *)
theory StaleChassis
  imports OvnLead
begin

section \<open>Chassis that vanished\<close>

text \<open>
  \<open>cleanupStaleChassis\<close> of \<open>agent.go\<close>: the tracker of the chassis that managed routes name and the
  Southbound database no longer lists, and the clean-up of their rows after the grace period. Times
  and durations are nanoseconds. The loops over Go maps run in the order of the keys; the lookup
  lemmas show that the order makes no difference.
\<close>

type_synonym tracker = "(string \<times> int) list"

text \<open>One chassis the managed routes name: forget it when it is there, note it when it is newly missing.\<close>

definition observeChassis :: "string set \<Rightarrow> int \<Rightarrow> string \<Rightarrow> tracker \<Rightarrow> tracker" where
  "observeChassis allChassis now c missing =
     (if c \<in> allChassis then AList.delete c missing
      else if map_of missing c = None then AList.update c now missing
      else missing)"

definition pruneTracker :: "string set \<Rightarrow> tracker \<Rightarrow> tracker" where
  "pruneTracker referenced missing = filter (\<lambda>(c, t). c \<in> referenced) missing"

definition updateTracker :: "string set \<Rightarrow> string set \<Rightarrow> int \<Rightarrow> tracker \<Rightarrow> tracker" where
  "updateTracker referenced allChassis now missing =
     pruneTracker referenced (fold (observeChassis allChassis now) (sorted_list_of_set referenced) missing)"

definition overdue :: "int \<Rightarrow> int \<Rightarrow> tracker \<Rightarrow> string set" where
  "overdue effectiveGrace now missing = set (map fst (filter (\<lambda>(c, t). effectiveGrace \<le> now - t) missing))"

definition cleanupStaleChassis ::
  "nb_env \<Rightarrow> int \<Rightarrow> int \<Rightarrow> int \<Rightarrow> string set \<Rightarrow> tracker \<Rightarrow> nb_history \<Rightarrow> tracker \<times> nb_history" where
  "cleanupStaleChassis env grace jitter now allChassis missing h =
     (if grace \<le> 0 then (missing, h)
      else (case ListManagedRouteChassis env h of
              (None, h1) \<Rightarrow> (missing, h1)
            | (Some referenced, h1) \<Rightarrow>
                (let missing1 = updateTracker referenced allChassis now missing;
                     stale = overdue (grace + jitter) now missing1
                 in if stale = {} then (missing1, h1)
                    else (case CleanupStaleChassisManagedEntries env stale h1 of
                            (Some e, h2) \<Rightarrow> (missing1, h2)
                          | (None, h2) \<Rightarrow> (filter (\<lambda>(c, t). c \<notin> stale) missing1, h2)))))"

subsection \<open>The tracker\<close>

lemma map_of_observe:
  "map_of (observeChassis allChassis now c missing) d =
     (if d \<noteq> c then map_of missing d
      else if c \<in> allChassis then None
      else (case map_of missing c of None \<Rightarrow> Some now | Some t \<Rightarrow> Some t))"
  by (auto simp: observeChassis_def delete_conv update_conv split: option.splits)

lemma map_of_observe_all:
  "map_of (fold (observeChassis allChassis now) cs missing) d =
     (if d \<notin> set cs then map_of missing d
      else if d \<in> allChassis then None
      else (case map_of missing d of None \<Rightarrow> Some now | Some t \<Rightarrow> Some t))"
  by (induction cs arbitrary: missing) (auto simp: map_of_observe split: option.splits)

lemma map_of_filter_keys: "map_of (filter (\<lambda>(c, t). P c) m) d = (if P d then map_of m d else None)"
  by (induction m) auto

lemma map_of_updateTracker:
  assumes "finite referenced"
  shows "map_of (updateTracker referenced allChassis now missing) d =
     (if d \<in> referenced \<and> d \<notin> allChassis
      then (case map_of missing d of None \<Rightarrow> Some now | Some t \<Rightarrow> Some t) else None)"
  using assms by (simp add: updateTracker_def pruneTracker_def map_of_filter_keys map_of_observe_all)

lemma distinct_observe: "distinct (map fst m) \<Longrightarrow> distinct (map fst (observeChassis a now c m))"
  by (simp add: observeChassis_def distinct_update distinct_delete)

lemma distinct_filter_keys: "distinct (map fst m) \<Longrightarrow> distinct (map fst (filter P m))"
  by (induction m) auto

lemma distinct_updateTracker: "distinct (map fst m) \<Longrightarrow> distinct (map fst (updateTracker r a now m))"
proof -
  have "distinct (map fst (fold (observeChassis a now) cs m))" if "distinct (map fst m)" for cs
    using that by (induction cs arbitrary: m) (simp_all add: distinct_observe)
  then show "distinct (map fst m) \<Longrightarrow> distinct (map fst (updateTracker r a now m))"
    by (simp add: updateTracker_def pruneTracker_def distinct_filter_keys)
qed

lemma overdue_iff:
  "distinct (map fst m) \<Longrightarrow> c \<in> overdue g now m \<longleftrightarrow> (\<exists>t. map_of m c = Some t \<and> g \<le> now - t)"
  by (force simp: overdue_def)

lemma ListManagedRouteChassis_finite: "ListManagedRouteChassis env h = (Some r, h1) \<Longrightarrow> finite r"
  by (auto simp: ListManagedRouteChassis_def split: prod.splits sum.splits)

subsection \<open>A run of cycles\<close>

text \<open>
  A cycle of a run: when it looked, the chassis the Southbound database listed, and what else the
  agent did on the Northbound database before it. A reading is what a cycle saw, with \<open>None\<close> when
  the managed routes could not be listed.
\<close>

record stale_cycle =
  sc_now :: int
  sc_all :: "string set"
  sc_before :: nb_history

record chassis_reading =
  cr_now :: int
  cr_all :: "string set"
  cr_referenced :: "string set option"

definition runCycle :: "nb_env \<Rightarrow> int \<Rightarrow> int \<Rightarrow> tracker \<times> nb_history \<Rightarrow> stale_cycle \<Rightarrow> tracker \<times> nb_history" where
  "runCycle env grace jitter s c =
     cleanupStaleChassis env grace jitter (sc_now c) (sc_all c) (fst s) (snd s @ sc_before c)"

definition readingOf :: "nb_env \<Rightarrow> nb_history \<Rightarrow> stale_cycle \<Rightarrow> chassis_reading" where
  "readingOf env h c = \<lparr>cr_now = sc_now c, cr_all = sc_all c,
     cr_referenced = fst (ListManagedRouteChassis env (h @ sc_before c))\<rparr>"

fun readings :: "nb_env \<Rightarrow> int \<Rightarrow> int \<Rightarrow> tracker \<times> nb_history \<Rightarrow> stale_cycle list \<Rightarrow> chassis_reading list" where
  "readings env grace jitter s [] = []"
| "readings env grace jitter s (c # cs) =
     readingOf env (snd s) c # readings env grace jitter (runCycle env grace jitter s c) cs"

definition missed :: "string \<Rightarrow> chassis_reading \<Rightarrow> bool" where
  "missed c r \<longleftrightarrow> (case cr_referenced r of None \<Rightarrow> True | Some refs \<Rightarrow> c \<in> refs \<and> c \<notin> cr_all r)"

text \<open>A reading at time \<open>t\<close> missed the chassis, and so did every later reading.\<close>

definition missingSince :: "chassis_reading list \<Rightarrow> string \<Rightarrow> int \<Rightarrow> bool" where
  "missingSince rs c t \<longleftrightarrow>
     (\<exists>pre r post. rs = pre @ r # post \<and> cr_now r = t \<and> cr_referenced r \<noteq> None \<and> (\<forall>x\<in>set (r # post). missed c x))"

lemma missingSince_snoc: "missingSince rs c t \<Longrightarrow> missed c r \<Longrightarrow> missingSince (rs @ [r]) c t"
proof -
  assume "missingSince rs c t" and r: "missed c r"
  then obtain pre x post where "rs = pre @ x # post" "cr_now x = t" "cr_referenced x \<noteq> None"
    "\<forall>y\<in>set (x # post). missed c y" unfolding missingSince_def by blast
  then have "rs @ [r] = pre @ x # (post @ [r])" "cr_now x = t" "cr_referenced x \<noteq> None"
    "\<forall>y\<in>set (x # (post @ [r])). missed c y" using r by auto
  then show ?thesis unfolding missingSince_def by blast
qed

lemma missingSince_new:
  "cr_now r = t \<Longrightarrow> cr_referenced r \<noteq> None \<Longrightarrow> missed c r \<Longrightarrow> missingSince (rs @ [r]) c t"
  unfolding missingSince_def by (rule exI [of _ rs], rule exI [of _ r], rule exI [of _ "[]"]) simp

definition tracked :: "chassis_reading list \<Rightarrow> tracker \<Rightarrow> bool" where
  "tracked rs m \<longleftrightarrow> distinct (map fst m) \<and> (\<forall>c t. map_of m c = Some t \<longrightarrow> missingSince rs c t)"

lemma tracked_update:
  assumes "tracked rs m" and "finite refs" and "cr_referenced r = Some refs"
  shows "tracked (rs @ [r]) (updateTracker refs (cr_all r) (cr_now r) m)"
  unfolding tracked_def
proof (intro conjI allI impI)
  show "distinct (map fst (updateTracker refs (cr_all r) (cr_now r) m))"
    using assms(1) by (simp add: tracked_def distinct_updateTracker)
  fix c t assume "map_of (updateTracker refs (cr_all r) (cr_now r) m) c = Some t"
  then have c: "c \<in> refs" "c \<notin> cr_all r" and t: "(case map_of m c of None \<Rightarrow> Some (cr_now r) | Some t \<Rightarrow> Some t) = Some t"
    unfolding map_of_updateTracker [OF assms(2)] by (simp_all split: if_splits)
  then have r: "missed c r" by (simp add: missed_def assms(3))
  show "missingSince (rs @ [r]) c t"
  proof (cases "map_of m c")
    case None
    then show ?thesis using t r by (intro missingSince_new) (simp_all add: assms(3))
  next
    case (Some u)
    then show ?thesis using t r assms(1) by (intro missingSince_snoc) (simp_all add: tracked_def)
  qed
qed

lemma tracked_skip: "tracked rs m \<Longrightarrow> cr_referenced r = None \<Longrightarrow> tracked (rs @ [r]) m"
  by (simp add: tracked_def missingSince_snoc missed_def)

lemma tracked_drop: "tracked rs m \<Longrightarrow> tracked rs (filter (\<lambda>(c, t). P c) m)"
  by (simp add: tracked_def distinct_filter_keys map_of_filter_keys)

text \<open>One cycle: the tracker stays true, and what it sends is about chassis that are overdue.\<close>

definition longMissing :: "chassis_reading list \<Rightarrow> int \<Rightarrow> int \<Rightarrow> string \<Rightarrow> bool" where
  "longMissing rs grace now c \<longleftrightarrow> (\<exists>t. missingSince rs c t \<and> grace \<le> now - t)"

definition graceRemoval :: "chassis_reading list \<Rightarrow> int \<Rightarrow> int \<Rightarrow> nb_op list \<Rightarrow> bool" where
  "graceRemoval rs grace now ops \<longleftrightarrow>
     (\<exists>stale routes routers. (\<forall>c\<in>stale. longMissing rs grace now c) \<and> staleRemoval stale routes routers ops)"

lemma runCycle_step:
  fixes env h c
  assumes "0 < grace" and "tracked rs m"
  defines "r \<equiv> readingOf env h c"
  shows "tracked (rs @ [r]) (fst (runCycle env grace jitter (m, h) c)) \<and>
    sends (graceRemoval (rs @ [r]) (grace + jitter) (sc_now c)) (h @ sc_before c) (snd (runCycle env grace jitter (m, h) c))"
proof -
  let ?h = "h @ sc_before c"
  obtain refs h1 where list: "ListManagedRouteChassis env ?h = (refs, h1)" by fastforce
  have read: "sends P ?h h1" for P
    using sends_list [of P ?h env guardedRoutes "''Logical_Router_Static_Route''"] list
    by (auto simp: ListManagedRouteChassis_def split: prod.splits sum.splits)
  have r: "cr_referenced r = refs" "cr_now r = sc_now c" "cr_all r = sc_all c"
    by (simp_all add: r_def readingOf_def list)
  show ?thesis
  proof (cases refs)
    case None
    then have "runCycle env grace jitter (m, h) c = (m, h1)"
      using assms(1) list by (simp add: runCycle_def cleanupStaleChassis_def)
    then show ?thesis using tracked_skip [OF assms(2)] r None read by simp
  next
    case (Some R)
    define m1 where "m1 = updateTracker R (sc_all c) (sc_now c) m"
    define stale where "stale = overdue (grace + jitter) (sc_now c) m1"
    have fin: "finite R" using list Some ListManagedRouteChassis_finite by blast
    have m1: "tracked (rs @ [r]) m1"
      using tracked_update [OF assms(2) fin, of r] r Some by (simp add: m1_def)
    have due: "longMissing (rs @ [r]) (grace + jitter) (sc_now c) d" if "d \<in> stale" for d
      using that m1 unfolding stale_def tracked_def longMissing_def by (metis overdue_iff)
    obtain e h2 where clean: "CleanupStaleChassisManagedEntries env stale h1 = (e, h2)" by fastforce
    have run: "runCycle env grace jitter (m, h) c =
        (if stale = {} then (m1, h1) else if e = None then (filter (\<lambda>(c, t). c \<notin> stale) m1, h2) else (m1, h2))"
      using assms(1) list Some clean
      by (cases e) (simp_all add: runCycle_def cleanupStaleChassis_def m1_def stale_def Let_def)
    have "sends (graceRemoval (rs @ [r]) (grace + jitter) (sc_now c)) h1 h2"
      using stale_cleanup_spares_the_living [of env h1 stale] unfolding clean snd_conv
      by (rule sends_mono) (use due in \<open>auto simp: graceRemoval_def\<close>)
    then have "sends (graceRemoval (rs @ [r]) (grace + jitter) (sc_now c)) ?h h2" by (rule sends_trans [OF read])
    then show ?thesis unfolding run using m1 tracked_drop [OF m1, of "\<lambda>c. c \<notin> stale"] read by auto
  qed
qed

lemma tracked_run:
  assumes "0 < grace"
  shows "tracked rs (fst s) \<Longrightarrow>
    tracked (rs @ readings env grace jitter s cs) (fst (foldl (runCycle env grace jitter) s cs))"
proof (induction cs arbitrary: rs s)
  case Nil
  then show ?case by simp
next
  case (Cons c cs)
  have "tracked (rs @ [readingOf env (snd s) c]) (fst (runCycle env grace jitter s c))"
    using runCycle_step [OF assms Cons.prems, of env "snd s" c jitter] by simp
  from Cons.IH [OF this] show ?case by simp
qed

lemma readings_snoc:
  "readings env grace jitter s (cs @ [c]) =
     readings env grace jitter s cs @ [readingOf env (snd (foldl (runCycle env grace jitter) s cs)) c]"
  by (induction cs arbitrary: s) simp_all

definition agentRun :: "nb_env \<Rightarrow> int \<Rightarrow> int \<Rightarrow> nb_history \<Rightarrow> stale_cycle list \<Rightarrow> tracker \<times> nb_history" where
  "agentRun env grace jitter h cs = foldl (runCycle env grace jitter) ([], h) cs"

text \<open>
  C8: a chassis keeps its rows for the whole grace period. In every run of reconcile cycles, whatever
  else happens to the Northbound database in between, each transaction a cycle sends for vanished
  chassis removes only rows of chassis that were missing, and named by a managed route, in every
  readable cycle since one that lies at least the grace period and the jitter back, and spares ports
  that carry a managed route of another chassis. A chassis that was seen again starts anew.
\<close>

theorem vanished_chassis_get_their_grace:
  assumes "0 < grace"
  shows "sends (graceRemoval (readings env grace jitter ([], h) (cs @ [c])) (grace + jitter) (sc_now c))
    (snd (agentRun env grace jitter h cs) @ sc_before c) (snd (agentRun env grace jitter h (cs @ [c])))"
proof -
  let ?s = "agentRun env grace jitter h cs"
  have "tracked ([] @ readings env grace jitter ([], h) cs) (fst ?s)"
    unfolding agentRun_def by (rule tracked_run [OF assms]) (simp add: tracked_def)
  then have "sends (graceRemoval (readings env grace jitter ([], h) cs @ [readingOf env (snd ?s) c]) (grace + jitter) (sc_now c))
      (snd ?s @ sc_before c) (snd (runCycle env grace jitter ?s c))"
    using runCycle_step [OF assms, of "readings env grace jitter ([], h) cs" "fst ?s" env "snd ?s" c jitter] by simp
  then show ?thesis by (simp add: readings_snoc agentRun_def)
qed

text \<open>A route of a dead chassis: the second cycle, 400 seconds after the first, removes it.\<close>

definition demo_dead_route :: nb_static_route where
  "demo_dead_route = newDefaultRoute ''192.0.2.254'' ''lrp1'' ''dead''"

definition demo_dead_nb :: nb_env where
  "demo_dead_nb = demo_nb\<lparr>en_view := \<lambda>_. demo_view\<lparr>v_StaticRoutes := Inr [demo_dead_route],
     v_Routers := Inr [\<lparr>lr_UUID = ''r1'', lr_Name = ''r'', lr_Ports = [], lr_Nat = [], lr_StaticRoutes = [''new_route'']\<rparr>],
     v_MACBindings := Inr [], v_nbSelect := \<lambda>_ _. TransactErr (Err ''busy'')\<rparr>\<rparr>"

definition demo_dead_cycle :: "int \<Rightarrow> stale_cycle" where
  "demo_dead_cycle now = \<lparr>sc_now = now, sc_all = {''n1''}, sc_before = []\<rparr>"

lemma demo_dead_simps:
  "ListManagedRouteChassis demo_dead_nb h = (Some {''dead''}, h @ [EvRead ''Logical_Router_Static_Route''])"
  "guardedRoutes (en_view demo_dead_nb h) = Inr [demo_dead_route]"
  "guardedRouters (en_view demo_dead_nb h) =
     Inr [\<lparr>lr_UUID = ''r1'', lr_Name = ''r'', lr_Ports = [], lr_Nat = [], lr_StaticRoutes = [''new_route'']\<rparr>]"
  by (simp_all add: ListManagedRouteChassis_def listCache_def guardedRoutes_def guardedRouters_def demo_dead_nb_def
      demo_nb_def cachedList_def authoritativeList_def serverKeySet_def directSelect_def demo_dead_route_def
      newDefaultRoute_def isManaged_def extID_def nilMap_def mget_def chassisKey_def)

lemma demo_dead_fields:
  "isManaged demo_dead_route" "extID demo_dead_route chassisKey = ''dead''" "sr_UUID demo_dead_route = ''new_route''"
  "guardedBindings (en_view demo_dead_nb h) = Inr []" "en_build demo_dead_nb x = None"
  "transactOps demo_dead_nb ops h = (None, h @ [EvSent ops True])"
  by (simp_all add: demo_dead_route_def newDefaultRoute_def isManaged_def extID_def nilMap_def mget_def chassisKey_def
      guardedBindings_def cachedList_def authoritativeList_def serverKeySet_def directSelect_def demo_dead_nb_def
      demo_nb_def transactOps_def)

lemma demo_dead_clean:
  "CleanupStaleChassisManagedEntries demo_dead_nb {''dead''} h =
     (None, h @ [EvRead ''Logical_Router_Static_Route'', EvRead ''Logical_Router'',
        EvSent [RemoveStaticRoute ''r1'' ''new_route'', DeleteRoute demo_dead_route] True,
        EvRead ''Static_MAC_Binding''])"
  by (simp add: CleanupStaleChassisManagedEntries_def listCache_def demo_dead_simps demo_dead_fields Let_def liveOutputPorts_def
      List.map_filter_def removeStaleRoute_def routeToRouter_def removeRoute_def)
    (simp add: demo_dead_route_def newDefaultRoute_def)

lemma vanished_chassis_get_their_grace_witness:
  "graceRemoval (readings demo_dead_nb 300 20 ([], []) [demo_dead_cycle 0, demo_dead_cycle 400]) 320 400
     [RemoveStaticRoute ''r1'' ''new_route'', DeleteRoute demo_dead_route]"
proof -
  let ?s1 = "agentRun demo_dead_nb 300 20 [] [demo_dead_cycle 0]"
  let ?s2 = "agentRun demo_dead_nb 300 20 [] [demo_dead_cycle 0, demo_dead_cycle 400]"
  have track: "updateTracker {''dead''} {''n1''} 0 [] = [(''dead'', 0)]"
    "updateTracker {''dead''} {''n1''} 400 [(''dead'', 0)] = [(''dead'', 0)]"
    by (simp_all add: updateTracker_def pruneTracker_def observeChassis_def)
  have due: "overdue 320 0 [(''dead'', 0)] = {}" "overdue 320 400 [(''dead'', 0)] = {''dead''}"
    by (simp_all add: overdue_def)
  have s1: "?s1 = ([(''dead'', 0)], [EvRead ''Logical_Router_Static_Route''])"
    by (simp add: agentRun_def runCycle_def cleanupStaleChassis_def demo_dead_simps demo_dead_cycle_def track due
        del: One_nat_def)
  have "?s2 = runCycle demo_dead_nb 300 20 ?s1 (demo_dead_cycle 400)" by (simp add: agentRun_def)
  then have "snd ?s2 = [EvRead ''Logical_Router_Static_Route''] @ [EvRead ''Logical_Router_Static_Route'',
      EvRead ''Logical_Router_Static_Route'', EvRead ''Logical_Router'',
      EvSent [RemoveStaticRoute ''r1'' ''new_route'', DeleteRoute demo_dead_route] True, EvRead ''Static_MAC_Binding'']"
    unfolding s1 by (simp add: runCycle_def cleanupStaleChassis_def demo_dead_simps demo_dead_cycle_def track due demo_dead_clean)
  with vanished_chassis_get_their_grace [of 300 demo_dead_nb 20 "[]" "[demo_dead_cycle 0]" "demo_dead_cycle 400"] s1
  show ?thesis by (simp add: demo_dead_cycle_def sends_def)
qed

end
