(* ===== verification/Reconcile.thy ===== *)
theory Reconcile
  imports RouteVerify StaleChassis DesiredState OvnLoop RouteWatch
begin

section \<open>The reconcile cycle\<close>

text \<open>
  \<open>reconcile\<close> of \<open>agent.go\<close> with its reports. The cycle is split where the code has a comment that
  starts a new step; every step acts on the agent, in the code's order. A failed step is logged and
  the cycle goes on, so the errors of the steps do not appear; the metrics are left out. What the
  two reporting functions log is their result. Without an OVN client (\<open>None\<close>, in port-forward-only
  mode) the cycle works from the zero state.
\<close>

definition onOVN :: "(nb_history \<Rightarrow> 'r \<times> nb_history) \<Rightarrow> agent \<Rightarrow> 'r \<times> agent" where
  "onOVN f a = (let (r, h) = f (ag_ovn a) in (r, a\<lparr>ag_ovn := h\<rparr>))"

subsection \<open>Reports\<close>

datatype notice = DormantNotice "string list" | RestoredNotice | UnknownNotice | OutageNotice | LimitedNotice | PresentNotice

definition reportDormantVIPs :: "string list \<Rightarrow> agent \<Rightarrow> notice option \<times> agent" where
  "reportDormantVIPs dormant a =
     (let key = Join dormant '','' in
      if key = ag_dormantVIPs a then (None, a)
      else (if dormant \<noteq> [] then Some (DormantNotice dormant)
            else if ag_dormantVIPs a \<noteq> '''' then Some RestoredNotice
            else None,
            a\<lparr>ag_dormantVIPs := key\<rparr>))"

definition vrfDefaultPresent :: string where "vrfDefaultPresent = ''present''"
definition vrfDefaultOutage :: string where "vrfDefaultOutage = ''absent-announcing''"
definition vrfDefaultLimited :: string where "vrfDefaultLimited = ''absent-routing''"
definition vrfDefaultIdle :: string where "vrfDefaultIdle = ''absent-idle''"
definition vrfDefaultUnknown :: string where "vrfDefaultUnknown = ''unknown''"

definition vrfDefaultState :: "bool result \<Rightarrow> nat \<Rightarrow> bool \<Rightarrow> string" where
  "vrfDefaultState present announcedVIPs hasLocalRouters =
     (case present of
        Inl _ \<Rightarrow> vrfDefaultUnknown
      | Inr p \<Rightarrow>
          if p then vrfDefaultPresent
          else if 0 < announcedVIPs then vrfDefaultOutage
          else if hasLocalRouters then vrfDefaultLimited
          else vrfDefaultIdle)"

definition reportVRFDefaultRoute :: "bool result \<Rightarrow> nat \<Rightarrow> bool \<Rightarrow> agent \<Rightarrow> notice option \<times> agent" where
  "reportVRFDefaultRoute present announcedVIPs hasLocalRouters a =
     (let st = vrfDefaultState present announcedVIPs hasLocalRouters;
          previous = ag_vrfDefaultRoute a
      in if st = previous then (None, a)
         else (if st = vrfDefaultUnknown then Some UnknownNotice
               else if st = vrfDefaultOutage then Some OutageNotice
               else if st = vrfDefaultLimited then Some LimitedNotice
               else if st = vrfDefaultPresent \<and> previous \<in> {vrfDefaultUnknown, vrfDefaultOutage, vrfDefaultLimited}
                    then Some PresentNotice
               else None,
               a\<lparr>ag_vrfDefaultRoute := st\<rparr>))"

subsection \<open>What the cycle derives from OVN\<close>

definition readOVN :: "ovn_client option \<Rightarrow> (ovn_state \<times> nat option) \<times> ovn_client option" where
  "readOVN client =
     (case client of
        None \<Rightarrow> ((zero_state, None), None)
      | Some cl \<Rightarrow>
          (let st = Snapshot (cl_state cl);
               (observed, cl1) = takeFailoverObservedAt (st_Gen st) cl
           in ((st, observed), Some cl1)))"

definition publishOwnership :: "config \<Rightarrow> ovn_state \<Rightarrow> desired_state \<Rightarrow> agent \<Rightarrow> agent" where
  "publishOwnership cfg st desired a =
     (let leakNets = (if st_HasLocalRouters st \<and> cf_VethLeakEnabled cfg then ag_effectiveFilters a else [])
      in a\<lparr>ag_routeWatch := map_option
           (\<lambda>_. newRouteOwnership (de_DesiredIPs desired) (de_FRRStaticIPs desired) leakNets) (ag_routeWatch a)\<rparr>)"

definition beginCycle :: "config \<Rightarrow> ovn_state \<Rightarrow> desired_state \<Rightarrow> agent \<Rightarrow> agent" where
  "beginCycle cfg st desired a =
     (let a1 = a\<lparr>ag_routing := clearCache (ag_routing a),
                 ag_effectiveFilters := computeEffectiveNetworks cfg (st_DiscoveredNetworks st)\<rparr>;
          a2 = snd (reportDormantVIPs (de_DormantVIPs desired) a1)
      in publishOwnership cfg st desired a2)"

subsection \<open>The planes before the announce\<close>

text \<open>The MAC of each router's segment interface, or the bridge MAC, which is asked for once.\<close>

fun macByLRP :: "host \<Rightarrow> config \<Rightarrow> local_router list \<Rightarrow> string \<Rightarrow> smap \<Rightarrow> ovs_manager \<Rightarrow> smap \<times> ovs_manager" where
  "macByLRP env cfg [] fallbackMAC m om = (m, om)"
| "macByLRP env cfg (lr # lrs) fallbackMAC m om =
     (let mac = SegmentMAC om (segmentName (lri_Segment lr)) in
      if mac \<noteq> '''' then macByLRP env cfg lrs fallbackMAC (AList.update (lri_LRPName lr) mac m) om
      else if fallbackMAC \<noteq> '''' then macByLRP env cfg lrs fallbackMAC (AList.update (lri_LRPName lr) fallbackMAC m) om
      else (case GetBridgeMAC env cfg om of
              (Inl _, om1) \<Rightarrow> macByLRP env cfg lrs '''' (AList.update (lri_LRPName lr) '''' m) om1
            | (Inr b, om1) \<Rightarrow> macByLRP env cfg lrs b (AList.update (lri_LRPName lr) b m) om1))"

definition reconcileLeak :: "agent_env \<Rightarrow> config \<Rightarrow> ipnet list \<Rightarrow> agent \<Rightarrow> agent" where
  "reconcileLeak env cfg nets a =
     snd (routing (\<lambda>om. ReconcileVethLeakNetworks (ae_host env) cfg (ae_netOrder env (rm_hist om)) nets om) a)"

definition reconcilePrefixList :: "agent_env \<Rightarrow> config \<Rightarrow> ipnet list \<Rightarrow> string list \<Rightarrow> agent \<Rightarrow> agent" where
  "reconcilePrefixList env cfg nets vips a =
     snd (routing (\<lambda>om. ReconcileFRRPrefixList (ae_host env) cfg (ae_docOrder env (rm_hist om))
       (ae_keyOrder env (rm_hist om)) nets vips om) a)"

definition activePlanes :: "agent_env \<Rightarrow> config \<Rightarrow> ovn_state \<Rightarrow> desired_state \<Rightarrow> agent \<Rightarrow> agent" where
  "activePlanes env cfg st desired a =
     (let a1 = snd (routing (\<lambda>om. EnsureSegments (ae_host env) cfg (ae_segOrder env (rm_hist om)) (de_Segments desired) om) a);
          a2 = snd (routing (ReconcileOVSHairpinFlows (ae_host env) cfg (de_HairpinTargets desired)) a1);
          (macs, a3) = routing (macByLRP (ae_host env) cfg (st_LocalRouters st) '''' []) a2;
          a4 = snd (onOVN (EnsureGatewayRouting (ae_nb env) (st_LocalChassisName st) (st_LocalRouters st) macs) a3)
      in reconcilePrefixList env cfg (ag_effectiveFilters a4) (de_AnnouncedVIPs desired) a4)"

definition standbyPlanes :: "agent_env \<Rightarrow> config \<Rightarrow> agent \<Rightarrow> agent" where
  "standbyPlanes env cfg a =
     (let a1 = a\<lparr>ag_routing := setOwned flowPlaneMACTweak [] (ag_routing a)\<rparr>;
          a2 = reconcileLeak env cfg [] a1;
          a3 = reconcilePrefixList env cfg [] [] a2
      in snd (routing (ReconcileOVSHairpinFlows (ae_host env) cfg []) a3))"

definition reconcilePlanes :: "agent_env \<Rightarrow> config \<Rightarrow> ovn_state \<Rightarrow> desired_state \<Rightarrow> agent \<Rightarrow> agent" where
  "reconcilePlanes env cfg st desired a =
     (if cf_PortForwardOnly cfg then a
      else if st_HasLocalRouters st then activePlanes env cfg st desired a
      else standbyPlanes env cfg a)"

subsection \<open>The announce\<close>

definition segmentRouteUnresolved :: "ovs_manager \<Rightarrow> string \<Rightarrow> (string \<times> desired_segment) list \<Rightarrow> bool" where
  "segmentRouteUnresolved om segment desired =
     (case map_of desired segment of
        None \<Rightarrow> False
      | Some d \<Rightarrow> ds_VLANTag d \<noteq> None \<and> \<not> SegmentResolved om segment)"

definition routeDevices ::
  "config \<Rightarrow> desired_state \<Rightarrow> ovs_manager \<Rightarrow> smap \<times> string set" where
  "routeDevices cfg desired om =
     (let held = (\<lambda>(ip, t). segmentRouteUnresolved om (ht_Segment t) (de_SegmentByName desired))
      in (map (\<lambda>(ip, t). (ip, SegmentDev cfg om (ht_Segment t))) (filter (\<lambda>e. \<not> held e) (de_HairpinTargets desired)),
          set (map fst (filter held (de_HairpinTargets desired)))))"

definition noSync :: route_sync_result where
  "noSync = \<lparr>rs_changed = False, rs_announced = False, rs_ready = False\<rparr>"

text \<open>The result of the announce with whether the cycle can forward, which a healthy standby can.\<close>

definition syncRoutes ::
  "agent_env \<Rightarrow> config \<Rightarrow> ovn_state \<Rightarrow> desired_state \<Rightarrow> smap \<Rightarrow> string set \<Rightarrow> agent \<Rightarrow>
   (route_sync_result \<times> bool) \<times> agent" where
  "syncRoutes env cfg st desired ipDev skip a =
     (if de_DesiredIPs desired \<noteq> [] \<or> st_HasLocalRouters st
      then (let (sync, a1) = routing (ensureRoutes (ae_host env) cfg (de_DesiredIPs desired) (de_FRRStaticIPs desired) ipDev skip) a
            in ((sync, rs_ready sync), a1))
      else ((noSync, True), a\<lparr>ag_routing := removeAllRoutes (ae_host env) cfg (ag_routing a)\<rparr>))"

subsection \<open>After the announce\<close>

definition markTakeover :: "agent_env \<Rightarrow> ovn_state \<Rightarrow> route_sync_result \<Rightarrow> agent \<Rightarrow> agent" where
  "markTakeover env st sync a =
     (if rs_ready sync \<and> st_HasLocalRouters st
      then snd (onOVN (MarkTakeoverReady (ae_nb env) (st_LocalChassisName st) (st_LocalRouters st)) a)
      else a)"

definition stabilise :: "agent_env \<Rightarrow> config \<Rightarrow> ovn_state \<Rightarrow> agent \<Rightarrow> agent" where
  "stabilise env cfg st a =
     (if st_HasLocalRouters st
      then (let a1 = snd (onOVN (\<lambda>h. EnsureActivePriorityLead (ae_nb env) (ae_groupOrder env h) (st_LocalRouters st)
                        (st_LocalChassisName st) h) a)
            in reconcileLeak env cfg (ag_effectiveFilters a1) a1)
      else a)"

definition verifyStep ::
  "agent_env \<Rightarrow> config \<Rightarrow> desired_state \<Rightarrow> smap \<Rightarrow> string set \<Rightarrow> route_sync_result \<Rightarrow> agent \<Rightarrow> agent" where
  "verifyStep env cfg desired ipDev skip sync a =
     (if rs_changed sync
      then snd (verifyRoutes env cfg (de_DesiredIPs desired) (de_FRRStaticIPs desired) ipDev skip a)
      else setReAddStreak 0 a)"

definition checkFRRRouteActivity :: "agent_env \<Rightarrow> config \<Rightarrow> string list \<Rightarrow> agent \<Rightarrow> string list result \<times> agent" where
  "checkFRRRouteActivity env cfg frrStaticIPs a = routing (InactiveFRRRoutes (ae_host env) cfg frrStaticIPs) a"

definition checkDefaultRoute :: "agent_env \<Rightarrow> config \<Rightarrow> ovn_state \<Rightarrow> desired_state \<Rightarrow> agent \<Rightarrow> notice option \<times> agent" where
  "checkDefaultRoute env cfg st desired a =
     (let (present, a1) = routing (VRFDefaultRoutePresent (ae_host env) cfg) a
      in reportVRFDefaultRoute present (length (de_AnnouncedVIPs desired)) (st_HasLocalRouters st) a1)"

text \<open>The clock is read before the listing here, on which it does not depend.\<close>

definition staleStep :: "agent_env \<Rightarrow> config \<Rightarrow> ovn_state \<Rightarrow> agent \<Rightarrow> agent" where
  "staleStep env cfg st a =
     (if cf_PortForwardOnly cfg then a
      else (let (now, a1) = clockNow env a;
                (missing, h) = cleanupStaleChassis (ae_nb env) (cf_StaleChassisGracePeriod cfg)
                  (ag_staleCleanupJitter a1) now (st_AllChassisNames st) (ag_missingChassis a1) (ag_ovn a1)
            in a1\<lparr>ag_missingChassis := missing, ag_ovn := h\<rparr>))"

subsection \<open>The whole cycle\<close>

record cycle_result =
  cy_ok :: bool
  cy_sync :: route_sync_result
  cy_failover :: "nat option"

definition afterAnnounce ::
  "agent_env \<Rightarrow> config \<Rightarrow> ovn_state \<Rightarrow> desired_state \<Rightarrow> smap \<Rightarrow> string set \<Rightarrow> route_sync_result \<Rightarrow> agent \<Rightarrow> agent" where
  "afterAnnounce env cfg st desired ipDev skip sync a =
     (let a1 = markTakeover env st sync a;
          a2 = stabilise env cfg st a1;
          a3 = verifyStep env cfg desired ipDev skip sync a2;
          a4 = snd (checkFRRRouteActivity env cfg (de_FRRStaticIPs desired) a3);
          a5 = snd (checkDefaultRoute env cfg st desired a4)
      in staleStep env cfg st a5)"

definition beforeAnnounce :: "agent_env \<Rightarrow> config \<Rightarrow> ovn_state \<Rightarrow> desired_state \<Rightarrow> agent \<Rightarrow> agent" where
  "beforeAnnounce env cfg st desired a =
     (let a1 = beginCycle cfg st desired a;
          a2 = reconcilePlanes env cfg st desired a1
      in snd (routing (ReconcilePortForward (ae_host env) cfg (ag_effectiveFilters a2) (st_SNATIPs st)
           (vipRoutesAnnounceable cfg st)) a2))"

text \<open>
  The failover observation is reported when this cycle announced a takeover, and never by the
  start-up cycle.
\<close>

definition cycleFrom ::
  "agent_env \<Rightarrow> config \<Rightarrow> bool \<Rightarrow> ovn_state \<Rightarrow> nat option \<Rightarrow> agent \<Rightarrow> cycle_result \<times> agent" where
  "cycleFrom env cfg startup st observed a =
     (let desired = computeDesiredState st (cf_PortForwards cfg) (vipRoutesAnnounceable cfg st);
          a3 = beforeAnnounce env cfg st desired a;
          (ipDev, skip) = routeDevices cfg desired (ag_routing a3);
          ((sync, ok), a4) = syncRoutes env cfg st desired ipDev skip a3
      in (\<lparr>cy_ok = ok, cy_sync = sync, cy_failover = (if rs_announced sync \<and> \<not> startup then observed else None)\<rparr>,
          afterAnnounce env cfg st desired ipDev skip sync a4))"

definition reconcile ::
  "agent_env \<Rightarrow> config \<Rightarrow> bool \<Rightarrow> ovn_client option \<times> agent \<Rightarrow> cycle_result \<times> (ovn_client option \<times> agent)" where
  "reconcile env cfg startup s =
     (let ((st, observed), client) = readOVN (fst s);
          (res, a) = cycleFrom env cfg startup st observed (snd s)
      in (res, (client, a)))"

subsection \<open>Calls of one kind\<close>

text \<open>Between two states of the routing manager only calls satisfying \<open>P\<close> were made.\<close>

definition onlyCalls :: "(host_call \<Rightarrow> bool) \<Rightarrow> 'z route_manager_scheme \<Rightarrow> 'z route_manager_scheme \<Rightarrow> bool" where
  "onlyCalls P om om' \<longleftrightarrow> (\<exists>t. rm_hist om' = rm_hist om @ t \<and> list_all (\<lambda>(c, ok). P c) t)"

lemma onlyCalls_same: "rm_hist om' = rm_hist om \<Longrightarrow> onlyCalls P om om'"
  by (simp add: onlyCalls_def)

lemma onlyCalls_refl [simp]: "onlyCalls P om om"
  by (simp add: onlyCalls_same)

lemma onlyCalls_trans [trans]: "onlyCalls P a b \<Longrightarrow> onlyCalls P b c \<Longrightarrow> onlyCalls P a c"
  by (auto simp: onlyCalls_def)

lemma onlyCalls_log [simp]: "P c \<Longrightarrow> onlyCalls P om (logCall c ok om)"
  by (simp add: onlyCalls_def)

lemma onlyCalls_step: "onlyCalls P om om' \<Longrightarrow> P c \<Longrightarrow> onlyCalls P om (logCall c ok om')"
  by (rule onlyCalls_trans [OF _ onlyCalls_log])

lemma onlyCalls_writes: "onlyCalls isRead om om' \<Longrightarrow> writes (callsOf om om') = []"
  by (auto simp: onlyCalls_def callsOf_def writes_def list_all_iff filter_empty_conv)

lemma onlyCalls_prefix: "\<exists>t. rm_hist om' = rm_hist om @ t \<and> writes t = [] \<Longrightarrow> onlyCalls isRead om om'"
  by (auto simp: onlyCalls_def writes_def list_all_iff filter_empty_conv)

text \<open>An operation of the routing manager, or of the agent, that makes only such calls.\<close>

definition makes :: "(host_call \<Rightarrow> bool) \<Rightarrow> ('z route_manager_scheme \<Rightarrow> 'r \<times> 'z route_manager_scheme) \<Rightarrow> bool" where
  "makes P f \<longleftrightarrow> (\<forall>om. onlyCalls P om (snd (f om)))"

lemma makes_ret [simp]: "makes P (ret x)" "makes P (fail e)"
  by (simp_all add: makes_def ret_def fail_def)

lemma makesD: "makes P f \<Longrightarrow> f om = (r, om') \<Longrightarrow> onlyCalls P om om'"
  by (metis makes_def snd_conv)

lemma makes_andThen: "makes P f \<Longrightarrow> (\<And>x. makes P (g x)) \<Longrightarrow> makes P (andThen f g)"
  unfolding makes_def andThen_def by (auto split: prod.splits sum.splits) (metis onlyCalls_trans snd_conv)+

lemma makes_conv:
  "makes P f \<Longrightarrow> makes P (find_or e f)" "makes P g \<Longrightarrow> makes P (must e g)"
  "makes P g \<Longrightarrow> makes P (mustUnless q e g)"
  unfolding makes_def find_or_def must_def mustUnless_def
  by (auto split: prod.splits sum.splits option.splits) (metis snd_conv)+

definition agentCalls :: "(host_call \<Rightarrow> bool) \<Rightarrow> agent \<Rightarrow> agent \<Rightarrow> bool" where
  "agentCalls P a a' \<longleftrightarrow> onlyCalls P (ag_routing a) (ag_routing a')"

lemma agentCalls_trans: "agentCalls P a b \<Longrightarrow> agentCalls P b c \<Longrightarrow> agentCalls P a c"
  unfolding agentCalls_def by (rule onlyCalls_trans)

lemma agentCalls_routing: "makes P f \<Longrightarrow> agentCalls P a (snd (routing f a))"
  by (simp add: agentCalls_def makes_def)

lemma onOVN_fields [simp]:
  "ag_routing (snd (onOVN f a)) = ag_routing a" "ag_ovn (snd (onOVN f a)) = snd (f (ag_ovn a))"
  "fst (onOVN f a) = fst (f (ag_ovn a))" "ag_effectiveFilters (snd (onOVN f a)) = ag_effectiveFilters a"
  "ag_consecutiveReAdds (snd (onOVN f a)) = ag_consecutiveReAdds a"
  by (simp_all add: onOVN_def split_beta)

lemma routing_ovn [simp]:
  "ag_ovn (snd (routing f a)) = ag_ovn a" "ag_effectiveFilters (snd (routing f a)) = ag_effectiveFilters a"
  by (simp_all add: routing_def split_beta)

lemma beginCycle_fields [simp]:
  "ag_ovn (beginCycle cfg st d a) = ag_ovn a"
  "rm_hist (ag_routing (beginCycle cfg st d a)) = rm_hist (ag_routing a)"
  "ag_consecutiveReAdds (beginCycle cfg st d a) = ag_consecutiveReAdds a"
  by (simp_all add: beginCycle_def publishOwnership_def reportDormantVIPs_def Let_def clearCache_def)

subsection \<open>A dry run\<close>

lemma makes_same: "(\<And>om. rm_hist (snd (f om)) = rm_hist om) \<Longrightarrow> makes P f"
  by (simp add: makes_def onlyCalls_same)

lemma makes_linkByName: "(\<And>n. P (CLinkByName n)) \<Longrightarrow> makes P (linkByName env dev)"
  by (simp add: makes_def linkByName_def Let_def)

lemma makes_GetBridgeMAC: "(\<And>n. P (CLinkByName n)) \<Longrightarrow> makes P (GetBridgeMAC env cfg)"
  unfolding GetBridgeMAC_def by (intro makes_andThen makes_conv makes_linkByName) simp_all

lemma makes_macByLRP: "(\<And>n. P (CLinkByName n)) \<Longrightarrow> makes P (macByLRP env cfg lrs b m)"
proof -
  assume P: "\<And>n. P (CLinkByName n)"
  have "onlyCalls P om (snd (macByLRP env cfg lrs b m om))" for om
  proof (induction lrs arbitrary: b m om)
    case (Cons lr lrs)
    obtain g om1 where g: "GetBridgeMAC env cfg om = (g, om1)" by fastforce
    have "onlyCalls P om om1" using makesD [OF makes_GetBridgeMAC [where P = P, OF P] g] .
    with g show ?case by (auto simp: Let_def Cons split: sum.splits intro: onlyCalls_trans [OF _ Cons])
  qed simp
  then show ?thesis by (simp add: makes_def)
qed

lemma dry_routes:
  assumes "cf_DryRun cfg"
  shows "ListFRRRoutes env cfg om = (Inr [], om)" "ListKernelRoutes env cfg om = (Inr [], om)"
    "AddKernelRoute env cfg ip dev om = (None, om)" "AddFRRRoutes env cfg ips om = (None, om)"
    "RefreshBGP env cfg om = (None, om)" "InactiveFRRRoutes env cfg ips om = (Inr [], om)"
    "VRFDefaultRoutePresent env cfg om = (Inr True, om)"
  using assms by (simp_all add: ListFRRRoutes_def ListKernelRoutes_def AddKernelRoute_def AddFRRRoutes_def RefreshBGP_def
      InactiveFRRRoutes_def VRFDefaultRoutePresent_def ret_def Let_def)

lemma dry_planes:
  assumes "cf_DryRun cfg"
  shows "EnsureSegments env cfg order1 segs rm = (None, rm)" "ReconcileOVSHairpinFlows env cfg targets rm = (None, rm)"
    "ReconcileVethLeakNetworks env cfg order2 nets om = (Inr (), om)"
    "ReconcileFRRPrefixList env cfg order3 order4 nets vips om = (Inr (), om)"
    "ReconcilePortForward env cfg nets ips ann om = (Inr (), om)"
  using assms by (simp_all add: EnsureSegments_def ReconcileOVSHairpinFlows_def ReconcileVethLeakNetworks_def
      ReconcileFRRPrefixList_def ReconcilePortForward_def ret_def)

lemma dry_addMissing: "cf_DryRun cfg \<Longrightarrow> addMissing env cfg ipDev nK nF ips om = (True, filter nF ips, om)"
  by (induction ips) (simp_all add: dry_routes)

lemma needsFRR_Nil: "needsFRR statics [] = (\<lambda>ip. ip \<in> set statics)"
  by (simp add: needsFRR_def fun_eq_iff)

lemma dry_ensureRoutes:
  "cf_DryRun cfg \<Longrightarrow> ensureRoutes env cfg ips statics ipDev skip om =
     (let addFRR = filter (\<lambda>ip. ip \<in> set statics) ips
      in (\<lparr>rs_changed = (addFRR \<noteq> []), rs_announced = (addFRR \<noteq> []), rs_ready = True\<rparr>, om))"
  by (simp add: ensureRoutes_def listCurrent_def dry_routes dry_addMissing staleKernel_def staleFRR_def needsFRR_Nil Let_def)

lemma dry_removeAllRoutes: "cf_DryRun cfg \<Longrightarrow> removeAllRoutes env cfg om = om"
  by (simp add: removeAllRoutes_def dry_routes)

text \<open>With nothing listed, every static is found missing right after it was added.\<close>

lemma dry_verifyRoutes:
  assumes "cf_DryRun cfg" and "set statics \<subseteq> set ips" and "statics \<noteq> []"
  shows "ag_consecutiveReAdds (snd (verifyRoutes env cfg ips statics ipDev skip a)) = ag_consecutiveReAdds a + 1 \<and>
    ag_routing (snd (verifyRoutes env cfg ips statics ipDev skip a)) = ag_routing a \<and>
    ag_ovn (snd (verifyRoutes env cfg ips statics ipDev skip a)) = ag_ovn a"
proof -
  have "filter (\<lambda>ip. ip \<in> set statics) ips \<noteq> []" using assms(2,3) by (cases statics) (auto simp: filter_empty_conv)
  then show ?thesis using assms(1)
    by (simp add: verifyRoutes_def routing_def verifyListing_def dry_routes reAddMissing_def dry_addMissing needsFRR_Nil
        noteReAdds_def setReAddStreak_def repairUnresolvableNexthop_def Let_def)
qed

lemma dry_reconcilePlanes:
  assumes "cf_DryRun cfg"
  shows "agentCalls isRead a (reconcilePlanes env cfg st desired a) \<and>
    ag_consecutiveReAdds (reconcilePlanes env cfg st desired a) = ag_consecutiveReAdds a"
proof -
  have reads: "agentCalls isRead b (snd (routing (macByLRP (ae_host env) cfg lrs m1 m2) b))" for b lrs m1 m2
    by (rule agentCalls_routing [OF makes_macByLRP]) simp
  have hairpin: "routing (ReconcileOVSHairpinFlows (ae_host env) cfg ts) b = (None, b)"
    and segs: "routing (\<lambda>om. EnsureSegments (ae_host env) cfg (ae_segOrder env (rm_hist om)) ds om) b = (None, b)"
    for b ts ds using assms by (simp_all add: routing_def dry_planes)
  have leak: "reconcileLeak env cfg nets b = b" and list: "reconcilePrefixList env cfg nets vips b = b" for nets vips b
    using assms by (simp_all add: reconcileLeak_def reconcilePrefixList_def routing_def dry_planes)
  have own: "rm_hist (setOwned plane flows om) = rm_hist om" for plane flows om by (simp add: setOwned_def split: option.splits)
  show ?thesis
    using reads [of a "st_LocalRouters st" "[]" "[]"]
    by (auto simp: reconcilePlanes_def activePlanes_def standbyPlanes_def Let_def segs hairpin leak list own
        split_beta agentCalls_def onlyCalls_same)
qed

lemma statics_desired:
  "set (de_FRRStaticIPs (computeDesiredState st pfs ann)) \<subseteq> set (de_DesiredIPs (computeDesiredState st pfs ann))"
  by (auto simp: computeDesiredState_fields unique_ips.render_set plainIPs_def)

lemma step_fields [simp]:
  "ag_routing (markTakeover env st sync a) = ag_routing a"
  "ag_consecutiveReAdds (markTakeover env st sync a) = ag_consecutiveReAdds a"
  "ag_routing (snd (reportVRFDefaultRoute present n l a)) = ag_routing a"
  "ag_consecutiveReAdds (snd (reportVRFDefaultRoute present n l a)) = ag_consecutiveReAdds a"
  "ag_ovn (snd (reportVRFDefaultRoute present n l a)) = ag_ovn a"
  "ag_routing (staleStep env cfg st a) = ag_routing a"
  "ag_consecutiveReAdds (staleStep env cfg st a) = ag_consecutiveReAdds a"
  by (simp_all add: markTakeover_def reportVRFDefaultRoute_def staleStep_def Let_def split_beta)

lemma afterAnnounce_dry:
  fixes env st ipDev skip sync a
  assumes "cf_DryRun cfg" and "set (de_FRRStaticIPs desired) \<subseteq> set (de_DesiredIPs desired)"
  defines "a' \<equiv> afterAnnounce env cfg st desired ipDev skip sync a"
  shows "ag_routing a' = ag_routing a \<and>
    (de_FRRStaticIPs desired \<noteq> [] \<and> rs_changed sync \<longrightarrow> ag_consecutiveReAdds a' = ag_consecutiveReAdds a + 1)"
proof -
  have leak: "reconcileLeak env cfg nets b = b" for nets b
    using assms(1) by (simp add: reconcileLeak_def routing_def dry_planes)
  have rest: "snd (checkFRRRouteActivity env cfg ips b) = b"
    "ag_routing (snd (checkDefaultRoute env cfg st desired b)) = ag_routing b"
    "ag_consecutiveReAdds (snd (checkDefaultRoute env cfg st desired b)) = ag_consecutiveReAdds b" for ips b
    using assms(1) by (simp_all add: checkFRRRouteActivity_def checkDefaultRoute_def routing_def dry_routes)
  have stab: "ag_routing (stabilise env cfg st b) = ag_routing b"
    "ag_consecutiveReAdds (stabilise env cfg st b) = ag_consecutiveReAdds b" for b
    by (simp_all add: stabilise_def leak Let_def)
  have verify: "ag_routing (verifyStep env cfg desired ipDev skip sync b) = ag_routing b" for b
  proof (cases "rs_changed sync \<and> de_FRRStaticIPs desired \<noteq> []")
    case True
    then show ?thesis using dry_verifyRoutes [OF assms(1,2)] by (simp add: verifyStep_def)
  next
    case False
    then show ?thesis using assms(1)
      by (auto simp: verifyStep_def setReAddStreak_def verifyRoutes_def routing_def verifyListing_def dry_routes
          reAddMissing_def dry_addMissing noteReAdds_def repairUnresolvableNexthop_def Let_def)
  qed
  show ?thesis
  proof (intro conjI impI)
    show "ag_routing a' = ag_routing a" by (simp add: a'_def afterAnnounce_def Let_def rest stab verify)
    assume changed: "de_FRRStaticIPs desired \<noteq> [] \<and> rs_changed sync"
    show "ag_consecutiveReAdds a' = ag_consecutiveReAdds a + 1"
      using dry_verifyRoutes [OF assms(1,2)] changed
      by (simp add: a'_def afterAnnounce_def Let_def rest verifyStep_def stab)
  qed
qed

lemma cycleFrom_dry:
  fixes env startup st observed a
  assumes "cf_DryRun cfg"
  defines "statics \<equiv> de_FRRStaticIPs (computeDesiredState st (cf_PortForwards cfg) (vipRoutesAnnounceable cfg st))"
    and "run \<equiv> cycleFrom env cfg startup st observed a"
  shows "agentCalls isRead a (snd run) \<and> (st_HasLocalRouters st \<longrightarrow> rs_ready (cy_sync (fst run))) \<and>
    (statics \<noteq> [] \<longrightarrow> ag_consecutiveReAdds (snd run) = ag_consecutiveReAdds a + 1)"
proof -
  let ?d = "computeDesiredState st (cf_PortForwards cfg) (vipRoutesAnnounceable cfg st)"
  let ?a1 = "beginCycle cfg st ?d a"
  let ?a2 = "reconcilePlanes env cfg st ?d ?a1"
  have sub: "set statics \<subseteq> set (de_DesiredIPs ?d)" unfolding statics_def by (rule statics_desired)
  have a3: "snd (routing (ReconcilePortForward (ae_host env) cfg nets ips ann) b) = b" for nets ips ann b
    using assms(1) by (simp add: routing_def dry_planes)
  obtain ipDev skip where dev: "routeDevices cfg ?d (ag_routing ?a2) = (ipDev, skip)" by fastforce
  obtain sync ok a4 where sync: "syncRoutes env cfg st ?d ipDev skip ?a2 = ((sync, ok), a4)"
    by (metis prod.exhaust)
  have a4: "a4 = ?a2" and ready: "st_HasLocalRouters st \<Longrightarrow> rs_ready sync"
    and changed: "statics \<noteq> [] \<Longrightarrow> rs_changed sync"
  proof -
    let ?add = "filter (\<lambda>ip. ip \<in> set statics) (de_DesiredIPs ?d)"
    have add: "statics \<noteq> [] \<Longrightarrow> ?add \<noteq> []" using sub by (cases statics) (auto simp: filter_empty_conv)
    have des: "statics \<noteq> [] \<Longrightarrow> de_DesiredIPs ?d \<noteq> []" using add by auto
    show "a4 = ?a2" using sync assms(1)
      by (auto simp: syncRoutes_def routing_def dry_ensureRoutes dry_removeAllRoutes Let_def split: if_splits)
    show "st_HasLocalRouters st \<Longrightarrow> rs_ready sync" using sync assms(1)
      by (auto simp: syncRoutes_def routing_def dry_ensureRoutes Let_def)
    show "statics \<noteq> [] \<Longrightarrow> rs_changed sync" using sync assms(1) add des
      by (auto simp: syncRoutes_def routing_def dry_ensureRoutes Let_def statics_def [symmetric])
  qed
  have run: "run = (\<lparr>cy_ok = ok, cy_sync = sync, cy_failover = (if rs_announced sync \<and> \<not> startup then observed else None)\<rparr>,
      afterAnnounce env cfg st ?d ipDev skip sync ?a2)"
    by (simp add: run_def cycleFrom_def beforeAnnounce_def Let_def a3 dev sync a4)
  note after = afterAnnounce_dry [OF assms(1) sub [unfolded statics_def], of env st ipDev skip sync ?a2]
  have planes: "agentCalls isRead ?a1 ?a2" "ag_consecutiveReAdds ?a2 = ag_consecutiveReAdds a"
    using dry_reconcilePlanes [OF assms(1), of ?a1 env st ?d] by simp_all
  have "agentCalls isRead a ?a1" by (simp add: agentCalls_def onlyCalls_same)
  then have "agentCalls isRead a ?a2" using planes(1) by (rule agentCalls_trans)
  then have "agentCalls isRead a (snd run)" using after by (simp add: run agentCalls_def)
  moreover have "st_HasLocalRouters st \<longrightarrow> rs_ready (cy_sync (fst run))" using ready by (simp add: run)
  moreover have "statics \<noteq> [] \<longrightarrow> ag_consecutiveReAdds (snd run) = ag_consecutiveReAdds a + 1"
    using after changed planes(2) by (simp add: run statics_def)
  ultimately show ?thesis by blast
qed

end
