(* ===== verification/TakeoverMarker.thy ===== *)
theory TakeoverMarker
  imports Reconcile
begin

section \<open>What a takeover marker means\<close>

text \<open>
  A draining peer trusts the takeover marker of a default route: the chassis it names forwards
  already. This theory shows for the whole reconcile cycle that the marker is written only after
  every call that makes this node forward has succeeded.
\<close>

subsection \<open>The calls that make a node forward\<close>

definition forwardingCall :: "host_call \<Rightarrow> bool" where
  "forwardingCall c =
     (case c of
        CRouteReplace _ \<Rightarrow> True
      | CVtysh args \<Rightarrow> list_ex (\<lambda>l. HasPrefix l ''ip route '' \<or> HasPrefix l ''clear '') args
      | _ \<Rightarrow> False)"

definition forwardingOk :: "history \<Rightarrow> bool" where
  "forwardingOk h = list_all (\<lambda>(c, ok). forwardingCall c \<longrightarrow> ok) h"

lemma forwardingOk_simps [simp]:
  "forwardingOk []" "forwardingOk (h @ h') \<longleftrightarrow> forwardingOk h \<and> forwardingOk h'"
  "forwardingOk ((c, ok) # h) \<longleftrightarrow> (forwardingCall c \<longrightarrow> ok) \<and> forwardingOk h"
  by (simp_all add: forwardingOk_def)

lemma forwardingCall_simps [simp]:
  "\<not> forwardingCall (CLinkByName n)" "forwardingCall (CRouteReplace r)" "\<not> forwardingCall (CRouteDel r)"
  "\<not> forwardingCall (CRuleAdd u)" "\<not> forwardingCall (CRuleDel u)"
  by (simp_all add: forwardingCall_def)

lemma HasPrefix_shorter: "HasPrefix l (p @ q) \<Longrightarrow> HasPrefix l p"
proof -
  assume "HasPrefix l (p @ q)"
  then have "take (length p) (take (length (p @ q)) l) = p" by (simp add: HasPrefix_def)
  then show ?thesis by (simp add: HasPrefix_def min_def)
qed

lemma read_not_forwarding: "isRead c \<Longrightarrow> \<not> forwardingCall c"
  using HasPrefix_shorter [of _ "''ip ''" "''route ''"]
  by (cases c) (auto simp: isRead_def forwardingCall_def list_all_iff list_ex_iff)

lemma reads_forwardingOk: "writes t = [] \<Longrightarrow> forwardingOk t"
  by (induction t) (auto simp: read_not_forwarding split: if_splits)

lemma delArgs_not_forwarding: "\<not> forwardingCall (CVtysh (delArgs cfg ips))"
  by (auto simp: forwardingCall_def list_ex_iff delArgs_def inVRF_def HasPrefix_def)

definition forwards :: "'z route_manager_scheme \<Rightarrow> 'z route_manager_scheme \<Rightarrow> bool" where
  "forwards om om' \<longleftrightarrow> (\<exists>t. rm_hist om' = rm_hist om @ t \<and> forwardingOk t)"

lemma forwards_same: "rm_hist om' = rm_hist om \<Longrightarrow> forwards om om'"
  by (simp add: forwards_def)

lemma forwards_trans: "forwards a b \<Longrightarrow> forwards b c \<Longrightarrow> forwards a c"
  by (auto simp: forwards_def)

lemma forwards_log: "forwards om om' \<Longrightarrow> (forwardingCall c \<Longrightarrow> ok) \<Longrightarrow> forwards om (logCall c ok om')"
  by (auto simp: forwards_def)

lemma forwards_refl [simp]: "forwards om om"
  by (simp add: forwards_same)

subsection \<open>A ready synchronisation\<close>

lemma forwards_AddKernelRoute:
  "fst (AddKernelRoute env cfg ip dev om) = None \<Longrightarrow> forwards om (snd (AddKernelRoute env cfg ip dev om))"
  by (auto simp: AddKernelRoute_def nl_calls ensureIPRule_def intro!: forwards_log split: sum.splits option.splits if_splits)

lemma forwards_addMissing:
  "fst (addMissing env cfg ipDev nK nF ips om) \<Longrightarrow> forwards om (snd (snd (addMissing env cfg ipDev nK nF ips om)))"
proof (induction ips arbitrary: om)
  case (Cons ip ips)
  let ?one = "if nK ip then AddKernelRoute env cfg ip (desiredRouteDev cfg ip ipDev) om else (None, om)"
  have "fst ?one = None" and rest: "fst (addMissing env cfg ipDev nK nF ips (snd ?one))"
    using Cons.prems by (simp_all add: split_beta Let_def)
  then have "forwards om (snd ?one)" by (cases "nK ip") (simp_all add: forwards_AddKernelRoute)
  from forwards_trans [OF this Cons.IH [OF rest]] show ?case by (simp add: split_beta Let_def)
qed simp

lemma forwardingOk_zip: "(\<And>ok. ok \<in> set oks \<Longrightarrow> ok) \<Longrightarrow> forwardingOk (zip cs oks)"
  by (auto simp: forwardingOk_def list_all_iff dest: set_zip_rightD)

lemma forwards_AddFRRRoutes:
  "fst (AddFRRRoutes env cfg ips om) = None \<Longrightarrow> forwards om (snd (AddFRRRoutes env cfg ips om))"
  using AddFRRRoutes_calls [of ips env cfg om] by (auto simp: forwards_def split: if_splits intro: forwardingOk_zip)

lemma forwards_DelFRRRoutes: "forwards om (snd (DelFRRRoutes env cfg ips om))"
proof -
  have "forwardingOk (zip (map (\<lambda>ch. CVtysh (delArgs cfg ch)) chs) oks)" for chs oks
    by (auto simp: forwardingOk_def list_all_iff delArgs_not_forwarding dest!: set_zip_leftD)
  then have "forwards om (snd (delChunks env cfg chs om))" for chs and om :: "'a route_manager_scheme"
    using delChunks_calls [of chs env cfg om] by (auto simp: forwards_def)
  from this [of "clearCache om"] show ?thesis
    by (auto simp: DelFRRRoutes_def forwards_def clearCache_def split: option.splits)
qed

lemma forwards_delKernelRoutes: "forwards om (delKernelRoutes env cfg es om)"
proof (induction es arbitrary: om)
  case (Cons e es)
  have "forwards om (snd (DelKernelRoute env cfg (kr_IP e) (kr_Dev e) om))"
    by (auto simp: DelKernelRoute_def nl_calls removeIPRule_def intro!: forwards_log split: sum.splits option.splits if_splits)
  from forwards_trans [OF this Cons] show ?case by simp
qed simp

lemma ready_forwards:
  assumes "rs_ready (fst (ensureRoutes env cfg desired statics ipDev skip om))"
  shows "forwards om (snd (ensureRoutes env cfg desired statics ipDev skip om))"
proof -
  let ?add = "er_addFRR env cfg desired statics om" and ?del = "er_delFRR env cfg desired statics om"
  obtain rm1 rm2 rm3 rm4 rm5 R A K where p:
    "rm_hist rm1 = rm_hist om @ R" "writes R = []"
    "rm2 = snd (snd (addMissing env cfg ipDev (needsKernel cfg ipDev skip (er_current env cfg om))
       (needsFRR statics (er_currentFRR env cfg om)) desired rm1))"
    "rm3 = (if ?add \<noteq> [] then snd (AddFRRRoutes env cfg ?add rm2) else rm2)"
    "rm4 = (if ?del \<noteq> [] then snd (DelFRRRoutes env cfg ?del rm3) else rm3)"
    "rm5 = delKernelRoutes env cfg (staleKernel desired (er_current env cfg om)) rm4"
    "snd (ensureRoutes env cfg desired statics ipDev skip om) =
       (if ?add \<noteq> [] \<or> ?del \<noteq> [] then snd (RefreshBGP env cfg rm5) else rm5)"
    "rs_ready (fst (ensureRoutes env cfg desired statics ipDev skip om)) \<longleftrightarrow>
       fst (addMissing env cfg ipDev (needsKernel cfg ipDev skip (er_current env cfg om))
         (needsFRR statics (er_currentFRR env cfg om)) desired rm1) \<and>
       (?add = [] \<or> fst (AddFRRRoutes env cfg ?add rm2) = None) \<and>
       (?add = [] \<and> ?del = [] \<or> fst (RefreshBGP env cfg rm5) = None)"
    by (rule ensureRoutes_phases [where env = env and cfg = cfg and rm = om and desired = desired and statics = statics
        and ipDev = ipDev and skip = skip]) (rule that; assumption)
  have ready: "fst (addMissing env cfg ipDev (needsKernel cfg ipDev skip (er_current env cfg om))
         (needsFRR statics (er_currentFRR env cfg om)) desired rm1)"
    "?add = [] \<or> fst (AddFRRRoutes env cfg ?add rm2) = None"
    "?add = [] \<and> ?del = [] \<or> fst (RefreshBGP env cfg rm5) = None"
    using iffD1 [OF p(8) assms] by (simp_all only:)
  have 1: "forwards om rm1" using p(1,2) by (auto simp: forwards_def reads_forwardingOk)
  have 2: "forwards rm1 rm2" unfolding p(3) by (rule forwards_addMissing) (rule ready(1))
  have 3: "forwards rm2 rm3" unfolding p(4) using ready(2) by (auto intro: forwards_AddFRRRoutes)
  have 4: "forwards rm3 rm4" unfolding p(5) by (auto intro: forwards_DelFRRRoutes)
  have "forwards rm4 rm5" unfolding p(6) by (rule forwards_delKernelRoutes)
  with 1 2 3 4 have 5: "forwards om rm5" by (blast intro: forwards_trans)
  have "forwards rm5 (snd (RefreshBGP env cfg rm5))" if "fst (RefreshBGP env cfg rm5) = None"
    using that by (auto simp: RefreshBGP_run forwards_log split: if_splits)
  then show ?thesis unfolding p(7) using 5 ready(3) by (auto intro: forwards_trans)
qed

subsection \<open>Who writes a fresh marker\<close>

text \<open>An update that puts this chassis's name as the marker on a route that did not carry it in any listing.\<close>

definition freshMarker :: "nb_env \<Rightarrow> string \<Rightarrow> nb_op \<Rightarrow> bool" where
  "freshMarker env me x \<longleftrightarrow>
     (\<exists>r cols. x = UpdateRoute r cols \<and> extID r takeoverReadyMarkerKey = me \<and>
        \<not> (\<exists>h routes r0. v_StaticRoutes (en_view env h) = Inr routes \<and> r0 \<in> set routes \<and>
             sr_UUID r0 = sr_UUID r \<and> extID r0 takeoverReadyMarkerKey = me))"

definition unmarked :: "nb_env \<Rightarrow> string \<Rightarrow> nb_op list \<Rightarrow> bool" where
  "unmarked env me ops \<longleftrightarrow> (\<forall>x\<in>set ops. \<not> freshMarker env me x)"

lemma marker_not_chassis [simp]: "chassisKey \<noteq> takeoverReadyMarkerKey" "takeoverReadyMarkerKey \<noteq> chassisKey"
  by (simp_all add: chassisKey_def takeoverReadyMarkerKey_def)

lemma freshMarker_other [simp]:
  "\<not> freshMarker env me (InsertRoute r)" "\<not> freshMarker env me (DeleteRoute r)" "\<not> freshMarker env me (InsertStaticRoute a b)"
  "\<not> freshMarker env me (RemoveStaticRoute a b)" "\<not> freshMarker env me (UpdateMAC b')" "\<not> freshMarker env me (InsertMAC b')"
  "\<not> freshMarker env me (DeleteMAC b')" "\<not> freshMarker env me (UpdatePriority g)"
  by (simp_all add: freshMarker_def)

lemma kept_marker:
  assumes "v_StaticRoutes (en_view env h) = Inr routes" and "r \<in> set routes" and "sr_UUID r' = sr_UUID r"
    and "extID r' takeoverReadyMarkerKey = extID r takeoverReadyMarkerKey"
  shows "\<not> freshMarker env me (UpdateRoute r' cols)"
  using assms unfolding freshMarker_def by (metis nb_op.inject(1))

lemma fixDefaultRoute_unmarked:
  assumes "v_StaticRoutes (en_view env h0) = Inr routes" and "r \<in> set routes"
  shows "sends (unmarked env me) h (snd (fixDefaultRoute env chassis lr vgw r h))"
proof -
  have k: "\<not> freshMarker env me (UpdateRoute (setExtID chassisKey c r) cols)"
    "\<not> freshMarker env me (UpdateRoute (setExtID chassisKey c (r\<lparr>sr_Nexthop := n, sr_OutputPort := p\<rparr>)) cols)" for c cols n p
    by (rule kept_marker [OF assms]; simp)+
  show ?thesis unfolding fixDefaultRoute_def by (auto intro!: sends_one simp: unmarked_def k)
qed

lemma ensureDefaultRoute_unmarked: "sends (unmarked env me) h (snd (ensureDefaultRoute env chassis lr vgw h))"
proof (cases "v_StaticRoutes (en_view env h)")
  case (Inr routes)
  let ?h1 = "h @ [EvRead ''Logical_Router_Static_Route'']"
  let ?h2 = "?h1 @ [EvRead ''Logical_Router'']"
  have h2: "sends P h h' \<Longrightarrow> sends P h h'" for P h' by simp
  have reach: "sends (unmarked env me) ?h2 h' \<Longrightarrow> sends (unmarked env me) h h'" for h'
    by (rule sends_trans [of _ _ ?h2]) (simp_all add: sends_read)
  show ?thesis
  proof (cases "v_Routers (en_view env ?h1)")
    case Inr': (Inr routers)
    show ?thesis
    proof (cases "find (\<lambda>r. lr_UUID r = lri_RouterUUID lr) routers")
      case (Some router)
      show ?thesis
      proof (cases "firstDefault router routes")
        case None
        have "sends (unmarked env me) ?h2 (snd (sendOne env (InsertRoute (newDefaultRoute vgw (lri_LRPName lr) chassis))
            [InsertStaticRoute (lri_RouterUUID lr) ''new_route''] ?h2))"
          by (intro sends_one) (simp add: unmarked_def)
        from reach [OF this] show ?thesis using Inr Inr' Some None by (simp add: ensureDefaultRoute_def listCache_def)
      next
        case (Some r)
        then have "r \<in> set routes" using find_SomeD by (fastforce simp: firstDefault_def)
        from reach [OF fixDefaultRoute_unmarked [OF Inr this]] show ?thesis
          using Inr Inr' Some \<open>find _ routers = _\<close> by (simp add: ensureDefaultRoute_def listCache_def)
      qed
    qed (simp add: ensureDefaultRoute_def listCache_def Inr Inr')
  qed (simp add: ensureDefaultRoute_def listCache_def Inr)
qed (simp add: ensureDefaultRoute_def listCache_def)

lemma ensureStaticMACBinding_unmarked:
  "sends (unmarked env me) h (snd (ensureStaticMACBinding env lrp vgw mac h))"
proof -
  let ?h1 = "h @ [EvRead ''Static_MAC_Binding'']"
  have sent: "sends (unmarked env me) h (snd (sendOne env x [] ?h1))" if "\<not> freshMarker env me x" for x
    by (rule sends_trans [of _ _ ?h1]) (simp, rule sends_one, simp add: unmarked_def that)
  show ?thesis
    by (auto simp: ensureStaticMACBinding_def listCache_def sent split: sum.splits option.splits)
qed

lemma ensureRouter_unmarked: "sends (unmarked env me) h (snd (ensureRouter env chassis macs lr h))"
proof (cases "virtualGatewayIP (lri_LRPNetworks lr)")
  case (Inr w)
  let ?mac = "mget macs (lri_LRPName lr)"
  obtain e1 h1 where one: "ensureDefaultRoute env chassis lr (ip4String w) h = (e1, h1)" by fastforce
  obtain e2 h2 where two: "ensureStaticMACBinding env (lri_LRPName lr) (ip4String w) ?mac h1 = (e2, h2)" by fastforce
  have 1: "sends (unmarked env me) h h1" using ensureDefaultRoute_unmarked [of env me h chassis lr "ip4String w"] one by simp
  have "sends (unmarked env me) h1 h2"
    using ensureStaticMACBinding_unmarked [of env me h1 "lri_LRPName lr" "ip4String w" ?mac] two by simp
  with 1 have "sends (unmarked env me) h h2" by (rule sends_trans)
  with 1 show ?thesis using Inr one two by (simp add: ensureRouter_def Let_def split: option.splits)
qed (simp add: ensureRouter_def Let_def)

lemma EnsureGatewayRouting_unmarked: "sends (unmarked env me) h (snd (EnsureGatewayRouting env chassis lrs macs h))"
proof -
  let ?f = "\<lambda>(errs, h) lr. let (es, h1) = ensureRouter env chassis macs lr h in (errs @ es, h1)"
  have "sends (unmarked env me) (snd ([] :: err list, h)) (snd (foldl ?f ([], h) lrs))"
    by (rule sends_foldl) (simp add: split_beta Let_def ensureRouter_unmarked)
  then show ?thesis by (simp add: EnsureGatewayRouting_def)
qed

lemma sends_leadRows: "sends P h (snd (leadRows env me h))"
  by (auto simp: leadRows_def selectLocalGatewayChassis_def listCache_def sends_read split: sum.splits prod.splits)

lemma sends_selectCRPortChassis: "sends P h (snd (selectCRPortChassis env h))"
  by (auto simp: selectCRPortChassis_def Let_def sends_read split: sum.splits select_reply.splits list.splits)

lemma EnsureActivePriorityLead_unmarked: "sends (unmarked env me) h (snd (EnsureActivePriorityLead env gorder lrs name h))"
proof -
  obtain rows h1 where rows: "leadRows env name h = (rows, h1)" by fastforce
  obtain cr h2 where cr: "selectCRPortChassis env h1 = (cr, h2)" by fastforce
  have h1: "sends (unmarked env me) h h1" and h12: "sends (unmarked env me) h1 h2"
    using sends_leadRows [of "unmarked env me" h env name] rows sends_selectCRPortChassis [of "unmarked env me" h1 env] cr by simp_all
  have "boost lrs cr name e = Some x \<Longrightarrow> \<not> freshMarker env me x" for e x
    by (auto simp: boost_def Let_def split: prod.splits option.splits if_splits)
  then have "unmarked env me (buildable env (List.map_filter (boost lrs cr name) gs))" for gs
    by (auto simp: unmarked_def buildable_def List.map_filter_def)
  then have "sends (unmarked env me) h2 (snd (sendBatch env (buildable env (List.map_filter (boost lrs cr name) gs)) h2))" for gs
    by (intro sends_batch)
  then show ?thesis using h1 h12 rows cr
    by (auto simp: EnsureActivePriorityLead_def split: sum.splits intro: sends_trans)
qed

lemma stale_unmarked: "sends (unmarked env me) h (snd (cleanupStaleChassis env grace jitter now al missing h))"
proof -
  have read: "sends P h (snd (ListManagedRouteChassis env h))" for P h
    by (auto simp: ListManagedRouteChassis_def listCache_def split: prod.splits sum.splits)
  have clean: "sends (unmarked env me) h1 (snd (CleanupStaleChassisManagedEntries env stale h1))" for stale h1
    by (rule sends_mono [OF stale_cleanup_spares_the_living]) (auto simp: unmarked_def staleRemoval_def)
  obtain refs h1 where list: "ListManagedRouteChassis env h = (refs, h1)" by fastforce
  then have h1: "sends (unmarked env me) h h1" using read [of "unmarked env me" h] by simp
  have "sends (unmarked env me) h h2" if "CleanupStaleChassisManagedEntries env stale h1 = (e, h2)" for stale e h2
    using sends_trans [OF h1 clean [of h1 stale]] that by simp
  then show ?thesis using list h1
    by (auto simp: cleanupStaleChassis_def Let_def split: option.splits prod.splits)
qed

subsection \<open>The cycle\<close>

definition announceCalls :: "agent_env \<Rightarrow> config \<Rightarrow> ovn_state \<Rightarrow> agent \<Rightarrow> history" where
  "announceCalls env cfg st a =
     (let desired = computeDesiredState st (cf_PortForwards cfg) (vipRoutesAnnounceable cfg st);
          a3 = beforeAnnounce env cfg st desired a;
          (ipDev, skip) = routeDevices cfg desired (ag_routing a3)
      in callsOf (ag_routing a3) (ag_routing (snd (syncRoutes env cfg st desired ipDev skip a3))))"

definition stepUnmarked :: "agent_env \<Rightarrow> string \<Rightarrow> agent \<Rightarrow> agent \<Rightarrow> bool" where
  "stepUnmarked env me a b \<longleftrightarrow> sends (unmarked (ae_nb env) me) (ag_ovn a) (ag_ovn b)"

lemma stepUnmarked_trans: "stepUnmarked env me a b \<Longrightarrow> stepUnmarked env me b c \<Longrightarrow> stepUnmarked env me a c"
  unfolding stepUnmarked_def by (rule sends_trans)

lemma stepUnmarked_same: "ag_ovn b = ag_ovn a \<Longrightarrow> stepUnmarked env me a b"
  by (simp add: stepUnmarked_def)

lemma planes_ovn [simp]:
  "ag_ovn (reconcileLeak env cfg nets a) = ag_ovn a" "ag_ovn (reconcilePrefixList env cfg nets vips a) = ag_ovn a"
  "ag_ovn (standbyPlanes env cfg a) = ag_ovn a"
  by (simp_all add: reconcileLeak_def reconcilePrefixList_def standbyPlanes_def Let_def)

lemma noteReAdds_ovn: "ag_ovn (noteReAdds env cfg n a) = ag_ovn a"
  by (auto simp: noteReAdds_def setReAddStreak_def repairUnresolvableNexthop_def flapNexthop_def clockNow_def Let_def split_beta
      routing_def split: sum.splits bool.splits option.splits)

lemma verifyStep_ovn [simp]: "ag_ovn (verifyStep env cfg d ipDev skip sync a) = ag_ovn a"
  by (auto simp: verifyStep_def verifyRoutes_def setReAddStreak_def Let_def split_beta noteReAdds_ovn routing_def split: option.splits)

lemma beforeAnnounce_unmarked: "stepUnmarked env me a (beforeAnnounce env cfg st desired a)"
proof -
  have "sends (unmarked (ae_nb env) me) h (snd (EnsureGatewayRouting (ae_nb env) name lrs macs h))" for h name lrs macs
    by (rule EnsureGatewayRouting_unmarked)
  then show ?thesis
    by (simp add: stepUnmarked_def beforeAnnounce_def reconcilePlanes_def activePlanes_def Let_def split_beta)
qed

lemma afterMark_unmarked:
  "stepUnmarked env me (markTakeover env st sync a) (afterAnnounce env cfg st desired ipDev skip sync a)"
proof -
  have stab: "stepUnmarked env me b (stabilise env cfg st b)" for b
    by (simp add: stepUnmarked_def stabilise_def Let_def EnsureActivePriorityLead_unmarked)
  have rest: "ag_ovn (snd (checkFRRRouteActivity env cfg ips b)) = ag_ovn b"
    "ag_ovn (snd (checkDefaultRoute env cfg st desired b)) = ag_ovn b" for ips b
    by (simp_all add: checkFRRRouteActivity_def checkDefaultRoute_def split_beta Let_def)
  have stale: "stepUnmarked env me b (staleStep env cfg st b)" for b
    by (simp add: stepUnmarked_def staleStep_def clockNow_def Let_def split_beta stale_unmarked)
  let ?a = "markTakeover env st sync a"
  let ?b = "snd (checkDefaultRoute env cfg st desired (snd (checkFRRRouteActivity env cfg (de_FRRStaticIPs desired)
      (verifyStep env cfg desired ipDev skip sync (stabilise env cfg st ?a)))))"
  have "stepUnmarked env me ?a ?b" using stab [of ?a] by (simp add: stepUnmarked_def rest)
  from stepUnmarked_trans [OF this stale] show ?thesis by (simp add: afterAnnounce_def Let_def)
qed

lemma afterAnnounce_unmarked:
  assumes "\<not> (rs_ready sync \<and> st_HasLocalRouters st)"
  shows "stepUnmarked env me a (afterAnnounce env cfg st desired ipDev skip sync a)"
proof -
  have "markTakeover env st sync a = a" using assms by (auto simp: markTakeover_def)
  then show ?thesis using afterMark_unmarked [of env me st sync a cfg desired ipDev skip] by simp
qed

lemma syncRoutes_ready:
  assumes "syncRoutes env cfg st desired ipDev skip a = ((sync, ok), a')" and "rs_ready sync"
  shows "forwardingOk (callsOf (ag_routing a) (ag_routing a')) \<and> ag_ovn a' = ag_ovn a"
proof (cases "de_DesiredIPs desired \<noteq> [] \<or> st_HasLocalRouters st")
  case True
  then have "rs_ready (fst (ensureRoutes (ae_host env) cfg (de_DesiredIPs desired) (de_FRRStaticIPs desired) ipDev skip (ag_routing a)))"
    and a': "a' = snd (routing (ensureRoutes (ae_host env) cfg (de_DesiredIPs desired) (de_FRRStaticIPs desired) ipDev skip) a)"
    using assms by (auto simp: syncRoutes_def Let_def routing_def split: prod.splits)
  from ready_forwards [OF this(1)] show ?thesis unfolding a' by (auto simp: forwards_def)
next
  case False
  then show ?thesis using assms by (auto simp: syncRoutes_def noSync_def)
qed


definition demo_client :: "ovn_state \<Rightarrow> ovn_client" where
  "demo_client st = fst (connectedClient st 0)"

lemma demo_client_read: "readOVN (Some (demo_client st)) = ((st\<lparr>st_Gen := 1\<rparr>, None), Some (demo_client st))"
  by (simp add: readOVN_def demo_client_def connectedClient_def drainSignals_def Snapshot_def takeFailoverObservedAt_def)


subsection \<open>A dry run\<close>

text \<open>
  C7: a dry run leaves the host alone but not the deployment: a dry-run cycle makes no writing call
  on the host, whatever it answers. It reports its routes as ready whenever it sees local routers, so
  it signals takeover readiness and makes its other Northbound writes as a real run does; and since
  nothing it lists ever changes, each cycle with an FRR static counts as one more re-add in a row.
\<close>

theorem dry_run_spares_only_the_host:
  assumes "cf_DryRun cfg" and "reconcile env cfg startup (client, a) = (res, (client', a'))"
  shows "writes (callsOf (ag_routing a) (ag_routing a')) = [] \<and>
    (let st = fst (fst (readOVN client));
         statics = de_FRRStaticIPs (computeDesiredState st (cf_PortForwards cfg) (vipRoutesAnnounceable cfg st))
     in (st_HasLocalRouters st \<longrightarrow> rs_ready (cy_sync res)) \<and>
        (statics \<noteq> [] \<longrightarrow> ag_consecutiveReAdds a' = ag_consecutiveReAdds a + 1))"
proof -
  obtain st observed c1 where read: "readOVN client = ((st, observed), c1)" by (metis prod.exhaust)
  then have run: "cycleFrom env cfg startup st observed a = (res, a')"
    using assms(2) by (auto simp: reconcile_def split: prod.splits)
  from cycleFrom_dry [OF assms(1), of a env startup st observed] show ?thesis
    unfolding run by (simp add: read Let_def agentCalls_def onlyCalls_writes)
qed

text \<open>One router whose managed route is marked by a dry run.\<close>

definition demo_dry_state :: ovn_state where
  "demo_dry_state = zero_state\<lparr>st_LocalChassisName := ''n1'', st_HasLocalRouters := True,
     st_LocalRouters := [demo_lr\<lparr>lri_RouterUUID := ''r1'', lri_LRPNetworks := []\<rparr>]\<rparr>"

definition demo_dry_cfg :: config where
  "demo_dry_cfg = zeroConfig\<lparr>cf_DryRun := True\<rparr>"

definition demo_dry_env :: agent_env where
  "demo_dry_env = demo_agent_env\<lparr>ae_nb := demo_dead_nb\<rparr>"

definition demo_dry_run :: "cycle_result \<times> (ovn_client option \<times> agent)" where
  "demo_dry_run = reconcile demo_dry_env demo_dry_cfg False (Some (demo_client demo_dry_state), demo_agent)"

lemma demo_dry_mark:
  "MarkTakeoverReady demo_dead_nb ''n1'' (st_LocalRouters demo_dry_state) h =
     (None, h @ [EvRead ''Logical_Router'', EvRead ''Logical_Router_Static_Route'',
        EvSent [UpdateRoute (setExtID takeoverReadyMarkerKey ''n1'' demo_dead_route) [''external_ids'']] True])"
proof -
  have "extID demo_dead_route takeoverReadyMarkerKey = ''''" "sr_IPPrefix demo_dead_route = defaultPrefix"
    by (simp_all add: demo_dead_route_def newDefaultRoute_def extID_def nilMap_def mget_def chassisKey_def takeoverReadyMarkerKey_def)
  then show ?thesis
    by (simp add: MarkTakeoverReady_def localManagedDefaultRoutes_def listCache_def demo_dead_simps demo_dead_fields
        demo_dry_state_def markOps_def buildable_def sendBatch_def Let_def)
qed

lemma demo_dry_no_gateway:
  "EnsureGatewayRouting demo_dead_nb name (st_LocalRouters demo_dry_state) macs h = ([], h)"
  by (simp add: EnsureGatewayRouting_def ensureRouter_def demo_dry_state_def Let_def)

lemma demo_dry_marked:
  "\<exists>t. ag_ovn (snd (snd demo_dry_run)) = [EvRead ''Logical_Router'', EvRead ''Logical_Router_Static_Route'',
      EvSent [UpdateRoute (setExtID takeoverReadyMarkerKey ''n1'' demo_dead_route) [''external_ids'']] True] @ t"
proof -
  let ?st = "demo_dry_state\<lparr>st_Gen := 1\<rparr>"
  have cfg: "cf_DryRun demo_dry_cfg" "\<not> cf_PortForwardOnly demo_dry_cfg" by (simp_all add: demo_dry_cfg_def zeroConfig_def)
  have st: "st_HasLocalRouters ?st" "st_LocalChassisName ?st = ''n1''" "st_LocalRouters ?st = st_LocalRouters demo_dry_state"
    by (simp_all add: demo_dry_state_def)
  have nb: "ae_nb demo_dry_env = demo_dead_nb" by (simp add: demo_dry_env_def)
  let ?d = "computeDesiredState ?st (cf_PortForwards demo_dry_cfg) (vipRoutesAnnounceable demo_dry_cfg ?st)"
  let ?a3 = "beforeAnnounce demo_dry_env demo_dry_cfg ?st ?d demo_agent"
  have a3: "ag_ovn ?a3 = []"
    using cfg(2) st by (simp add: beforeAnnounce_def reconcilePlanes_def activePlanes_def Let_def split_beta nb demo_dry_no_gateway
        demo_agent_def)
  obtain ipDev skip where dev: "routeDevices demo_dry_cfg ?d (ag_routing ?a3) = (ipDev, skip)" by fastforce
  obtain sync ok a4 where sync: "syncRoutes demo_dry_env demo_dry_cfg ?st ?d ipDev skip ?a3 = ((sync, ok), a4)" by (metis prod.exhaust)
  then have a4: "ag_ovn a4 = []" "rs_ready sync"
    using st cfg a3 by (auto simp: syncRoutes_def routing_def dry_ensureRoutes Let_def)
  have "ag_ovn (markTakeover demo_dry_env ?st sync a4) = [EvRead ''Logical_Router'', EvRead ''Logical_Router_Static_Route'',
      EvSent [UpdateRoute (setExtID takeoverReadyMarkerKey ''n1'' demo_dead_route) [''external_ids'']] True]"
    by (simp only: markTakeover_def a4 st nb onOVN_fields demo_dry_mark simp_thms if_True snd_conv append_Nil)
  moreover have "snd (snd demo_dry_run) = afterAnnounce demo_dry_env demo_dry_cfg ?st ?d ipDev skip sync a4"
    by (simp add: demo_dry_run_def reconcile_def demo_client_read cycleFrom_def Let_def dev sync del: One_nat_def)
  ultimately show ?thesis
    using afterMark_unmarked [of demo_dry_env "''n1''" ?st sync a4 demo_dry_cfg ?d ipDev skip]
    by (simp only: stepUnmarked_def sends_def) metis
qed

lemma dry_run_spares_only_the_host_witness:
  "writes (callsOf demo_om (ag_routing (snd (snd demo_dry_run)))) = [] \<and>
   [UpdateRoute (setExtID takeoverReadyMarkerKey ''n1'' demo_dead_route) [''external_ids'']]
     \<in> set (transactions (ag_ovn (snd (snd demo_dry_run))))"
proof (intro conjI)
  obtain res client' a' where run: "demo_dry_run = (res, (client', a'))" by (metis prod.exhaust)
  have "cf_DryRun demo_dry_cfg" by (simp add: demo_dry_cfg_def)
  from dry_run_spares_only_the_host [OF this run [unfolded demo_dry_run_def]]
  show "writes (callsOf demo_om (ag_routing (snd (snd demo_dry_run)))) = []"
    by (simp add: run demo_agent_def)
  show "[UpdateRoute (setExtID takeoverReadyMarkerKey ''n1'' demo_dead_route) [''external_ids'']]
     \<in> set (transactions (ag_ovn (snd (snd demo_dry_run))))"
    using demo_dry_marked by auto
qed

end
