(* ===== verification/Lifecycle.thy ===== *)
theory Lifecycle
  imports TakeoverMarker
begin

section \<open>Start-up, drain and shutdown\<close>

text \<open>
  \<open>NewAgent\<close>, \<open>connectWithRetry\<close> and both ends of \<open>Run\<close> in \<open>agent.go\<close>: what happens before the
  main loop, and what happens when its context is cancelled. The environment of a whole run adds to
  that of a cycle: the answers of \<open>Connect\<close>, whether the context is cancelled while one waits for the
  next attempt, what the reads of a refresh outside the loop see (each table possibly at its own
  time), when the drain context has expired, the user and the search path. Between the two ends the
  loop runs \<open>reconcile\<close>. Waiting for the watchers and the refresh loop has no effect here: once they
  have returned, the shutdown is alone with the state.
\<close>

record run_env = agent_env +
  re_connect :: "nat \<Rightarrow> err option"
  re_cancelled :: "nat \<Rightarrow> bool"
  re_refreshView :: "nb_history \<Rightarrow> ovn_view"
  re_drainExpired :: "nb_history \<Rightarrow> bool"
  re_euid :: int
  re_nftInPath :: bool

definition cycleEnv :: "run_env \<Rightarrow> agent_env" where
  "cycleEnv = agent_env.truncate"

subsection \<open>Building the agent\<close>

definition newOVSManager :: "bool \<Rightarrow> ovs_manager" where
  "newOVSManager flowWatch = \<lparr>rm_hist = [], rm_frrRouteCache = None, om_segments = [], om_wrapperStdinOK = None,
     om_ofctlBundleOK = None, om_warnedWrapperStdin = False, om_warnedOfctlBundle = False,
     om_flowWatch = (if flowWatch then Some (\<lambda>_. {}) else None)\<rparr>"

definition NewAgent :: "config \<Rightarrow> int \<Rightarrow> agent" where
  "NewAgent cfg jitter =
     (let watches = (\<lambda>on. on \<and> \<not> cf_DryRun cfg \<and> \<not> cf_PortForwardOnly cfg)
      in \<lparr>ag_routing = newOVSManager (watches (cf_OVSFlowWatch cfg)), ag_ovn = [], ag_effectiveFilters = [],
          ag_consecutiveReAdds = 0, ag_lastNexthopRepair = None, ag_missingChassis = [], ag_staleCleanupJitter = jitter,
          ag_dormantVIPs = '''', ag_vrfDefaultRoute = '''',
          ag_routeWatch = (if watches (cf_RouteWatch cfg) then Some (newRouteOwnership [] [] []) else None),
          ag_readings = 0\<rparr>)"

subsection \<open>Start-up\<close>

text \<open>The attempt with number \<open>n\<close>; the result is \<open>Some None\<close> once connected.\<close>

partial_function (option) connectWithRetry ::
  "(nat \<Rightarrow> err option) \<Rightarrow> (nat \<Rightarrow> bool) \<Rightarrow> nat \<Rightarrow> err option option" where
  "connectWithRetry connect cancelled n =
     (if connect n = None then Some None
      else if cancelled n then Some (Some (Err ''context canceled''))
      else connectWithRetry connect cancelled (Suc n))"

definition setUpHost :: "run_env \<Rightarrow> config \<Rightarrow> (ovs_manager, unit) op" where
  "setUpHost env cfg =
     andThen
       (if cf_PortForwardOnly cfg then ret ()
        else andThen (CheckBridgeDevice (ae_host env) cfg (re_euid env)) (\<lambda>_.
             andThen (EnsureBridgeIP (ae_host env) cfg (cf_BridgeIP cfg)) (\<lambda>_.
               EnableProxyARP (ae_host env) cfg))) (\<lambda>_.
     andThen (\<lambda>om. SetupVethLeak (ae_host env) cfg (ae_netOrder env (rm_hist om)) om) (\<lambda>_.
       SetupPortForward (ae_host env) cfg (re_nftInPath env)))"

text \<open>
  \<open>cl\<close> is the client as \<open>Connect\<close> leaves it. The result of the start is the error \<open>Run\<close>
  returns, or none once the first reconcile is done; it is \<open>None\<close> when the retries never end.
\<close>

definition startAgent ::
  "run_env \<Rightarrow> config \<Rightarrow> ovn_client \<Rightarrow> agent \<Rightarrow> (err option \<times> (ovn_client option \<times> agent)) option" where
  "startAgent env cfg cl a =
     (case routing (setUpHost env cfg) a of
        (Inl e, a1) \<Rightarrow> Some (Some e, (None, a1))
      | (Inr _, a1) \<Rightarrow>
          if cf_PortForwardOnly cfg then Some (None, snd (reconcile (cycleEnv env) cfg True (None, a1)))
          else (case connectWithRetry (re_connect env) (re_cancelled env) 0 of
                  None \<Rightarrow> None
                | Some (Some e) \<Rightarrow> Some (Some e, (None, a1))
                | Some None \<Rightarrow>
                    (let h = RestoreDrainedGateways (ae_nb env) (st_LocalChassisName (Snapshot (cl_state cl))) (ag_ovn a1)
                     in Some (None, snd (reconcile (cycleEnv env) cfg True (Some cl, a1\<lparr>ag_ovn := h\<rparr>))))))"

subsection \<open>Clean-up\<close>

definition cleanupHost :: "agent_env \<Rightarrow> config \<Rightarrow> agent \<Rightarrow> agent" where
  "cleanupHost env cfg a =
     (let a1 = a\<lparr>ag_routing := removeAllRoutes (ae_host env) cfg (clearCache (ag_routing a))\<rparr>;
          a2 = reconcilePrefixList env cfg [] [] a1;
          a3 = (if cf_PortForwardOnly cfg then a2
                else (let b1 = snd (routing (RemoveOVSFlows (ae_host env) cfg) a2);
                          b2 = snd (routing (CleanupRoutingTable (ae_host env) cfg) b1)
                      in snd (routing (TeardownSegmentInterfaces (ae_host env) cfg) b2)));
          a4 = snd (routing (TeardownPortForward (ae_host env) cfg) a3)
      in snd (routing (TeardownVethLeak (ae_host env) cfg) a4))"

definition cleanup :: "agent_env \<Rightarrow> config \<Rightarrow> ovn_client option \<times> agent \<Rightarrow> agent" where
  "cleanup env cfg s =
     (let a1 = cleanupHost env cfg (snd s)
      in if cf_PortForwardOnly cfg then a1
         else (let a2 = snd (routing (RemoveBridgeIP (ae_host env) cfg (cf_BridgeIP cfg)) a1)
               in case fst s of
                    None \<Rightarrow> a2
                  | Some cl \<Rightarrow> snd (onOVN (RemoveManagedNBEntries (ae_nb env) (Snapshot (cl_state cl))) a2)))"

subsection \<open>Shutdown\<close>

definition drainOutcome :: "err option \<Rightarrow> bool \<Rightarrow> bool \<Rightarrow> string" where
  "drainOutcome e expired drained =
     (if e \<noteq> None then ''error''
      else if expired then ''timeout''
      else if \<not> drained then ''noop''
      else ''completed'')"

definition clientConfig :: "config \<Rightarrow> ovn_config" where
  "clientConfig cfg = \<lparr>oc_GatewayPort = cf_GatewayPort cfg, oc_NetworkFilters = cf_NetworkFilters cfg\<rparr>"

definition drainConfig :: "config \<Rightarrow> drain_config" where
  "drainConfig cfg = \<lparr>dc_GatewayPort = cf_GatewayPort cfg, dc_DrainSettleDelay = cf_DrainSettleDelay cfg\<rparr>"

text \<open>The refresh after the drain, which numbers its pass like any other.\<close>

definition refreshOnce :: "config \<Rightarrow> ovn_view \<Rightarrow> ovn_client \<Rightarrow> ovn_client" where
  "refreshOnce cfg v cl =
     cl\<lparr>cl_seq := Suc (cl_seq cl), cl_state := refreshState (clientConfig cfg) v (Suc (cl_seq cl)) (cl_state cl)\<rparr>"

definition drainStep ::
  "run_env \<Rightarrow> config \<Rightarrow> ovn_client \<Rightarrow> agent \<Rightarrow> (string option \<times> (ovn_client \<times> agent)) option" where
  "drainStep env cfg cl a =
     (if \<not> cf_DrainOnShutdown cfg then Some (None, (cl, a))
      else (let st = Snapshot (cl_state cl) in
        (case DrainGateways (ae_nb env) (re_drainExpired env) (drainConfig cfg) (st_LocalRouters st) (st_LocalChassisName st) (ag_ovn a) of
           None \<Rightarrow> None
         | Some ((drained, e), h) \<Rightarrow>
             Some (Some (drainOutcome e (re_drainExpired env h) drained),
                   (refreshOnce cfg (re_refreshView env h) cl, a\<lparr>ag_ovn := h\<rparr>)))))"

definition shutdown ::
  "run_env \<Rightarrow> config \<Rightarrow> ovn_client option \<times> agent \<Rightarrow> (string option \<times> (ovn_client option \<times> agent)) option" where
  "shutdown env cfg s =
     (case (if cf_PortForwardOnly cfg then Some (None, s)
            else (case fst s of
                    None \<Rightarrow> Some (None, s)
                  | Some cl \<Rightarrow> map_option (\<lambda>(label, (cl1, a1)). (label, (Some cl1, a1))) (drainStep env cfg cl (snd s)))) of
        None \<Rightarrow> None
      | Some (label, s1) \<Rightarrow>
          Some (label, (fst s1, if cf_CleanupOnShutdown cfg then cleanup (cycleEnv env) cfg s1 else snd s1)))"

subsection \<open>The rows a shutdown deletes\<close>

abbreviation readPorts :: "ovn_view \<Rightarrow> port_binding list result" where
  "readPorts v \<equiv> cachedList (v_PortBindings v) (v_sbSelect v) ''Port_Binding'' pbCheckColumns keyOfSBPortBinding decodeSBPortBinding"

abbreviation readChassis :: "ovn_view \<Rightarrow> chassis list result" where
  "readChassis v \<equiv> cachedList (v_Chassis v) (v_sbSelect v) ''Chassis'' chCheckColumns keyOfSBChassis decodeSBChassis"

abbreviation readLRPs :: "ovn_view \<Rightarrow> nb_lrp list result" where
  "readLRPs v \<equiv> cachedList (v_LRPs v) (v_nbSelect v) ''Logical_Router_Port'' lrpCheckColumns keyOfNBLogicalRouterPort
     decodeNBLogicalRouterPort"

abbreviation readRouters :: "ovn_view \<Rightarrow> nb_router list result" where
  "readRouters v \<equiv> cachedList (v_Routers v) (v_nbSelect v) ''Logical_Router'' lrCheckColumns keyOfNBLogicalRouter decodeNBLogicalRouter"

text \<open>
  A reading shows a router (\<open>rid\<close>) with a port \<open>n\<close> whose chassisredirect port is bound to this
  chassis.
\<close>

definition heldHere :: "config \<Rightarrow> string \<Rightarrow> ovn_view \<Rightarrow> string \<Rightarrow> string \<Rightarrow> bool" where
  "heldHere cfg me v rid n \<longleftrightarrow>
     (\<exists>pbs chs lrps routers. readPorts v = Inr pbs \<and> readChassis v = Inr chs \<and> readLRPs v = Inr lrps \<and>
        readRouters v = Inr routers \<and>
        (\<exists>pb\<in>set pbs. boundHere (fst (chassisIndex chs)) me (cf_GatewayPort cfg) pb \<and> crPortLRPName pb = n) \<and>
        (\<exists>lrp\<in>set lrps. lrp_Name lrp = n \<and> (\<exists>r\<in>set routers. lr_UUID r = rid \<and> lrp_UUID lrp \<in> set (lr_Ports r))))"

text \<open>The deletion of one managed route of the router, or of a MAC binding on the port.\<close>

definition rowsOf :: "string \<Rightarrow> string \<Rightarrow> nb_op list \<Rightarrow> bool" where
  "rowsOf rid n ops \<longleftrightarrow>
     (\<exists>(route :: nb_static_route) (router :: nb_router). ops = [RemoveStaticRoute (lr_UUID router) (sr_UUID route), DeleteRoute route] \<and>
        isManaged route \<and> sr_UUID route \<in> set (lr_StaticRoutes router) \<and> lr_UUID router = rid) \<or>
     (\<exists>b. ops = [DeleteMAC b] \<and> mb_LogicalPort b = n)"

definition uniqueLRPs :: "ovn_view \<Rightarrow> bool" where
  "uniqueLRPs v \<longleftrightarrow> (\<forall>lrps. readLRPs v = Inr lrps \<longrightarrow> distinct (map lrp_UUID lrps))"

lemma readsOk_Inr:
  assumes "readsOk v"
  obtains pbs chs lrps routers nats where "readPorts v = Inr pbs" "readChassis v = Inr chs" "readLRPs v = Inr lrps"
    "readRouters v = Inr routers"
    "cachedList (v_NATs v) (v_nbSelect v) ''NAT'' natCheckColumns keyOfNBNAT decodeNBNAT = Inr nats"
  using assms unfolding readsOk_def by (metis cachedList_isl isl_def sum.exhaust)

lemma Replace_routers: "st_LocalRouters (Replace st st') = st_LocalRouters st'"
  by (simp add: Replace_def)

lemma refreshed_held:
  assumes "readsOk v" and "uniqueLRPs v" and "lr \<in> set (st_LocalRouters (refreshState (clientConfig cfg) v seq st))"
  shows "heldHere cfg (LocalChassisName st) v (lri_RouterUUID lr) (lri_LRPName lr)"
proof -
  from assms(1) obtain pbs chs lrps routers nats where reads: "readPorts v = Inr pbs" "readChassis v = Inr chs"
    "readLRPs v = Inr lrps" "readRouters v = Inr routers"
    "cachedList (v_NATs v) (v_nbSelect v) ''NAT'' natCheckColumns keyOfNBNAT decodeNBNAT = Inr nats"
    by (rule readsOk_Inr)
  let ?me = "LocalChassisName st"
  have "lr \<in> set (st_LocalRouters (deriveState (clientConfig cfg) ?me seq pbs chs lrps routers nats))"
    using assms(3) by (simp add: refreshState_def reads Replace_routers)
  then obtain r lrp where r: "r \<in> set routers" "activeLRP (clientConfig cfg) ?me pbs chs lrps r = Some lrp"
    and lr: "lri_RouterUUID lr = lr_UUID r" "lri_LRPName lr = lrp_Name lrp"
    by (auto simp: deriveState_routers dest!: sym [of "Some _"] split: option.splits)
  have "distinct (map lrp_UUID lrps)" using assms(2) reads by (simp add: uniqueLRPs_def)
  from matchedLRP_SomeD [OF r(2) [unfolded activeLRP_def] this]
  have m: "lrp \<in> set lrps" "lrp_Name lrp \<in> fst ` set (localPorts (clientConfig cfg) ?me pbs chs)"
    "lrp_UUID lrp \<in> set (lr_Ports r)" by auto
  from localPorts_bound [OF m(2)] obtain pb where "pb \<in> set pbs" "crPortLRPName pb = lrp_Name lrp"
    "boundHere (fst (chassisIndex chs)) ?me (cf_GatewayPort cfg) pb" by (auto simp: clientConfig_def)
  then show ?thesis unfolding heldHere_def lr using reads m r(1) by blast
qed

lemma cleanupHost_ovn [simp]: "ag_ovn (cleanupHost env cfg a) = ag_ovn a"
  by (simp add: cleanupHost_def Let_def)

lemma cleanup_removes:
  assumes "\<And>lr. lr \<in> set (st_LocalRouters (cl_state cl)) \<Longrightarrow> P (lri_RouterUUID lr) (lri_LRPName lr)"
  shows "sends (\<lambda>ops. \<exists>rid n. P rid n \<and> rowsOf rid n ops) (ag_ovn a) (ag_ovn (cleanup env cfg (Some cl, a)))"
proof -
  have local: "localRemoval (cl_state cl) routes routers ops \<Longrightarrow> \<exists>rid n. P rid n \<and> rowsOf rid n ops" for routes routers ops
    unfolding localRemoval_def rowsOf_def using assms by blast
  have "sends (\<lambda>ops. \<exists>rid n. P rid n \<and> rowsOf rid n ops) h (snd (RemoveManagedNBEntries nb (cl_state cl) h))" for nb h
    by (rule sends_mono [OF shutdown_removal_is_local]) (use local in blast)
  then show ?thesis by (simp add: cleanup_def Let_def Snapshot_def)
qed

text \<open>
  C5: a shutdown that drains spares the routers that left. When the refresh after the drain could
  read its tables, every Northbound row the shutdown still deletes belongs to a router that, in that
  reading, has a port whose chassisredirect port is bound to this chassis: the default route and the
  MAC binding the chassis taking over depends on stay.
\<close>

theorem shutdown_spares_migrated_routers:
  fixes env cfg cl a
  assumes "\<not> cf_PortForwardOnly cfg" and "cf_DrainOnShutdown cfg"
    and "DrainGateways (ae_nb env) (re_drainExpired env) (drainConfig cfg) (st_LocalRouters (cl_state cl))
           (st_LocalChassisName (cl_state cl)) (ag_ovn a) = Some ((drained, e), h)"
    and "readsOk (re_refreshView env h)" and "uniqueLRPs (re_refreshView env h)"
  shows "\<exists>cl' a'. shutdown env cfg (Some cl, a) = Some (Some (drainOutcome e (re_drainExpired env h) drained), (Some cl', a')) \<and>
    sends (\<lambda>ops. \<exists>rid n. heldHere cfg (LocalChassisName (cl_state cl)) (re_refreshView env h) rid n \<and> rowsOf rid n ops)
      h (ag_ovn a')"
proof -
  let ?cl' = "refreshOnce cfg (re_refreshView env h) cl"
  let ?a1 = "a\<lparr>ag_ovn := h\<rparr>"
  let ?a' = "if cf_CleanupOnShutdown cfg then cleanup (cycleEnv env) cfg (Some ?cl', ?a1) else ?a1"
  have run: "shutdown env cfg (Some cl, a) = Some (Some (drainOutcome e (re_drainExpired env h) drained), (Some ?cl', ?a'))"
    using assms(1-3) by (simp add: shutdown_def drainStep_def Snapshot_def Let_def)
  have held: "heldHere cfg (LocalChassisName (cl_state cl)) (re_refreshView env h) (lri_RouterUUID lr) (lri_LRPName lr)"
    if "lr \<in> set (st_LocalRouters (cl_state ?cl'))" for lr
    using that refreshed_held [OF assms(4,5)] by (simp add: refreshOnce_def)
  have "sends (\<lambda>ops. \<exists>rid n. heldHere cfg (LocalChassisName (cl_state cl)) (re_refreshView env h) rid n \<and> rowsOf rid n ops)
      (ag_ovn ?a1) (ag_ovn ?a')"
    using cleanup_removes [of ?cl' "heldHere cfg (LocalChassisName (cl_state cl)) (re_refreshView env h)" ?a1 "cycleEnv env" cfg, OF held]
    by auto
  with run show ?thesis by auto
qed

text \<open>A node that hands its only router over and then cleans up.\<close>

definition demo_run_env :: run_env where
  "demo_run_env = agent_env.extend (demo_agent_env\<lparr>ae_nb := demo_drain\<rparr>)
     (run_env.fields (\<lambda>_. None) (\<lambda>_. False) (\<lambda>_. ovn_view.truncate demo_drain_view) (\<lambda>_. False) 0 True)"

definition demo_run_cfg :: config where
  "demo_run_cfg = zeroConfig\<lparr>cf_DrainOnShutdown := True, cf_CleanupOnShutdown := True, cf_DrainSettleDelay := 1\<rparr>"

definition demo_run_client :: ovn_client where
  "demo_run_client = demo_client (zero_state\<lparr>st_LocalChassisName := ''n1'', st_HasLocalRouters := True, st_LocalRouters := [demo_lr]\<rparr>)"

lemma demo_run_fields [simp]:
  "ae_nb demo_run_env = demo_drain" "re_drainExpired demo_run_env = (\<lambda>_. False)"
  "re_refreshView demo_run_env h = ovn_view.truncate demo_drain_view"
  "st_LocalRouters (cl_state demo_run_client) = [demo_lr]" "st_LocalChassisName (cl_state demo_run_client) = ''n1''"
  "ag_ovn demo_agent = []" "drainConfig demo_run_cfg = demo_drain_cfg" "cf_DrainOnShutdown demo_run_cfg"
  "\<not> cf_PortForwardOnly demo_run_cfg"
  by (simp_all add: demo_run_env_def agent_env.defs run_env.defs demo_run_client_def demo_client_def connectedClient_def drainSignals_def
      demo_agent_def drainConfig_def demo_run_cfg_def demo_drain_cfg_def zeroConfig_def)

lemma demo_refresh_view:
  "readsOk (ovn_view.truncate demo_drain_view)" "readPorts (ovn_view.truncate demo_drain_view) = Inr []"
  "uniqueLRPs (ovn_view.truncate demo_drain_view)"
  by (simp_all add: readsOk_def uniqueLRPs_def ovn_view.defs demo_drain_view_def OvnLead.demo_view_def cachedList_def authoritativeList_def
      serverKeySet_def directSelect_def)

lemma shutdown_spares_migrated_routers_witness:
  "\<exists>cl' a'. shutdown demo_run_env demo_run_cfg (Some demo_run_client, demo_agent) = Some (Some ''completed'', (Some cl', a')) \<and>
     sends (\<lambda>_. False) demo_drain_log (ag_ovn a')"
proof -
  have "DrainGateways (ae_nb demo_run_env) (re_drainExpired demo_run_env) (drainConfig demo_run_cfg)
      (st_LocalRouters (cl_state demo_run_client)) (st_LocalChassisName (cl_state demo_run_client)) (ag_ovn demo_agent)
      = Some ((True, None), demo_drain_log)"
    by (simp add: demo_drain_run)
  from shutdown_spares_migrated_routers [OF _ _ this] demo_refresh_view
  have "\<exists>cl' a'. shutdown demo_run_env demo_run_cfg (Some demo_run_client, demo_agent) =
        Some (Some (drainOutcome None False True), (Some cl', a')) \<and>
      sends (\<lambda>ops. \<exists>rid n. heldHere demo_run_cfg (LocalChassisName (cl_state demo_run_client))
        (ovn_view.truncate demo_drain_view) rid n \<and> rowsOf rid n ops) demo_drain_log (ag_ovn a')" by simp
  moreover have "\<not> heldHere cfg me (ovn_view.truncate demo_drain_view) rid n" for cfg me rid n
    by (simp add: heldHere_def demo_refresh_view)
  ultimately show ?thesis by (simp add: drainOutcome_def)
qed

subsection \<open>The retries end, and a refresh that fails\<close>

lemma connectWithRetry_stops:
  "connect n = None \<or> cancelled n \<Longrightarrow>
   connectWithRetry connect cancelled n = Some (if connect n = None then None else Some (Err ''context canceled''))"
  by (subst connectWithRetry.simps) auto

text \<open>
  Connecting returns at the first attempt that succeeds or whose wait is cancelled, whichever comes
  first, and reports which.
\<close>

lemma connectWithRetry_returns:
  assumes "connect m = None \<or> cancelled m" and "n \<le> m"
  shows "\<exists>r k. connectWithRetry connect cancelled n = Some r \<and> n \<le> k \<and> k \<le> m \<and>
    (\<forall>j. n \<le> j \<and> j < k \<longrightarrow> connect j \<noteq> None \<and> \<not> cancelled j) \<and>
    (r = None \<longleftrightarrow> connect k = None)"
  using assms(2)
proof (induction "m - n" arbitrary: n)
  case 0
  then have "n = m" using assms(1) by simp
  with assms(1) connectWithRetry_stops [of connect m cancelled] show ?case by auto
next
  case (Suc d)
  show ?case
  proof (cases "connect n = None \<or> cancelled n")
    case True
    with True connectWithRetry_stops [of connect n cancelled] Suc.prems show ?thesis by auto
  next
    case False
    from Suc have "n < m" "d = m - Suc n" by auto
    with Suc.hyps(1) [of "Suc n"] obtain r k where r: "connectWithRetry connect cancelled (Suc n) = Some r" and k: "Suc n \<le> k" "k \<le> m"
      and before: "\<forall>j. Suc n \<le> j \<and> j < k \<longrightarrow> connect j \<noteq> None \<and> \<not> cancelled j" and iff: "r = None \<longleftrightarrow> connect k = None" by auto
    have "connectWithRetry connect cancelled n = Some r" using False r by (subst connectWithRetry.simps) auto
    moreover have "\<forall>j. n \<le> j \<and> j < k \<longrightarrow> connect j \<noteq> None \<and> \<not> cancelled j"
      using before False by (metis Suc_leI le_neq_implies_less)
    ultimately show ?thesis using k iff by (intro exI [of _ r] exI [of _ k]) auto
  qed
qed

text \<open>
  When a read of the refresh after the drain fails, the clean-up works on the state from before the
  drain, which still lists the routers that left.
\<close>

lemma refreshOnce_fails:
  assumes "\<not> readsOk v"
  shows "cl_state (refreshOnce cfg v cl) = cl_state cl"
proof -
  have "isl (readPorts v) \<or> isl (readChassis v) \<or> isl (readLRPs v) \<or> isl (readRouters v) \<or>
      isl (cachedList (v_NATs v) (v_nbSelect v) ''NAT'' natCheckColumns keyOfNBNAT decodeNBNAT)"
    using assms by (simp add: readsOk_def)
  then show ?thesis by (auto simp: refreshOnce_def refreshState_def isl_def split: sum.split)
qed

end
