(* ===== verification/PortForwardOnly.thy ===== *)
theory PortForwardOnly
  imports Lifecycle
begin

section \<open>A node without OVN\<close>

text \<open>
  In port-forward-only mode the agent serves the configured virtual IPs and nothing else. This theory
  follows every operation such a node runs, from its start to its shutdown, through the routing
  manager, and collects the calls they can make.
\<close>

subsection \<open>The calls of such a node\<close>

definition pfCall :: "host_call \<Rightarrow> bool" where
  "pfCall c =
     (case c of CVtysh _ \<Rightarrow> True | CLinkByName _ \<Rightarrow> True | CNet _ \<Rightarrow> True | CAddrList _ \<Rightarrow> True | CPolRuleList \<Rightarrow> True
      | CGwRouteList _ _ _ \<Rightarrow> True | CNft _ _ \<Rightarrow> True | _ \<Rightarrow> False)"

lemma pfCall_simps [simp]:
  "pfCall (CVtysh args)" "pfCall (CLinkByName n)" "pfCall (CNet x)" "pfCall (CAddrList i)" "pfCall CPolRuleList"
  "pfCall (CGwRouteList oif t pr)" "pfCall (CNft args s)"
  by (simp_all add: pfCall_def)

lemma makes_calls:
  "makes pfCall (doNet env x)" "makes pfCall (linkByName env n)" "makes pfCall (addrList env i)"
  "makes pfCall (polRuleList env)" "makes pfCall (gwRouteList env oif t pr)" "makes pfCall (nftCmd env args s)"
  "makes pfCall (runVtysh env args)"
  by (simp_all add: makes_def net_calls nftCmd_def runVtysh_def Let_def split_beta)

lemma onlyCalls_snd: "makes P f \<Longrightarrow> onlyCalls P om (snd (f om))"
  by (simp add: makes_def)

lemma makes_attempt: "makes P f \<Longrightarrow> makes P (attempt f)"
  by (simp add: makes_def attempt_def)

lemmas makes_intros = makes_calls makes_andThen makes_conv makes_attempt makes_ret

lemma makes_removeRules: "onlyCalls pfCall om (removeRules env p rs om)"
  by (induction rs arbitrary: om) (auto intro: onlyCalls_trans [OF onlyCalls_snd [OF makes_calls(1)]])

lemma makes_sweepRules: "onlyCalls pfCall om (sweepRules env p om)"
  using onlyCalls_snd [OF makes_calls(4), of om env]
  by (auto simp: sweepRules_def split: sum.splits prod.splits intro: onlyCalls_trans [OF _ makes_removeRules])

lemma makes_delRoutes: "onlyCalls pfCall om (delRoutes env rs om)"
  by (induction rs arbitrary: om) (auto intro: onlyCalls_trans [OF onlyCalls_snd [OF makes_calls(1)]])

lemma makes_getVRFTableID: "makes pfCall (getVRFTableID env cfg)"
  unfolding getVRFTableID_def by (intro makes_intros) (simp split: link_kind.split)

lemma makes_ingressLoop: "onlyCalls pfCall om (snd (ingressLoop env cfg rs present om))"
  by (induction rs arbitrary: present om) (auto intro: onlyCalls_trans [OF onlyCalls_snd [OF makes_calls(1)]])

lemma makes_ingress: "makes pfCall (ensureVethIngressRule env cfg)"
proof -
  have "makes pfCall (mustUnless q e (doNet env x))" for q e x by (intro makes_intros)
  note mu = onlyCalls_trans [OF makes_ingressLoop onlyCalls_snd [OF this]]
  have "makes pfCall (\<lambda>om. let (present, om1) = ingressLoop env cfg rules False om
      in if present then ret () om1 else mustUnless isFileExists e (doNet env x) om1)" for rules e x
    by (auto simp: makes_def split_beta Let_def ret_def makes_ingressLoop intro: mu)
  then show ?thesis unfolding ensureVethIngressRule_def by (intro makes_intros)
qed

lemma makes_addRoutes: "makes pfCall (addRoutes env route current ds)"
  by (induction ds) (auto intro!: makes_intros)

lemma makes_addRules: "makes pfCall (addRules env cfg current ds)"
  by (induction ds) (auto intro!: makes_intros)

lemma makes_delStaleRoutes: "onlyCalls pfCall om (delStaleRoutes env route desired keys om)"
  by (induction keys arbitrary: om)
    (auto split: option.splits intro: onlyCalls_trans [OF onlyCalls_snd [OF makes_calls(1)]])

lemma makes_state: "(\<And>om. onlyCalls P om (g om)) \<Longrightarrow> makes P (\<lambda>s. (x, g s))"
  by (simp add: makes_def)

lemma makes_syncLeakNetworks: "makes pfCall (syncLeakNetworks env cfg order want route curNets)"
proof -
  have sweep: "onlyCalls pfCall om (sweepRules env p (delStaleRoutes env route want keys om))" for om p keys
    by (rule onlyCalls_trans [OF makes_delStaleRoutes makes_sweepRules])
  have tail: "makes pfCall (andThen (addRoutes env route curNets ds) (\<lambda>_. andThen (addRules env cfg curRules ds') (\<lambda>_ s.
      (Inr (), sweepRules env p (delStaleRoutes env route want keys s)))))" for ds ds' curRules p keys
    by (intro makes_andThen makes_addRoutes makes_addRules makes_state sweep)
  show ?thesis unfolding makes_def
  proof
    fix om :: "'a route_manager_scheme"
    obtain rules om1 where list: "(case polRuleList env om of (Inl _, s) \<Rightarrow> ([], s) | (Inr rs, s) \<Rightarrow> (rs, s)) = (rules, om1)"
      by fastforce
    then have "om1 = snd (polRuleList env om)" by (auto split: prod.splits sum.splits)
    then have "onlyCalls pfCall om om1" using onlyCalls_snd [OF makes_calls(4)] by simp
    then show "onlyCalls pfCall om (snd (syncLeakNetworks env cfg order want route curNets om))"
      using onlyCalls_trans [OF _ onlyCalls_snd [OF tail]] by (simp add: syncLeakNetworks_def list Let_def)
  qed
qed

lemma makes_ReconcileVethLeakNetworks: "makes pfCall (ReconcileVethLeakNetworks env cfg order nets)"
  unfolding ReconcileVethLeakNetworks_def Let_def
  by (auto intro!: makes_intros makes_ingress makes_getVRFTableID makes_syncLeakNetworks)

lemma makes_createVeth: "makes pfCall (createVeth env)"
proof -
  have op: "makes pfCall (andThen (must e (doNet env x)) (\<lambda>_. find_or e' (linkByName env n)))" for e x e' n
    by (intro makes_intros)
  show ?thesis unfolding makes_def
  proof
    fix om :: "'a route_manager_scheme"
    show "onlyCalls pfCall om (snd (createVeth env om))"
      using onlyCalls_snd [OF makes_calls(2), of om env vethDefaultName]
      by (auto simp: createVeth_def split: sum.splits prod.splits intro: onlyCalls_trans [OF _ onlyCalls_snd [OF op]])
  qed
qed

lemma makes_SetupVethLeak: "makes pfCall (\<lambda>om. SetupVethLeak env cfg (order (rm_hist om)) om)"
proof -
  have "makes pfCall (SetupVethLeak env cfg o1)" for o1
    unfolding SetupVethLeak_def Let_def
    by (auto intro!: makes_intros makes_createVeth makes_ingress makes_ReconcileVethLeakNetworks)
  note op = onlyCalls_snd [OF this]
  show ?thesis unfolding makes_def by (intro allI op)
qed

lemma makes_RefreshVethNexthop: "makes pfCall (RefreshVethNexthop env cfg order nets)"
  unfolding RefreshVethNexthop_def Let_def
  by (auto intro!: makes_intros makes_ReconcileVethLeakNetworks split: option.splits)

lemma makes_VRFDefaultRoutePresent: "makes pfCall (VRFDefaultRoutePresent env cfg)"
  unfolding VRFDefaultRoutePresent_def by (auto intro!: makes_intros makes_getVRFTableID)

lemma makes_sweepVRFRoutes: "onlyCalls pfCall om (sweepVRFRoutes env cfg om)"
proof -
  obtain l om1 where l: "linkByName env vethProviderName om = (l, om1)" by fastforce
  obtain t om2 where t: "getVRFTableID env cfg om1 = (t, om2)" by fastforce
  have 1: "onlyCalls pfCall om om1" using makesD [OF makes_calls(2) l] .
  have 2: "onlyCalls pfCall om om2" using onlyCalls_trans [OF 1 makesD [OF makes_getVRFTableID t]] .
  have 3: "onlyCalls pfCall om (snd (gwRouteList env i v p om2))" for i v p
    using onlyCalls_trans [OF 2 onlyCalls_snd [OF makes_calls(5)]] .
  show ?thesis
  proof (cases l)
    case (Inr link)
    then show ?thesis
    proof (cases t)
      case (Inr v)
      show ?thesis using 3 [of "Some (ln_Index link)" v None]
        by (auto simp: sweepVRFRoutes_def l \<open>l = Inr link\<close> t Inr split: sum.splits prod.splits
            intro: onlyCalls_trans [OF _ makes_delRoutes])
    qed (use l t 2 Inr in \<open>simp add: sweepVRFRoutes_def\<close>)
  qed (use l 1 in \<open>simp add: sweepVRFRoutes_def\<close>)
qed

lemma makes_TeardownVethLeak: "makes pfCall (TeardownVethLeak env cfg)"
proof -
  have op: "makes pfCall (must e (doNet env x))" for e x by (intro makes_intros)
  show ?thesis unfolding makes_def
  proof
    fix om :: "'a route_manager_scheme"
    let ?o2 = "removeVethIngressRules env
      (sweepRules env (\<lambda>r. po_Table r = cf_VethLeakTableID cfg \<and> po_Priority r = cf_VethLeakRulePriority cfg) om)"
    have 2: "onlyCalls pfCall om ?o2" unfolding removeVethIngressRules_def
      by (rule onlyCalls_trans [OF makes_sweepRules makes_sweepRules])
    let ?o3 = "case linkByName env vethDefaultName ?o2 of (Inl _, s) \<Rightarrow> s
      | (Inr vd, s) \<Rightarrow> snd (doNet env (GwRouteDel (leakDefault cfg (ln_Index vd) (ParseIP (cf_VethProviderIP cfg)))) s)"
    have "onlyCalls pfCall om ?o3" using onlyCalls_trans [OF 2 onlyCalls_snd [OF makes_calls(2)], of env vethDefaultName]
      by (auto split: sum.splits prod.splits intro: onlyCalls_trans [OF _ onlyCalls_snd [OF makes_calls(1)]])
    then have 4: "onlyCalls pfCall om (sweepVRFRoutes env cfg ?o3)" by (rule onlyCalls_trans [OF _ makes_sweepVRFRoutes])
    then show "onlyCalls pfCall om (snd (TeardownVethLeak env cfg om))"
      using onlyCalls_trans [OF 4 onlyCalls_snd [OF makes_calls(2)], of env vethDefaultName]
      by (auto simp: TeardownVethLeak_def ret_def Let_def split: sum.splits prod.splits
          intro: onlyCalls_trans [OF _ onlyCalls_snd [OF op]])
  qed
qed

text \<open>The port-forward half.\<close>

lemma makes_withholdVIPs: "makes pfCall (withholdVIPs env idx vs)"
  by (induction vs) (auto intro!: makes_intros)

lemma makes_addVIPs: "makes pfCall (addVIPs env idx present vs)"
  by (induction vs) (auto intro!: makes_intros)

lemma makes_reconcilePortForwardVIPs: "makes pfCall (reconcilePortForwardVIPs env cfg ann)"
  unfolding reconcilePortForwardVIPs_def by (auto intro!: makes_intros makes_withholdVIPs makes_addVIPs)

lemma makes_nft: "onlyCalls pfCall om om' \<Longrightarrow> nftCmd env args s om' = (r, om'') \<Longrightarrow> onlyCalls pfCall om om''"
  using onlyCalls_trans makesD [OF makes_calls(6)] by blast

lemma makes_applyNftRuleset: "makes pfCall (applyNftRuleset env cfg nets snats)"
  unfolding makes_def
proof
  fix om :: "'a route_manager_scheme"
  obtain out e om1 where 1: "nftCmd env [''list'', ''table'', ''ip'', nftTableName] '''' om = ((out, e), om1)" by (metis prod.exhaust)
  let ?s = "(if e = None then ''delete table ip '' @ nftTableName @ [CHR 0x0A] else []) @
      buildNftRuleset (cf_PortForwards cfg) nets snats (cf_PortForwardCTZone cfg)"
  obtain out2 e2 om2 where 2: "nftCmd env [''-f'', ''-''] ?s om1 = ((out2, e2), om2)" by (metis prod.exhaust)
  from makes_nft [OF makes_nft [OF onlyCalls_refl 1] 2]
  show "onlyCalls pfCall om (snd (applyNftRuleset env cfg nets snats om))"
    using 2 by (simp add: applyNftRuleset_def Let_def 1)
qed

lemma makes_writeAll: "makes pfCall (writeAll env msg paths)"
  by (induction paths) (auto intro!: makes_intros)

lemma makes_ensureVethForwarding: "makes pfCall (ensureVethForwarding env cfg)"
  unfolding ensureVethForwarding_def by (auto intro!: makes_intros makes_writeAll simp del: writeAll.simps)

lemma makes_ensureDNATRouting: "makes pfCall (ensureDNATRouting env cfg)"
  unfolding ensureDNATRouting_def by (intro makes_intros)

lemma makes_SetupPortForward: "makes pfCall (SetupPortForward env cfg nft)"
  unfolding SetupPortForward_def
  by (auto intro!: makes_intros makes_reconcilePortForwardVIPs makes_applyNftRuleset makes_ensureVethForwarding makes_ensureDNATRouting)

lemma makes_ReconcilePortForward: "makes pfCall (ReconcilePortForward env cfg nets snats ann)"
  unfolding ReconcilePortForward_def
  by (auto intro!: makes_intros makes_reconcilePortForwardVIPs makes_applyNftRuleset makes_ensureDNATRouting)

lemma makes_deleteNftTable: "makes pfCall (deleteNftTable env)"
  unfolding makes_def
proof
  fix om :: "'a route_manager_scheme"
  obtain r om1 where 1: "nftTableExists env om = (r, om1)" by fastforce
  then have "onlyCalls pfCall om om1"
    by (auto simp: nftTableExists_def split: prod.splits option.splits intro: makes_nft [OF onlyCalls_refl])
  then show "onlyCalls pfCall om (snd (deleteNftTable env om))"
    by (auto simp: deleteNftTable_def 1 split: sum.splits bool.splits prod.splits option.splits intro: makes_nft)
qed

lemma makes_cleanupDNATRouting: "onlyCalls pfCall om (cleanupDNATRouting env cfg om)"
proof -
  let ?o2 = "snd (doNet env (PolRuleDel (replyRule cfg)) (snd (doNet env (PolRuleDel fwdRule) om)))"
  have "onlyCalls pfCall om ?o2" by (rule onlyCalls_trans [OF onlyCalls_snd onlyCalls_snd]) (rule makes_calls)+
  from onlyCalls_trans [OF this onlyCalls_snd [OF makes_calls(5)], of env None "cf_PortForwardTableID cfg" None]
  show ?thesis
    by (auto simp: cleanupDNATRouting_def Let_def split: sum.splits prod.splits intro: onlyCalls_trans [OF _ makes_delRoutes])
qed

lemma makes_dropVIPs: "onlyCalls pfCall om (snd (dropVIPs env idx vs e om))"
proof (induction vs arbitrary: e om)
  case (Cons v vs)
  show ?case using onlyCalls_snd [OF makes_calls(1), of om env "AddrDel idx (vipNet v)"]
    by (auto split: prod.splits option.splits intro: onlyCalls_trans [OF _ Cons])
qed simp

lemma makes_TeardownPortForward: "makes pfCall (TeardownPortForward env cfg)"
  unfolding makes_def
proof
  fix om :: "'a route_manager_scheme"
  obtain r om1 where 1: "deleteNftTable env om = (r, om1)" by fastforce
  have "onlyCalls pfCall om (cleanupDNATRouting env cfg om1)"
    by (rule onlyCalls_trans [OF makesD [OF makes_deleteNftTable 1] makes_cleanupDNATRouting])
  from onlyCalls_trans [OF this onlyCalls_snd [OF makes_calls(2)], of env "cf_PortForwardDev cfg"]
  show "onlyCalls pfCall om (snd (TeardownPortForward env cfg om))"
    by (auto simp: TeardownPortForward_def 1 Let_def split: sum.splits prod.splits intro: onlyCalls_trans [OF _ makes_dropVIPs])
qed

text \<open>The routes and the prefix-list, which reach FRR only.\<close>

lemma onlyCalls_cache [simp]: "onlyCalls P (clearCache om) om' \<longleftrightarrow> onlyCalls P om om'" "onlyCalls P om (clearCache om') \<longleftrightarrow> onlyCalls P om om'"
  by (simp_all add: onlyCalls_def clearCache_def)

lemma makes_vtysh: "onlyCalls pfCall om om' \<Longrightarrow> runVtysh env args om' = (r, om'') \<Longrightarrow> onlyCalls pfCall om om''"
  using onlyCalls_trans makesD [OF makes_calls(7)] by blast

lemmas makes_vtysh0 = makes_vtysh [OF onlyCalls_refl]

lemma makes_addChunks: "onlyCalls pfCall om (snd (addChunks env cfg chs om))"
proof (induction chs arbitrary: om)
  case (Cons ch chs)
  obtain r om1 where 1: "runVtysh env (addArgs cfg ch) om = (r, om1)" by fastforce
  from onlyCalls_trans [OF makes_vtysh0 [OF 1] Cons] show ?case by (simp add: 1 Let_def split_beta)
qed simp

lemma makes_AddFRRRoutes: "makes pfCall (AddFRRRoutes env cfg ips)"
  using makes_addChunks [of "clearCache _"] by (auto simp: makes_def AddFRRRoutes_def Let_def split_beta)

lemma makes_delChunks: "onlyCalls pfCall om (snd (delChunks env cfg chs om))"
proof (induction chs arbitrary: om)
  case (Cons ch chs)
  obtain out e om1 where 1: "runVtysh env (delArgs cfg ch) om = ((out, e), om1)" by (metis prod.exhaust)
  from onlyCalls_trans [OF makes_vtysh0 [OF 1] Cons] makes_vtysh0 [OF 1] show ?case by (simp add: 1 split: option.split)
qed simp

lemma makes_DelFRRRoutes: "makes pfCall (DelFRRRoutes env cfg ips)"
  using makes_delChunks [of "clearCache _"] by (auto simp: makes_def DelFRRRoutes_def split: option.splits)

lemma makes_RefreshBGP: "makes pfCall (RefreshBGP env cfg)"
  by (auto simp: makes_def RefreshBGP_def Let_def split: prod.splits intro: makes_vtysh0)

lemma makes_staticFRRRoutes: "makes pfCall (staticFRRRoutes env cfg)"
  unfolding makes_def
proof
  fix om :: "'a route_manager_scheme"
  obtain out e om1 where 1: "runVtysh env (showStaticArgs cfg) om = ((out, e), om1)" by (metis prod.exhaust)
  from makes_vtysh [OF onlyCalls_refl 1] show "onlyCalls pfCall om (snd (staticFRRRoutes env cfg om))"
    by (auto simp: staticFRRRoutes_def 1 Let_def onlyCalls_def split: option.splits)
qed

lemma makes_ListFRRRoutes: "makes pfCall (ListFRRRoutes env cfg)"
  by (auto simp: makes_def ListFRRRoutes_def split: prod.splits sum.splits intro: makesD [OF makes_staticFRRRoutes])

lemma makes_InactiveFRRRoutes: "makes pfCall (InactiveFRRRoutes env cfg ips)"
  by (auto simp: makes_def InactiveFRRRoutes_def split: prod.splits sum.splits intro: makesD [OF makes_staticFRRRoutes])

lemma makes_VethNexthopResolvable: "makes pfCall (VethNexthopResolvable env cfg)"
  by (auto simp: makes_def VethNexthopResolvable_def Let_def split: prod.splits option.splits intro: makes_vtysh0)

lemma makes_applyLines: "makes pfCall (applyLines env msg ls)"
  unfolding makes_def
proof
  fix om :: "'a route_manager_scheme"
  show "onlyCalls pfCall om (snd (applyLines env msg ls om))"
  proof (induction ls arbitrary: om)
    case (Cons l ls)
    obtain out e om1 where 1: "runVtysh env (confLine l) om = ((out, e), om1)" by (metis prod.exhaust)
    from onlyCalls_trans [OF makes_vtysh0 [OF 1] Cons] makes_vtysh0 [OF 1] show ?case by (simp add: 1 split: option.split)
  qed simp
qed

lemma makes_repairBGPD: "makes pfCall (repairBGPD env cfg order current ks)"
proof -
  have read: "makes pfCall (listBGPDPrefixListEntries env cfg order)"
    by (auto simp: makes_def listBGPDPrefixListEntries_def split: prod.splits option.splits sum.splits intro: makes_vtysh0)
  show ?thesis unfolding makes_def
  proof
    fix om :: "'a route_manager_scheme"
    obtain r om1 where 1: "listBGPDPrefixListEntries env cfg order om = (r, om1)" by fastforce
    from onlyCalls_trans [OF makesD [OF read 1] onlyCalls_snd [OF makes_applyLines]] makesD [OF read 1]
    show "onlyCalls pfCall om (snd (repairBGPD env cfg order current ks om))"
      by (simp add: repairBGPD_def 1 split: option.split)
  qed
qed

lemma makes_ReconcileFRRPrefixList: "makes pfCall (ReconcileFRRPrefixList env cfg order keyOrder nets vips)"
proof -
  have "makes pfCall (ListFRRPrefixListEntries env cfg order)"
    by (auto simp: makes_def ListFRRPrefixListEntries_def split: prod.splits option.splits intro: makes_vtysh0)
  then show ?thesis unfolding ReconcileFRRPrefixList_def Let_def
    by (auto intro!: makes_intros makes_applyLines makes_repairBGPD)
qed

text \<open>In port-forward-only mode no kernel route is ever wanted.\<close>

lemma pf_needsKernel: "cf_PortForwardOnly cfg \<Longrightarrow> needsKernel cfg ipDev skip current = (\<lambda>_. False)"
  by (simp add: needsKernel_def fun_eq_iff)

lemma addMissing_noKernel: "addMissing env cfg ipDev (\<lambda>_. False) nF ips om = (True, filter nF ips, om)"
  by (induction ips) simp_all

lemma makes_ensureRoutes:
  assumes "cf_PortForwardOnly cfg"
  shows "makes pfCall (ensureRoutes env cfg ips statics ipDev skip)"
  unfolding makes_def
proof
  fix om :: "'a route_manager_scheme"
  obtain frr om1 where 1: "ListFRRRoutes env cfg om = (frr, om1)" by fastforce
  let ?frr = "case frr of Inl _ \<Rightarrow> [] | Inr ips \<Rightarrow> ips"
  have cur: "listCurrent env cfg om = ([], ?frr, om1)" using assms by (simp add: listCurrent_def 1)
  define add where "add = filter (needsFRR statics ?frr) ips"
  define del where "del = staleFRR ips statics [] ?frr"
  let ?om3 = "if add = [] then om1 else snd (AddFRRRoutes env cfg add om1)"
  let ?om4 = "if del = [] then ?om3 else snd (DelFRRRoutes env cfg del ?om3)"
  have c1: "onlyCalls pfCall om om1" using makesD [OF makes_ListFRRRoutes 1] .
  have c3: "onlyCalls pfCall om ?om3" using onlyCalls_trans [OF c1 onlyCalls_snd [OF makes_AddFRRRoutes]] c1 by simp
  have c4: "onlyCalls pfCall om ?om4" using onlyCalls_trans [OF c3 onlyCalls_snd [OF makes_DelFRRRoutes]] c3 by auto
  have c5: "onlyCalls pfCall om (snd (RefreshBGP env cfg ?om4))" using onlyCalls_trans [OF c4 onlyCalls_snd [OF makes_RefreshBGP]] .
  have "snd (ensureRoutes env cfg ips statics ipDev skip om) = (if add = [] \<and> del = [] then ?om4 else snd (RefreshBGP env cfg ?om4))"
    by (simp add: ensureRoutes_def cur pf_needsKernel [OF assms] addMissing_noKernel Let_def staleKernel_def split_beta
        add_def [symmetric] del_def [symmetric])
  with c1 c5 show "onlyCalls pfCall om (snd (ensureRoutes env cfg ips statics ipDev skip om))" by simp
qed

lemma makes_removeAllRoutes:
  assumes "cf_PortForwardOnly cfg"
  shows "onlyCalls pfCall om (removeAllRoutes env cfg om)"
proof -
  obtain frr om1 where 1: "ListFRRRoutes env cfg om = (frr, om1)" by fastforce
  let ?del = "case frr of Inl _ \<Rightarrow> [] | Inr ips \<Rightarrow> ips"
  have c1: "onlyCalls pfCall om om1" using makesD [OF makes_ListFRRRoutes 1] .
  have c2: "onlyCalls pfCall om (snd (DelFRRRoutes env cfg ?del om1))"
    using onlyCalls_trans [OF c1 onlyCalls_snd [OF makes_DelFRRRoutes]] .
  from onlyCalls_trans [OF c2 onlyCalls_snd [OF makes_RefreshBGP]] c1 assms show ?thesis
    by (auto simp: removeAllRoutes_def 1 Let_def)
qed

lemma makes_verifyListing: "cf_PortForwardOnly cfg \<Longrightarrow> makes pfCall (verifyListing env cfg)"
  by (auto simp: makes_def verifyListing_def split: prod.splits sum.splits intro: makesD [OF makes_ListFRRRoutes])

lemma makes_reAddMissing: "cf_PortForwardOnly cfg \<Longrightarrow> makes pfCall (reAddMissing env cfg ips statics ipDev skip frr krs)"
  using onlyCalls_snd [OF makes_AddFRRRoutes]
  by (auto simp: makes_def reAddMissing_def pf_needsKernel addMissing_noKernel Let_def)

subsection \<open>The agent\<close>

text \<open>The databases untouched, and only such calls made.\<close>

definition offOVN :: "agent \<Rightarrow> agent \<Rightarrow> bool" where
  "offOVN a b \<longleftrightarrow> ag_ovn b = ag_ovn a \<and> agentCalls pfCall a b"

lemma offOVN_trans: "offOVN a b \<Longrightarrow> offOVN b c \<Longrightarrow> offOVN a c"
  by (auto simp: offOVN_def intro: agentCalls_trans)

lemma offOVN_same: "ag_ovn b = ag_ovn a \<Longrightarrow> rm_hist (ag_routing b) = rm_hist (ag_routing a) \<Longrightarrow> offOVN a b"
  by (simp add: offOVN_def agentCalls_def onlyCalls_same)

lemma offOVN_refl [simp]: "offOVN a a"
  by (simp add: offOVN_same)

lemma offOVN_routing: "makes pfCall f \<Longrightarrow> offOVN a (snd (routing f a))"
  by (simp add: offOVN_def agentCalls_routing)

lemma offOVN_flapNexthop: "offOVN a (flapNexthop env cfg a)"
proof -
  note op = onlyCalls_snd [OF makes_RefreshVethNexthop]
  have run: "makes pfCall (\<lambda>om :: ovs_manager. RefreshVethNexthop (ae_host env) cfg (ae_netOrder env (rm_hist om)) nets om)" for nets
    unfolding makes_def by (intro allI op)
  let ?b = "a\<lparr>ag_readings := ag_readings a + 1, ag_lastNexthopRepair := Some (ae_clock env (ag_readings a))\<rparr>"
  have "offOVN a ?b" by (rule offOVN_same) simp_all
  from offOVN_trans [OF this offOVN_routing [OF run]] show ?thesis
    by (simp add: flapNexthop_def clockNow_def Let_def)
qed

lemma offOVN_repair: "offOVN a (repairUnresolvableNexthop env cfg a)"
proof -
  obtain r a1 where 1: "routing (VethNexthopResolvable (ae_host env) cfg) a = (r, a1)" by fastforce
  have a1: "offOVN a a1" using offOVN_routing [OF makes_VethNexthopResolvable, of a "ae_host env" cfg] by (simp add: 1)
  have tick: "offOVN a (a1\<lparr>ag_readings := n\<rparr>)" for n
    by (rule offOVN_trans [OF a1 offOVN_same]) simp_all
  have flap: "offOVN a (flapNexthop env cfg b)" if "offOVN a b" for b
    using offOVN_trans [OF that offOVN_flapNexthop] .
  show ?thesis using a1 tick flap [OF a1] flap [OF tick]
    by (auto simp: repairUnresolvableNexthop_def 1 clockNow_def Let_def split: sum.splits bool.splits option.splits)
qed

lemma offOVN_streak: "offOVN a (setReAddStreak n a)"
  by (rule offOVN_same) (simp_all add: setReAddStreak_def)

lemma offOVN_verifyRoutes:
  assumes "cf_PortForwardOnly cfg"
  shows "offOVN a (snd (verifyRoutes env cfg ips statics ipDev skip a))"
proof -
  obtain l a1 where 1: "routing (verifyListing (ae_host env) cfg) a = (l, a1)" by fastforce
  have a1: "offOVN a a1" using offOVN_routing [OF makes_verifyListing [OF assms], of a "ae_host env"] by (simp add: 1)
  have noted: "offOVN a (noteReAdds env cfg n b)" if "offOVN a b" for n b
    using offOVN_trans [OF offOVN_trans [OF that offOVN_streak] offOVN_repair] offOVN_trans [OF that offOVN_streak]
    by (simp add: noteReAdds_def Let_def)
  have "offOVN a (snd (routing (reAddMissing (ae_host env) cfg ips statics ipDev skip frr krs) a1))" for frr krs
    using offOVN_trans [OF a1 offOVN_routing [OF makes_reAddMissing [OF assms]]] .
  from noted [OF this] a1 show ?thesis by (auto simp: verifyRoutes_def 1 Let_def split_beta split: option.split)
qed

lemma offOVN_cycle:
  assumes "cf_PortForwardOnly cfg" and "\<not> st_HasLocalRouters st"
  shows "offOVN a (snd (cycleFrom env cfg startup st observed a))"
proof -
  let ?d = "computeDesiredState st (cf_PortForwards cfg) (vipRoutesAnnounceable cfg st)"
  let ?a3 = "beforeAnnounce env cfg st ?d a"
  have "offOVN a (beginCycle cfg st ?d a)" by (rule offOVN_same) simp_all
  from offOVN_trans [OF this offOVN_routing [OF makes_ReconcilePortForward]] have a3: "offOVN a ?a3"
    using assms(1) by (simp add: beforeAnnounce_def reconcilePlanes_def Let_def)
  obtain ipDev skip where dev: "routeDevices cfg ?d (ag_routing ?a3) = (ipDev, skip)" by fastforce
  obtain sync ok a4 where sync: "syncRoutes env cfg st ?d ipDev skip ?a3 = ((sync, ok), a4)" by (metis prod.exhaust)
  have "offOVN ?a3 (snd (syncRoutes env cfg st ?d ipDev skip ?a3))"
    using makes_removeAllRoutes [OF assms(1), of "ag_routing ?a3" "ae_host env"] offOVN_routing [OF makes_ensureRoutes [OF assms(1)]]
    by (simp add: syncRoutes_def Let_def split_beta) (simp add: offOVN_def agentCalls_def)
  with a3 have a4: "offOVN a a4" using sync offOVN_trans by simp
  let ?b3 = "verifyStep env cfg ?d ipDev skip sync a4"
  have b3: "offOVN a ?b3" using offOVN_trans [OF a4 offOVN_verifyRoutes [OF assms(1)]] offOVN_trans [OF a4 offOVN_streak]
    by (simp add: verifyStep_def)
  let ?b4 = "snd (checkFRRRouteActivity env cfg (de_FRRStaticIPs ?d) ?b3)"
  have b4: "offOVN a ?b4" unfolding checkFRRRouteActivity_def
    by (rule offOVN_trans [OF b3 offOVN_routing [OF makes_InactiveFRRRoutes]])
  have "offOVN b (snd (checkDefaultRoute env cfg st ?d b))" for b
    by (rule offOVN_trans [OF offOVN_routing [OF makes_VRFDefaultRoutePresent, of b "ae_host env" cfg] offOVN_same])
      (simp_all add: checkDefaultRoute_def Let_def split_beta)
  from offOVN_trans [OF b4 this] show ?thesis
    using assms by (simp add: cycleFrom_def Let_def dev sync afterAnnounce_def markTakeover_def stabilise_def staleStep_def)
qed

lemma offOVN_reconcile:
  assumes "cf_PortForwardOnly cfg"
  shows "\<exists>res a'. reconcile env cfg startup (None, a) = (res, (None, a')) \<and> offOVN a a'"
  using offOVN_cycle [OF assms, of zero_state a env startup None]
  by (simp add: reconcile_def readOVN_def zero_state_def Let_def split_beta)

lemma offOVN_setUp:
  assumes "cf_PortForwardOnly cfg"
  shows "offOVN a (snd (routing (setUpHost env cfg) a))"
proof -
  have "makes pfCall (setUpHost env cfg)"
    using assms makes_SetupVethLeak [of "ae_host env" cfg "ae_netOrder env"]
    by (auto simp: setUpHost_def intro!: makes_intros makes_SetupPortForward)
  then show ?thesis by (rule offOVN_routing)
qed

lemma offOVN_cleanup:
  assumes "cf_PortForwardOnly cfg"
  shows "offOVN a (cleanup env cfg (client, a))"
proof -
  let ?a1 = "a\<lparr>ag_routing := removeAllRoutes (ae_host env) cfg (clearCache (ag_routing a))\<rparr>"
  have "onlyCalls pfCall (clearCache (ag_routing a)) (removeAllRoutes (ae_host env) cfg (clearCache (ag_routing a)))"
    by (rule makes_removeAllRoutes [OF assms])
  then have a1: "offOVN a ?a1" by (simp add: offOVN_def agentCalls_def)
  note op = onlyCalls_snd [OF makes_ReconcileFRRPrefixList]
  have "makes pfCall (\<lambda>om :: ovs_manager. ReconcileFRRPrefixList (ae_host env) cfg (ae_docOrder env (rm_hist om))
      (ae_keyOrder env (rm_hist om)) [] [] om)" unfolding makes_def by (intro allI op)
  from offOVN_trans [OF a1 offOVN_routing [OF this]] have a2: "offOVN a (reconcilePrefixList env cfg [] [] ?a1)"
    by (simp add: reconcilePrefixList_def)
  from offOVN_trans [OF offOVN_trans [OF a2 offOVN_routing [OF makes_TeardownPortForward]] offOVN_routing [OF makes_TeardownVethLeak]]
  show ?thesis using assms by (simp add: cleanup_def cleanupHost_def Let_def)
qed

text \<open>
  C6: in port-forward-only mode the agent never reaches OVN: its start-up, every reconcile cycle and
  its shutdown return, leave the databases as they were and without a client, and call nothing on the
  host but \<open>vtysh\<close>, \<open>nft\<close>, addresses, policy rules and the routes with a gateway. No OVS command is
  run, and no kernel route or rule of a floating address is read, added or removed.
\<close>

theorem port_forward_only_never_reaches_ovn:
  assumes "cf_PortForwardOnly cfg"
  shows "(\<exists>e a'. startAgent env cfg cl a = Some (e, (None, a')) \<and> offOVN a a') \<and>
    (\<exists>res a'. reconcile (cycleEnv env) cfg startup (None, a) = (res, (None, a')) \<and> offOVN a a') \<and>
    (\<exists>a'. shutdown env cfg (None, a) = Some (None, (None, a')) \<and> offOVN a a')"
proof (intro conjI)
  obtain r a1 where 1: "routing (setUpHost env cfg) a = (r, a1)" by fastforce
  have a1: "offOVN a a1" using offOVN_setUp [OF assms, of a env] by (simp add: 1)
  from offOVN_reconcile [OF assms, of "cycleEnv env" True a1] obtain res a2
    where run: "reconcile (cycleEnv env) cfg True (None, a1) = (res, (None, a2))" and a2: "offOVN a1 a2" by blast
  from offOVN_trans [OF a1 a2] a1 show "\<exists>e a'. startAgent env cfg cl a = Some (e, (None, a')) \<and> offOVN a a'"
    using assms by (cases r) (simp_all add: startAgent_def 1 run)
  show "\<exists>res a'. reconcile (cycleEnv env) cfg startup (None, a) = (res, (None, a')) \<and> offOVN a a'"
    by (rule offOVN_reconcile [OF assms])
  show "\<exists>a'. shutdown env cfg (None, a) = Some (None, (None, a')) \<and> offOVN a a'"
    using offOVN_cleanup [OF assms] assms by (simp add: shutdown_def)
qed

lemma port_forward_only_never_reaches_ovn_witness:
  "\<exists>a'. shutdown demo_run_env (demo_run_cfg\<lparr>cf_PortForwardOnly := True\<rparr>) (None, demo_agent) = Some (None, (None, a')) \<and> ag_ovn a' = []"
proof -
  have "cf_PortForwardOnly (demo_run_cfg\<lparr>cf_PortForwardOnly := True\<rparr>)" by simp
  from port_forward_only_never_reaches_ovn [OF this, of demo_run_env demo_run_client demo_agent False]
  show ?thesis by (auto simp: offOVN_def)
qed

end
