(* ===== verification/FlowMonitor.thy ===== *)
theory FlowMonitor
  imports FlowText
begin

section \<open>The process behind the flow watch\<close>

text \<open>
  \<open>flowMonitor\<close> of \<open>flow_watch.go\<close>: each subscription runs one \<open>ovs-ofctl monitor\<close> process with
  three goroutines, one on its standard output, one on its standard error and one that ends it, next
  to \<open>subscribe\<close> itself. They and the process are one step relation over every interleaving. What
  the process prints, when it ends and when a pipe is at its end are steps of the environment. Error texts are reduced to a short constant.
\<close>

subsection \<open>The state of a subscription\<close>

text \<open>
  Where the goroutine on standard error is: reading, offering an event, past the last line, past
  \<open>Wait\<close>, or returned with the channel of events closed.
\<close>

datatype stderr_reader = Scanning | Offering flow_event | PastLines | Waited | Returned

datatype subscribe_result = Pending | Subscribed | SubscribeFailed err

text \<open>
  \<open>mr_unreaped\<close> is the counter of the wait group, \<open>mr_ended\<close> the buffered channel of the same name,
  and \<open>mr_stopped\<close> whether the goroutine that ends the process is through. The last two fields are
  ghosts: the lines read from standard error, and the events the watcher received.
\<close>

record monitor_end =
  me_err :: "err option"
  me_lastWords :: string

record monitor_run =
  mr_ready :: bool
  mr_stdoutDone :: bool
  mr_done :: bool
  mr_reader :: stderr_reader
  mr_lastWords :: string
  mr_exited :: "err option option"
  mr_killed :: bool
  mr_ended :: "monitor_end option"
  mr_stopped :: bool
  mr_unreaped :: nat
  mr_result :: subscribe_result
  mr_lines :: "string list"
  mr_received :: "flow_event list"

text \<open>Before the first subscription, which is like after one whose process could not be started.\<close>

definition notStarted :: "subscribe_result \<Rightarrow> monitor_run" where
  "notStarted r = \<lparr>mr_ready = False, mr_stdoutDone = True, mr_done = True, mr_reader = Returned, mr_lastWords = '''',
     mr_exited = Some None, mr_killed = True, mr_ended = None, mr_stopped = True, mr_unreaped = 0, mr_result = r,
     mr_lines = [], mr_received = []\<rparr>"

definition startMonitor :: monitor_run where
  "startMonitor = \<lparr>mr_ready = False, mr_stdoutDone = False, mr_done = False, mr_reader = Scanning, mr_lastWords = '''',
     mr_exited = None, mr_killed = False, mr_ended = None, mr_stopped = False, mr_unreaped = 2, mr_result = Pending,
     mr_lines = [], mr_received = []\<rparr>"

subsection \<open>The goroutines\<close>

text \<open>One line on standard error: an event is offered, any other word is remembered.\<close>

definition readLine :: "string \<Rightarrow> monitor_run \<Rightarrow> monitor_run" where
  "readLine line s =
     (let s1 = s\<lparr>mr_lines := mr_lines s @ [line]\<rparr> in
      (case parseFlowMonitorLine line of
         Some ev \<Rightarrow> s1\<lparr>mr_reader := Offering ev\<rparr>
       | None \<Rightarrow>
           (let l = TrimSpace line in
            if l \<noteq> '''' \<and> \<not> Contains l ''FLOW_MONITOR'' then s1\<lparr>mr_lastWords := l\<rparr> else s1)))"

definition notReady :: "monitor_end \<Rightarrow> err" where
  "notReady m = Err ''OVS flow monitor ended before it was ready''"

text \<open>
  \<open>subscribe\<close> waits for the former subscription's goroutines and ends a process left behind before
  it starts its own (\<open>again\<close>, or \<open>broken\<close> when the start fails). The watcher closes \<open>done\<close> once
  \<open>subscribe\<close> has returned and it no longer receives.
\<close>

inductive monitor_step :: "monitor_run \<Rightarrow> monitor_run \<Rightarrow> bool" where
  again: "mr_result s \<noteq> Pending \<Longrightarrow> mr_done s \<Longrightarrow> mr_unreaped s = 0 \<Longrightarrow> monitor_step s startMonitor"
| broken: "mr_result s \<noteq> Pending \<Longrightarrow> mr_done s \<Longrightarrow> mr_unreaped s = 0 \<Longrightarrow> monitor_step s (notStarted (SubscribeFailed e))"
| header: "\<not> mr_stdoutDone s \<Longrightarrow> monitor_step s (s\<lparr>mr_ready := True\<rparr>)"
| stdout_end: "\<not> mr_stdoutDone s \<Longrightarrow> monitor_step s (s\<lparr>mr_stdoutDone := True\<rparr>)"
| line: "mr_reader s = Scanning \<Longrightarrow> monitor_step s (readLine l s)"
| receive: "mr_reader s = Offering ev \<Longrightarrow> mr_result s = Subscribed \<Longrightarrow> \<not> mr_done s \<Longrightarrow>
    monitor_step s (s\<lparr>mr_reader := Scanning, mr_received := mr_received s @ [ev]\<rparr>)"
| withheld: "mr_reader s = Offering ev \<Longrightarrow> mr_done s \<Longrightarrow> monitor_step s (s\<lparr>mr_reader := Scanning\<rparr>)"
| stderr_end: "mr_reader s = Scanning \<Longrightarrow> monitor_step s (s\<lparr>mr_reader := PastLines, mr_killed := mr_killed s \<or> broke\<rparr>)"
| exits: "mr_exited s = None \<Longrightarrow> monitor_step s (s\<lparr>mr_exited := Some e\<rparr>)"
| reap: "mr_reader s = PastLines \<Longrightarrow> mr_stdoutDone s \<Longrightarrow> mr_exited s \<noteq> None \<Longrightarrow>
    monitor_step s (s\<lparr>mr_reader := Waited, mr_unreaped := mr_unreaped s - 1\<rparr>)"
| report: "mr_reader s = Waited \<Longrightarrow> mr_exited s = Some e \<Longrightarrow>
    monitor_step s (s\<lparr>mr_reader := Returned, mr_ended := Some \<lparr>me_err = e, me_lastWords = mr_lastWords s\<rparr>\<rparr>)"
| stop: "mr_done s \<Longrightarrow> \<not> mr_stopped s \<Longrightarrow>
    monitor_step s (s\<lparr>mr_stopped := True, mr_killed := True, mr_unreaped := mr_unreaped s - 1\<rparr>)"
| is_ready: "mr_result s = Pending \<Longrightarrow> mr_ready s \<Longrightarrow> monitor_step s (s\<lparr>mr_result := Subscribed\<rparr>)"
| has_ended: "mr_result s = Pending \<Longrightarrow> mr_ended s = Some m \<Longrightarrow>
    monitor_step s (s\<lparr>mr_result := (if mr_ready s then Subscribed else SubscribeFailed (notReady m))\<rparr>)"
| timed_out: "mr_result s = Pending \<Longrightarrow>
    monitor_step s (s\<lparr>mr_result := SubscribeFailed (Err ''OVS flow monitor was not ready in time''), mr_killed := True\<rparr>)"
| leave: "mr_result s \<noteq> Pending \<Longrightarrow> monitor_step s (s\<lparr>mr_done := True\<rparr>)"

inductive_cases monitor_stepE: "monitor_step s s'"

definition monitor_reachable :: "monitor_run \<Rightarrow> bool" where
  "monitor_reachable s \<longleftrightarrow> monitor_step\<^sup>*\<^sup>* (notStarted Subscribed) s"

subsection \<open>What holds in every reachable state\<close>

definition offered :: "stderr_reader \<Rightarrow> flow_event list" where
  "offered r = (case r of Offering ev \<Rightarrow> [ev] | _ \<Rightarrow> [])"

definition reported :: "string list \<Rightarrow> flow_event list" where
  "reported ls = List.map_filter parseFlowMonitorLine ls"

definition unreaped :: "monitor_run \<Rightarrow> nat" where
  "unreaped s = (if mr_reader s \<in> {Waited, Returned} then 0 else 1) + (if mr_stopped s then 0 else 1)"

definition monitor_ok :: "monitor_run \<Rightarrow> bool" where
  "monitor_ok s \<longleftrightarrow>
     mr_unreaped s = unreaped s \<and>
     (mr_reader s \<in> {Waited, Returned} \<longrightarrow> mr_exited s \<noteq> None \<and> mr_stdoutDone s) \<and>
     (mr_stopped s \<longrightarrow> mr_done s \<and> mr_killed s) \<and>
     (mr_done s \<longrightarrow> mr_result s \<noteq> Pending) \<and>
     (mr_result s = Subscribed \<longrightarrow> mr_ready s \<or> mr_stopped s \<and> mr_reader s = Returned) \<and>
     (\<not> mr_done s \<longrightarrow> reported (mr_lines s) = mr_received s @ offered (mr_reader s)) \<and>
     (\<exists>rest. reported (mr_lines s) = mr_received s @ rest)"

lemma reported_simps [simp]:
  "reported [] = []" "reported (ls @ [l]) = reported ls @ (case parseFlowMonitorLine l of None \<Rightarrow> [] | Some ev \<Rightarrow> [ev])"
  by (simp_all add: reported_def List.map_filter_def split: option.split)

lemma monitor_step_ok: "monitor_step s s' \<Longrightarrow> monitor_ok s \<Longrightarrow> monitor_ok s'"
proof (induction rule: monitor_step.induct)
  case (line s l)
  then show ?case
    by (auto simp: monitor_ok_def readLine_def unreaped_def offered_def Let_def split: option.splits)
next
  case (receive s ev)
  then show ?case by (auto simp: monitor_ok_def unreaped_def offered_def)
qed (auto simp: monitor_ok_def startMonitor_def notStarted_def unreaped_def offered_def)

lemma notStarted_ok: "r \<noteq> Pending \<Longrightarrow> monitor_ok (notStarted r)"
  by (simp add: monitor_ok_def notStarted_def unreaped_def offered_def)

lemma reachable_ok: "monitor_reachable s \<Longrightarrow> monitor_ok s"
  unfolding monitor_reachable_def
proof (induction rule: rtranclp_induct)
  case base
  show ?case by (rule notStarted_ok) simp
next
  case (step s s')
  from monitor_step_ok [OF step(2,3)] show ?case .
qed

subsection \<open>Nothing waits for ever\<close>

text \<open>
  Once \<open>done\<close> is closed a state can always move on to one in which every process and goroutine of
  the subscription is reaped: the goroutine on standard error is released from its offer, the
  process ends, and both counts come down.
\<close>

abbreviation monitor_steps :: "monitor_run \<Rightarrow> monitor_run \<Rightarrow> bool" where
  "monitor_steps \<equiv> monitor_step\<^sup>*\<^sup>*"

lemma steps_more: "monitor_steps a b \<Longrightarrow> monitor_step b c \<Longrightarrow> monitor_steps a c"
  by (rule rtranclp.rtrancl_into_rtrancl)

lemma to_PastLines:
  assumes "mr_done s" and "mr_reader s \<notin> {Waited, Returned}"
  obtains s' where "monitor_steps s s'" "mr_reader s' = PastLines" "mr_done s'" "mr_result s' = mr_result s"
proof (cases "mr_reader s")
  case Scanning
  from stderr_end [OF this, of False] show ?thesis using assms
    by (intro that [of "s\<lparr>mr_reader := PastLines, mr_killed := mr_killed s \<or> False\<rparr>"]) auto
next
  case (Offering ev)
  let ?s1 = "s\<lparr>mr_reader := Scanning\<rparr>"
  let ?s2 = "?s1\<lparr>mr_reader := PastLines, mr_killed := mr_killed ?s1 \<or> False\<rparr>"
  have "monitor_step s ?s1" by (rule withheld [OF Offering assms(1)])
  moreover have "monitor_step ?s1 ?s2" by (rule stderr_end) simp
  ultimately have "monitor_steps s ?s2" by (meson r_into_rtranclp steps_more)
  then show ?thesis by (rule that) (use assms in simp_all)
next
  case PastLines
  then show ?thesis using assms that by blast
qed (use assms in simp_all)

lemma to_reaped:
  assumes "mr_done s"
  obtains s' where "monitor_steps s s'" "mr_reader s' \<in> {Waited, Returned}" "mr_done s'" "mr_result s' = mr_result s"
proof (cases "mr_reader s \<in> {Waited, Returned}")
  case False
  from to_PastLines [OF assms False] obtain s1 where s1: "monitor_steps s s1" "mr_reader s1 = PastLines" "mr_done s1"
    "mr_result s1 = mr_result s" .
  obtain s2 where s2: "monitor_steps s s2" "mr_reader s2 = PastLines" "mr_done s2" "mr_result s2 = mr_result s" "mr_stdoutDone s2"
    using s1 stdout_end [of s1] steps_more [of s s1 "s1\<lparr>mr_stdoutDone := True\<rparr>"]
    by (cases "mr_stdoutDone s1") (blast, force)
  obtain s3 where s3: "monitor_steps s s3" "mr_reader s3 = PastLines" "mr_done s3" "mr_result s3 = mr_result s" "mr_stdoutDone s3"
      "mr_exited s3 \<noteq> None"
    using s2 exits [of s2 None] steps_more [of s s2 "s2\<lparr>mr_exited := Some None\<rparr>"]
    by (cases "mr_exited s2 = None") (force, blast)
  from steps_more [OF s3(1) reap [OF s3(2,5,6)]] s3 show ?thesis
    by (intro that [of "s3\<lparr>mr_reader := Waited, mr_unreaped := mr_unreaped s3 - 1\<rparr>"]) simp_all
qed (use assms that in blast)

lemma to_free:
  assumes "monitor_reachable s" and "mr_done s"
  obtains s' where "monitor_steps s s'" "mr_done s'" "mr_unreaped s' = 0" "mr_result s' = mr_result s"
proof -
  from to_reaped [OF assms(2)] obtain s1 where s1: "monitor_steps s s1" "mr_reader s1 \<in> {Waited, Returned}" "mr_done s1"
    "mr_result s1 = mr_result s" .
  let ?s2 = "if mr_stopped s1 then s1 else s1\<lparr>mr_stopped := True, mr_killed := True, mr_unreaped := mr_unreaped s1 - 1\<rparr>"
  have 2: "monitor_steps s ?s2" using s1 stop [of s1] steps_more by auto
  then have "monitor_reachable ?s2" using assms(1) unfolding monitor_reachable_def by (meson rtranclp_trans)
  from reachable_ok [OF this] have "mr_unreaped ?s2 = unreaped ?s2" by (simp add: monitor_ok_def)
  then have "mr_unreaped ?s2 = 0" using s1(2) by (auto simp: unreaped_def split: if_splits)
  with 2 s1 show ?thesis by (intro that [of ?s2]) auto
qed

lemma into_fresh:
  assumes "monitor_step s s'" and "\<not> mr_ready s'" "\<not> mr_stdoutDone s'" "\<not> mr_done s'" "mr_reader s' = Scanning"
    "mr_exited s' = None" "mr_result s' = Pending" "mr_lines s' = []" "mr_received s' = []"
  shows "mr_unreaped s = 0"
  using assms
proof (induction rule: monitor_step.induct)
  case (line s l)
  then show ?case by (simp add: readLine_def Let_def split: option.splits if_splits)
qed (simp_all split: if_splits)

lemma into_startMonitor: "monitor_step s startMonitor \<Longrightarrow> mr_unreaped s = 0"
  by (erule into_fresh) (simp_all add: startMonitor_def)

text \<open>
  C35: no deletion the monitor reports is lost and no monitor process is left behind. In every
  reachable state the watcher has received the reported deletions in order and, until it leaves, all
  of them but the one on offer; it was told of a subscription only after the reply header; the next
  subscription starts only when the former process has ended and was reaped, and after leaving one
  it can always be started.
\<close>

theorem flow_monitor_loses_nothing:
  assumes "monitor_reachable s"
  shows "(\<exists>rest. reported (mr_lines s) = mr_received s @ rest) \<and>
    (\<not> mr_done s \<longrightarrow> reported (mr_lines s) = mr_received s @ offered (mr_reader s) \<and>
       (mr_result s = Subscribed \<longrightarrow> mr_ready s)) \<and>
    (monitor_step s startMonitor \<longrightarrow> mr_exited s \<noteq> None \<and> mr_stopped s) \<and>
    (mr_done s \<longrightarrow> (\<exists>s'. monitor_steps s s' \<and> monitor_step s' startMonitor))"
proof (intro conjI impI)
  from reachable_ok [OF assms] have ok: "monitor_ok s" .
  then show "\<exists>rest. reported (mr_lines s) = mr_received s @ rest" by (simp add: monitor_ok_def)
  show "reported (mr_lines s) = mr_received s @ offered (mr_reader s)" if "\<not> mr_done s" using ok that by (simp add: monitor_ok_def)
  show "mr_ready s" if "\<not> mr_done s" "mr_result s = Subscribed" using ok that by (auto simp: monitor_ok_def)
  show "mr_exited s \<noteq> None" "mr_stopped s" if "monitor_step s startMonitor"
    using ok into_startMonitor [OF that] by (auto simp: monitor_ok_def unreaped_def split: if_splits)
  show "\<exists>s'. monitor_steps s s' \<and> monitor_step s' startMonitor" if left: "mr_done s"
  proof -
    from to_free [OF assms left] obtain s' where s': "monitor_steps s s'" "mr_done s'" "mr_unreaped s' = 0"
      "mr_result s' = mr_result s" .
    have "mr_result s' \<noteq> Pending" using ok left s'(4) by (simp add: monitor_ok_def)
    from again [OF this s'(2,3)] s'(1) show ?thesis by blast
  qed
qed

text \<open>A subscription that comes up, reports one deletion and is left.\<close>

definition demo_monitor :: monitor_run where
  "demo_monitor = startMonitor\<lparr>mr_ready := True, mr_result := Subscribed\<rparr>"

lemma demo_monitor_reachable: "monitor_reachable demo_monitor"
proof -
  let ?s1 = "startMonitor\<lparr>mr_ready := True\<rparr>"
  have "monitor_step (notStarted Subscribed) startMonitor" by (rule again) (simp_all add: notStarted_def)
  moreover have "monitor_step startMonitor ?s1" by (rule header) (simp add: startMonitor_def)
  moreover have "monitor_step ?s1 demo_monitor" unfolding demo_monitor_def by (rule is_ready) (simp_all add: startMonitor_def)
  ultimately show ?thesis unfolding monitor_reachable_def by (meson r_into_rtranclp rtranclp.rtrancl_into_rtrancl)
qed

lemma flow_monitor_loses_nothing_witness:
  "reported (mr_lines demo_monitor) = mr_received demo_monitor \<and>
   (\<exists>s'. monitor_steps (demo_monitor\<lparr>mr_done := True\<rparr>) s' \<and> monitor_step s' startMonitor)"
proof -
  have r: "mr_result demo_monitor \<noteq> Pending" by (simp add: demo_monitor_def)
  have left: "monitor_reachable (demo_monitor\<lparr>mr_done := True\<rparr>)"
    using demo_monitor_reachable leave [OF r] unfolding monitor_reachable_def by (rule rtranclp.rtrancl_into_rtrancl)
  have "offered (mr_reader demo_monitor) = []" "\<not> mr_done demo_monitor"
    by (simp_all add: demo_monitor_def startMonitor_def offered_def)
  then show ?thesis
    using flow_monitor_loses_nothing [OF demo_monitor_reachable] flow_monitor_loses_nothing [OF left] by simp
qed

end
