(* ===== verification/Readiness.thy ===== *)
theory Readiness
  imports ConfigTypes
begin

section \<open>The readiness endpoint\<close>

text \<open>
  The readiness signals of \<open>metrics.go\<close> and what \<open>/readyz\<close> answers. The signals are written when a
  database connection comes up or goes down and at the end of each reconcile cycle (\<open>cy_ok\<close> in the model of the cycle); the gauges and
  counters next to them only mirror values of the cycle and are left out.
\<close>

record readiness =
  rd_ovnRequired :: bool
  rd_nbConnected :: bool
  rd_sbConnected :: bool
  rd_reconcileRan :: bool
  rd_lastReconcileOK :: bool

definition initMetrics :: "bool \<Rightarrow> readiness" where
  "initMetrics ovnRequired = \<lparr>rd_ovnRequired = ovnRequired, rd_nbConnected = False, rd_sbConnected = False,
     rd_reconcileRan = False, rd_lastReconcileOK = False\<rparr>"

definition initMetricsForConfig :: "config \<Rightarrow> readiness" where
  "initMetricsForConfig cfg = initMetrics (\<not> cf_PortForwardOnly cfg)"

definition setOVNConnectionState :: "string \<Rightarrow> bool \<Rightarrow> readiness \<Rightarrow> readiness" where
  "setOVNConnectionState db up r =
     (if db = ''nb'' then r\<lparr>rd_nbConnected := up\<rparr>
      else if db = ''sb'' then r\<lparr>rd_sbConnected := up\<rparr>
      else r)"

definition setLastReconcileStatus :: "bool \<Rightarrow> readiness \<Rightarrow> readiness" where
  "setLastReconcileStatus ok r = r\<lparr>rd_reconcileRan := True, rd_lastReconcileOK := ok\<rparr>"

definition readyzFailures :: "readiness \<Rightarrow> string list" where
  "readyzFailures r =
     (if rd_ovnRequired r
      then (if \<not> rd_nbConnected r then [''unready: ovn nb disconnected''] else []) @
           (if \<not> rd_sbConnected r then [''unready: ovn sb disconnected''] else [])
      else []) @
     (if \<not> rd_reconcileRan r then [''unready: awaiting first reconcile'']
      else if \<not> rd_lastReconcileOK r then [''unready: last reconcile failed''] else [])"

text \<open>The status and the body of the answer.\<close>

definition readyzHandler :: "readiness \<Rightarrow> int \<times> string" where
  "readyzHandler r =
     (let failures = readyzFailures r in
      if failures \<noteq> [] then (503, concat (map (\<lambda>f. f @ [CHR 0x0A]) failures))
      else (200, ''ok'' @ [CHR 0x0A]))"

subsection \<open>Ready means that this node forwards\<close>

text \<open>What is recorded while the agent runs.\<close>

datatype readiness_event = Connection string bool | CycleEnd bool

fun record_event :: "readiness_event \<Rightarrow> readiness \<Rightarrow> readiness" where
  "record_event (Connection db up) r = setOVNConnectionState db up r"
| "record_event (CycleEnd ok) r = setLastReconcileStatus ok r"

definition lastState :: "(readiness_event \<Rightarrow> bool option) \<Rightarrow> readiness_event list \<Rightarrow> bool option" where
  "lastState f es = (case List.map_filter f (rev es) of [] \<Rightarrow> None | b # _ \<Rightarrow> Some b)"

definition connectionOf :: "string \<Rightarrow> readiness_event \<Rightarrow> bool option" where
  "connectionOf db e = (case e of Connection d up \<Rightarrow> if d = db then Some up else None | CycleEnd _ \<Rightarrow> None)"

definition cycleOf :: "readiness_event \<Rightarrow> bool option" where
  "cycleOf e = (case e of CycleEnd ok \<Rightarrow> Some ok | Connection _ _ \<Rightarrow> None)"

lemma lastState_simps [simp]:
  "lastState f [] = None" "lastState f (es @ [e]) = (case f e of Some b \<Rightarrow> Some b | None \<Rightarrow> lastState f es)"
  by (simp_all add: lastState_def List.map_filter_def split: option.split)

lemma events_state:
  "fold record_event es (initMetrics required) =
     \<lparr>rd_ovnRequired = required, rd_nbConnected = (lastState (connectionOf ''nb'') es = Some True),
      rd_sbConnected = (lastState (connectionOf ''sb'') es = Some True),
      rd_reconcileRan = (lastState cycleOf es \<noteq> None), rd_lastReconcileOK = (lastState cycleOf es = Some True)\<rparr>"
proof (induction es rule: rev_induct)
  case Nil
  show ?case by (simp add: initMetrics_def)
next
  case (snoc e es)
  then show ?case
    by (cases e) (simp_all add: setOVNConnectionState_def setLastReconcileStatus_def connectionOf_def cycleOf_def)
qed

text \<open>
  The endpoint answers 200 exactly when the last cycle could forward and, unless the agent runs
  without OVN, the last reports of both connections say they are up.
\<close>

theorem ready_iff_last_reports:
  "fst (readyzHandler (fold record_event es (initMetricsForConfig cfg))) = 200 \<longleftrightarrow>
     lastState cycleOf es = Some True \<and>
     (cf_PortForwardOnly cfg \<or> lastState (connectionOf ''nb'') es = Some True \<and> lastState (connectionOf ''sb'') es = Some True)"
  by (auto simp: readyzHandler_def readyzFailures_def initMetricsForConfig_def events_state Let_def)

end
