(* ===== verification/OvnConnect.thy ===== *)
theory OvnConnect
  imports OvnLoop ConfigCheck Readiness
begin

section \<open>Connecting to the databases\<close>

text \<open>
  \<open>Connect\<close>, \<open>Close\<close> and the monitored columns of \<open>ovn.go\<close>. What \<open>libovsdb\<close> answers to each step
  of an attempt is a parameter; attempts are numbered. \<open>Connect\<close> ends with the initial refresh and
  the start of the loop, whose state is \<open>connectedClient\<close>.
\<close>

subsection \<open>The monitored columns\<close>

type_synonym table_columns = "(string \<times> string list) list"

definition sbMonitorTables :: table_columns where
  "sbMonitorTables =
     [(''Port_Binding'', [''logical_port'', ''type'', ''chassis'', ''datapath'', ''tag'', ''options'', ''external_ids'', ''nat_addresses'']),
      (''Chassis'', [''name'', ''hostname''])]"

definition nbMonitorTables :: table_columns where
  "nbMonitorTables =
     [(''NAT'', [''type'', ''external_ip'']),
      (''Logical_Router'', [''name'', ''ports'', ''nat'', ''static_routes'']),
      (''Logical_Router_Port'', [''name'', ''mac'', ''networks'', ''gateway_chassis'']),
      (''Logical_Router_Static_Route'', [''ip_prefix'', ''nexthop'', ''output_port'', ''external_ids'']),
      (''Static_MAC_Binding'', [''logical_port'', ''ip'', ''mac'']),
      (''Gateway_Chassis'', [''name'', ''chassis_name'', ''priority''])]"

definition monitorTables :: "database \<Rightarrow> table_columns" where
  "monitorTables db = (case db of SB \<Rightarrow> sbMonitorTables | NB \<Rightarrow> nbMonitorTables)"

text \<open>The models of the two databases hold exactly the monitored tables.\<close>

definition databaseModel :: "database \<Rightarrow> string list" where
  "databaseModel db =
     (case db of
        SB \<Rightarrow> [''Port_Binding'', ''Chassis'']
      | NB \<Rightarrow> [''NAT'', ''Logical_Router'', ''Logical_Router_Port'', ''Logical_Router_Static_Route'', ''Static_MAC_Binding'',
               ''Gateway_Chassis''])"

definition guardColumns :: "database \<Rightarrow> table_columns" where
  "guardColumns db =
     (case db of
        SB \<Rightarrow> [(''Port_Binding'', pbCheckColumns), (''Chassis'', chCheckColumns)]
      | NB \<Rightarrow> [(''NAT'', natCheckColumns), (''Logical_Router'', lrCheckColumns), (''Logical_Router_Port'', lrpCheckColumns),
               (''Logical_Router_Static_Route'', lrsrCheckColumns), (''Static_MAC_Binding'', smbCheckColumns)])"

text \<open>
  The cache guard compares no column that the monitor does not deliver (the UUID always is), every
  table whose changes wake the refresh loop is monitored, and \<open>nb_cfg\<close>, which changes all the time,
  is not.
\<close>

lemma monitored_covers_the_guard:
  "map fst (monitorTables db) = databaseModel db \<and>
   (\<forall>(t, cols) \<in> set (guardColumns db). \<exists>mcols. map_of (monitorTables db) t = Some mcols \<and> set cols \<subseteq> insert ''_uuid'' (set mcols)) \<and>
   (\<forall>t. relevantTable db t \<longrightarrow> t \<in> set (databaseModel db)) \<and>
   (\<forall>(t, mcols) \<in> set (monitorTables db). ''nb_cfg'' \<notin> set mcols)"
  by (cases db) (simp_all add: monitorTables_def sbMonitorTables_def nbMonitorTables_def databaseModel_def guardColumns_def
      check_columns_defs relevantTable_def)

subsection \<open>One attempt\<close>

datatype client_step = NewModel | NewClient "string list" | Dial | Watch table_columns

record connect_env =
  ce_hostname :: "nat \<Rightarrow> string result"
  ce_step :: "nat \<Rightarrow> database \<Rightarrow> client_step \<Rightarrow> err option"

text \<open>
  The two clients by the attempt that created them, and what \<open>Connect\<close> records. \<open>cn_open\<close> is a
  ghost: the clients created and not closed.
\<close>

record connection =
  cn_clients :: "database \<Rightarrow> nat option"
  cn_name :: string
  cn_ready :: bool
  cn_readiness :: readiness
  cn_open :: "(database \<times> nat) list"

definition dbName :: "database \<Rightarrow> string" where
  "dbName db = (case db of SB \<Rightarrow> ''sb'' | NB \<Rightarrow> ''nb'')"

definition report_connection :: "database \<Rightarrow> bool \<Rightarrow> connection \<Rightarrow> connection" where
  "report_connection db up c = c\<lparr>cn_readiness := setOVNConnectionState (dbName db) up (cn_readiness c)\<rparr>"

definition openClient ::
  "connect_env \<Rightarrow> nat \<Rightarrow> database \<Rightarrow> string \<Rightarrow> connection \<Rightarrow> err option \<times> connection" where
  "openClient env n db remote c =
     (case ce_step env n db NewModel of
        Some e \<Rightarrow> (Some e, c)
      | None \<Rightarrow>
     (case ce_step env n db (NewClient (ovsdbEndpoints remote)) of
        Some e \<Rightarrow> (Some e, c\<lparr>cn_clients := (cn_clients c)(db := None)\<rparr>)
      | None \<Rightarrow>
          (let c1 = c\<lparr>cn_clients := (cn_clients c)(db := Some n), cn_open := (db, n) # cn_open c\<rparr> in
     (case ce_step env n db Dial of
        Some e \<Rightarrow> (Some e, c1)
      | None \<Rightarrow>
          (let c2 = report_connection db True c1 in
     (case ce_step env n db (Watch (monitorTables db)) of
        Some e \<Rightarrow> (Some e, c2)
      | None \<Rightarrow> (None, c2)))))))"

definition closeClient :: "database \<Rightarrow> connection \<Rightarrow> connection" where
  "closeClient db c =
     (case cn_clients c db of
        None \<Rightarrow> c
      | Some n \<Rightarrow> report_connection db False
          (c\<lparr>cn_clients := (cn_clients c)(db := None), cn_open := removeAll (db, n) (cn_open c)\<rparr>))"

definition closeClients :: "connection \<Rightarrow> connection" where
  "closeClients c = closeClient NB (closeClient SB c)"

definition Connect :: "connect_env \<Rightarrow> config \<Rightarrow> nat \<Rightarrow> connection \<Rightarrow> err option \<times> connection" where
  "Connect env cfg n c =
     (case ce_hostname env n of
        Inl e \<Rightarrow> (Some e, c)
      | Inr h \<Rightarrow>
          (let c0 = c\<lparr>cn_name := shortHostname h\<rparr> in
           (case openClient env n SB (cf_OVNSBRemote cfg) c0 of
              (Some e, c1) \<Rightarrow> (Some e, closeClients c1)
            | (None, c1) \<Rightarrow>
                (case openClient env n NB (cf_OVNNBRemote cfg) c1 of
                   (Some e, c2) \<Rightarrow> (Some e, closeClients c2)
                 | (None, c2) \<Rightarrow> (None, c2\<lparr>cn_ready := True\<rparr>)))))"

definition Close :: "connection \<Rightarrow> connection" where
  "Close c = closeClients (c\<lparr>cn_ready := False\<rparr>)"

subsection \<open>A failed attempt leaves nothing open\<close>

definition allClosed :: "connection \<Rightarrow> bool" where
  "allClosed c \<longleftrightarrow> cn_clients c = (\<lambda>_. None) \<and> cn_open c = [] \<and> \<not> rd_nbConnected (cn_readiness c) \<and>
     \<not> rd_sbConnected (cn_readiness c)"

definition bothOpen :: "nat \<Rightarrow> connection \<Rightarrow> bool" where
  "bothOpen n c \<longleftrightarrow> cn_clients c = (\<lambda>_. Some n) \<and> cn_open c = [(NB, n), (SB, n)] \<and> rd_nbConnected (cn_readiness c) \<and>
     rd_sbConnected (cn_readiness c)"

lemma report_fields [simp]:
  "cn_clients (report_connection db up c) = cn_clients c" "cn_open (report_connection db up c) = cn_open c"
  "cn_ready (report_connection db up c) = cn_ready c" "cn_name (report_connection db up c) = cn_name c"
  "rd_nbConnected (cn_readiness (report_connection db up c)) = (if db = NB then up else rd_nbConnected (cn_readiness c))"
  "rd_sbConnected (cn_readiness (report_connection db up c)) = (if db = SB then up else rd_sbConnected (cn_readiness c))"
  by (cases db; simp add: report_connection_def setOVNConnectionState_def dbName_def)+

lemma database_fun: "f = g \<longleftrightarrow> f SB = g SB \<and> f NB = g NB"
  by (metis database.exhaust ext)

lemma Connect_result:
  assumes "allClosed c" and "Connect env cfg n c = (e, c')"
  shows "if e = None then bothOpen n c' \<and> cn_ready c' else allClosed c' \<and> cn_ready c' = cn_ready c"
proof (cases "ce_hostname env n")
  case (Inl x)
  then show ?thesis using assms by (auto simp: Connect_def)
next
  case (Inr h)
  let ?c0 = "c\<lparr>cn_name := shortHostname h\<rparr>"
  obtain e1 c1 where sb: "openClient env n SB (cf_OVNSBRemote cfg) ?c0 = (e1, c1)" by fastforce
  obtain e2 c2 where nb: "openClient env n NB (cf_OVNNBRemote cfg) c1 = (e2, c2)" by fastforce
  have c0: "cn_clients ?c0 = (\<lambda>_. None)" "cn_open ?c0 = []" "\<not> rd_nbConnected (cn_readiness ?c0)" "\<not> rd_sbConnected (cn_readiness ?c0)"
    using assms(1) by (simp_all add: allClosed_def)
  have c1: "cn_ready c1 = cn_ready c \<and> cn_clients c1 NB = None \<and> \<not> rd_nbConnected (cn_readiness c1) \<and>
      (cn_clients c1 SB = None \<and> cn_open c1 = [] \<and> \<not> rd_sbConnected (cn_readiness c1) \<or>
       cn_clients c1 SB = Some n \<and> cn_open c1 = [(SB, n)]) \<and>
      (e1 = None \<longrightarrow> cn_clients c1 SB = Some n \<and> rd_sbConnected (cn_readiness c1))"
    using sb c0 by (auto simp: openClient_def Let_def split: option.splits)
  have closed1: "allClosed (closeClients c1) \<and> cn_ready (closeClients c1) = cn_ready c"
    using c1 by (auto simp: allClosed_def closeClients_def closeClient_def database_fun [of _ "\<lambda>_. None"] split: option.splits)
  show ?thesis
  proof (cases e1)
    case (Some x)
    then show ?thesis using assms(2) closed1 by (auto simp: Connect_def Inr Let_def sb)
  next
    case None
    have c2: "cn_ready c2 = cn_ready c \<and> cn_clients c2 SB = Some n \<and> rd_sbConnected (cn_readiness c2) \<and>
        (cn_clients c2 NB = None \<and> cn_open c2 = [(SB, n)] \<and> \<not> rd_nbConnected (cn_readiness c2) \<or>
         cn_clients c2 NB = Some n \<and> cn_open c2 = [(NB, n), (SB, n)]) \<and>
        (e2 = None \<longrightarrow> cn_clients c2 NB = Some n \<and> rd_nbConnected (cn_readiness c2))"
      using nb c1 None by (auto simp: openClient_def Let_def split: option.splits dest: sym)
    then have closed2: "allClosed (closeClients c2) \<and> cn_ready (closeClients c2) = cn_ready c"
      by (auto simp: allClosed_def closeClients_def closeClient_def database_fun [of _ "\<lambda>_. None"] split: option.splits)
    show ?thesis using assms(2) c2 closed2
      by (cases e2) (auto simp: Connect_def Inr Let_def sb nb None bothOpen_def database_fun [of _ "\<lambda>_. Some n"])
  qed
qed

text \<open>The attempts in a row, each failed one followed by the next, until one succeeds.\<close>

fun attempts :: "connect_env \<Rightarrow> config \<Rightarrow> nat \<Rightarrow> nat \<Rightarrow> connection \<Rightarrow> err option \<times> connection" where
  "attempts env cfg n 0 c = (Some (Err ''not connected''), c)"
| "attempts env cfg n (Suc k) c =
     (case Connect env cfg n c of
        (None, c1) \<Rightarrow> (None, c1)
      | (Some _, c1) \<Rightarrow> attempts env cfg (Suc n) k c1)"

text \<open>
  However many attempts fail, at most the clients of the one that succeeded are open, and the
  readiness signals of both connections say so.
\<close>

theorem retries_leak_no_client:
  assumes "allClosed c" and "attempts env cfg n k c = (e, c')"
  shows "if e = None then (\<exists>m. n \<le> m \<and> m < n + k \<and> bothOpen m c') \<and> cn_ready c' \<and> allClosed (Close c')
         else allClosed c' \<and> cn_ready c' = cn_ready c"
  using assms
proof (induction k arbitrary: n c)
  case 0
  then show ?case by auto
next
  case (Suc k)
  obtain e1 c1 where 1: "Connect env cfg n c = (e1, c1)" by fastforce
  note res = Connect_result [OF Suc.prems(1) 1]
  show ?case
  proof (cases e1)
    case None
    then have "e = None" "c' = c1" "bothOpen n c1" "cn_ready c1" using Suc.prems(2) res by (auto simp: 1)
    moreover have "allClosed (Close c1)" using \<open>bothOpen n c1\<close>
      by (auto simp: bothOpen_def allClosed_def Close_def closeClients_def closeClient_def database_fun [of _ "\<lambda>_. None"])
    ultimately show ?thesis by auto
  next
    case (Some x)
    then have "allClosed c1" "cn_ready c1 = cn_ready c" "attempts env cfg (Suc n) k c1 = (e, c')" using Suc.prems(2) res by (auto simp: 1)
    from Suc.IH [OF this(1,3)] this(2) show ?thesis by (auto split: if_splits intro: exI Suc_leD)
  qed
qed

end
