(* ===== verification/Spec2Isabelle.thy ===== *)
theory Spec2Isabelle
  imports OvnRefresh OvnLoop OvnCache DesiredState RouteSync FrrWatch RouteWatch Reload OvsFlows PrefixList PortForwardOnly
    FlowMonitor OvnConnect
begin

text \<open>
  A model of \<open>ovn-network-agent\<close>, an agent that runs on the gateway nodes of OVN-based OpenStack
  deployments. It watches the OVN Southbound and Northbound databases and keeps the host in step with
  them: it installs a \<open>/32\<close> kernel route and an FRR static route for every floating and SNAT address
  of the routers whose gateway port is bound to the node, the OpenFlow rules and interfaces these
  addresses need, the BGP prefix-list, the veth leak between two VRFs and the nftables rules of
  forwarded virtual IPs; and it writes default routes, MAC bindings and gateway priorities back to the
  Northbound database. All definitions are translated from the Go files directly under \<open>src/\<close>.

  \<^bold>\<open>How the parts interact.\<close> Cache events of the two OVSDB clients wake a refresh loop, which joins
  the tables into a snapshot and asks the agent to reconcile. A reconcile cycle turns the snapshot and
  the configuration into the desired state, acts on the host and the databases in a fixed order, and
  publishes to the drift watchers what it owns. The watchers turn foreign changes of routes, flows or
  FRR into further reconciles. A reload swaps the configuration between two cycles; start-up, drain and
  shutdown frame the whole run.

  \<^bold>\<open>Conventions.\<close> A Go struct is a record with the field names behind a short prefix, an error is
  the left side of a sum or an \<open>option\<close>, an IP address is a 128-bit word, a Go map whose order does
  not matter is an association list or a function, and the iteration order of Go maps that does matter
  is a parameter. Everything outside the program is a parameter: the host (\<open>vtysh\<close>, netlink, the OVS
  tools, \<open>nft\<close>, JSON decoding) answers as a function of the history of calls, the databases as a
  function of the history of reads and transactions, clocks and wake-ups as sequences. A run appends
  to these histories, and the theorems about order, convergence and restraint speak of them. Where a
  theorem needs a documented behaviour of the outside, it is a named hypothesis (\<open>honestRules\<close>,
  \<open>honestAddrs\<close>, \<open>frrList\<close> and their like), with a witness on a concrete host.
\<close>

text \<open>
  \<^bold>\<open>The theories.\<close>

  \<^item> \<open>Prelude\<close>, \<open>GoStrings\<close>, \<open>GoNet\<close>: shared types, the two interfaces \<open>canonical_list\<close>
    (deduplicating and sorting functions do not depend on map order) and \<open>diff_sync\<close> (adding and
    deleting by difference reaches the wanted set), and what the agent uses of Go's \<open>strings\<close>,
    \<open>strconv\<close> and \<open>net\<close>.
  \<^item> \<open>OvnRows\<close>, \<open>OvnCache\<close>, \<open>OvnJoin\<close>, \<open>OvnRefresh\<close> (\<open>ovn.go\<close>, \<open>ovn_cache.go\<close>): the rows, the
    guarded reads with their fallback to the server, and \<open>refreshState\<close>. The lemmas give the published
    addresses and routers exactly, and show that a stale cache is corrected by the server's rows
    (locale \<open>checked_table\<close>, interpreted for all seven tables).
  \<^item> \<open>OvnLoop\<close>, \<open>OvnConnect\<close> (\<open>ovn.go\<close>): the event handlers and the refresh loop as a step relation
    over all interleavings, with no lost wake-up (locale \<open>coalescing_channel\<close>); connecting, closing and
    the monitored columns.
  \<^item> \<open>OvnWrites\<close>, \<open>OvnLead\<close>, \<open>OvnDrain\<close> (\<open>ovn_gateway.go\<close>): the Northbound writes. Each lemma bounds
    the transactions between two histories (\<open>sends\<close>).
  \<^item> \<open>ConfigTypes\<close>, \<open>ConfigCheck\<close>, \<open>ConfigRegistry\<close>, \<open>Reload\<close> (\<open>config.go\<close>, \<open>reload.go\<close>,
    \<open>main.go\<close>): the configuration, its validation, the option registry (locale \<open>option_registry\<close>), the
    layers of a load and the plan and application of a reload.
  \<^item> \<open>DesiredState\<close> (\<open>desired_state.go\<close>, \<open>agent.go\<close>): the pure step from a snapshot to the desired
    planes.
  \<^item> \<open>Host\<close>, \<open>FrrRoutes\<close>, \<open>PrefixList\<close> (\<open>routing.go\<close>), \<open>KernelRoutes\<close>, \<open>NetDev\<close>, \<open>VethLeak\<close>
    (\<open>routing_linux.go\<close>), \<open>PortForward\<close> (\<open>nftables.go\<close>, \<open>nftables_linux.go\<close>), \<open>FlowText\<close>,
    \<open>OvsSegments\<close>, \<open>OvsFlows\<close> (\<open>ovs.go\<close>): the operations of the routing manager, one group per plane,
    each with its effect on that plane and its restraint elsewhere.
  \<^item> \<open>DriftWatch\<close>, \<open>RouteWatch\<close>, \<open>FlowMonitor\<close>, \<open>FrrWatch\<close> (\<open>drift_watch.go\<close>, \<open>route_watch.go\<close>,
    \<open>flow_watch.go\<close>, \<open>frr_watch.go\<close>): the watchers, their loop and the monitor process as step
    relations, with invariants by rule induction (locale \<open>kinded_watch\<close>).
  \<^item> \<open>RouteSync\<close>, \<open>RouteVerify\<close>, \<open>StaleChassis\<close>, \<open>Reconcile\<close>, \<open>TakeoverMarker\<close>, \<open>Lifecycle\<close>,
    \<open>PortForwardOnly\<close> (\<open>agent.go\<close>): the agent. \<open>Reconcile\<close> composes one cycle of the operations above in
    the code's order, \<open>Lifecycle\<close> the two ends of \<open>Run\<close>; \<open>TakeoverMarker\<close> and \<open>PortForwardOnly\<close> hold
    properties of whole cycles and runs.
  \<^item> \<open>Readiness\<close> (\<open>metrics.go\<close>): the readiness signals and the answer of \<open>/readyz\<close>.

  \<^bold>\<open>What the properties show.\<close> Only addresses of routers bound here are announced; an address is
  withdrawn from BGP before its route is torn down; every plane converges to what is desired and leaves
  what it does not own alone; no event, deletion or drift is forgotten; the active chassis keeps the
  priority lead; a drain waits for the takeover, a takeover marker means that its node forwards, and a
  shutdown spares the routers that left; a reload decides every key; a node without OVN never reaches
  it. Properties with hypotheses have a witness that applies them to a small deployment.
\<close>

text \<open>
  \<^bold>\<open>Bounds and termination.\<close> No fuel is used. Loops over data are structural recursions. The chunk
  loop of the batched FRR commands recurses on what is left of the list (\<open>frrBatchSize\<close> at a time).
  The loops that need not end, the two waits of the drain and the connection retries, are
  \<open>partial_function\<close>s into \<open>option\<close>, and that they return is proved (\<open>drain_ends_by_the_deadline\<close>,
  \<open>connectWithRetry_returns\<close>). The loops that run as long as the agent are step relations. Durations
  are nanoseconds as unbounded integers; addresses and masks wrap as Go's do.

  \<^bold>\<open>What is not modelled, and why.\<close> The Prometheus collectors and the helpers that only set a gauge,
  logging beyond the few notices a cycle remembers, process start-up in \<open>main.go\<close>, opening sockets and
  pipes, and the stubs for other platforms make no decisions of their own. The row structs under
  \<open>internal/\<close> and the tools under \<open>tools/\<close> are generated code and build tooling. \<open>libovsdb\<close>, the
  netlink library, the YAML and flag packages, FRR, OVS and \<open>nft\<close> are outside the repository and are
  parameters. Error texts are reduced to a short constant. Each operation of the published snapshot is
  atomic, as its lock makes it.
\<close>

end
